(* ===== verification/Prelude.thy ===== *)
theory Prelude
  imports Main "HOL-Library.Word"
begin

text \<open>
  What the components share: the machine types of the C++ code, the result type of code that
  may fail or not return, and generic lemmas on lists.

  A C++ function that can fail (a failed \<open>assert\<close>, a \<open>throw\<close>, memory written past its page) is
  a value of a sum type, \<open>Inl\<close> the error. A function that may also run for ever is a value of
  \<open>('e + 'a) option\<close>, where \<open>None\<close> is \<open>does not return\<close>: the loops of the code that have no
  bound of their own are \<open>partial_function\<close>s into that type, and that they return is a theorem.
\<close>

section \<open>Machine types\<close>

type_synonym u32 = "32 word"  \<comment> \<open>C++ \<open>unsigned\<close>\<close>
type_synonym ('e, 'a) outcome = "('e + 'a) option"

section \<open>Collections\<close>

named_theorems stream_simps "how an operation moves the character stream"
named_theorems frame_simps "what an operation leaves unchanged"
named_theorems keeps_inv "an operation keeps the invariant of its component"

lemma sint_of_int_exact:
  assumes "- (2 ^ 31) \<le> k" and "k < 2 ^ 31"
  shows "sint (word_of_int k :: u32) = k"
proof -
  have "sint (word_of_int k :: u32) = signed_take_bit 31 k"
    by (simp add: sint_sbintrunc')
  also have "\<dots> = k" using assms by (simp add: signed_take_bit_int_eq_self)
  finally show ?thesis .
qed

section \<open>Sequencing\<close>

definition sbind :: "'e + 'a \<Rightarrow> ('a \<Rightarrow> 'e + 'b) \<Rightarrow> 'e + 'b" where
  "sbind m f = (case m of Inl e \<Rightarrow> Inl e | Inr x \<Rightarrow> f x)"

lemma sbind_simps [simp]:
  "sbind (Inl e) f = Inl e"
  "sbind (Inr x) f = f x"
  by (simp_all add: sbind_def)

lemma sbind_Inr_iff: "sbind m f = Inr y \<longleftrightarrow> (\<exists>x. m = Inr x \<and> f x = Inr y)"
  by (cases m) auto

definition obind :: "('e, 'a) outcome \<Rightarrow> ('a \<Rightarrow> ('e, 'b) outcome) \<Rightarrow> ('e, 'b) outcome" where
  "obind m f = (case m of None \<Rightarrow> None | Some (Inl e) \<Rightarrow> Some (Inl e) | Some (Inr x) \<Rightarrow> f x)"

lemma obind_simps [simp]:
  "obind None f = None"
  "obind (Some (Inl e)) f = Some (Inl e)"
  "obind (Some (Inr x)) f = f x"
  by (simp_all add: obind_def)

lemma obind_cong [fundef_cong]:
  "\<lbrakk>m = m'; \<And>x. m' = Some (Inr x) \<Longrightarrow> f x = f' x\<rbrakk> \<Longrightarrow> obind m f = obind m' f'"
  by (auto simp: obind_def split: option.splits sum.splits)

lemma obind_Inr_iff: "obind m f = Some (Inr y) \<longleftrightarrow> (\<exists>x. m = Some (Inr x) \<and> f x = Some (Inr y))"
  by (auto simp: obind_def split: option.splits sum.splits)

lemma obind_eq_bind:
  "obind m f = Option.bind m (\<lambda>r. case r of Inl e \<Rightarrow> Some (Inl e) | Inr x \<Rightarrow> f x)"
  by (auto simp: obind_def split: option.splits sum.splits)

text \<open>With this rule a \<open>partial_function\<close> may call itself under \<open>obind\<close>.\<close>

lemma obind_mono [partial_function_mono]:
  assumes "mono_option B" and "\<And>y. mono_option (\<lambda>f. C y f)"
  shows "mono_option (\<lambda>f. obind (B f) (\<lambda>y. C y f))"
  unfolding obind_eq_bind
proof (rule bind_mono [OF assms(1)])
  fix r
  show "mono_option (\<lambda>f. case r of Inl e \<Rightarrow> Some (Inl e) | Inr x \<Rightarrow> C x f)"
    by (cases r) (auto intro: assms(2) partial_function_mono)
qed

text \<open>The outcome of a computation that returns, whatever the result.\<close>

definition returns :: "'a option \<Rightarrow> bool" where
  "returns m \<longleftrightarrow> (\<exists>x. m = Some x)"

lemma returns_simps [simp]: "returns (Some x)" "\<not> returns None"
  by (simp_all add: returns_def)

lemma returns_obind:
  "returns m \<Longrightarrow> (\<And>x. m = Some (Inr x) \<Longrightarrow> returns (f x)) \<Longrightarrow> returns (obind m f)"
  by (auto simp: returns_def obind_def split: sum.splits)

section \<open>Lists\<close>

lemma drop_eq_nth_Cons: "i < length xs \<Longrightarrow> drop i xs = xs ! i # drop (Suc i) xs"
  by (rule Cons_nth_drop_Suc [symmetric])

lemma nth_from_drop: "drop i xs = y # ys \<Longrightarrow> i < length xs \<and> xs ! i = y \<and> drop (Suc i) xs = ys"
  by (metis Cons_nth_drop_Suc drop_eq_Nil2 leI list.distinct(1) list.inject)

lemma take_drop_same: "off + n \<le> length xs \<Longrightarrow> length (take n (drop off xs)) = n"
  by simp

lemma take_drop_append:
  "off + n \<le> length xs \<Longrightarrow> take n (drop off (xs @ ys)) = take n (drop off xs)"
  by simp

end
