(* ===== verification/Position.thy ===== *)
theory Position
  imports Prelude
begin

text \<open>
  Source positions and ranges: \<^verbatim>\<open>src/common/position.cpp\<close> and \<^verbatim>\<open>src/common/location.cpp\<close>, and the
  diagnostics that carry them (\<^verbatim>\<open>src/common/diagnostic.cpp\<close>).

  Lines and columns are \<open>unsigned\<close>, 32 bits. The code adds an \<open>int\<close> to them as an \<open>int\<close> and
  clamps the sum to 1; the model reads the word as \<open>static_cast<int>\<close> does (\<open>sint\<close>) and adds
  exactly, so it agrees with the code wherever the \<open>int\<close> addition does not overflow (an overflow
  is undefined in C++).
\<close>

section \<open>Positions\<close>

datatype position = Position (line: u32) (column: u32)

definition lhs_plus_rhs_or_one :: "u32 \<Rightarrow> int \<Rightarrow> u32" where
  "lhs_plus_rhs_or_one lhs rhs = word_of_int (max 1 (sint lhs + rhs))"

definition position_lines :: "position \<Rightarrow> int \<Rightarrow> position" where
  "position_lines p count =
     (if count = 0 then p else Position (lhs_plus_rhs_or_one (line p) count) 1)"

definition position_columns :: "position \<Rightarrow> int \<Rightarrow> position" where
  "position_columns p count = Position (line p) (lhs_plus_rhs_or_one (column p) count)"

definition position_add :: "position \<Rightarrow> int \<Rightarrow> position" where
  "position_add p rhs = position_columns p rhs"

definition position_sub :: "position \<Rightarrow> int \<Rightarrow> position" where
  "position_sub p rhs = position_add p (- rhs)"

definition position_eq :: "position \<Rightarrow> position \<Rightarrow> bool" where
  "position_eq p q =
     (if line p \<noteq> line q then False else if column p \<noteq> column q then False else True)"

definition position_lt :: "position \<Rightarrow> position \<Rightarrow> bool" where
  "position_lt p q = (if line p \<noteq> line q then line p < line q else column p < column q)"

definition position_gt :: "position \<Rightarrow> position \<Rightarrow> bool" where
  "position_gt p q = (if line p \<noteq> line q then line p > line q else column p > column q)"

definition position_le :: "position \<Rightarrow> position \<Rightarrow> bool" where
  "position_le p q = (\<not> position_gt p q)"

definition position_ge :: "position \<Rightarrow> position \<Rightarrow> bool" where
  "position_ge p q = (\<not> position_lt p q)"

text \<open>
  The six comparison operators are one linear order: the type class instance puts the
  code's \<open><=\<close> and \<open><\<close> in it, and the others are its mirror images.
\<close>

instantiation position :: linorder
begin

definition less_eq_position :: "position \<Rightarrow> position \<Rightarrow> bool" where
  "less_eq_position p q = position_le p q"

definition less_position :: "position \<Rightarrow> position \<Rightarrow> bool" where
  "less_position p q = position_lt p q"

instance
proof
  fix x y z :: position
  show "(x < y) = (x \<le> y \<and> \<not> y \<le> x)"
    by (auto simp: less_eq_position_def less_position_def position_le_def position_gt_def
        position_lt_def)
  show "x \<le> x"
    by (simp add: less_eq_position_def position_le_def position_gt_def)
  show "x \<le> y \<Longrightarrow> y \<le> z \<Longrightarrow> x \<le> z"
    by (auto simp: less_eq_position_def position_le_def position_gt_def split: if_splits)
  show "x \<le> y \<Longrightarrow> y \<le> x \<Longrightarrow> x = y"
    by (cases x; cases y)
      (auto simp: less_eq_position_def position_le_def position_gt_def split: if_splits)
  show "x \<le> y \<or> y \<le> x"
    by (auto simp: less_eq_position_def position_le_def position_gt_def)
qed

end

lemma position_order_simps:
  "position_le p q \<longleftrightarrow> p \<le> q"
  "position_lt p q \<longleftrightarrow> p < q"
  "position_ge p q \<longleftrightarrow> q \<le> p"
  "position_gt p q \<longleftrightarrow> q < p"
  by (auto simp: less_eq_position_def less_position_def position_le_def position_ge_def
      position_gt_def position_lt_def)

lemma position_eq_iff [simp]: "position_eq p q \<longleftrightarrow> p = q"
  by (cases p; cases q) (auto simp: position_eq_def)

text \<open>C34. The comparison operators of \<open>common::position\<close> are one total order, consistent with
  \<open>==\<close> and lexicographic in line and column: exactly one of \<open><\<close>, \<open>==\<close> and \<open>>\<close> holds of two
  positions, and \<open><=\<close> and \<open>>=\<close> are \<open>< or ==\<close> and \<open>> or ==\<close>.\<close>

theorem position_total_order:
  "(if position_lt p q then \<not> position_eq p q \<and> \<not> position_gt p q
    else position_eq p q \<noteq> position_gt p q)
   \<and> (position_le p q = (position_lt p q \<or> position_eq p q))
   \<and> (position_ge p q = (position_gt p q \<or> position_eq p q))
   \<and> (position_lt p q = (line p < line q \<or> line p = line q \<and> column p < column q))"
proof -
  have "position_lt p q = (line p < line q \<or> line p = line q \<and> column p < column q)"
    by (auto simp: position_lt_def)
  then show ?thesis
    unfolding position_order_simps position_eq_iff by auto
qed

section \<open>Arithmetic on positions\<close>

text \<open>
  A count that keeps the sum between 1 and the largest \<open>int\<close> is added exactly; below 1 it
  saturates there.
\<close>

lemma lhs_plus_rhs_or_one_exact:
  assumes "1 \<le> sint lhs + rhs" and "sint lhs + rhs < 2 ^ 31"
  shows "sint (lhs_plus_rhs_or_one lhs rhs) = sint lhs + rhs"
proof -
  have "max 1 (sint lhs + rhs) = sint lhs + rhs" using assms(1) by (rule max_absorb2)
  then show ?thesis
    unfolding lhs_plus_rhs_or_one_def using assms by (simp only:) (rule sint_of_int_exact, auto)
qed

lemma lhs_plus_rhs_or_one_low:
  "sint lhs + rhs \<le> 1 \<Longrightarrow> lhs_plus_rhs_or_one lhs rhs = 1"
  by (simp add: lhs_plus_rhs_or_one_def max_def)

lemma lhs_plus_rhs_or_one_pos:
  assumes "sint lhs + rhs < 2 ^ 31"
  shows "1 \<le> sint (lhs_plus_rhs_or_one lhs rhs)"
proof (cases "1 \<le> sint lhs + rhs")
  case True
  then show ?thesis using assms by (simp add: lhs_plus_rhs_or_one_exact)
next
  case False
  then show ?thesis by (simp add: lhs_plus_rhs_or_one_low)
qed

section \<open>Locations\<close>

record location =
  filename :: string
  begin_pos :: position  \<comment> \<open>\<open>begin\<close>\<close>
  end_pos :: position  \<comment> \<open>\<open>end\<close>\<close>

definition location_initialize :: "string \<Rightarrow> u32 \<Rightarrow> u32 \<Rightarrow> location" where
  "location_initialize f l c =
     \<lparr>filename = f, begin_pos = Position l c, end_pos = Position l c\<rparr>"

definition location_step :: "location \<Rightarrow> location" where
  "location_step loc = loc\<lparr>begin_pos := end_pos loc\<rparr>"

definition location_columns :: "int \<Rightarrow> location \<Rightarrow> location" where
  "location_columns count loc = loc\<lparr>end_pos := position_add (end_pos loc) count\<rparr>"

definition location_lines :: "int \<Rightarrow> location \<Rightarrow> location" where
  "location_lines count loc = loc\<lparr>end_pos := position_lines (end_pos loc) count\<rparr>"

definition location_contains :: "location \<Rightarrow> position \<Rightarrow> bool" where
  "location_contains loc candidate =
     (position_le (begin_pos loc) candidate \<and> position_ge (end_pos loc) candidate)"

definition location_join :: "location \<Rightarrow> location \<Rightarrow> location" where
  \<comment> \<open>\<open>operator+=(const location&)\<close>\<close>
  "location_join loc rhs = loc\<lparr>end_pos := end_pos rhs\<rparr>"

definition location_eq :: "location \<Rightarrow> location \<Rightarrow> bool" where
  "location_eq a b =
     (if filename a \<noteq> filename b then False
      else if \<not> position_eq (begin_pos a) (begin_pos b) then False
      else if \<not> position_eq (end_pos a) (end_pos b) then False
      else True)"

definition location_lt :: "location \<Rightarrow> position \<Rightarrow> bool" where
  "location_lt loc candidate = position_lt (end_pos loc) candidate"

definition location_le :: "location \<Rightarrow> position \<Rightarrow> bool" where
  "location_le loc candidate = position_lt (begin_pos loc) candidate"

definition location_gt :: "location \<Rightarrow> position \<Rightarrow> bool" where
  "location_gt loc candidate = position_gt (begin_pos loc) candidate"

definition location_ge :: "location \<Rightarrow> position \<Rightarrow> bool" where
  "location_ge loc candidate = position_gt (end_pos loc) candidate"

lemma location_eq_iff [simp]: "location_eq a b \<longleftrightarrow> a = b"
  by (auto simp: location_eq_def)

definition well_placed :: "location \<Rightarrow> bool" where
  "well_placed loc \<longleftrightarrow> begin_pos loc \<le> end_pos loc"

text \<open>A range that does not end before it begins splits the positions in three: a position
  is strictly after the range (\<open>loc < p\<close>), strictly before it (\<open>loc > p\<close>) or contained in it,
  exactly one of them; the operators that the header documents as \<open>before or contains\<close> and
  \<open>after or contains\<close> differ from that reading at exactly one position each, the first and the
  last of the range.\<close>

theorem location_trichotomy:
  assumes "begin_pos loc \<le> end_pos loc"
  shows "location_lt loc p = (\<not> location_gt loc p \<and> \<not> location_contains loc p)
    \<and> location_gt loc p = (\<not> location_lt loc p \<and> \<not> location_contains loc p)
    \<and> location_le loc p = (\<not> location_gt loc p \<and> p \<noteq> begin_pos loc)
    \<and> location_ge loc p = (\<not> location_lt loc p \<and> p \<noteq> end_pos loc)"
  using assms
  by (auto simp: location_lt_def location_gt_def location_le_def location_ge_def
      location_contains_def position_order_simps)

theorem location_trichotomy_witness:
  "location_contains (location_initialize [] 3 7) (Position 3 7)
   \<and> \<not> location_le (location_initialize [] 3 7) (Position 3 7)"
  using location_trichotomy [of "location_initialize [] 3 7" "Position 3 7"]
  by (simp add: location_initialize_def location_lt_def location_gt_def position_order_simps)

section \<open>Diagnostics\<close>

text \<open>\<open>common::diagnostic\<close>: a format string, its arguments, where it is, and notes under it.\<close>

datatype arg_t = Arg_string string | Arg_int int

datatype diagnostic =
  Diagnostic (diag_format: string) (diag_args: "arg_t list") (diag_location: location)
    (diag_notes: "diagnostic list")

definition new_diagnostic :: "string \<Rightarrow> location \<Rightarrow> diagnostic" where
  "new_diagnostic fmt loc = Diagnostic fmt [] loc []"

definition add_note :: "string \<Rightarrow> location \<Rightarrow> diagnostic \<Rightarrow> diagnostic" where
  "add_note fmt loc d =
     Diagnostic (diag_format d) (diag_args d) (diag_location d)
       (diag_notes d @ [new_diagnostic fmt loc])"

definition add_arg :: "arg_t \<Rightarrow> diagnostic \<Rightarrow> diagnostic" where
  "add_arg a d = Diagnostic (diag_format d) (diag_args d @ [a]) (diag_location d) (diag_notes d)"

end
