(* ===== verification/Stringtable.thy ===== *)
theory Stringtable
  imports Prelude
begin

text \<open>
  The string table of \<^verbatim>\<open>src/common/stringtable.cpp\<close>: an arena of pages and a hash table of the
  strings already stored. Every token's text lives in it.

  A page is its header (\<open>sizeof(page)\<close> bytes) and the bytes after it. \<open>buffer\<close> points behind the
  bytes handed out so far, so a page is modelled by its capacity and the list of those bytes, and
  an address in the arena by a page and an offset. The list of pages is the chain of \<open>previous\<close>
  pointers from \<open>current\<close> on. Memory past the end of a page is not the page's: handing it out is
  the error \<open>Heap_overflow\<close>. \<open>std::hash\<close> is the table's parameter \<open>hasher\<close>.
\<close>

section \<open>State\<close>

datatype mem_error = Heap_overflow | Null_pointer | Dangling_view

record page =
  page_id :: nat  \<comment> \<open>the address \<open>malloc\<close> returned\<close>
  page_cap :: nat  \<comment> \<open>bytes after the header\<close>
  page_bytes :: string  \<comment> \<open>the bytes between the header and \<open>buffer\<close>\<close>

record string_view =
  view_page :: nat
  view_off :: nat
  view_size :: nat

record stringtable =
  hasher :: "string \<Rightarrow> nat"
  table :: "nat \<rightharpoonup> string_view"
  pages :: "page list"  \<comment> \<open>\<open>current\<close>, \<open>current->previous\<close>, \<dots>\<close>
  next_id :: nat  \<comment> \<open>the heap: an address not yet given out\<close>

definition PAGE_SIZE :: nat where "PAGE_SIZE = 4096"

definition sizeof_page :: nat where "sizeof_page = 16"

definition new_page :: "nat \<Rightarrow> nat \<Rightarrow> page" where
  "new_page i sz = \<lparr>page_id = i, page_cap = sz - sizeof_page, page_bytes = []\<rparr>"

definition stringtable_new :: "(string \<Rightarrow> nat) \<Rightarrow> stringtable" where
  "stringtable_new h =
     \<lparr>hasher = h, table = Map.empty, pages = [new_page 0 PAGE_SIZE], next_id = 1\<rparr>"

section \<open>Allocation\<close>

text \<open>
  Handing out \<open>sz\<close> bytes of a page moves its \<open>buffer\<close>; the bytes are not initialised (any
  value would do here).
\<close>

definition hand_out :: "nat \<Rightarrow> page \<Rightarrow> page" where
  "hand_out sz pg = pg\<lparr>page_bytes := page_bytes pg @ replicate sz (CHR 0x00)\<rparr>"

definition actually_allocate_before ::
    "nat \<Rightarrow> stringtable \<Rightarrow> mem_error + (nat \<times> nat) \<times> stringtable" where
  "actually_allocate_before sz st =
     (case pages st of
        [] \<Rightarrow> Inl Null_pointer
      | cur # rest \<Rightarrow>
          let pg = new_page (next_id st) (sz + sizeof_page)
          in Inr ((page_id pg, 0),
               st\<lparr>pages := cur # hand_out sz pg # rest, next_id := Suc (next_id st)\<rparr>))"

definition actually_allocate_after ::
    "nat \<Rightarrow> stringtable \<Rightarrow> mem_error + (nat \<times> nat) \<times> stringtable" where
  "actually_allocate_after sz st =
     (let pg = new_page (next_id st) PAGE_SIZE
      in if page_cap pg < sz then Inl Heap_overflow
         else Inr ((page_id pg, 0),
                st\<lparr>pages := hand_out sz pg # pages st, next_id := Suc (next_id st)\<rparr>))"

definition allocate :: "nat \<Rightarrow> stringtable \<Rightarrow> mem_error + (nat \<times> nat) \<times> stringtable" where
  "allocate sz st =
     (case pages st of
        [] \<Rightarrow> Inl Null_pointer
      | cur # rest \<Rightarrow>
          let next = length (page_bytes cur) + sz
          in if page_cap cur < next \<and> 2 * PAGE_SIZE < sz then actually_allocate_before sz st
             else if page_cap cur < next then actually_allocate_after sz st
             else Inr ((page_id cur, length (page_bytes cur)), st\<lparr>pages := hand_out sz cur # rest\<rparr>))"

section \<open>Interning\<close>

definition overwrite :: "nat \<Rightarrow> string \<Rightarrow> page \<Rightarrow> page" where
  "overwrite off s pg =
     pg\<lparr>page_bytes := take off (page_bytes pg) @ s @ drop (off + length s) (page_bytes pg)\<rparr>"

definition memcpy :: "nat \<times> nat \<Rightarrow> string \<Rightarrow> stringtable \<Rightarrow> stringtable" where
  "memcpy addr s st =
     st\<lparr>pages := map (\<lambda>pg. if page_id pg = fst addr then overwrite (snd addr) s pg else pg)
                   (pages st)\<rparr>"

definition stringtable_get ::
    "string \<Rightarrow> stringtable \<Rightarrow> mem_error + string_view \<times> stringtable" where
  "stringtable_get s st =
     (let hash = hasher st s
      in case table st hash of
           Some v \<Rightarrow> Inr (v, st)
         | None \<Rightarrow>
             sbind (allocate (length s) st) (\<lambda>(allocated, st1).
               let st2 = memcpy allocated s st1;
                   v = \<lparr>view_page = fst allocated, view_off = snd allocated,
                        view_size = length s\<rparr>
               in Inr (v, st2\<lparr>table := (table st2)(hash \<mapsto> v)\<rparr>)))"

definition find_page :: "nat \<Rightarrow> stringtable \<Rightarrow> page option" where
  "find_page i st = List.find (\<lambda>pg. page_id pg = i) (pages st)"

definition read_view :: "string_view \<Rightarrow> stringtable \<Rightarrow> mem_error + string" where
  \<comment> \<open>reading the characters of a \<open>std::string_view\<close> into the arena\<close>
  "read_view v st =
     (case find_page (view_page v) st of
        None \<Rightarrow> Inl Dangling_view
      | Some pg \<Rightarrow> Inr (take (view_size v) (drop (view_off v) (page_bytes pg))))"

definition intern :: "string \<Rightarrow> stringtable \<Rightarrow> mem_error + string \<times> stringtable" where
  \<comment> \<open>\<open>stringtable_->get(\<dots>)\<close> followed by a read of the view it returns\<close>
  "intern s st =
     sbind (stringtable_get s st) (\<lambda>(v, st'). sbind (read_view v st') (\<lambda>t. Inr (t, st')))"

section \<open>Moving and merging tables\<close>

definition stringtable_destroy :: "stringtable \<Rightarrow> stringtable" where
  "stringtable_destroy st = st\<lparr>pages := []\<rparr>"

definition stringtable_move :: "stringtable \<Rightarrow> stringtable \<times> stringtable" where
  \<comment> \<open>\<open>stringtable(stringtable&& other)\<close>: the new table, and what is left of \<open>other\<close>\<close>
  "stringtable_move other =
     (\<lparr>hasher = hasher other, table = Map.empty, pages = pages other, next_id = next_id other\<rparr>,
      other\<lparr>pages := []\<rparr>)"

definition stringtable_move_assign :: "stringtable \<Rightarrow> stringtable \<Rightarrow> stringtable \<times> stringtable" where
  \<comment> \<open>\<open>operator=(stringtable&& other)\<close> of two distinct tables\<close>
  "stringtable_move_assign this other =
     (let this1 = stringtable_destroy this
      in (this1\<lparr>pages := pages other\<rparr>, other\<lparr>pages := []\<rparr>))"

definition stringtable_merge ::
    "stringtable \<Rightarrow> stringtable \<Rightarrow> mem_error + stringtable \<times> stringtable" where
  \<comment> \<open>\<open>other\<close>'s chain is spliced in behind \<open>current\<close>\<close>
  "stringtable_merge this other =
     (case pages other of
        [] \<Rightarrow> Inr (this, other)
      | _ \<Rightarrow> (case pages this of
                [] \<Rightarrow> Inl Null_pointer
              | cur # rest \<Rightarrow>
                  Inr (this\<lparr>pages := cur # pages other @ rest\<rparr>, other\<lparr>pages := []\<rparr>)))"

section \<open>The invariant of a live table\<close>

text \<open>
  The pages are distinct and none is overfull, \<open>next_id\<close> is fresh, and every view in the table
  lies inside one of the pages and its characters hash to its key.
\<close>

definition page_ok :: "page \<Rightarrow> bool" where
  "page_ok pg \<longleftrightarrow> length (page_bytes pg) \<le> page_cap pg"

definition view_ok :: "string_view \<Rightarrow> stringtable \<Rightarrow> bool" where
  "view_ok v st \<longleftrightarrow>
     (\<exists>pg. find_page (view_page v) st = Some pg \<and> view_off v + view_size v \<le> length (page_bytes pg))"

definition st_inv :: "stringtable \<Rightarrow> bool" where
  "st_inv st \<longleftrightarrow>
     pages st \<noteq> [] \<and> (\<forall>pg \<in> set (pages st). page_ok pg \<and> page_id pg < next_id st)
     \<and> distinct (map page_id (pages st))
     \<and> (\<forall>h v. table st h = Some v \<longrightarrow>
          view_ok v st \<and> (\<exists>s. read_view v st = Inr s \<and> hasher st s = h))"

lemma sizes: "PAGE_SIZE = 4096" "sizeof_page = 16"
  by (simp_all add: PAGE_SIZE_def sizeof_page_def)

lemma st_inv_new: "st_inv (stringtable_new h)"
  by (simp add: st_inv_def stringtable_new_def new_page_def page_ok_def)

text \<open>Looking a page up by its address.\<close>

lemma find_page_in:
  "st_inv st \<Longrightarrow> pg \<in> set (pages st) \<Longrightarrow> find_page (page_id pg) st = Some pg"
proof -
  have "distinct (map page_id xs) \<Longrightarrow> pg \<in> set xs \<Longrightarrow> List.find (\<lambda>q. page_id q = page_id pg) xs = Some pg"
    for xs by (induction xs) (auto simp: image_iff)
  then show "st_inv st \<Longrightarrow> pg \<in> set (pages st) \<Longrightarrow> ?thesis"
    by (simp add: st_inv_def find_page_def)
qed

lemma find_page_SomeD: "find_page i st = Some pg \<Longrightarrow> pg \<in> set (pages st) \<and> page_id pg = i"
  by (auto simp: find_page_def find_Some_iff)

text \<open>
  What an allocation of \<open>sz\<close> bytes does, whichever page it takes them from: the old pages are
  still there, the page it took them from has grown by \<open>sz\<close> bytes, and nothing else changed.
\<close>

definition grown :: "stringtable \<Rightarrow> nat \<times> nat \<Rightarrow> nat \<Rightarrow> stringtable \<Rightarrow> bool" where
  "grown st addr sz st' \<longleftrightarrow>
     hasher st' = hasher st \<and> table st' = table st \<and> pages st' \<noteq> []
     \<and> (\<forall>pg \<in> set (pages st'). page_ok pg \<and> page_id pg < next_id st')
     \<and> distinct (map page_id (pages st'))
     \<and> (\<exists>pg. find_page (fst addr) st' = Some pg \<and> snd addr + sz = length (page_bytes pg))
     \<and> (\<forall>i pg. find_page i st = Some pg \<longrightarrow>
          (\<exists>pg'. find_page i st' = Some pg' \<and> page_cap pg' = page_cap pg
             \<and> page_bytes pg' = page_bytes pg @ (if i = fst addr then replicate sz (CHR 0x00) else [])
             \<and> (i = fst addr \<longrightarrow> snd addr = length (page_bytes pg))))"

lemma find_page_Cons:
  "pages st = cur # rest \<Longrightarrow>
   find_page i st = (if page_id cur = i then Some cur else List.find (\<lambda>pg. page_id pg = i) rest)"
  by (simp add: find_page_def)

lemma hand_out_simps [simp]:
  "page_id (hand_out sz pg) = page_id pg"
  "page_cap (hand_out sz pg) = page_cap pg"
  "page_bytes (hand_out sz pg) = page_bytes pg @ replicate sz (CHR 0x00)"
  by (simp_all add: hand_out_def)

lemma new_page_simps [simp]:
  "page_id (new_page i sz) = i"
  "page_cap (new_page i sz) = sz - sizeof_page"
  "page_bytes (new_page i sz) = []"
  by (simp_all add: new_page_def)

lemma find_fresh: "st_inv st \<Longrightarrow> find_page (next_id st) st = None"
  by (auto simp: find_page_def find_None_iff st_inv_def)

lemma allocate_before_grown:
  assumes inv: "st_inv st" and ok: "actually_allocate_before sz st = Inr (addr, st')"
  shows "grown st addr sz st'"
proof -
  obtain cur rest where p: "pages st = cur # rest"
    using inv by (cases "pages st") (auto simp: st_inv_def)
  define pg where "pg = hand_out sz (new_page (next_id st) (sz + sizeof_page))"
  have st': "st' = st\<lparr>pages := cur # pg # rest, next_id := Suc (next_id st)\<rparr>"
    and addr: "addr = (next_id st, 0)"
    using ok p by (auto simp: actually_allocate_before_def pg_def Let_def)
  have pg: "page_id pg = next_id st" "page_cap pg = sz" "page_bytes pg = replicate sz (CHR 0x00)"
    by (simp_all add: pg_def)
  have fresh: "\<forall>q \<in> set (pages st). page_id q < next_id st" "distinct (map page_id (pages st))"
    "\<forall>q \<in> set (pages st). page_ok q"
    using inv by (auto simp: st_inv_def)
  have old: "find_page i st' = find_page i st" if "i \<noteq> next_id st" for i
    using that p pg by (simp add: st' find_page_def)
  have new: "find_page (next_id st) st' = Some pg"
    using fresh p pg by (simp add: st' find_page_def)
  have "find_page i st = Some q \<Longrightarrow> i \<noteq> next_id st" for i q
    using find_fresh [OF inv] by auto
  then show ?thesis
    using fresh p pg new old unfolding grown_def
    by (auto simp: st' addr page_ok_def less_Suc_eq)
qed

lemma allocate_after_grown:
  assumes inv: "st_inv st" and ok: "actually_allocate_after sz st = Inr (addr, st')"
  shows "grown st addr sz st'"
proof -
  define pg where "pg = hand_out sz (new_page (next_id st) PAGE_SIZE)"
  have st': "st' = st\<lparr>pages := pg # pages st, next_id := Suc (next_id st)\<rparr>"
    and addr: "addr = (next_id st, 0)" and cap: "sz \<le> page_cap pg"
    using ok by (auto simp: actually_allocate_after_def pg_def Let_def split: if_splits)
  have pg: "page_id pg = next_id st" "page_bytes pg = replicate sz (CHR 0x00)"
    by (simp_all add: pg_def)
  have fresh: "\<forall>q \<in> set (pages st). page_id q < next_id st" "distinct (map page_id (pages st))"
    "\<forall>q \<in> set (pages st). page_ok q"
    using inv by (auto simp: st_inv_def)
  have old: "find_page i st' = find_page i st" if "i \<noteq> next_id st" for i
    using that pg by (simp add: st' find_page_def)
  have new: "find_page (next_id st) st' = Some pg"
    using pg by (simp add: st' find_page_def)
  have "find_page i st = Some q \<Longrightarrow> i \<noteq> next_id st" for i q
    using find_fresh [OF inv] by auto
  then show ?thesis
    using fresh cap pg new old unfolding grown_def
    by (auto simp: st' addr page_ok_def less_Suc_eq)
qed

lemma hand_out_current_grown:
  assumes inv: "st_inv st" and p: "pages st = cur # rest"
    and fits: "length (page_bytes cur) + sz \<le> page_cap cur"
  shows "grown st (page_id cur, length (page_bytes cur)) sz (st\<lparr>pages := hand_out sz cur # rest\<rparr>)"
  using assms unfolding grown_def
  by (auto simp: st_inv_def find_page_def page_ok_def)

lemma allocate_grown:
  assumes "st_inv st" and "allocate sz st = Inr (addr, st')"
  shows "grown st addr sz st'"
proof (cases "pages st")
  case Nil
  then show ?thesis using assms by (simp add: st_inv_def)
next
  case (Cons cur rest)
  then show ?thesis
    using assms allocate_before_grown allocate_after_grown hand_out_current_grown [OF _ Cons]
    by (auto simp: allocate_def Let_def split: if_splits)
qed

text \<open>Sizes for which no page is ever too small.\<close>

definition size_ok :: "nat \<Rightarrow> bool" where
  "size_ok sz \<longleftrightarrow> sz \<le> PAGE_SIZE - sizeof_page \<or> 2 * PAGE_SIZE < sz"

lemma allocate_total:
  assumes "st_inv st" and "size_ok sz"
  shows "\<exists>addr st'. allocate sz st = Inr (addr, st')"
proof (cases "pages st")
  case Nil
  then show ?thesis using assms by (simp add: st_inv_def)
next
  case (Cons cur rest)
  then show ?thesis using assms(2)
    by (auto simp: allocate_def Let_def size_ok_def sizes actually_allocate_before_def
        actually_allocate_after_def)
qed

section \<open>Interning a string\<close>

lemma find_map:
  "(\<And>x. P (f x) = P x) \<Longrightarrow> List.find P (map f xs) = map_option f (List.find P xs)"
  by (induction xs) auto

lemma find_page_memcpy:
  "find_page i (memcpy addr s st) =
     map_option (\<lambda>pg. if i = fst addr then overwrite (snd addr) s pg else pg) (find_page i st)"
proof -
  have "find_page i (memcpy addr s st) =
      map_option (\<lambda>pg. if page_id pg = fst addr then overwrite (snd addr) s pg else pg)
        (find_page i st)"
    unfolding memcpy_def find_page_def by (simp add: find_map overwrite_def)
  then show ?thesis by (cases "find_page i st") (auto dest: find_page_SomeD)
qed

lemma memcpy_simps [simp]:
  "hasher (memcpy addr s st) = hasher st"
  "table (memcpy addr s st) = table st"
  "next_id (memcpy addr s st) = next_id st"
  "map page_id (pages (memcpy addr s st)) = map page_id (pages st)"
  by (simp_all add: memcpy_def overwrite_def comp_def if_distrib cong: if_cong)

lemma overwrite_fresh:
  "off + length s = length (page_bytes pg) \<Longrightarrow>
   page_bytes (overwrite off s pg) = take off (page_bytes pg) @ s"
  by (simp add: overwrite_def)

text \<open>The state after a miss: the view reads the new string, the old views read as before.\<close>

lemma miss_state:
  assumes inv: "st_inv st" and al: "allocate (length s) st = Inr (addr, st1)"
  defines "st2 \<equiv> memcpy addr s st1"
  shows "view_ok v st \<Longrightarrow> view_ok v st2 \<and> read_view v st2 = read_view v st"
    and "view_ok \<lparr>view_page = fst addr, view_off = snd addr, view_size = length s\<rparr> st2"
    and "read_view \<lparr>view_page = fst addr, view_off = snd addr, view_size = length s\<rparr> st2 = Inr s"
    and "pages st2 \<noteq> []" and "\<forall>pg \<in> set (pages st2). page_ok pg \<and> page_id pg < next_id st2"
    and "distinct (map page_id (pages st2))"
    and "hasher st2 = hasher st" and "table st2 = table st"
proof -
  have g: "grown st addr (length s) st1" by (rule allocate_grown [OF inv al])
  show "hasher st2 = hasher st" "table st2 = table st" "distinct (map page_id (pages st2))"
    using g by (simp_all add: st2_def grown_def)
  show "pages st2 \<noteq> []" using g by (simp add: st2_def grown_def memcpy_def)
  obtain pg where pg: "find_page (fst addr) st1 = Some pg"
    and len: "snd addr + length s = length (page_bytes pg)"
    using g by (auto simp: grown_def)
  have pg2: "find_page (fst addr) st2 = Some (overwrite (snd addr) s pg)"
    by (simp add: st2_def find_page_memcpy pg)
  show "view_ok \<lparr>view_page = fst addr, view_off = snd addr, view_size = length s\<rparr> st2"
    "read_view \<lparr>view_page = fst addr, view_off = snd addr, view_size = length s\<rparr> st2 = Inr s"
    using pg2 len by (simp_all add: view_ok_def read_view_def overwrite_fresh)
  have d: "distinct (map page_id (pages st1))" "\<forall>q \<in> set (pages st1). page_ok q \<and> page_id q < next_id st1"
    using g by (simp_all add: grown_def)
  have only: "q = pg" if "q \<in> set (pages st1)" "page_id q = fst addr" for q
    using that d(1) find_page_SomeD [OF pg] by (metis distinct_map inj_onD)
  show "\<forall>q \<in> set (pages st2). page_ok q \<and> page_id q < next_id st2"
    using d(2) only len by (auto simp: st2_def memcpy_def page_ok_def overwrite_def)
  assume v: "view_ok v st"
  then obtain q where q: "find_page (view_page v) st = Some q"
    and vl: "view_off v + view_size v \<le> length (page_bytes q)"
    by (auto simp: view_ok_def)
  from g q obtain q' where q': "find_page (view_page v) st1 = Some q'"
    and b: "page_bytes q' = page_bytes q @ (if view_page v = fst addr then replicate (length s) (CHR 0x00) else [])"
    and off: "view_page v = fst addr \<longrightarrow> snd addr = length (page_bytes q)"
    unfolding grown_def by blast
  define q2 where "q2 = (if view_page v = fst addr then overwrite (snd addr) s q' else q')"
  have q2: "find_page (view_page v) st2 = Some q2"
    by (simp add: st2_def find_page_memcpy q' q2_def)
  have "\<exists>more. page_bytes q2 = page_bytes q @ more"
    using b off by (auto simp: q2_def overwrite_def)
  then obtain more where more: "page_bytes q2 = page_bytes q @ more" ..
  show "view_ok v st2 \<and> read_view v st2 = read_view v st"
    using q q2 vl more by (simp add: view_ok_def read_view_def)
qed

text \<open>A string clashes when the table holds another string of the same hash.\<close>

definition no_clash :: "string \<Rightarrow> stringtable \<Rightarrow> bool" where
  "no_clash s st \<longleftrightarrow>
     (case table st (hasher st s) of None \<Rightarrow> True | Some v \<Rightarrow> read_view v st = Inr s)"

definition internable :: "string \<Rightarrow> stringtable \<Rightarrow> bool" where
  "internable s st \<longleftrightarrow> size_ok (length s) \<and> no_clash s st"

lemma view_ok_table [simp]:
  "view_ok v (st\<lparr>table := t\<rparr>) = view_ok v st" "read_view v (st\<lparr>table := t\<rparr>) = read_view v st"
  by (simp_all add: view_ok_def read_view_def find_page_def)

lemma stringtable_get_inv:
  assumes inv: "st_inv st" and get: "stringtable_get s st = Inr (v, st')"
  shows "st_inv st' \<and> hasher st' = hasher st \<and> view_ok v st'
    \<and> (\<forall>w. view_ok w st \<longrightarrow> view_ok w st' \<and> read_view w st' = read_view w st)
    \<and> table st' (hasher st s) = Some v
    \<and> (\<forall>h w. table st h = Some w \<longrightarrow> table st' h = Some w)"
proof (cases "table st (hasher st s)")
  case (Some w)
  then show ?thesis using assms by (auto simp: stringtable_get_def st_inv_def)
next
  case None
  then obtain addr st1 where al: "allocate (length s) st = Inr (addr, st1)"
    and v: "v = \<lparr>view_page = fst addr, view_off = snd addr, view_size = length s\<rparr>"
    and st': "st' = (memcpy addr s st1)\<lparr>table := (table (memcpy addr s st1))(hasher st s \<mapsto> v)\<rparr>"
    using get by (auto simp: stringtable_get_def sbind_Inr_iff Let_def)
  note m = miss_state [OF inv al]
  have "table st h = Some w \<Longrightarrow> view_ok w (memcpy addr s st1)
      \<and> (\<exists>s'. read_view w (memcpy addr s st1) = Inr s' \<and> hasher st s' = h)" for h w
    using inv m(1) by (auto simp: st_inv_def)
  then show ?thesis
    using m None unfolding st_inv_def st' v by (auto simp del: memcpy_simps(2))
qed

lemma stringtable_get_internable:
  assumes inv: "st_inv st" and s: "internable s st"
  shows "\<exists>v st'. stringtable_get s st = Inr (v, st') \<and> read_view v st' = Inr s"
proof (cases "table st (hasher st s)")
  case (Some w)
  then show ?thesis
    using s by (simp add: stringtable_get_def internable_def no_clash_def)
next
  case None
  obtain addr st1 where al: "allocate (length s) st = Inr (addr, st1)"
    using allocate_total [OF inv] s unfolding internable_def by blast
  show ?thesis
    using None al miss_state(3) [OF inv al] by (simp add: stringtable_get_def Let_def)
qed

section \<open>The interface of an interner\<close>

text \<open>
  What a client of the table relies on: a \<open>get\<close> of a string that fits and clashes with no stored
  string returns a view of it, and no later \<open>get\<close> changes a view handed out before, nor the
  view a string is interned as.
\<close>

primrec run_get :: "(string \<Rightarrow> 't \<Rightarrow> 'e + 'v \<times> 't) \<Rightarrow> string list \<Rightarrow> 't \<Rightarrow> 'e + 'v list \<times> 't" where
  "run_get get [] t = Inr ([], t)"
| "run_get get (s # ss) t =
     sbind (get s t) (\<lambda>(v, t1). sbind (run_get get ss t1) (\<lambda>(vs, t2). Inr (v # vs, t2)))"

locale interner =
  fixes get :: "string \<Rightarrow> 't \<Rightarrow> 'e + 'v \<times> 't"
    and read :: "'v \<Rightarrow> 't \<Rightarrow> 'e + string"
    and valid :: "'v \<Rightarrow> 't \<Rightarrow> bool"
    and inv :: "'t \<Rightarrow> bool"
    and hash :: "'t \<Rightarrow> string \<Rightarrow> nat"
    and stored :: "'t \<Rightarrow> string set"
    and hit :: "string \<Rightarrow> 'v \<Rightarrow> 't \<Rightarrow> bool"
    and fits :: "string \<Rightarrow> bool"
  assumes get_succeeds:
    "\<lbrakk>inv t; fits s; \<And>u. u \<in> stored t \<Longrightarrow> hash t u = hash t s \<Longrightarrow> u = s\<rbrakk> \<Longrightarrow>
     \<exists>v t'. get s t = Inr (v, t') \<and> read v t' = Inr s \<and> stored t' = insert s (stored t)"
    and get_keeps:
    "\<lbrakk>inv t; get s t = Inr (v, t')\<rbrakk> \<Longrightarrow> inv t' \<and> hash t' = hash t \<and> valid v t' \<and> hit s v t'"
    and get_stable:
    "\<lbrakk>inv t; get s t = Inr (v, t'); valid w t\<rbrakk> \<Longrightarrow> valid w t' \<and> read w t' = read w t"
    and hit_stable: "\<lbrakk>inv t; get s t = Inr (v, t'); hit u w t\<rbrakk> \<Longrightarrow> hit u w t'"
    and hit_get: "hit s v t \<Longrightarrow> get s t = Inr (v, t)"
begin

lemma run_stable:
  "\<lbrakk>inv t; run_get get ss t = Inr (vs, t')\<rbrakk> \<Longrightarrow>
   inv t' \<and> hash t' = hash t \<and> (\<forall>w. valid w t \<longrightarrow> valid w t' \<and> read w t' = read w t)
   \<and> (\<forall>u w. hit u w t \<longrightarrow> hit u w t')"
proof (induction ss arbitrary: t vs)
  case Nil
  then show ?case by simp
next
  case (Cons s ss)
  then obtain v t1 vs1 where g: "get s t = Inr (v, t1)" and r: "run_get get ss t1 = Inr (vs1, t')"
    by (auto simp: sbind_Inr_iff)
  with Cons get_keeps [OF Cons.prems(1) g] show ?case
    by (metis get_stable hit_stable)
qed

lemma get_again:
  assumes "inv t" and "get s t = Inr (v, t1)" and "run_get get ss t1 = Inr (vs, t2)"
  shows "get s t2 = Inr (v, t2)"
proof -
  have "inv t1" "hit s v t1" using get_keeps [OF assms(1,2)] by auto
  then have "hit s v t2" using run_stable assms(3) by blast
  then show ?thesis by (rule hit_get)
qed

lemma run_reads:
  "\<lbrakk>inv t; inj_on (hash t) (stored t \<union> set ss); \<forall>s \<in> set ss. fits s\<rbrakk> \<Longrightarrow>
   \<exists>vs t'. run_get get ss t = Inr (vs, t') \<and> inv t'
     \<and> list_all2 (\<lambda>s v. read v t' = Inr s) ss vs"
proof (induction ss arbitrary: t)
  case Nil
  then show ?case by simp
next
  case (Cons s ss)
  have "u = s" if "u \<in> stored t" and "hash t u = hash t s" for u
    using inj_onD [OF Cons.prems(2) that(2)] that(1) by simp
  then obtain v t1 where g: "get s t = Inr (v, t1)" and r: "read v t1 = Inr s"
    and st: "stored t1 = insert s (stored t)"
    using get_succeeds [OF Cons.prems(1)] Cons.prems(3) by force
  note k = get_keeps [OF Cons.prems(1) g]
  have "stored t1 \<union> set ss = stored t \<union> set (s # ss)" using st by auto
  then obtain vs t' where run: "run_get get ss t1 = Inr (vs, t')" and i: "inv t'"
    and all: "list_all2 (\<lambda>s v. read v t' = Inr s) ss vs"
    using Cons.IH [of t1] Cons.prems(2,3) k by auto
  have "read v t' = Inr s" using run_stable [OF _ run] k r by auto
  then show ?case using g run all i by auto
qed

end

definition stored :: "stringtable \<Rightarrow> string set" where
  "stored st = {s. \<exists>h v. table st h = Some v \<and> read_view v st = Inr s}"

definition table_hit :: "string \<Rightarrow> string_view \<Rightarrow> stringtable \<Rightarrow> bool" where
  "table_hit s v st \<longleftrightarrow> table st (hasher st s) = Some v"

lemma stored_hash:
  "st_inv st \<Longrightarrow> table st h = Some v \<Longrightarrow> read_view v st = Inr s \<Longrightarrow> hasher st s = h"
  unfolding st_inv_def by fastforce

lemma no_clash_if:
  assumes "st_inv st" and "\<And>u. u \<in> stored st \<Longrightarrow> hasher st u = hasher st s \<Longrightarrow> u = s"
  shows "no_clash s st"
proof (cases "table st (hasher st s)")
  case None
  then show ?thesis by (simp add: no_clash_def)
next
  case (Some v)
  then obtain u where "read_view v st = Inr u" "hasher st u = hasher st s"
    using assms(1) unfolding st_inv_def by metis
  then show ?thesis using assms(2) Some by (auto simp: no_clash_def stored_def)
qed

lemma stored_get:
  assumes inv: "st_inv st" and get: "stringtable_get s st = Inr (v, st')"
    and r: "read_view v st' = Inr s"
  shows "stored st' = insert s (stored st)"
proof -
  note k = stringtable_get_inv [OF inv get]
  have old: "read_view w st' = read_view w st" if "table st h = Some w" for h w
    using that k inv by (auto simp: st_inv_def)
  have tab: "table st' h = (if h = hasher st s then Some v else table st h)" for h
  proof (cases "table st (hasher st s)")
    case None
    then show ?thesis using get inv
      by (auto simp: stringtable_get_def sbind_Inr_iff Let_def dest!: allocate_grown)
        (auto simp: grown_def)
  next
    case (Some w)
    then show ?thesis using get by (auto simp: stringtable_get_def)
  qed
  show ?thesis
  proof (cases "table st (hasher st s)")
    case None
    then show ?thesis using tab old r by (auto simp: stored_def) (metis option.distinct(1))+
  next
    case (Some w)
    then have "st' = st" "v = w" using get by (auto simp: stringtable_get_def)
    then show ?thesis using Some r by (auto simp: stored_def)
  qed
qed

interpretation st: interner stringtable_get read_view view_ok st_inv hasher stored table_hit
    "\<lambda>s. size_ok (length s)"
proof (unfold_locales, goal_cases)
  case (1 t s)
  have "no_clash s t" by (rule no_clash_if [OF 1(1)]) (rule 1(3))
  then have "internable s t" using 1(2) by (simp add: internable_def)
  then obtain v t' where "stringtable_get s t = Inr (v, t')" "read_view v t' = Inr s"
    using stringtable_get_internable [OF 1(1)] by blast
  then show ?case using stored_get [OF 1(1)] by blast
next
  case (2 t s v t')
  then show ?case using stringtable_get_inv [OF 2] by (simp add: table_hit_def)
next
  case (3 t s v t' w)
  then show ?case using stringtable_get_inv [OF 3(1,2)] by blast
next
  case (4 t s v t' u w)
  then show ?case using stringtable_get_inv [OF 4(1,2)] by (simp add: table_hit_def)
next
  case (5 s v t)
  then show ?case by (simp add: table_hit_def stringtable_get_def)
qed

lemma stored_new: "stored (stringtable_new h) = {}"
  by (simp add: stored_def stringtable_new_def)

text \<open>
  A table that serves a set of strings: interning any of them succeeds, yields the string, and
  leaves a table that serves the set.
\<close>

definition serves :: "string set \<Rightarrow> stringtable \<Rightarrow> bool" where
  "serves T st \<longleftrightarrow> st_inv st \<and> stored st \<subseteq> T \<and> inj_on (hasher st) T
     \<and> (\<forall>s \<in> T. size_ok (length s))"

lemma serves_intern:
  assumes "serves T st" and "s \<in> T"
  shows "\<exists>st'. intern s st = Inr (s, st') \<and> serves T st'"
proof -
  have "\<exists>v st'. stringtable_get s st = Inr (v, st') \<and> read_view v st' = Inr s
      \<and> stored st' = insert s (stored st)"
    using assms by (intro st.get_succeeds) (auto simp: serves_def dest: inj_onD)
  then obtain v st' where get: "stringtable_get s st = Inr (v, st')" "read_view v st' = Inr s"
    "stored st' = insert s (stored st)" by blast
  moreover have "serves T st'"
    using assms get st.get_keeps [OF _ get(1)] by (auto simp: serves_def)
  ultimately show ?thesis by (auto simp: intern_def)
qed

lemma intern_inv: "st_inv st \<Longrightarrow> intern s st = Inr (t, st') \<Longrightarrow> st_inv st'"
  using stringtable_get_inv by (fastforce simp: intern_def sbind_Inr_iff)

lemma serves_new: "inj_on h T \<Longrightarrow> \<forall>s \<in> T. size_ok (length s) \<Longrightarrow> serves T (stringtable_new h)"
  using stored_new st_inv_new by (auto simp: serves_def stringtable_new_def)

section \<open>Properties\<close>

text \<open>C24. Interning any list of strings in a fresh table, if their hashes are distinct and each fits a
  page or is large enough for a page of its own, succeeds, and after the whole run every view handed out
  still reads exactly the string it was made for: no allocation or copy ever overwrites an older string.\<close>

theorem interned_strings_survive:
  assumes "inj_on h (set ss)" and "\<forall>s \<in> set ss. size_ok (length s)"
  shows "\<exists>vs st'. run_get stringtable_get ss (stringtable_new h) = Inr (vs, st') \<and> st_inv st'
     \<and> list_all2 (\<lambda>s v. read_view v st' = Inr s) ss vs"
proof -
  have "hasher (stringtable_new h) = h" by (simp add: stringtable_new_def)
  then show ?thesis
    using st.run_reads [OF st_inv_new, of h ss] assms by (simp add: stored_new)
qed

theorem interned_strings_survive_witness:
  "\<exists>vs st'. run_get stringtable_get [''ab'', ''c'', ''ab''] (stringtable_new length) = Inr (vs, st')
     \<and> list_all2 (\<lambda>s v. read_view v st' = Inr s) [''ab'', ''c'', ''ab''] vs"
proof -
  have inj: "inj_on length (set [''ab'', ''c'', ''ab''])" by (simp add: inj_on_def)
  have "\<forall>s \<in> set [''ab'', ''c'', ''ab'']. size_ok (length s)" by (simp add: size_ok_def sizes)
  from interned_strings_survive [OF inj this] show ?thesis by blast
qed

text \<open>Once a string is interned, every later \<open>get\<close> of it, after any other strings, returns the very
  same view and leaves the table as it is: equal tokens share one copy of their text.\<close>

theorem interning_is_unique:
  assumes "st_inv st" and "stringtable_get s st = Inr (v, st1)"
    and "run_get stringtable_get ss st1 = Inr (vs, st2)"
  shows "stringtable_get s st2 = Inr (v, st2)"
  using assms by (rule st.get_again)

theorem interning_is_unique_witness:
  "stringtable_get ''ab'' (snd (projr (stringtable_get ''c'' (snd (projr
     (stringtable_get ''ab'' (stringtable_new length)))))))
   = Inr (\<lparr>view_page = 0, view_off = 0, view_size = 2\<rparr>,
       snd (projr (stringtable_get ''c'' (snd (projr
         (stringtable_get ''ab'' (stringtable_new length)))))))"
  by (rule interning_is_unique [OF st_inv_new [of length], of "''ab''" _
        "snd (projr (stringtable_get ''ab'' (stringtable_new length)))" "[''c'']"
        "[\<lparr>view_page = 0, view_off = 2, view_size = 1\<rparr>]"])
    (simp_all add: stringtable_get_def stringtable_new_def allocate_def new_page_def sizes Let_def
      memcpy_def overwrite_def hand_out_def)

text \<open>A string that is not in the table, does not fit in the current page, and is longer than a
  page holds but not longer than two pages, is always written past the end of the fresh page it is
  given: only strings of more than \<open>2 * PAGE_SIZE\<close> bytes get a page of their own size.\<close>

theorem medium_strings_overflow:
  assumes "pages st = cur # rest" and "table st (hasher st s) = None"
    and "page_cap cur < length (page_bytes cur) + length s"
    and "PAGE_SIZE - sizeof_page < length s" and "length s \<le> 2 * PAGE_SIZE"
  shows "stringtable_get s st = Inl Heap_overflow"
  using assms
  by (auto simp: stringtable_get_def allocate_def actually_allocate_after_def sizes)

theorem medium_strings_overflow_witness:
  "stringtable_get (replicate 5000 CHR ''x'') (stringtable_new length) = Inl Heap_overflow"
  by (rule medium_strings_overflow [where cur = "new_page 0 PAGE_SIZE" and rest = "[]"])
    (simp_all add: stringtable_new_def new_page_def sizes)

text \<open>C33. Assigning a moved table to another one frees the target's pages but keeps its hash table: a
  string interned before the assignment is still found, and the view returned for it points into
  freed memory.\<close>

theorem move_assign_leaves_dangling_views:
  assumes "st_inv this" and "table this (hasher this s) = Some v"
    and "set (map page_id (pages this)) \<inter> set (map page_id (pages other)) = {}"
    and "stringtable_move_assign this other = (this', other')"
  shows "stringtable_get s this' = Inr (v, this') \<and> read_view v this' = Inl Dangling_view"
proof -
  have this': "hasher this' = hasher this" "table this' = table this" "pages this' = pages other"
    using assms(4) by (auto simp: stringtable_move_assign_def stringtable_destroy_def)
  obtain pg where "find_page (view_page v) this = Some pg"
    using assms(1,2) by (fastforce simp: st_inv_def view_ok_def)
  from find_page_SomeD [OF this] have "view_page v \<in> set (map page_id (pages this))" by force
  then have "view_page v \<notin> set (map page_id (pages other))" using assms(3) by blast
  then have "find_page (view_page v) this' = None"
    using this' by (force simp: find_page_def find_None_iff)
  then show ?thesis
    using assms(2) this' by (simp add: stringtable_get_def read_view_def)
qed

definition other_table :: stringtable where
  "other_table = (stringtable_new length)\<lparr>pages := [new_page 7 PAGE_SIZE], next_id := 8\<rparr>"

theorem move_assign_leaves_dangling_views_witness:
  "\<exists>st v. stringtable_get ''ab'' (stringtable_new length) = Inr (v, st)
     \<and> read_view v (fst (stringtable_move_assign st other_table)) = Inl Dangling_view"
proof -
  let ?v = "\<lparr>view_page = 0, view_off = 0, view_size = 2\<rparr>"
  define st where "st = snd (projr (stringtable_get ''ab'' (stringtable_new length)))"
  have get: "stringtable_get ''ab'' (stringtable_new length) = Inr (?v, st)"
    and disj: "set (map page_id (pages st)) \<inter> set (map page_id (pages other_table)) = {}"
    by (simp_all add: st_def stringtable_get_def stringtable_new_def allocate_def new_page_def sizes
        Let_def memcpy_def overwrite_def hand_out_def other_table_def)
  have "st_inv st" "table st (hasher st ''ab'') = Some ?v"
    using stringtable_get_inv [OF st_inv_new get] by auto
  from move_assign_leaves_dangling_views [OF this disj prod.collapse [symmetric]]
  show ?thesis using get by blast
qed

lemma find_append:
  "List.find P (xs @ ys) = (case List.find P xs of None \<Rightarrow> List.find P ys | Some x \<Rightarrow> Some x)"
  by (induction xs) auto

text \<open>Merging a table into another keeps every string of both: views made by either table read the
  same characters in the merged table.\<close>

theorem merge_keeps_strings:
  assumes "pages this \<noteq> []"
    and "set (map page_id (pages this)) \<inter> set (map page_id (pages other)) = {}"
  shows "\<exists>this' other'. stringtable_merge this other = Inr (this', other')
     \<and> (\<forall>v s. read_view v this = Inr s \<longrightarrow> read_view v this' = Inr s)
     \<and> (\<forall>v s. read_view v other = Inr s \<longrightarrow> read_view v this' = Inr s)"
proof -
  obtain cur rest where p: "pages this = cur # rest" using assms(1) by (cases "pages this") auto
  define this' where "this' = (if pages other = [] then this
      else this\<lparr>pages := cur # pages other @ rest\<rparr>)"
  have m: "\<exists>other'. stringtable_merge this other = Inr (this', other')"
    using p by (cases "pages other") (auto simp: stringtable_merge_def this'_def)
  have fr: "List.find (\<lambda>pg. page_id pg = i) (pages other) = None"
    if "List.find (\<lambda>pg. page_id pg = i) rest = Some pg" for i pg
    using that assms(2) p by (auto simp: find_None_iff find_Some_iff dest!: nth_mem)
  have fc: "List.find (\<lambda>pg. page_id pg = i) (pages other) = Some pg \<Longrightarrow> page_id cur \<noteq> i" for i pg
    using assms(2) p by (auto simp: find_Some_iff)
  have 1: "find_page i this = Some pg \<Longrightarrow> find_page i this' = Some pg" for i pg
    using p fr by (auto simp: find_page_def this'_def find_append split: if_splits)
  have 2: "find_page i other = Some pg \<Longrightarrow> find_page i this' = Some pg" for i pg
    using p fc by (auto simp: find_page_def this'_def find_append split: if_splits)
  show ?thesis
    using m 1 2 by (auto simp: read_view_def split: option.splits) 
qed

theorem merge_keeps_strings_witness:
  "\<exists>this' other'. stringtable_merge (stringtable_new length) other_table = Inr (this', other')
     \<and> read_view \<lparr>view_page = 7, view_off = 0, view_size = 0\<rparr> this' = Inr []"
proof -
  have "pages (stringtable_new length) \<noteq> []"
    "set (map page_id (pages (stringtable_new length))) \<inter> set (map page_id (pages other_table)) = {}"
    "read_view \<lparr>view_page = 7, view_off = 0, view_size = 0\<rparr> other_table = Inr []"
    by (simp_all add: stringtable_new_def other_table_def new_page_def read_view_def find_page_def)
  then show ?thesis using merge_keeps_strings [of "stringtable_new length" other_table] by blast
qed

end
