(* ===== verification/Token.thy ===== *)
theory Token
  imports Position
begin

text \<open>
  The tokens of \<^verbatim>\<open>src/vhdl/token.h\<close> and \<^verbatim>\<open>src/vhdl/token.cpp\<close>, and the table of reserved words that
  the lexer's constructor fills (\<^verbatim>\<open>src/vhdl/lexer.cpp\<close>).

  The code's one enumeration \<open>kind_t\<close> of 137 values is split, only because a datatype of that many
  constructors is slow to define, into its sections: delimiters, and the reserved words by first
  letter. The abbreviations \<open>tk_\<dots>\<close> and \<open>kw_\<dots>\<close> give every enumerator its name in the code back.
\<close>

section \<open>Token kinds\<close>

datatype version = vhdl87 | vhdl93 | vhdl02 | vhdl08

primrec version_number :: "version \<Rightarrow> nat" where
  "version_number vhdl87 = 0"
| "version_number vhdl93 = 1"
| "version_number vhdl02 = 2"
| "version_number vhdl08 = 3"

datatype delimiter =
    D_concat | D_tick | D_leftpar | D_rightpar | D_times | D_plus | D_comma | D_minus | D_dot
    | D_div | D_colon | D_semicolon | D_lt | D_eq | D_gt | D_bar | D_leftsquare | D_rightsquare
    | D_rightarrow | D_pow | D_coloneq | D_ne | D_gte | D_lte | D_box

datatype keyword_ad =
    K_abs | K_access | K_after | K_alias | K_all | K_and | K_architecture | K_array | K_assert
    | K_attribute | K_begin | K_block | K_body | K_buffer | K_bus | K_case | K_component
    | K_configuration | K_constant | K_context | K_default | K_disconnect | K_downto

datatype keyword_el =
    K_else | K_elsif | K_end | K_entity | K_exit | K_file | K_for | K_function | K_generate
    | K_generic | K_group | K_guarded | K_if | K_impure | K_in | K_inertial | K_inout | K_is
    | K_label | K_library | K_linkage | K_literal | K_loop

datatype keyword_mp =
    K_map | K_mod | K_nand | K_new | K_next | K_nor | K_not | K_null | K_of | K_on | K_open
    | K_or | K_others | K_out | K_package | K_port | K_postponed | K_procedural | K_procedure
    | K_process | K_protected | K_pure

datatype keyword_rx =
    K_range | K_record | K_reference | K_register | K_reject | K_rem | K_report | K_return
    | K_rol | K_ror | K_select | K_severity | K_shared | K_signal | K_sla | K_sll | K_sra
    | K_srl | K_subtype | K_then | K_to | K_transport | K_type | K_unaffected | K_units
    | K_until | K_use | K_variable | K_wait | K_when | K_while | K_with | K_xnor | K_xor

datatype kind_t =
    tk_invalid | tk_implicit | tk_eof | Delim delimiter | tk_identifier | tk_extended_identifier
    | tk_integer | tk_real | tk_character | tk_stringliteral | tk_bitstring | Kw_ad keyword_ad
    | Kw_el keyword_el | Kw_mp keyword_mp | Kw_rx keyword_rx

abbreviation "tk_concat \<equiv> Delim D_concat"
abbreviation "tk_tick \<equiv> Delim D_tick"
abbreviation "tk_leftpar \<equiv> Delim D_leftpar"
abbreviation "tk_rightpar \<equiv> Delim D_rightpar"
abbreviation "tk_times \<equiv> Delim D_times"
abbreviation "tk_plus \<equiv> Delim D_plus"
abbreviation "tk_comma \<equiv> Delim D_comma"
abbreviation "tk_minus \<equiv> Delim D_minus"
abbreviation "tk_dot \<equiv> Delim D_dot"
abbreviation "tk_div \<equiv> Delim D_div"
abbreviation "tk_colon \<equiv> Delim D_colon"
abbreviation "tk_semicolon \<equiv> Delim D_semicolon"
abbreviation "tk_lt \<equiv> Delim D_lt"
abbreviation "tk_eq \<equiv> Delim D_eq"
abbreviation "tk_gt \<equiv> Delim D_gt"
abbreviation "tk_bar \<equiv> Delim D_bar"
abbreviation "tk_leftsquare \<equiv> Delim D_leftsquare"
abbreviation "tk_rightsquare \<equiv> Delim D_rightsquare"
abbreviation "tk_rightarrow \<equiv> Delim D_rightarrow"
abbreviation "tk_pow \<equiv> Delim D_pow"
abbreviation "tk_coloneq \<equiv> Delim D_coloneq"
abbreviation "tk_ne \<equiv> Delim D_ne"
abbreviation "tk_gte \<equiv> Delim D_gte"
abbreviation "tk_lte \<equiv> Delim D_lte"
abbreviation "tk_box \<equiv> Delim D_box"
abbreviation "kw_abs \<equiv> Kw_ad K_abs"
abbreviation "kw_access \<equiv> Kw_ad K_access"
abbreviation "kw_after \<equiv> Kw_ad K_after"
abbreviation "kw_alias \<equiv> Kw_ad K_alias"
abbreviation "kw_all \<equiv> Kw_ad K_all"
abbreviation "kw_and \<equiv> Kw_ad K_and"
abbreviation "kw_architecture \<equiv> Kw_ad K_architecture"
abbreviation "kw_array \<equiv> Kw_ad K_array"
abbreviation "kw_assert \<equiv> Kw_ad K_assert"
abbreviation "kw_attribute \<equiv> Kw_ad K_attribute"
abbreviation "kw_begin \<equiv> Kw_ad K_begin"
abbreviation "kw_block \<equiv> Kw_ad K_block"
abbreviation "kw_body \<equiv> Kw_ad K_body"
abbreviation "kw_buffer \<equiv> Kw_ad K_buffer"
abbreviation "kw_bus \<equiv> Kw_ad K_bus"
abbreviation "kw_case \<equiv> Kw_ad K_case"
abbreviation "kw_component \<equiv> Kw_ad K_component"
abbreviation "kw_configuration \<equiv> Kw_ad K_configuration"
abbreviation "kw_constant \<equiv> Kw_ad K_constant"
abbreviation "kw_context \<equiv> Kw_ad K_context"
abbreviation "kw_default \<equiv> Kw_ad K_default"
abbreviation "kw_disconnect \<equiv> Kw_ad K_disconnect"
abbreviation "kw_downto \<equiv> Kw_ad K_downto"
abbreviation "kw_else \<equiv> Kw_el K_else"
abbreviation "kw_elsif \<equiv> Kw_el K_elsif"
abbreviation "kw_end \<equiv> Kw_el K_end"
abbreviation "kw_entity \<equiv> Kw_el K_entity"
abbreviation "kw_exit \<equiv> Kw_el K_exit"
abbreviation "kw_file \<equiv> Kw_el K_file"
abbreviation "kw_for \<equiv> Kw_el K_for"
abbreviation "kw_function \<equiv> Kw_el K_function"
abbreviation "kw_generate \<equiv> Kw_el K_generate"
abbreviation "kw_generic \<equiv> Kw_el K_generic"
abbreviation "kw_group \<equiv> Kw_el K_group"
abbreviation "kw_guarded \<equiv> Kw_el K_guarded"
abbreviation "kw_if \<equiv> Kw_el K_if"
abbreviation "kw_impure \<equiv> Kw_el K_impure"
abbreviation "kw_in \<equiv> Kw_el K_in"
abbreviation "kw_inertial \<equiv> Kw_el K_inertial"
abbreviation "kw_inout \<equiv> Kw_el K_inout"
abbreviation "kw_is \<equiv> Kw_el K_is"
abbreviation "kw_label \<equiv> Kw_el K_label"
abbreviation "kw_library \<equiv> Kw_el K_library"
abbreviation "kw_linkage \<equiv> Kw_el K_linkage"
abbreviation "kw_literal \<equiv> Kw_el K_literal"
abbreviation "kw_loop \<equiv> Kw_el K_loop"
abbreviation "kw_map \<equiv> Kw_mp K_map"
abbreviation "kw_mod \<equiv> Kw_mp K_mod"
abbreviation "kw_nand \<equiv> Kw_mp K_nand"
abbreviation "kw_new \<equiv> Kw_mp K_new"
abbreviation "kw_next \<equiv> Kw_mp K_next"
abbreviation "kw_nor \<equiv> Kw_mp K_nor"
abbreviation "kw_not \<equiv> Kw_mp K_not"
abbreviation "kw_null \<equiv> Kw_mp K_null"
abbreviation "kw_of \<equiv> Kw_mp K_of"
abbreviation "kw_on \<equiv> Kw_mp K_on"
abbreviation "kw_open \<equiv> Kw_mp K_open"
abbreviation "kw_or \<equiv> Kw_mp K_or"
abbreviation "kw_others \<equiv> Kw_mp K_others"
abbreviation "kw_out \<equiv> Kw_mp K_out"
abbreviation "kw_package \<equiv> Kw_mp K_package"
abbreviation "kw_port \<equiv> Kw_mp K_port"
abbreviation "kw_postponed \<equiv> Kw_mp K_postponed"
abbreviation "kw_procedural \<equiv> Kw_mp K_procedural"
abbreviation "kw_procedure \<equiv> Kw_mp K_procedure"
abbreviation "kw_process \<equiv> Kw_mp K_process"
abbreviation "kw_protected \<equiv> Kw_mp K_protected"
abbreviation "kw_pure \<equiv> Kw_mp K_pure"
abbreviation "kw_range \<equiv> Kw_rx K_range"
abbreviation "kw_record \<equiv> Kw_rx K_record"
abbreviation "kw_reference \<equiv> Kw_rx K_reference"
abbreviation "kw_register \<equiv> Kw_rx K_register"
abbreviation "kw_reject \<equiv> Kw_rx K_reject"
abbreviation "kw_rem \<equiv> Kw_rx K_rem"
abbreviation "kw_report \<equiv> Kw_rx K_report"
abbreviation "kw_return \<equiv> Kw_rx K_return"
abbreviation "kw_rol \<equiv> Kw_rx K_rol"
abbreviation "kw_ror \<equiv> Kw_rx K_ror"
abbreviation "kw_select \<equiv> Kw_rx K_select"
abbreviation "kw_severity \<equiv> Kw_rx K_severity"
abbreviation "kw_shared \<equiv> Kw_rx K_shared"
abbreviation "kw_signal \<equiv> Kw_rx K_signal"
abbreviation "kw_sla \<equiv> Kw_rx K_sla"
abbreviation "kw_sll \<equiv> Kw_rx K_sll"
abbreviation "kw_sra \<equiv> Kw_rx K_sra"
abbreviation "kw_srl \<equiv> Kw_rx K_srl"
abbreviation "kw_subtype \<equiv> Kw_rx K_subtype"
abbreviation "kw_then \<equiv> Kw_rx K_then"
abbreviation "kw_to \<equiv> Kw_rx K_to"
abbreviation "kw_transport \<equiv> Kw_rx K_transport"
abbreviation "kw_type \<equiv> Kw_rx K_type"
abbreviation "kw_unaffected \<equiv> Kw_rx K_unaffected"
abbreviation "kw_units \<equiv> Kw_rx K_units"
abbreviation "kw_until \<equiv> Kw_rx K_until"
abbreviation "kw_use \<equiv> Kw_rx K_use"
abbreviation "kw_variable \<equiv> Kw_rx K_variable"
abbreviation "kw_wait \<equiv> Kw_rx K_wait"
abbreviation "kw_when \<equiv> Kw_rx K_when"
abbreviation "kw_while \<equiv> Kw_rx K_while"
abbreviation "kw_with \<equiv> Kw_rx K_with"
abbreviation "kw_xnor \<equiv> Kw_rx K_xnor"
abbreviation "kw_xor \<equiv> Kw_rx K_xor"

definition is_reserved_word :: "kind_t \<Rightarrow> bool" where
  "is_reserved_word k =
     (case k of Kw_ad _ \<Rightarrow> True | Kw_el _ \<Rightarrow> True | Kw_mp _ \<Rightarrow> True | Kw_rx _ \<Rightarrow> True | _ \<Rightarrow> False)"

section \<open>The spelling of a kind\<close>

primrec delimiter_view :: "delimiter \<Rightarrow> string" where
  "delimiter_view D_concat = ''&''"
| "delimiter_view D_tick = [CHR 0x27]"
| "delimiter_view D_leftpar = ''(''"
| "delimiter_view D_rightpar = '')''"
| "delimiter_view D_times = ''*''"
| "delimiter_view D_plus = ''+''"
| "delimiter_view D_comma = '',''"
| "delimiter_view D_minus = ''-''"
| "delimiter_view D_dot = ''.''"
| "delimiter_view D_div = ''/''"
| "delimiter_view D_colon = '':''"
| "delimiter_view D_semicolon = '';''"
| "delimiter_view D_lt = ''<''"
| "delimiter_view D_eq = ''=''"
| "delimiter_view D_gt = ''>''"
| "delimiter_view D_bar = ''|''"
| "delimiter_view D_leftsquare = ''[''"
| "delimiter_view D_rightsquare = '']''"
| "delimiter_view D_rightarrow = ''=>''"
| "delimiter_view D_pow = ''**''"
| "delimiter_view D_coloneq = '':=''"
| "delimiter_view D_ne = ''/=''"
| "delimiter_view D_gte = ''>=''"
| "delimiter_view D_lte = ''<=''"
| "delimiter_view D_box = ''<>''"

primrec keyword_ad_view :: "keyword_ad \<Rightarrow> string" where
  "keyword_ad_view K_abs = ''abs''"
| "keyword_ad_view K_access = ''access''"
| "keyword_ad_view K_after = ''after''"
| "keyword_ad_view K_alias = ''alias''"
| "keyword_ad_view K_all = ''all''"
| "keyword_ad_view K_and = ''and''"
| "keyword_ad_view K_architecture = ''architecture''"
| "keyword_ad_view K_array = ''array''"
| "keyword_ad_view K_assert = ''assert''"
| "keyword_ad_view K_attribute = ''attribute''"
| "keyword_ad_view K_begin = ''begin''"
| "keyword_ad_view K_block = ''block''"
| "keyword_ad_view K_body = ''body''"
| "keyword_ad_view K_buffer = ''buffer''"
| "keyword_ad_view K_bus = ''bus''"
| "keyword_ad_view K_case = ''case''"
| "keyword_ad_view K_component = ''component''"
| "keyword_ad_view K_configuration = ''configuration''"
| "keyword_ad_view K_constant = ''constant''"
| "keyword_ad_view K_context = ''context''"
| "keyword_ad_view K_default = ''default''"
| "keyword_ad_view K_disconnect = ''disconnect''"
| "keyword_ad_view K_downto = ''downto''"

primrec keyword_el_view :: "keyword_el \<Rightarrow> string" where
  "keyword_el_view K_else = ''else''"
| "keyword_el_view K_elsif = ''elsif''"
| "keyword_el_view K_end = ''end''"
| "keyword_el_view K_entity = ''entity''"
| "keyword_el_view K_exit = ''exit''"
| "keyword_el_view K_file = ''file''"
| "keyword_el_view K_for = ''for''"
| "keyword_el_view K_function = ''function''"
| "keyword_el_view K_generate = ''generate''"
| "keyword_el_view K_generic = ''generic''"
| "keyword_el_view K_group = ''group''"
| "keyword_el_view K_guarded = ''guarded''"
| "keyword_el_view K_if = ''if''"
| "keyword_el_view K_impure = ''impure''"
| "keyword_el_view K_in = ''in''"
| "keyword_el_view K_inertial = ''inertial''"
| "keyword_el_view K_inout = ''inout''"
| "keyword_el_view K_is = ''is''"
| "keyword_el_view K_label = ''label''"
| "keyword_el_view K_library = ''library''"
| "keyword_el_view K_linkage = ''linkage''"
| "keyword_el_view K_literal = ''literal''"
| "keyword_el_view K_loop = ''loop''"

primrec keyword_mp_view :: "keyword_mp \<Rightarrow> string" where
  "keyword_mp_view K_map = ''map''"
| "keyword_mp_view K_mod = ''mod''"
| "keyword_mp_view K_nand = ''nand''"
| "keyword_mp_view K_new = ''new''"
| "keyword_mp_view K_next = ''next''"
| "keyword_mp_view K_nor = ''nor''"
| "keyword_mp_view K_not = ''not''"
| "keyword_mp_view K_null = ''null''"
| "keyword_mp_view K_of = ''of''"
| "keyword_mp_view K_on = ''on''"
| "keyword_mp_view K_open = ''open''"
| "keyword_mp_view K_or = ''or''"
| "keyword_mp_view K_others = ''others''"
| "keyword_mp_view K_out = ''out''"
| "keyword_mp_view K_package = ''package''"
| "keyword_mp_view K_port = ''port''"
| "keyword_mp_view K_postponed = ''postponed''"
| "keyword_mp_view K_procedural = ''procedural''"
| "keyword_mp_view K_procedure = ''procedure''"
| "keyword_mp_view K_process = ''process''"
| "keyword_mp_view K_protected = ''protected''"
| "keyword_mp_view K_pure = ''pure''"

primrec keyword_rx_view :: "keyword_rx \<Rightarrow> string" where
  "keyword_rx_view K_range = ''range''"
| "keyword_rx_view K_record = ''record''"
| "keyword_rx_view K_reference = ''reference''"
| "keyword_rx_view K_register = ''n/a''"
| "keyword_rx_view K_reject = ''reject''"
| "keyword_rx_view K_rem = ''rem''"
| "keyword_rx_view K_report = ''report''"
| "keyword_rx_view K_return = ''return''"
| "keyword_rx_view K_rol = ''rol''"
| "keyword_rx_view K_ror = ''ror''"
| "keyword_rx_view K_select = ''select''"
| "keyword_rx_view K_severity = ''severity''"
| "keyword_rx_view K_shared = ''shared''"
| "keyword_rx_view K_signal = ''signal''"
| "keyword_rx_view K_sla = ''sla''"
| "keyword_rx_view K_sll = ''sll''"
| "keyword_rx_view K_sra = ''sra''"
| "keyword_rx_view K_srl = ''srl''"
| "keyword_rx_view K_subtype = ''subtype''"
| "keyword_rx_view K_then = ''then''"
| "keyword_rx_view K_to = ''to''"
| "keyword_rx_view K_transport = ''transport''"
| "keyword_rx_view K_type = ''type''"
| "keyword_rx_view K_unaffected = ''n/a''"
| "keyword_rx_view K_units = ''units''"
| "keyword_rx_view K_until = ''until''"
| "keyword_rx_view K_use = ''use''"
| "keyword_rx_view K_variable = ''variable''"
| "keyword_rx_view K_wait = ''wait''"
| "keyword_rx_view K_when = ''when''"
| "keyword_rx_view K_while = ''while''"
| "keyword_rx_view K_with = ''with''"
| "keyword_rx_view K_xnor = ''xnor''"
| "keyword_rx_view K_xor = ''xor''"

primrec get_token_string_view :: "kind_t \<Rightarrow> string" where
  "get_token_string_view tk_invalid = ''n/a''"
| "get_token_string_view tk_implicit = ''n/a''"
| "get_token_string_view tk_eof = ''''"
| "get_token_string_view (Delim d) = delimiter_view d"
| "get_token_string_view tk_identifier = ''identifier''"
| "get_token_string_view tk_extended_identifier = ''extended_identifier''"
| "get_token_string_view tk_integer = ''integer''"
| "get_token_string_view tk_real = ''real''"
| "get_token_string_view tk_character = ''character''"
| "get_token_string_view tk_stringliteral = ''string''"
| "get_token_string_view tk_bitstring = ''bitstring''"
| "get_token_string_view (Kw_ad k) = keyword_ad_view k"
| "get_token_string_view (Kw_el k) = keyword_el_view k"
| "get_token_string_view (Kw_mp k) = keyword_mp_view k"
| "get_token_string_view (Kw_rx k) = keyword_rx_view k"

section \<open>The name of a kind\<close>

primrec delimiter_name :: "delimiter \<Rightarrow> string" where
  "delimiter_name D_concat = ''concat''"
| "delimiter_name D_tick = ''tick''"
| "delimiter_name D_leftpar = ''leftpar''"
| "delimiter_name D_rightpar = ''rightpar''"
| "delimiter_name D_times = ''times''"
| "delimiter_name D_plus = ''plus''"
| "delimiter_name D_comma = ''comma''"
| "delimiter_name D_minus = ''minus''"
| "delimiter_name D_dot = ''dot''"
| "delimiter_name D_div = ''div''"
| "delimiter_name D_colon = ''colon''"
| "delimiter_name D_semicolon = ''semicolon''"
| "delimiter_name D_lt = ''lt''"
| "delimiter_name D_eq = ''eq''"
| "delimiter_name D_gt = ''gt''"
| "delimiter_name D_bar = ''bar''"
| "delimiter_name D_leftsquare = ''leftsquare''"
| "delimiter_name D_rightsquare = ''rightsquare''"
| "delimiter_name D_rightarrow = ''rightarrow''"
| "delimiter_name D_pow = ''pow''"
| "delimiter_name D_coloneq = ''coloneq''"
| "delimiter_name D_ne = ''ne''"
| "delimiter_name D_gte = ''gte''"
| "delimiter_name D_lte = ''lte''"
| "delimiter_name D_box = ''box''"

primrec keyword_ad_name :: "keyword_ad \<Rightarrow> string" where
  "keyword_ad_name K_abs = ''abs''"
| "keyword_ad_name K_access = ''access''"
| "keyword_ad_name K_after = ''after''"
| "keyword_ad_name K_alias = ''alias''"
| "keyword_ad_name K_all = ''all''"
| "keyword_ad_name K_and = ''and''"
| "keyword_ad_name K_architecture = ''architecture''"
| "keyword_ad_name K_array = ''array''"
| "keyword_ad_name K_assert = ''assert''"
| "keyword_ad_name K_attribute = ''attribute''"
| "keyword_ad_name K_begin = ''begin''"
| "keyword_ad_name K_block = ''block''"
| "keyword_ad_name K_body = ''body''"
| "keyword_ad_name K_buffer = ''buffer''"
| "keyword_ad_name K_bus = ''bus''"
| "keyword_ad_name K_case = ''case''"
| "keyword_ad_name K_component = ''component''"
| "keyword_ad_name K_configuration = ''configuration''"
| "keyword_ad_name K_constant = ''constant''"
| "keyword_ad_name K_context = ''context''"
| "keyword_ad_name K_default = ''default''"
| "keyword_ad_name K_disconnect = ''disconnect''"
| "keyword_ad_name K_downto = ''downto''"

primrec keyword_el_name :: "keyword_el \<Rightarrow> string" where
  "keyword_el_name K_else = ''else''"
| "keyword_el_name K_elsif = ''elsif''"
| "keyword_el_name K_end = ''end''"
| "keyword_el_name K_entity = ''entity''"
| "keyword_el_name K_exit = ''exit''"
| "keyword_el_name K_file = ''file''"
| "keyword_el_name K_for = ''for''"
| "keyword_el_name K_function = ''function''"
| "keyword_el_name K_generate = ''generate''"
| "keyword_el_name K_generic = ''generic''"
| "keyword_el_name K_group = ''group''"
| "keyword_el_name K_guarded = ''guarded''"
| "keyword_el_name K_if = ''if''"
| "keyword_el_name K_impure = ''impure''"
| "keyword_el_name K_in = ''in''"
| "keyword_el_name K_inertial = ''inertial''"
| "keyword_el_name K_inout = ''inout''"
| "keyword_el_name K_is = ''is''"
| "keyword_el_name K_label = ''label''"
| "keyword_el_name K_library = ''library''"
| "keyword_el_name K_linkage = ''linkage''"
| "keyword_el_name K_literal = ''literal''"
| "keyword_el_name K_loop = ''loop''"

primrec keyword_mp_name :: "keyword_mp \<Rightarrow> string" where
  "keyword_mp_name K_map = ''map''"
| "keyword_mp_name K_mod = ''mod''"
| "keyword_mp_name K_nand = ''nand''"
| "keyword_mp_name K_new = ''new''"
| "keyword_mp_name K_next = ''next''"
| "keyword_mp_name K_nor = ''nor''"
| "keyword_mp_name K_not = ''not''"
| "keyword_mp_name K_null = ''null''"
| "keyword_mp_name K_of = ''of''"
| "keyword_mp_name K_on = ''on''"
| "keyword_mp_name K_open = ''open''"
| "keyword_mp_name K_or = ''or''"
| "keyword_mp_name K_others = ''others''"
| "keyword_mp_name K_out = ''out''"
| "keyword_mp_name K_package = ''package''"
| "keyword_mp_name K_port = ''port''"
| "keyword_mp_name K_postponed = ''postponed''"
| "keyword_mp_name K_procedural = ''procedural''"
| "keyword_mp_name K_procedure = ''procedure''"
| "keyword_mp_name K_process = ''process''"
| "keyword_mp_name K_protected = ''protected''"
| "keyword_mp_name K_pure = ''pure''"

primrec keyword_rx_name :: "keyword_rx \<Rightarrow> string" where
  "keyword_rx_name K_range = ''range''"
| "keyword_rx_name K_record = ''record''"
| "keyword_rx_name K_reference = ''reference''"
| "keyword_rx_name K_register = ''n/a''"
| "keyword_rx_name K_reject = ''reject''"
| "keyword_rx_name K_rem = ''rem''"
| "keyword_rx_name K_report = ''report''"
| "keyword_rx_name K_return = ''return''"
| "keyword_rx_name K_rol = ''rol''"
| "keyword_rx_name K_ror = ''ror''"
| "keyword_rx_name K_select = ''select''"
| "keyword_rx_name K_severity = ''severity''"
| "keyword_rx_name K_shared = ''shared''"
| "keyword_rx_name K_signal = ''signal''"
| "keyword_rx_name K_sla = ''sla''"
| "keyword_rx_name K_sll = ''sll''"
| "keyword_rx_name K_sra = ''sra''"
| "keyword_rx_name K_srl = ''srl''"
| "keyword_rx_name K_subtype = ''subtype''"
| "keyword_rx_name K_then = ''then''"
| "keyword_rx_name K_to = ''to''"
| "keyword_rx_name K_transport = ''transport''"
| "keyword_rx_name K_type = ''type''"
| "keyword_rx_name K_unaffected = ''n/a''"
| "keyword_rx_name K_units = ''units''"
| "keyword_rx_name K_until = ''until''"
| "keyword_rx_name K_use = ''use''"
| "keyword_rx_name K_variable = ''variable''"
| "keyword_rx_name K_wait = ''wait''"
| "keyword_rx_name K_when = ''when''"
| "keyword_rx_name K_while = ''while''"
| "keyword_rx_name K_with = ''with''"
| "keyword_rx_name K_xnor = ''xnor''"
| "keyword_rx_name K_xor = ''xor''"

primrec get_token_string_name :: "kind_t \<Rightarrow> string" where
  "get_token_string_name tk_invalid = ''n/a''"
| "get_token_string_name tk_implicit = ''n/a''"
| "get_token_string_name tk_eof = ''eof''"
| "get_token_string_name (Delim d) = delimiter_name d"
| "get_token_string_name tk_identifier = ''identifier''"
| "get_token_string_name tk_extended_identifier = ''extended_identifier''"
| "get_token_string_name tk_integer = ''integer''"
| "get_token_string_name tk_real = ''real''"
| "get_token_string_name tk_character = ''character''"
| "get_token_string_name tk_stringliteral = ''string''"
| "get_token_string_name tk_bitstring = ''bitstring''"
| "get_token_string_name (Kw_ad k) = keyword_ad_name k"
| "get_token_string_name (Kw_el k) = keyword_el_name k"
| "get_token_string_name (Kw_mp k) = keyword_mp_name k"
| "get_token_string_name (Kw_rx k) = keyword_rx_name k"

section \<open>Reserved words\<close>

definition identifier_to_keyword :: "(string \<times> kind_t) list" where
  "identifier_to_keyword = [
     (''abs'', kw_abs), (''access'', kw_access), (''after'', kw_after), (''alias'', kw_alias)
     , (''all'', kw_all), (''and'', kw_and), (''architecture'', kw_architecture)
     , (''array'', kw_array), (''assert'', kw_assert), (''attribute'', kw_attribute)
     , (''begin'', kw_begin), (''block'', kw_block), (''body'', kw_body)
     , (''buffer'', kw_buffer), (''bus'', kw_bus), (''case'', kw_case)
     , (''component'', kw_component), (''configuration'', kw_configuration)
     , (''constant'', kw_constant), (''context'', kw_context), (''default'', kw_default)
     , (''disconnect'', kw_disconnect), (''downto'', kw_downto), (''else'', kw_else)
     , (''elsif'', kw_elsif), (''end'', kw_end), (''entity'', kw_entity), (''exit'', kw_exit)
     , (''file'', kw_file), (''for'', kw_for), (''function'', kw_function)
     , (''generate'', kw_generate), (''generic'', kw_generic), (''group'', kw_group)
     , (''guarded'', kw_guarded), (''if'', kw_if), (''impure'', kw_impure), (''in'', kw_in)
     , (''inertial'', kw_inertial), (''inout'', kw_inout), (''is'', kw_is)
     , (''label'', kw_label), (''library'', kw_library), (''linkage'', kw_linkage)
     , (''literal'', kw_literal), (''loop'', kw_loop), (''map'', kw_map), (''mod'', kw_mod)
     , (''nand'', kw_nand), (''new'', kw_new), (''next'', kw_next), (''nor'', kw_nor)
     , (''not'', kw_not), (''null'', kw_null), (''of'', kw_of), (''on'', kw_on)
     , (''open'', kw_open), (''or'', kw_or), (''others'', kw_others), (''out'', kw_out)
     , (''package'', kw_package), (''port'', kw_port), (''postponed'', kw_postponed)
     , (''procedural'', kw_procedural), (''procedure'', kw_procedure), (''process'', kw_process)
     , (''protected'', kw_protected), (''pure'', kw_pure), (''range'', kw_range)
     , (''record'', kw_record), (''reference'', kw_reference), (''reject'', kw_reject)
     , (''rem'', kw_rem), (''report'', kw_report), (''return'', kw_return), (''rol'', kw_rol)
     , (''ror'', kw_ror), (''select'', kw_select), (''severity'', kw_severity)
     , (''shared'', kw_shared), (''signal'', kw_signal), (''sla'', kw_sla), (''sll'', kw_sll)
     , (''sra'', kw_sra), (''srl'', kw_srl), (''subtype'', kw_subtype), (''then'', kw_then)
     , (''to'', kw_to), (''transport'', kw_transport), (''type'', kw_type)
     , (''units'', kw_units), (''until'', kw_until), (''use'', kw_use)
     , (''variable'', kw_variable), (''wait'', kw_wait), (''when'', kw_when)
     , (''while'', kw_while), (''with'', kw_with), (''xnor'', kw_xnor), (''xor'', kw_xor)]"
definition find_keyword :: "string \<Rightarrow> kind_t option" where
  "find_keyword s = map_of identifier_to_keyword s"

lemma identifier_to_keyword_spelled:
  "list_all (\<lambda>(s, k). get_token_string_view k = s \<and> is_reserved_word k) identifier_to_keyword"
  by (simp add: identifier_to_keyword_def is_reserved_word_def)

lemma identifier_to_keyword_distinct: "distinct (map fst identifier_to_keyword)"
  by (simp add: identifier_to_keyword_def)

lemma identifier_to_keyword_complete:
  "is_reserved_word k \<Longrightarrow> k \<noteq> kw_register \<Longrightarrow> k \<noteq> kw_unaffected \<Longrightarrow>
   (get_token_string_view k, k) \<in> set identifier_to_keyword"
proof (cases k)
  case (Kw_ad x)
  then show ?thesis by (cases x) (simp_all add: identifier_to_keyword_def)
next
  case (Kw_el x)
  then show ?thesis by (cases x) (simp_all add: identifier_to_keyword_def)
next
  case (Kw_mp x)
  then show ?thesis by (cases x) (simp_all add: identifier_to_keyword_def)
next
  assume "k \<noteq> kw_register" "k \<noteq> kw_unaffected"
  case (Kw_rx x)
  with \<open>k \<noteq> kw_register\<close> \<open>k \<noteq> kw_unaffected\<close> show ?thesis
    by (cases x) (simp_all add: identifier_to_keyword_def)
qed (simp_all add: is_reserved_word_def)

lemma find_keyword_iff: "find_keyword s = Some k \<longleftrightarrow> (s, k) \<in> set identifier_to_keyword"
  by (simp add: find_keyword_def identifier_to_keyword_distinct)

text \<open>C32. Looking a word up in the table of reserved words is the inverse of spelling a reserved word:
  a word is found exactly when it is the spelling of a reserved word, and then that word is what is
  found, for every reserved word of \<open>kind_t\<close> but \<open>register\<close> and \<open>unaffected\<close>, which the table
  does not have: the lexer never produces these two.\<close>

theorem find_keyword_spelling:
  "find_keyword s = Some k \<longleftrightarrow>
     is_reserved_word k \<and> k \<notin> {kw_register, kw_unaffected} \<and> get_token_string_view k = s"
proof
  assume "find_keyword s = Some k"
  then have "(s, k) \<in> set identifier_to_keyword" by (simp add: find_keyword_iff)
  moreover from this have "get_token_string_view k = s" "is_reserved_word k"
    using identifier_to_keyword_spelled by (auto simp: list_all_iff)
  moreover have "list_all (\<lambda>(s, k). k \<noteq> kw_register \<and> k \<noteq> kw_unaffected) identifier_to_keyword"
    by (simp add: identifier_to_keyword_def)
  ultimately show "is_reserved_word k \<and> k \<notin> {kw_register, kw_unaffected}
      \<and> get_token_string_view k = s"
    by (auto simp: list_all_iff)
next
  assume "is_reserved_word k \<and> k \<notin> {kw_register, kw_unaffected} \<and> get_token_string_view k = s"
  then show "find_keyword s = Some k"
    using identifier_to_keyword_complete [of k] by (auto simp: find_keyword_iff)
qed

section \<open>Tokens\<close>

record token =
  kind :: kind_t
  val :: string  \<comment> \<open>\<open>value\<close>\<close>
  is_delimiter :: bool
  is_identifier :: bool
  is_literal :: bool
  is_keyword :: bool
  loc :: location  \<comment> \<open>\<open>location\<close>\<close>

definition token_default :: token where
  \<comment> \<open>\<open>token()\<close>; it leaves the four flags uninitialised (any value would do here)\<close>
  "token_default = \<lparr>kind = tk_invalid, val = [], is_delimiter = False, is_identifier = False,
     is_literal = False, is_keyword = False, loc = location_initialize [] 0 0\<rparr>"

definition token_implicit :: "string \<Rightarrow> token" where
  \<comment> \<open>\<open>token(std::string_view)\<close>\<close>
  "token_implicit v = \<lparr>kind = tk_implicit, val = v, is_delimiter = False, is_identifier = True,
     is_literal = False, is_keyword = False, loc = location_initialize [] 1 1\<rparr>"

definition token_eq :: "token \<Rightarrow> token \<Rightarrow> bool" where
  "token_eq a b \<longleftrightarrow> kind a = kind b \<and> val a = val b \<and> location_eq (loc a) (loc b)"

definition token_neq :: "token \<Rightarrow> token \<Rightarrow> bool" where
  "token_neq a b \<longleftrightarrow> kind a \<noteq> kind b \<or> val a \<noteq> val b \<or> \<not> location_eq (loc a) (loc b)"

lemma token_neq_iff: "token_neq a b \<longleftrightarrow> \<not> token_eq a b"
  by (auto simp: token_neq_def token_eq_def)

end
