(* ===== verification/Char_Stream.thy ===== *)
theory Char_Stream
  imports Prelude
begin

text \<open>
  The cursor over a source text, \<^verbatim>\<open>src/vhdl/character_stream.cpp\<close>, and the character classes
  of its header.

  The stream is three pointers into a byte buffer. The model keeps the bytes, the offset
  \<open>current_ - start_\<close>, and the byte that lies at \<open>end_\<close>: the code reads that byte (\<open>current_char\<close>
  does not test for the end, \<open>next_char\<close> tests one position too late), and what it holds depends
  on the buffer. It is a NUL for the text of a \<open>std::string\<close> and unknown for the text of a
  \<open>std::vector<char>\<close>, which is what the parser of a source file is given. A \<open>char\<close> of the code is
  signed, so that the code's \<open>-96\<close> is the byte \<open>0xA0\<close>.
\<close>

section \<open>Character classes\<close>

abbreviation ord :: "char \<Rightarrow> nat" where "ord \<equiv> of_char"

definition is_graphic_character :: "char \<Rightarrow> bool" where
  "is_graphic_character c \<longleftrightarrow> (ord c \<ge> 0x20 \<and> ord c \<le> 0x7E) \<or> (ord c \<ge> 0xA0 \<and> ord c \<le> 0xFF)"

definition is_upper_case_letter :: "char \<Rightarrow> bool" where
  "is_upper_case_letter c \<longleftrightarrow>
     (ord c \<ge> 0x41 \<and> ord c \<le> 0x5A) \<or> (ord c \<ge> 0xC0 \<and> ord c \<le> 0xD6)
     \<or> (ord c \<ge> 0xD8 \<and> ord c \<le> 0xDE)"

definition is_digit :: "char \<Rightarrow> bool" where
  "is_digit c \<longleftrightarrow> ord c \<ge> 0x30 \<and> ord c \<le> 0x39"

text \<open>The case labels that the lexer's switches spell out.\<close>

definition is_upper :: "char \<Rightarrow> bool" where "is_upper c \<longleftrightarrow> ord c \<ge> 0x41 \<and> ord c \<le> 0x5A"
definition is_lower :: "char \<Rightarrow> bool" where "is_lower c \<longleftrightarrow> ord c \<ge> 0x61 \<and> ord c \<le> 0x7A"
definition plus_32 :: "char \<Rightarrow> char" where "plus_32 c = char_of (ord c + 32)"

section \<open>The stream\<close>

record char_stream =
  buf :: string
  cur :: nat  \<comment> \<open>\<open>current_ - start_\<close>\<close>
  past_end :: char  \<comment> \<open>\<open>*end_\<close>\<close>

abbreviation NUL :: char where "NUL \<equiv> CHR 0x00"

definition stream_new :: "string \<Rightarrow> char \<Rightarrow> char_stream" where
  "stream_new s e = \<lparr>buf = s, cur = 0, past_end = e\<rparr>"

definition stream_length :: "char_stream \<Rightarrow> nat" where
  "stream_length cs = length (buf cs)"

definition set_position :: "nat \<Rightarrow> char_stream \<Rightarrow> char_stream option" where
  \<comment> \<open>\<open>None\<close>: the assertion fails\<close>
  "set_position off cs = (if off < stream_length cs then Some (cs\<lparr>cur := off\<rparr>) else None)"

definition current_char :: "char_stream \<Rightarrow> char" where
  "current_char cs = (if cur cs < length (buf cs) then buf cs ! cur cs else past_end cs)"

definition next_char :: "char_stream \<Rightarrow> char" where
  "next_char cs =
     (if cur cs = length (buf cs) then NUL
      else if Suc (cur cs) < length (buf cs) then buf cs ! Suc (cur cs) else past_end cs)"

definition prev_char :: "char_stream \<Rightarrow> char" where
  "prev_char cs = (if cur cs = 0 then NUL else buf cs ! (cur cs - 1))"

definition look_ahead :: "nat \<Rightarrow> char_stream \<Rightarrow> char" where
  "look_ahead off cs = (if cur cs + off \<ge> length (buf cs) then NUL else buf cs ! (cur cs + off))"

definition advance :: "nat \<Rightarrow> char_stream \<Rightarrow> char_stream" where
  "advance off cs = cs\<lparr>cur := cur cs + off\<rparr>"

definition stream_next :: "char_stream \<Rightarrow> char_stream" where
  \<comment> \<open>\<open>next()\<close>; no caller looks at its result\<close>
  "stream_next cs = (if cur cs = length (buf cs) then cs else cs\<lparr>cur := cur cs + 1\<rparr>)"

definition end_of_stream :: "char_stream \<Rightarrow> bool" where
  "end_of_stream cs \<longleftrightarrow> cur cs \<ge> length (buf cs)"

definition is_eol :: "char \<Rightarrow> bool" where
  "is_eol c \<longleftrightarrow> c = CHR 0x0D \<or> c = CHR 0x0B \<or> c = CHR 0x0A \<or> c = CHR 0x0C"

text \<open>
  \<open>skip_to_eol\<close> compares with \<open>current_ != end_\<close>, so it would run away from a cursor beyond the
  end; the lexer calls it only from within the buffer, where this is the same as \<open><\<close>.
\<close>

function skip_to_eol :: "char_stream \<Rightarrow> char_stream" where
  "skip_to_eol cs =
     (if cur cs < length (buf cs) then
        if is_eol (current_char cs) then cs else skip_to_eol (cs\<lparr>cur := cur cs + 1\<rparr>)
      else cs)"
  by pat_completeness auto
termination by (relation "measure (\<lambda>cs. length (buf cs) - cur cs)") auto

declare skip_to_eol.simps [simp del]

section \<open>How the cursor moves\<close>

definition rest :: "char_stream \<Rightarrow> string" where
  "rest cs = drop (cur cs) (buf cs)"

definition in_bounds :: "char_stream \<Rightarrow> bool" where
  "in_bounds cs \<longleftrightarrow> cur cs \<le> length (buf cs)"

text \<open>\<open>moved cs cs'\<close>: the same text, and the cursor not moved back.\<close>

definition moved :: "char_stream \<Rightarrow> char_stream \<Rightarrow> bool" where
  "moved cs cs' \<longleftrightarrow> buf cs' = buf cs \<and> past_end cs' = past_end cs \<and> cur cs \<le> cur cs'"

lemma moved_refl [simp]: "moved cs cs" by (simp add: moved_def)

lemma moved_trans [trans]: "moved a b \<Longrightarrow> moved b c \<Longrightarrow> moved a c" by (simp add: moved_def)

lemma stream_next_moved [simp]: "moved cs (stream_next cs)"
  by (simp add: moved_def stream_next_def)

lemma advance_moved [simp]: "moved cs (advance n cs)"
  by (simp add: moved_def advance_def)

lemma stream_next_simps [simp]:
  "buf (stream_next cs) = buf cs"
  "past_end (stream_next cs) = past_end cs"
  by (simp_all add: stream_next_def)

lemma advance_simps [simp]:
  "buf (advance n cs) = buf cs"
  "past_end (advance n cs) = past_end cs"
  "cur (advance n cs) = cur cs + n"
  by (simp_all add: advance_def)

lemma cur_stream_next: "cur cs < length (buf cs) \<Longrightarrow> cur (stream_next cs) = Suc (cur cs)"
  by (simp add: stream_next_def)

lemma stream_next_in_bounds: "in_bounds cs \<Longrightarrow> in_bounds (stream_next cs)"
  by (auto simp: in_bounds_def stream_next_def)

lemma skip_to_eol_moved: "moved cs (skip_to_eol cs)"
proof (induction cs rule: skip_to_eol.induct)
  case (1 cs)
  show ?case
  proof (cases "cur cs < length (buf cs) \<and> \<not> is_eol (current_char cs)")
    case True
    then have "skip_to_eol cs = skip_to_eol (cs\<lparr>cur := cur cs + 1\<rparr>)"
      by (subst skip_to_eol.simps) simp
    with 1 True show ?thesis by (simp add: moved_def)
  next
    case False
    then have "skip_to_eol cs = cs" by (subst skip_to_eol.simps) auto
    then show ?thesis by simp
  qed
qed

lemma skip_to_eol_in_bounds: "in_bounds cs \<Longrightarrow> in_bounds (skip_to_eol cs)"
proof (induction cs rule: skip_to_eol.induct)
  case (1 cs)
  show ?case
  proof (cases "cur cs < length (buf cs) \<and> \<not> is_eol (current_char cs)")
    case True
    then have "skip_to_eol cs = skip_to_eol (cs\<lparr>cur := cur cs + 1\<rparr>)"
      by (subst skip_to_eol.simps) simp
    with 1 True show ?thesis by (simp add: in_bounds_def)
  next
    case False
    then have "skip_to_eol cs = cs" by (subst skip_to_eol.simps) auto
    with "1.prems" show ?thesis by simp
  qed
qed

text \<open>The same operations read off the text that is left.\<close>

lemma current_char_rest: "rest cs = c # r \<Longrightarrow> current_char cs = c"
  using nth_from_drop [of "cur cs" "buf cs" c r] by (auto simp: rest_def current_char_def)

lemma end_of_stream_rest: "end_of_stream cs \<longleftrightarrow> rest cs = []"
  by (auto simp: rest_def end_of_stream_def)

lemma rest_stream_next: "rest cs = c # r \<Longrightarrow> rest (stream_next cs) = r"
  using nth_from_drop [of "cur cs" "buf cs" c r]
  by (auto simp: rest_def stream_next_def)

lemma next_char_rest: "rest cs = c # d # r \<Longrightarrow> next_char cs = d"
  using nth_from_drop [of "cur cs" "buf cs" c "d # r"]
    nth_from_drop [of "Suc (cur cs)" "buf cs" d r]
  by (auto simp: rest_def next_char_def)

lemma next_char_rest_last: "rest cs = [c] \<Longrightarrow> next_char cs = past_end cs"
  using nth_from_drop [of "cur cs" "buf cs" c "[]"] by (auto simp: rest_def next_char_def)

lemma look_ahead_rest:
  "look_ahead n cs = (if n < length (rest cs) then rest cs ! n else NUL)"
  by (auto simp: look_ahead_def rest_def)

lemma rest_advance: "rest (advance n cs) = drop n (rest cs)"
  by (simp add: rest_def add.commute)

lemma rest_skip_to_eol: "rest (skip_to_eol cs) = dropWhile (\<lambda>c. \<not> is_eol c) (rest cs)"
proof (induction cs rule: skip_to_eol.induct)
  case (1 cs)
  show ?case
  proof (cases "rest cs")
    case Nil
    then show ?thesis
      by (subst skip_to_eol.simps) (simp add: rest_def)
  next
    case (Cons c r)
    then have lt: "cur cs < length (buf cs)" and c: "current_char cs = c"
      using nth_from_drop [of "cur cs" "buf cs" c r] by (auto simp: rest_def current_char_def)
    have r: "rest (cs\<lparr>cur := cur cs + 1\<rparr>) = r"
      using Cons nth_from_drop [of "cur cs" "buf cs" c r] by (simp add: rest_def)
    show ?thesis
    proof (cases "is_eol c")
      case True
      then have "skip_to_eol cs = cs" using c by (subst skip_to_eol.simps) simp
      then show ?thesis using True Cons by simp
    next
      case False
      then have "skip_to_eol cs = skip_to_eol (cs\<lparr>cur := cur cs + 1\<rparr>)"
        using lt c by (subst skip_to_eol.simps) simp
      then show ?thesis using 1 lt c False r Cons by simp
    qed
  qed
qed

end
