(* ===== verification/Lexer.thy ===== *)
theory Lexer
  imports Char_Stream Token Stringtable
begin

text \<open>
  The scanner, \<^verbatim>\<open>vhdl::lexer::_lex\<close> and what it calls, in \<^verbatim>\<open>src/vhdl/lexer.cpp\<close>.

  A lexing function takes the state and returns the token and the new state, or the assertion
  that failed. Two loops of the code have no bound of their own: the one of \<open>_lex\<close> itself and the
  one that collects an identifier, which never tests for the end of the text. They are
  \<open>partial_function\<close>s and \<open>None\<close> is their running for ever.
\<close>

section \<open>Messages\<close>

datatype message =
  Lsquare | Rsquare | Not_eq | Eq_eq | Hash_base | Lbracket | Rbracket | Xor_caret | Not_tilda
  | Question_mark | Tool_directive | Dollar_sign | At_sign | Vhdl87_extId | Id_start_under
  | Unterm_str | Multiline_str | Fmt_effect_str | Graphic_char | Graphic_str | Unterm_xid
  | Multiline_xid | Fmt_effect_xid | Graphic_xid | Unterm_bstr | Multiline_bstr | Fmt_effect_bstr
  | Graphic_bstr

primrec message_text :: "message \<Rightarrow> string" where
  "message_text Lsquare = '''[' is not a valid vhdl character. Use '(' instead''"
| "message_text Rsquare = ''']' is not a valid vhdl character. Use ')' instead''"
| "message_text Not_eq = '''!=' is not a valid vhdl operator. Use ''
     @ [CHR 0x27, CHR 0x5C] @ ''=' instead''"
| "message_text Eq_eq = '''==' is not used to compare in vhdl. Use '=' instead''"
| "message_text Hash_base =
     '''#' is used to define a base literal and it must be preceded by a base''"
| "message_text Lbracket = '''{' is not a valid vhdl character. Use '(' instead''"
| "message_text Rbracket = '''}' is not a valid vhdl character. Use ')' instead''"
| "message_text Xor_caret = '''^' is not a valid vhdl operator. Use 'xor' instead''"
| "message_text Not_tilda = '''~' is not a valid vhdl operator. Use 'not' instead''"
| "message_text Question_mark = '''?' can only be used in strings or comments''"
| "message_text Tool_directive = ''Tool directives are ignored''"
| "message_text Dollar_sign = '''$' can only be used in strings or comments''"
| "message_text At_sign = '''@' can only be used in strings or comments''"
| "message_text Vhdl87_extId = ''extended identifiers not allowed in vhdl87''"
| "message_text Id_start_under = ''Identifier cannot start with '_'' @ [CHR 0x27]"
| "message_text Unterm_str = ''Unterminated string.''"
| "message_text Multiline_str = ''Multi line string not allowed.''"
| "message_text Fmt_effect_str = ''Format effector not allowed in a string.''"
| "message_text Graphic_char = ''Expected a graphic character here''"
| "message_text Graphic_str = ''Invalid character in string.''"
| "message_text Unterm_xid = ''Unterminated extended identifier.''"
| "message_text Multiline_xid = ''Multi line extended identifier not allowed.''"
| "message_text Fmt_effect_xid = ''Format effector not allowed in a extended identifier.''"
| "message_text Graphic_xid = ''Invalid character in extended identifier.''"
| "message_text Unterm_bstr = ''Unterminated bit string.''"
| "message_text Multiline_bstr = ''Multi line bit string not allowed.''"
| "message_text Fmt_effect_bstr = ''Format effector not allowed in a bit string.''"
| "message_text Graphic_bstr = ''Invalid character in bit string.''"

section \<open>State\<close>

datatype lex_error = Assert_failed string | Memory mem_error

record lexer =
  vhdl_version :: version  \<comment> \<open>\<open>version_\<close>\<close>
  strings :: stringtable  \<comment> \<open>\<open>*stringtable_\<close>\<close>
  diagnostics :: "diagnostic list option"  \<comment> \<open>\<open>*diagnostics_\<close>, \<open>None\<close> the null pointer\<close>
  cs :: char_stream  \<comment> \<open>\<open>cs_\<close>\<close>
  yyltok :: kind_t  \<comment> \<open>\<open>yyltok_\<close>\<close>
  yylloc :: location  \<comment> \<open>\<open>yylloc_\<close>\<close>

text \<open>
  The constructor does not initialise \<open>yyltok_\<close>; what it happens to hold is the argument \<open>tok0\<close>.
  The table of reserved words that it fills is \<^const>\<open>identifier_to_keyword\<close>.
\<close>

definition lexer_new ::
    "string \<Rightarrow> char \<Rightarrow> stringtable \<Rightarrow> diagnostic list option \<Rightarrow> string \<Rightarrow> version \<Rightarrow> kind_t
     \<Rightarrow> lex_error + lexer" where
  "lexer_new s e st ds fn v tok0 =
     (case intern fn st of
        Inl err \<Rightarrow> Inl (Memory err)
      | Inr (f, st') \<Rightarrow>
          Inr \<lparr>vhdl_version = v, strings = st', diagnostics = ds, cs = stream_new s e,
               yyltok = tok0, yylloc = location_initialize f 1 1\<rparr>)"

definition diagnose :: "message \<Rightarrow> lexer \<Rightarrow> lexer" where
  "diagnose msg lx =
     (case diagnostics lx of
        None \<Rightarrow> lx
      | Some ds \<Rightarrow>
          lx\<lparr>diagnostics := Some (ds @ [new_diagnostic (message_text msg) (yylloc lx)])\<rparr>)"

text \<open>The statements \<open>cs_.next();\<close>, \<open>yylloc_.columns(n);\<close>, \<open>cs_.advance(n);\<close> and the pair
  \<open>cs_.next(); yylloc_.columns();\<close> that most branches start with.\<close>

definition lx_next :: "lexer \<Rightarrow> lexer" where
  "lx_next lx = lx\<lparr>cs := stream_next (cs lx)\<rparr>"

definition lx_columns :: "nat \<Rightarrow> lexer \<Rightarrow> lexer" where
  "lx_columns n lx = lx\<lparr>yylloc := location_columns (int n) (yylloc lx)\<rparr>"

definition lx_advance :: "nat \<Rightarrow> lexer \<Rightarrow> lexer" where
  "lx_advance n lx = lx\<lparr>cs := advance n (cs lx)\<rparr>"

definition lx_skip_to_eol :: "lexer \<Rightarrow> lexer" where
  "lx_skip_to_eol lx = lx\<lparr>cs := skip_to_eol (cs lx)\<rparr>"

definition bump :: "lexer \<Rightarrow> lexer" where
  "bump lx = lx_columns 1 (lx_next lx)"

definition lx_step :: "lexer \<Rightarrow> lexer" where
  "lx_step lx = lx\<lparr>yylloc := location_step (yylloc lx)\<rparr>"

abbreviation here :: "lexer \<Rightarrow> char" where "here lx \<equiv> current_char (cs lx)"
abbreviation at_end :: "lexer \<Rightarrow> bool" where "at_end lx \<equiv> end_of_stream (cs lx)"

definition lx_intern :: "string \<Rightarrow> lexer \<Rightarrow> lex_error + string \<times> lexer" where
  "lx_intern s lx =
     (case intern s (strings lx) of
        Inl err \<Rightarrow> Inl (Memory err)
      | Inr (sv, st') \<Rightarrow> Inr (sv, lx\<lparr>strings := st'\<rparr>))"

section \<open>Making a token\<close>

definition current_token_is_delimiter :: "kind_t \<Rightarrow> lexer \<Rightarrow> token \<times> lexer" where
  "current_token_is_delimiter k lx =
     (\<lparr>kind = k, val = get_token_string_view k, is_delimiter = True, is_identifier = False,
       is_literal = False, is_keyword = False, loc = yylloc lx\<rparr>, lx\<lparr>yyltok := k\<rparr>)"

definition current_token_is_identifier :: "kind_t \<Rightarrow> string \<Rightarrow> lexer \<Rightarrow> token \<times> lexer" where
  "current_token_is_identifier k sv lx =
     (\<lparr>kind = k, val = sv, is_delimiter = False, is_identifier = True,
       is_literal = False, is_keyword = False, loc = yylloc lx\<rparr>, lx\<lparr>yyltok := k\<rparr>)"

definition current_token_is_literal :: "kind_t \<Rightarrow> string \<Rightarrow> lexer \<Rightarrow> token \<times> lexer" where
  \<comment> \<open>the code does not use its third argument, the length\<close>
  "current_token_is_literal k sv lx =
     (\<lparr>kind = k, val = sv, is_delimiter = False, is_identifier = False,
       is_literal = True, is_keyword = False, loc = yylloc lx\<rparr>, lx\<lparr>yyltok := k\<rparr>)"

definition current_token_is_keyword :: "kind_t \<Rightarrow> lexer \<Rightarrow> token \<times> lexer" where
  "current_token_is_keyword k lx =
     (\<lparr>kind = k, val = get_token_string_view k, is_delimiter = False, is_identifier = False,
       is_literal = False, is_keyword = True, loc = yylloc lx\<rparr>, lx\<lparr>yyltok := k\<rparr>)"

text \<open>The tokens the code builds on the spot; they leave \<open>yyltok_\<close> alone.\<close>

definition plain_token :: "kind_t \<Rightarrow> lexer \<Rightarrow> token" where
  "plain_token k lx =
     \<lparr>kind = k, val = [], is_delimiter = False, is_identifier = False, is_literal = False,
      is_keyword = False, loc = yylloc lx\<rparr>"

definition reject :: "message \<Rightarrow> lexer \<Rightarrow> lex_error + token \<times> lexer" where
  \<comment> \<open>\<open>_diagnose(msg); return vhdl::token(invalid, "", ...);\<close>\<close>
  "reject msg lx = (let lx = diagnose msg lx in Inr (plain_token tk_invalid lx, lx))"

lemma bump_simps [simp]:
  "cs (bump lx) = stream_next (cs lx)"
  "strings (bump lx) = strings lx"
  "diagnostics (bump lx) = diagnostics lx"
  "vhdl_version (bump lx) = vhdl_version lx"
  "yyltok (bump lx) = yyltok lx"
  "yylloc (bump lx) = location_columns 1 (yylloc lx)"
  by (simp_all add: bump_def lx_columns_def lx_next_def)

lemma lx_next_simps [simp]:
  "cs (lx_next lx) = stream_next (cs lx)"
  "strings (lx_next lx) = strings lx"
  "diagnostics (lx_next lx) = diagnostics lx"
  "vhdl_version (lx_next lx) = vhdl_version lx"
  "yyltok (lx_next lx) = yyltok lx"
  "yylloc (lx_next lx) = yylloc lx"
  by (simp_all add: lx_next_def)

lemma lx_step_simps [simp]:
  "cs (lx_step lx) = cs lx"
  "strings (lx_step lx) = strings lx"
  "diagnostics (lx_step lx) = diagnostics lx"
  "vhdl_version (lx_step lx) = vhdl_version lx"
  "yyltok (lx_step lx) = yyltok lx"
  "yylloc (lx_step lx) = location_step (yylloc lx)"
  by (simp_all add: lx_step_def)

lemma lx_columns_simps [simp]:
  "cs (lx_columns n lx) = cs lx"
  "strings (lx_columns n lx) = strings lx"
  "diagnostics (lx_columns n lx) = diagnostics lx"
  "vhdl_version (lx_columns n lx) = vhdl_version lx"
  "yyltok (lx_columns n lx) = yyltok lx"
  "yylloc (lx_columns n lx) = location_columns (int n) (yylloc lx)"
  by (simp_all add: lx_columns_def)

lemma lx_advance_simps [simp]:
  "cs (lx_advance n lx) = advance n (cs lx)"
  "strings (lx_advance n lx) = strings lx"
  "diagnostics (lx_advance n lx) = diagnostics lx"
  "vhdl_version (lx_advance n lx) = vhdl_version lx"
  "yyltok (lx_advance n lx) = yyltok lx"
  "yylloc (lx_advance n lx) = yylloc lx"
  by (simp_all add: lx_advance_def)

lemma lx_skip_to_eol_simps [simp]:
  "cs (lx_skip_to_eol lx) = skip_to_eol (cs lx)"
  "strings (lx_skip_to_eol lx) = strings lx"
  "diagnostics (lx_skip_to_eol lx) = diagnostics lx"
  "vhdl_version (lx_skip_to_eol lx) = vhdl_version lx"
  "yyltok (lx_skip_to_eol lx) = yyltok lx"
  "yylloc (lx_skip_to_eol lx) = yylloc lx"
  by (simp_all add: lx_skip_to_eol_def)

lemma diagnose_simps [simp]:
  "cs (diagnose m lx) = cs lx"
  "strings (diagnose m lx) = strings lx"
  "vhdl_version (diagnose m lx) = vhdl_version lx"
  "yyltok (diagnose m lx) = yyltok lx"
  "yylloc (diagnose m lx) = yylloc lx"
  by (simp_all add: diagnose_def split: option.splits)

section \<open>Strings, characters, extended identifiers\<close>

abbreviation QUOTE :: char where "QUOTE \<equiv> CHR 0x22"
abbreviation PERCENT :: char where "PERCENT \<equiv> CHR 0x25"
abbreviation TICK :: char where "TICK \<equiv> CHR 0x27"
abbreviation BACKSLASH :: char where "BACKSLASH \<equiv> CHR 0x5C"
abbreviation CR :: char where "CR \<equiv> CHR 0x0D"
abbreviation LF :: char where "LF \<equiv> CHR 0x0A"
abbreviation VT :: char where "VT \<equiv> CHR 0x0B"
abbreviation FF :: char where "FF \<equiv> CHR 0x0C"
abbreviation TAB :: char where "TAB \<equiv> CHR 0x09"
abbreviation NBSP :: char where "NBSP \<equiv> CHR 0xA0"

text \<open>The label \<open>again:\<close> of \<open>_lex_string\<close>.\<close>

function lex_string_again :: "char \<Rightarrow> string \<Rightarrow> lexer \<Rightarrow> lex_error + token \<times> lexer" where
  "lex_string_again quote str lx0 =
     (let lx = bump lx0; c = here lx in
      if at_end lx then reject Unterm_str lx
      else if c = PERCENT \<or> c = QUOTE then
        if c \<noteq> quote then lex_string_again quote (str @ [c]) lx
        else if next_char (cs lx) \<noteq> quote then
          sbind (lx_intern (str @ [c]) (bump lx))
            (\<lambda>(sv, lx). Inr (current_token_is_literal tk_stringliteral sv lx))
        else
          let lx = lx_next lx in lex_string_again quote (str @ [here lx]) lx
      else if c = CR \<or> c = LF then reject Multiline_str lx
      else if c = VT \<or> c = FF \<or> c = TAB then reject Fmt_effect_str lx
      else if \<not> is_graphic_character c then lex_string_again quote str (diagnose Graphic_str lx)
      else lex_string_again quote (str @ [c]) lx)"
  by pat_completeness auto
termination
  by (relation "measure (\<lambda>(q, str, lx). length (buf (cs lx)) - cur (cs lx))")
    (auto simp: end_of_stream_def stream_next_def split: if_splits)

declare lex_string_again.simps [simp del]

definition lex_string :: "lexer \<Rightarrow> lex_error + token \<times> lexer" where
  "lex_string lx =
     (let quote = here lx in
      if \<not> (quote = QUOTE \<or> quote = PERCENT) then Inl (Assert_failed ''quote'')
      else lex_string_again quote [quote] lx)"

definition lex_character :: "lexer \<Rightarrow> lex_error + token \<times> lexer" where
  "lex_character lx =
     (if here lx \<noteq> TICK then Inl (Assert_failed ''tick'')
      else if look_ahead 2 (cs lx) \<noteq> TICK then Inl (Assert_failed ''tick'')
      else
        let c = look_ahead 1 (cs lx) in
        if is_graphic_character c then
          sbind (lx_intern [TICK, c, TICK] (lx_columns 3 (lx_advance 3 lx)))
            (\<lambda>(sv, lx). Inr (current_token_is_literal tk_character sv lx))
        else reject Graphic_char lx)"

function lex_extended_identifier_again :: "string \<Rightarrow> lexer \<Rightarrow> lex_error + token \<times> lexer" where
  "lex_extended_identifier_again str lx0 =
     (let lx = bump lx0; c = here lx in
      if at_end lx then reject Unterm_xid lx
      else if c = BACKSLASH then
        if next_char (cs lx) \<noteq> BACKSLASH then
          sbind (lx_intern str (lx_next lx))
            (\<lambda>(sv, lx). Inr (current_token_is_literal tk_extended_identifier sv lx))
        else
          let lx = lx_next lx in lex_extended_identifier_again (str @ [here lx]) lx
      else if c = CR \<or> c = LF then reject Multiline_xid lx
      else if c = VT \<or> c = FF \<or> c = TAB then reject Fmt_effect_xid lx
      else if \<not> is_graphic_character c then
        lex_extended_identifier_again str (diagnose Graphic_xid lx)
      else lex_extended_identifier_again (str @ [c]) lx)"
  by pat_completeness auto
termination
  by (relation "measure (\<lambda>(str, lx). length (buf (cs lx)) - cur (cs lx))")
    (auto simp: end_of_stream_def stream_next_def split: if_splits)

declare lex_extended_identifier_again.simps [simp del]

definition lex_extended_identifier :: "lexer \<Rightarrow> lex_error + token \<times> lexer" where
  "lex_extended_identifier lx =
     (if here lx \<noteq> BACKSLASH then Inl (Assert_failed ''backslash'')
      else lex_extended_identifier_again [BACKSLASH] lx)"

section \<open>Bit strings\<close>

function lex_bitstring_again :: "char \<Rightarrow> string \<Rightarrow> lexer \<Rightarrow> lex_error + token \<times> lexer" where
  "lex_bitstring_again quote str lx0 =
     (let lx = bump lx0; c = here lx in
      if at_end lx then reject Unterm_bstr lx
      else if c = PERCENT \<or> c = QUOTE then
        if c \<noteq> quote then lex_bitstring_again quote (str @ [c]) lx
        else if next_char (cs lx) \<noteq> quote then
          sbind (lx_intern (str @ [c]) (lx_next lx))
            (\<lambda>(sv, lx). Inr (current_token_is_literal tk_bitstring sv lx))
        else
          let lx = lx_next lx in lex_bitstring_again quote (str @ [here lx]) lx
      else if c = CHR ''_'' then
        let lx = bump lx in lex_bitstring_again quote (str @ [here lx]) lx
      else if c = CR \<or> c = LF then reject Multiline_bstr lx
      else if c = VT \<or> c = FF \<or> c = TAB then reject Fmt_effect_bstr lx
      else if \<not> is_graphic_character c then
        lex_bitstring_again quote str (diagnose Graphic_bstr lx)
      else lex_bitstring_again quote (str @ [c]) lx)"
  by pat_completeness auto
termination
  by (relation "measure (\<lambda>(q, str, lx). length (buf (cs lx)) - cur (cs lx))")
    (auto simp: end_of_stream_def stream_next_def split: if_splits)

declare lex_bitstring_again.simps [simp del]

definition lex_bitstring :: "lexer \<Rightarrow> lex_error + token \<times> lexer" where
  "lex_bitstring lx0 =
     (let base = here lx0; lx = bump lx0; quote = here lx in
      if \<not> (quote = QUOTE \<or> quote = PERCENT) then Inl (Assert_failed ''quote'')
      else lex_bitstring_again quote [base, quote] lx)"

section \<open>Identifiers and reserved words\<close>

text \<open>
  The label \<open>again:\<close> of \<open>_lex_identifier_or_keyword_or_bitstring\<close>; \<open>start\<close> is where the
  identifier began. The loop reads \<open>current_char\<close> without testing for the end of the text.
\<close>

definition finish_identifier :: "string \<Rightarrow> lexer \<Rightarrow> lex_error + token \<times> lexer" where
  "finish_identifier identifier lx =
     sbind (lx_intern identifier lx)
       (\<lambda>(sv, lx). case find_keyword sv of
           None \<Rightarrow> Inr (current_token_is_identifier tk_identifier sv lx)
         | Some k \<Rightarrow> Inr (current_token_is_keyword k lx))"

definition end_of_identifier ::
    "nat \<Rightarrow> string \<Rightarrow> lexer \<Rightarrow> lex_error + token \<times> lexer" where
  \<comment> \<open>the cases \<open>'"'\<close>, \<open>'%'\<close> and \<open>default\<close>\<close>
  "end_of_identifier start identifier lx =
     (if (here lx = QUOTE \<or> here lx = PERCENT) \<and> int (cur (cs lx)) - int start = 1 then
        case set_position start (cs lx) of
          None \<Rightarrow> Inl (Assert_failed ''set_position'')
        | Some s \<Rightarrow> lex_bitstring (lx\<lparr>cs := s\<rparr>)
      else finish_identifier identifier lx)"

partial_function (option) lex_identifier_again ::
    "nat \<Rightarrow> string \<Rightarrow> lexer \<Rightarrow> (lex_error, token \<times> lexer) outcome" where
  "lex_identifier_again start identifier lx =
     (let c = here lx in
      if is_upper c then lex_identifier_again start (identifier @ [plus_32 c]) (bump lx)
      else if is_lower c \<or> is_digit c \<or> c = CHR ''_'' then
        lex_identifier_again start (identifier @ [c]) (bump lx)
      else Some (end_of_identifier start identifier lx))"

declare lex_identifier_again.simps [code]

definition lex_identifier_or_keyword_or_bitstring ::
    "lexer \<Rightarrow> (lex_error, token \<times> lexer) outcome" where
  "lex_identifier_or_keyword_or_bitstring lx = lex_identifier_again (cur (cs lx)) [] lx"

section \<open>Numbers\<close>

text \<open>The callers ignore the boolean that \<open>_lex_integer\<close> and \<open>_lex_based_integer\<close> return.\<close>

function lex_integer :: "string \<Rightarrow> lexer \<Rightarrow> string \<times> lexer" where
  "lex_integer str lx =
     (if \<not> at_end lx then
        if is_digit (here lx) then lex_integer (str @ [here lx]) (bump lx)
        else if here lx = CHR ''_'' then lex_integer str (bump lx)
        else (str, lx)
      else (str, lx))"
  by pat_completeness auto
termination
  by (relation "measure (\<lambda>(str, lx). length (buf (cs lx)) - cur (cs lx))")
    (auto simp: end_of_stream_def stream_next_def split: if_splits)

declare lex_integer.simps [simp del]

definition is_hex_upper :: "char \<Rightarrow> bool" where
  "is_hex_upper c \<longleftrightarrow> ord c \<ge> 0x41 \<and> ord c \<le> 0x46"

definition is_hex_lower :: "char \<Rightarrow> bool" where
  "is_hex_lower c \<longleftrightarrow> ord c \<ge> 0x61 \<and> ord c \<le> 0x66"

function lex_based_integer :: "string \<Rightarrow> lexer \<Rightarrow> string \<times> lexer" where
  "lex_based_integer str lx =
     (if \<not> at_end lx then
        if is_digit (here lx) then lex_based_integer (str @ [here lx]) (bump lx)
        else if is_hex_upper (here lx) then lex_based_integer (str @ [here lx]) (bump lx)
        else if is_hex_lower (here lx) then lex_based_integer (str @ [here lx]) (bump lx)
        else if here lx = CHR ''_'' then lex_based_integer str (bump lx)
        else (str, lx)
      else (str, lx))"
  by pat_completeness auto
termination
  by (relation "measure (\<lambda>(str, lx). length (buf (cs lx)) - cur (cs lx))")
    (auto simp: end_of_stream_def stream_next_def split: if_splits)

declare lex_based_integer.simps [simp del]

text \<open>\<open>str.push_back(cs_.current_char()); cs_.next(); yylloc_.columns();\<close>\<close>

definition keep :: "string \<times> lexer \<Rightarrow> string \<times> lexer" where
  "keep r = (case r of (str, lx) \<Rightarrow> (str @ [here lx], bump lx))"

text \<open>
  The fraction and the exponent are the same code in both halves of \<open>_lex_number\<close>, up to which
  integers they read; \<open>digits\<close> is \<open>_lex_based_integer\<close> after a \<open>#\<close> and \<open>_lex_integer\<close> otherwise.
\<close>

definition lex_fraction ::
    "(string \<Rightarrow> lexer \<Rightarrow> string \<times> lexer) \<Rightarrow> string \<times> lexer \<Rightarrow> bool \<times> string \<times> lexer" where
  "lex_fraction digits r =
     (if here (snd r) = CHR ''.'' then
        let (str, lx) = keep r in (False, digits str lx)
      else (True, r))"

definition lex_exponent ::
    "(string \<Rightarrow> lexer \<Rightarrow> string \<times> lexer) \<Rightarrow> string \<times> lexer \<Rightarrow> string \<times> lexer" where
  "lex_exponent digits r =
     (if here (snd r) = CHR ''e'' \<or> here (snd r) = CHR ''E'' then
        let r = keep r;
            r = (if here (snd r) = CHR ''+'' then keep r
                 else if here (snd r) = CHR ''-'' then keep r
                 else r)
        in digits (fst r) (snd r)
      else r)"

definition finish_number :: "bool \<Rightarrow> string \<times> lexer \<Rightarrow> lex_error + token \<times> lexer" where
  "finish_number this_is_an_integer_literal r =
     (let k = (if this_is_an_integer_literal then tk_integer else tk_real) in
      sbind (lx_intern (fst r) (snd r))
        (\<lambda>(sv, lx). Inr (current_token_is_literal k sv lx)))"

definition lex_number :: "lexer \<Rightarrow> lex_error + token \<times> lexer" where
  "lex_number lx =
     (if \<not> is_digit (here lx) then Inl (Assert_failed ''digit'')
      else
        let r = lex_integer [] lx in
        if here (snd r) = CHR ''#'' then
          let (str, lx) = keep r;
              (whole, r) = lex_fraction lex_based_integer (lex_based_integer str lx)
          in
          if here (snd r) \<noteq> CHR ''#'' then Inl (Assert_failed ''fix me'')
          else
            let (str, lx) = keep r in
            finish_number whole (lex_exponent lex_based_integer (lex_based_integer str lx))
        else
          let (whole, r) = lex_fraction lex_integer r in
          finish_number whole (lex_exponent lex_integer r))"

section \<open>The switch of \<open>_lex\<close>\<close>

text \<open>
  What one turn of the loop of \<open>_lex\<close> does: \<open>Some t\<close> is \<open>return t\<close>, \<open>None\<close> is \<open>break\<close>. The
  switch is split by its sections; a section returns \<open>None\<close> for a character it has no case for.
\<close>

type_synonym turn = "token option \<times> lexer"

definition return_delimiter :: "kind_t \<Rightarrow> lexer \<Rightarrow> turn" where
  "return_delimiter k lx = (let (t, lx) = current_token_is_delimiter k lx in (Some t, lx))"

definition break_turn :: "lexer \<Rightarrow> turn" where "break_turn lx = (None, lx)"

definition bump2 :: "lexer \<Rightarrow> lexer" where
  \<comment> \<open>\<open>cs_.advance(2); yylloc_.columns(2);\<close>\<close>
  "bump2 lx = lx_columns 2 (lx_advance 2 lx)"

text \<open>The special characters that are a delimiter or begin one, lines 448 to 611.\<close>

definition turn_special :: "char \<Rightarrow> lexer \<Rightarrow> turn option" where
  "turn_special c lx =
     (if c = CHR ''#'' then Some (break_turn (diagnose Hash_base (bump lx)))
      else if c = CHR ''&'' then Some (return_delimiter tk_concat (bump lx))
      else if c = CHR ''('' then Some (return_delimiter tk_leftpar (bump lx))
      else if c = CHR '')'' then Some (return_delimiter tk_rightpar (bump lx))
      else if c = CHR ''*'' then
        let lx = bump lx in
        if here lx \<noteq> CHR ''*'' then Some (return_delimiter tk_times lx)
        else Some (return_delimiter tk_pow (bump lx))
      else if c = CHR ''+'' then Some (return_delimiter tk_plus (bump lx))
      else if c = CHR '','' then Some (return_delimiter tk_comma (bump lx))
      else if c = CHR ''-'' then
        let lx = bump lx in
        if here lx \<noteq> CHR ''-'' then Some (return_delimiter tk_minus lx)
        else Some (break_turn (lx_skip_to_eol lx))
      else if c = CHR ''.'' then Some (return_delimiter tk_dot (bump lx))
      else if c = CHR ''/'' then
        let lx = bump lx in
        if here lx \<noteq> CHR ''='' then Some (return_delimiter tk_div lx)
        else Some (return_delimiter tk_ne (bump lx))
      else if c = CHR '':'' then
        let lx = bump lx in
        if here lx \<noteq> CHR ''='' then Some (return_delimiter tk_colon lx)
        else Some (return_delimiter tk_coloneq (bump lx))
      else if c = CHR '';'' then Some (return_delimiter tk_semicolon (bump lx))
      else None)"

definition turn_relational :: "char \<Rightarrow> lexer \<Rightarrow> turn option" where
  "turn_relational c lx =
     (let d = look_ahead 1 (cs lx) in
      if c = CHR ''<'' then
        if d = CHR ''='' then Some (return_delimiter tk_lte (bump2 lx))
        else if d = CHR ''>'' then Some (return_delimiter tk_box (bump2 lx))
        else Some (return_delimiter tk_lt (bump lx))
      else if c = CHR ''='' then
        if d = CHR ''>'' then Some (return_delimiter tk_rightarrow (bump2 lx))
        else if d = CHR ''='' then Some (return_delimiter tk_eq (diagnose Eq_eq (bump2 lx)))
        else Some (return_delimiter tk_eq (bump lx))
      else if c = CHR ''>'' then
        if d = CHR ''='' then Some (return_delimiter tk_gte (bump2 lx))
        else Some (return_delimiter tk_gt (bump lx))
      else if c = CHR ''['' then
        let lx = bump lx in
        if vhdl_version lx = vhdl87 then Some (return_delimiter tk_leftpar (diagnose Lsquare lx))
        else Some (return_delimiter tk_leftsquare lx)
      else if c = CHR '']'' then
        let lx = bump lx in
        if vhdl_version lx = vhdl87 then Some (return_delimiter tk_rightpar (diagnose Lsquare lx))
        else Some (return_delimiter tk_rightsquare lx)
      else if c = CHR ''|'' then Some (return_delimiter tk_bar (bump lx))
      else None)"

text \<open>The number of characters the space case jumps over: from the second on, spaces and no-break
  spaces, but no tabs.\<close>

function blanks_from :: "nat \<Rightarrow> char \<Rightarrow> char_stream \<Rightarrow> nat" where
  "blanks_from l c s =
     (if c = CHR '' '' \<or> c = NBSP then blanks_from (l + 1) (look_ahead (l + 1) s) s else l)"
  by pat_completeness auto
termination
  by (relation "measure (\<lambda>(l, c, s). if c = CHR '' '' \<or> c = NBSP
      then Suc (Suc (length (buf s)) - l) else 0)")
    (auto simp: look_ahead_def split: if_splits)

declare blanks_from.simps [simp del]

text \<open>Format effectors and spaces, lines 616 to 646.\<close>

definition turn_space :: "char \<Rightarrow> lexer \<Rightarrow> turn option" where
  "turn_space c lx =
     (if c = CHR '' '' \<or> c = TAB then
        let l = blanks_from 1 (next_char (cs lx)) (cs lx) in
        Some (break_turn (lx_advance l (lx_columns l lx)))
      else if c = NBSP then Some (break_turn (bump lx))
      else if c = CR \<or> c = VT \<or> c = LF \<or> c = FF then
        let lx = (if c = CR \<and> look_ahead 1 (cs lx) = LF then lx_next lx else lx) in
        Some (break_turn (lx_next (lx\<lparr>yylloc := location_lines 1 (yylloc lx)\<rparr>)))
      else None)"

text \<open>Characters that are not of the language, or stand in for another one, lines 648 to 729.\<close>

definition turn_other :: "char \<Rightarrow> lexer \<Rightarrow> turn" where
  "turn_other c lx =
     (if c = CHR ''!'' then
        let lx = bump lx in
        if here lx \<noteq> CHR ''='' then return_delimiter tk_bar lx
        else return_delimiter tk_ne (diagnose Not_eq (bump lx))
      else if c = CHR ''{'' then return_delimiter tk_leftpar (diagnose Lbracket (bump lx))
      else if c = CHR ''}'' then return_delimiter tk_rightpar (diagnose Rbracket (bump lx))
      else if c = CHR ''^'' then return_delimiter kw_xor (diagnose Xor_caret (bump lx))
      else if c = CHR ''~'' then return_delimiter kw_not (diagnose Not_tilda (bump lx))
      else if c = CHR ''?'' then break_turn (diagnose Question_mark (bump lx))
      else if c = CHR 0x60 then
        let lx = diagnose Tool_directive (bump lx) in
        break_turn (lx_skip_to_eol lx)
      else if c = CHR ''$'' then break_turn (diagnose Dollar_sign (bump lx))
      else if c = CHR ''@'' then break_turn (diagnose At_sign (bump lx))
      else break_turn (bump lx))"

definition return_token :: "lex_error + token \<times> lexer \<Rightarrow> (lex_error, turn) outcome" where
  "return_token r = Some (sbind r (\<lambda>(t, lx). Inr (Some t, lx)))"

definition tick_is_delimiter_after :: "kind_t \<Rightarrow> bool" where
  "tick_is_delimiter_after k \<longleftrightarrow> k \<in> {tk_rightsquare, tk_rightpar, kw_all, tk_identifier}"

definition lex_turn :: "lexer \<Rightarrow> (lex_error, turn) outcome" where
  "lex_turn lx0 =
     (let lx = lx_step lx0; c = here lx in
      if c = CHR ''_'' then
        obind (lex_identifier_or_keyword_or_bitstring (diagnose Id_start_under lx))
          (\<lambda>(t, lx). Some (Inr (Some t, lx)))
      else if is_upper c \<or> is_lower c then
        obind (lex_identifier_or_keyword_or_bitstring lx) (\<lambda>(t, lx). Some (Inr (Some t, lx)))
      else if is_digit c then return_token (lex_number lx)
      else if c = QUOTE then return_token (lex_string lx)
      else if c = TICK then
        if look_ahead 2 (cs lx) = TICK \<and> \<not> tick_is_delimiter_after (yyltok lx)
        then return_token (lex_character lx)
        else Some (Inr (return_delimiter tk_tick (bump lx)))
      else if c = PERCENT then return_token (lex_string lx)
      else if c = BACKSLASH then
        return_token (lex_extended_identifier
          (if vhdl_version lx = vhdl87 then diagnose Vhdl87_extId lx else lx))
      else
        case turn_special c lx of
          Some r \<Rightarrow> Some (Inr r)
        | None \<Rightarrow>
            (case turn_relational c lx of
               Some r \<Rightarrow> Some (Inr r)
             | None \<Rightarrow>
                 (case turn_space c lx of
                    Some r \<Rightarrow> Some (Inr r)
                  | None \<Rightarrow> Some (Inr (turn_other c lx)))))"

partial_function (option) lex :: "lexer \<Rightarrow> (lex_error, token \<times> lexer) outcome" where
  "lex lx =
     (if at_end lx then let lx = lx_step lx in Some (Inr (plain_token tk_eof lx, lx))
      else obind (lex_turn lx) (\<lambda>r.
        case fst r of Some t \<Rightarrow> Some (Inr (t, snd r)) | None \<Rightarrow> lex (snd r)))"

declare lex.simps [code]

end
