(* ===== verification/Lexer_Facts.thy ===== *)
theory Lexer_Facts
  imports Lexer
begin

text \<open>
  What every run of the scanner keeps: the text and the version, the order of the cursor, its
  bounds, the string table's invariant, the diagnostics already made. From it: the scanner
  returns, makes progress and stays in its buffer, and where it does not.
\<close>

section \<open>The frame of a lexing function\<close>

definition dias :: "lexer \<Rightarrow> diagnostic list" where
  "dias lx = (case diagnostics lx of None \<Rightarrow> [] | Some ds \<Rightarrow> ds)"

definition lexed :: "lexer \<Rightarrow> lexer \<Rightarrow> bool" where
  "lexed lx lx' \<longleftrightarrow>
     vhdl_version lx' = vhdl_version lx \<and> moved (cs lx) (cs lx')
     \<and> (in_bounds (cs lx) \<longrightarrow> in_bounds (cs lx'))
     \<and> (st_inv (strings lx) \<longrightarrow> st_inv (strings lx'))
     \<and> (\<exists>ds. dias lx' = dias lx @ ds)"

lemma lexed_refl [simp]: "lexed lx lx"
  by (simp add: lexed_def)

lemma lexed_trans [trans]: "lexed a b \<Longrightarrow> lexed b c \<Longrightarrow> lexed a c"
  unfolding lexed_def using moved_trans by fastforce

lemma lexed_bump [simp]: "lexed lx (bump lx)"
  by (simp add: lexed_def dias_def stream_next_in_bounds)

lemma lexed_next [simp]: "lexed lx (lx_next lx)"
  by (simp add: lexed_def dias_def stream_next_in_bounds)

lemma lexed_step [simp]: "lexed lx (lx_step lx)"
  by (simp add: lexed_def dias_def)

lemma lexed_columns [simp]: "lexed lx (lx_columns n lx)"
  by (simp add: lexed_def dias_def)

lemma lexed_diagnose [simp]: "lexed lx (diagnose m lx)"
  by (simp add: lexed_def dias_def diagnose_def split: option.splits)

lemma lexed_advance: "cur (cs lx) + n \<le> length (buf (cs lx)) \<Longrightarrow> lexed lx (lx_advance n lx)"
  by (simp add: lexed_def dias_def in_bounds_def)

lemma lexed_yyltok [simp]: "lexed lx (lx\<lparr>yyltok := k\<rparr>)"
  by (simp add: lexed_def dias_def)

lemma lexed_yylloc [simp]: "lexed lx (lx\<lparr>yylloc := l\<rparr>)"
  by (simp add: lexed_def dias_def)

lemma lexed_skip [simp]: "lexed lx (lx_skip_to_eol lx)"
  by (simp add: lexed_def dias_def skip_to_eol_moved skip_to_eol_in_bounds)

lemma lexed_intern: "lx_intern s lx = Inr (sv, lx') \<Longrightarrow> lexed lx lx' \<and> cs lx' = cs lx"
  by (auto simp: lx_intern_def lexed_def dias_def intern_inv split: sum.splits)

lemma lexed_literal [simp]: "lexed lx (snd (current_token_is_literal k sv lx))"
  by (simp add: current_token_is_literal_def)

lemma lexed_reject: "reject m lx = Inr (t, lx') \<Longrightarrow> lexed lx lx'"
  by (auto simp: reject_def Let_def)

lemma lexed_intern_literal:
  assumes "sbind (lx_intern s lx) (\<lambda>(sv, lx). Inr (current_token_is_literal k sv lx)) = Inr (t, lx')"
  shows "lexed lx lx' \<and> cs lx' = cs lx"
  using assms lexed_intern
  by (fastforce simp: sbind_Inr_iff current_token_is_literal_def intro: lexed_trans)

definition left :: "lexer \<Rightarrow> nat" where
  "left lx = length (buf (cs lx)) - cur (cs lx)"

lemma left_lexed: "lexed lx lx' \<Longrightarrow> left lx' \<le> left lx"
  by (auto simp: left_def lexed_def moved_def)

lemma left_bump: "\<not> at_end lx \<Longrightarrow> left (bump lx) < left lx"
  by (auto simp: left_def end_of_stream_def stream_next_def)

lemma not_at_end_bump: "\<not> at_end (bump lx) \<Longrightarrow> \<not> at_end lx"
  by (auto simp: end_of_stream_def stream_next_def split: if_splits)

lemma left_again: "\<not> at_end (bump lx) \<Longrightarrow> lexed (bump lx) lx1 \<Longrightarrow> left lx1 < left lx"
  using left_lexed [of "bump lx" lx1] left_bump [of lx] not_at_end_bump [of lx] by simp

lemma lexed_from_bump: "lexed (bump lx) lx' \<Longrightarrow> lexed lx lx'"
  by (rule lexed_trans [OF lexed_bump])

lemma lex_string_again_lexed:
  "lex_string_again q str lx = Inr (t, lx') \<Longrightarrow> lexed (bump lx) lx'"
proof (induction "left lx" arbitrary: str lx rule: less_induct)
  case less
  have again: "lexed (bump lx) lx'"
    if "lex_string_again q s lx1 = Inr (t, lx')" "\<not> at_end (bump lx)" "lexed (bump lx) lx1"
    for s lx1
    using less.hyps [OF left_again that(1)] that by (blast intro: lexed_from_bump lexed_trans)
  show ?case
    using less.prems [unfolded lex_string_again.simps [of q str lx] Let_def]
    by (auto split: if_splits intro: again lexed_reject dest!: lexed_intern_literal
        intro: lexed_from_bump)
qed

lemma lex_extended_identifier_again_lexed:
  "lex_extended_identifier_again str lx = Inr (t, lx') \<Longrightarrow> lexed (bump lx) lx'"
proof (induction "left lx" arbitrary: str lx rule: less_induct)
  case less
  have again: "lexed (bump lx) lx'"
    if "lex_extended_identifier_again s lx1 = Inr (t, lx')" "\<not> at_end (bump lx)"
      "lexed (bump lx) lx1" for s lx1
    using less.hyps [OF left_again that(1)] that by (blast intro: lexed_from_bump lexed_trans)
  show ?case
    using less.prems [unfolded lex_extended_identifier_again.simps [of str lx] Let_def]
    by (auto split: if_splits intro: again lexed_reject dest!: lexed_intern_literal
        intro: lexed_trans [OF lexed_next])
qed

lemma lex_bitstring_again_lexed:
  "lex_bitstring_again q str lx = Inr (t, lx') \<Longrightarrow> lexed (bump lx) lx'"
proof (induction "left lx" arbitrary: str lx rule: less_induct)
  case less
  have again: "lexed (bump lx) lx'"
    if "lex_bitstring_again q s lx1 = Inr (t, lx')" "\<not> at_end (bump lx)" "lexed (bump lx) lx1"
    for s lx1
    using less.hyps [OF left_again that(1)] that by (blast intro: lexed_from_bump lexed_trans)
  show ?case
    using less.prems [unfolded lex_bitstring_again.simps [of q str lx] Let_def]
    by (auto split: if_splits intro: again lexed_reject dest!: lexed_intern_literal
        intro: lexed_trans [OF lexed_next])
qed

lemma lex_integer_lexed: "lex_integer str lx = (str', lx') \<Longrightarrow> lexed lx lx'"
proof (induction "left lx" arbitrary: str lx rule: less_induct)
  case less
  have again: "lexed lx lx'" if "lex_integer s (bump lx) = (str', lx')" "\<not> at_end lx" for s
    using less.hyps [OF left_bump that(1)] that by (blast intro: lexed_from_bump)
  show ?case
    using less.prems [unfolded lex_integer.simps [of str lx]]
    by (auto split: if_splits intro: again)
qed

lemma lex_based_integer_lexed: "lex_based_integer str lx = (str', lx') \<Longrightarrow> lexed lx lx'"
proof (induction "left lx" arbitrary: str lx rule: less_induct)
  case less
  have again: "lexed lx lx'" if "lex_based_integer s (bump lx) = (str', lx')" "\<not> at_end lx" for s
    using less.hyps [OF left_bump that(1)] that by (blast intro: lexed_from_bump)
  show ?case
    using less.prems [unfolded lex_based_integer.simps [of str lx]]
    by (auto split: if_splits intro: again)
qed

section \<open>The lexing functions\<close>

lemma lex_string_lexed: "lex_string lx = Inr (t, lx') \<Longrightarrow> lexed (bump lx) lx'"
  by (auto simp: lex_string_def Let_def intro: lex_string_again_lexed split: if_splits)

lemma lex_extended_identifier_lexed:
  "lex_extended_identifier lx = Inr (t, lx') \<Longrightarrow> lexed (bump lx) lx'"
  by (auto simp: lex_extended_identifier_def intro: lex_extended_identifier_again_lexed
      split: if_splits)

lemma lex_bitstring_lexed: "lex_bitstring lx = Inr (t, lx') \<Longrightarrow> lexed (bump lx) lx'"
  by (auto simp: lex_bitstring_def Let_def intro: lexed_from_bump dest!: lex_bitstring_again_lexed
      split: if_splits)

lemma keep_lexed: "keep (str, lx) = (str', lx') \<Longrightarrow> lexed lx lx'"
  by (auto simp: keep_def)

lemma keep_bump: "keep (str, lx) = (str @ [here lx], bump lx)"
  by (simp add: keep_def)

definition lexes :: "(string \<Rightarrow> lexer \<Rightarrow> string \<times> lexer) \<Rightarrow> bool" where
  "lexes digits \<longleftrightarrow> (\<forall>str lx. lexed lx (snd (digits str lx)))"

lemma lexes_integers [simp]: "lexes lex_integer" "lexes lex_based_integer"
  unfolding lexes_def using lex_integer_lexed lex_based_integer_lexed by (metis prod.collapse)+

lemma lex_fraction_lexed:
  assumes "lexes digits" and "lex_fraction digits (str, lx) = (w, str', lx')"
  shows "lexed lx lx'"
proof (cases "here lx = CHR ''.''")
  case True
  then have "digits (str @ [here lx]) (bump lx) = (str', lx')"
    using assms(2) by (simp add: lex_fraction_def keep_bump)
  then have "lexed (bump lx) lx'" using assms(1) unfolding lexes_def by (metis snd_conv)
  then show ?thesis by (rule lexed_from_bump)
next
  case False
  then show ?thesis using assms(2) by (simp add: lex_fraction_def)
qed

lemma lex_exponent_lexed:
  assumes "lexes digits" and "lex_exponent digits (str, lx) = (str', lx')"
  shows "lexed lx lx'"
proof (cases "here lx = CHR ''e'' \<or> here lx = CHR ''E''")
  case True
  define r where "r = keep (str, lx)"
  define r2 where "r2 = (if here (snd r) = CHR ''+'' then keep r
    else if here (snd r) = CHR ''-'' then keep r else r)"
  have "lexed lx (snd r2)"
    unfolding r2_def by (simp add: r_def keep_bump) (blast intro: lexed_from_bump lexed_bump)
  also have "digits (fst r2) (snd r2) = (str', lx')"
    using assms(2) True
    unfolding lex_exponent_def Let_def r_def [symmetric] r2_def [symmetric] by simp
  then have "snd (digits (fst r2) (snd r2)) = lx'" by simp
  then have "lexed (snd r2) lx'" using assms(1) unfolding lexes_def by metis
  finally show ?thesis .
next
  case False
  then show ?thesis using assms(2) by (simp add: lex_exponent_def)
qed

lemma finish_number_lexed:
  "finish_number w (str, lx) = Inr (t, lx') \<Longrightarrow> lexed lx lx'"
  by (auto simp: finish_number_def Let_def dest!: lexed_intern_literal)

lemmas number_lexed =
  lex_fraction_lexed [OF lexes_integers(1)] lex_fraction_lexed [OF lexes_integers(2)]
  lex_exponent_lexed [OF lexes_integers(1)] lex_exponent_lexed [OF lexes_integers(2)]

text \<open>A number starts with a digit, so that the first turn of \<open>_lex_integer\<close> is a \<open>bump\<close>.\<close>

lemma lex_integer_first:
  "\<not> at_end lx \<Longrightarrow> is_digit (here lx) \<Longrightarrow> lex_integer str lx = lex_integer (str @ [here lx]) (bump lx)"
  by (simp add: lex_integer.simps [of str lx])

lemma lex_number_lexed:
  assumes "lex_number lx = Inr (t, lx')" and "\<not> at_end lx"
  shows "lexed (bump lx) lx'"
proof -
  have d: "is_digit (here lx)" using assms(1) by (auto simp: lex_number_def split: if_splits)
  obtain str lx1 where i: "lex_integer [here lx] (bump lx) = (str, lx1)" by fastforce
  then have l1: "lexed (bump lx) lx1" by (rule lex_integer_lexed)
  have r: "lex_integer [] lx = (str, lx1)" using i lex_integer_first [OF assms(2) d, of "[]"] by simp
  have "lexed lx1 lx'"
  proof (cases "here lx1 = CHR ''#''")
    case False
    obtain w s2 lx2 where f: "lex_fraction lex_integer (str, lx1) = (w, s2, lx2)"
      by (metis prod.collapse)
    obtain s3 lx3 where e: "lex_exponent lex_integer (s2, lx2) = (s3, lx3)" by fastforce
    note number_lexed(1) [OF f]
    also note number_lexed(3) [OF e]
    also have "lexed lx3 lx'"
      using assms(1) d r False f e by (intro finish_number_lexed) (simp add: lex_number_def)
    finally show ?thesis .
  next
    case True
    obtain s2 lx2 where b: "lex_based_integer (str @ [here lx1]) (bump lx1) = (s2, lx2)"
      by fastforce
    obtain w s3 lx3 where f: "lex_fraction lex_based_integer (s2, lx2) = (w, s3, lx3)"
      by (metis prod.collapse)
    have h: "here lx3 = CHR ''#''"
      using assms(1) d r True b f by (auto simp: lex_number_def keep_bump split: if_splits)
    obtain s4 lx4 where b2: "lex_based_integer (s3 @ [here lx3]) (bump lx3) = (s4, lx4)"
      by fastforce
    obtain s5 lx5 where e: "lex_exponent lex_based_integer (s4, lx4) = (s5, lx5)" by fastforce
    note lexed_from_bump [OF lex_based_integer_lexed [OF b]]
    also note number_lexed(2) [OF f]
    also note lexed_from_bump [OF lex_based_integer_lexed [OF b2]]
    also note number_lexed(4) [OF e]
    also have "lexed lx5 lx'"
      using assms(1) d r True b f b2 e h
      by (intro finish_number_lexed) (simp add: lex_number_def keep_bump)
    finally show ?thesis .
  qed
  with l1 show ?thesis by (rule lexed_trans)
qed

lemma lex_character_lexed:
  assumes "lex_character lx = Inr (t, lx')"
  shows "lexed lx lx'
    \<and> (is_graphic_character (look_ahead 1 (cs lx)) \<longrightarrow> cur (cs lx') = cur (cs lx) + 3)"
proof -
  have tick: "look_ahead 2 (cs lx) = TICK"
    using assms by (auto simp: lex_character_def split: if_splits)
  then have b: "cur (cs lx) + 2 < length (buf (cs lx))"
    by (auto simp: look_ahead_def split: if_splits)
  show ?thesis
  proof (cases "is_graphic_character (look_ahead 1 (cs lx))")
    case True
    then have "sbind (lx_intern [TICK, look_ahead 1 (cs lx), TICK] (lx_columns 3 (lx_advance 3 lx)))
       (\<lambda>(sv, lx). Inr (current_token_is_literal tk_character sv lx)) = Inr (t, lx')"
      using assms by (auto simp: lex_character_def split: if_splits)
    from lexed_intern_literal [OF this]
    have "lexed (lx_columns 3 (lx_advance 3 lx)) lx'" "cs lx' = advance 3 (cs lx)" by simp_all
    moreover have "lexed lx (lx_columns 3 (lx_advance 3 lx))"
      using b by (intro lexed_trans [OF lexed_advance lexed_columns]) simp
    ultimately show ?thesis by (simp add: lexed_trans)
  next
    case False
    then show ?thesis
      using assms by (auto simp: lex_character_def Let_def intro: lexed_reject split: if_splits)
  qed
qed

section \<open>Identifiers\<close>

definition is_ident_char :: "char \<Rightarrow> bool" where
  "is_ident_char c \<longleftrightarrow> is_upper c \<or> is_lower c \<or> is_digit c \<or> c = CHR ''_''"

definition lower_char :: "char \<Rightarrow> char" where
  "lower_char c = (if is_upper c then plus_32 c else c)"

definition bumps :: "nat \<Rightarrow> lexer \<Rightarrow> lexer" where
  "bumps n = bump ^^ n"

lemma bumps_simps [simp]: "bumps 0 lx = lx" "bumps (Suc n) lx = bumps n (bump lx)"
  by (simp_all add: bumps_def funpow_swap1)

lemma lexed_bumps [simp]: "lexed lx (bumps n lx)"
  by (induction n arbitrary: lx) (auto intro: lexed_from_bump)

lemma here_or_past_end:
  "here lx = (case rest (cs lx) of [] \<Rightarrow> past_end (cs lx) | c # _ \<Rightarrow> c)"
proof (cases "rest (cs lx)")
  case Nil
  then show ?thesis by (simp add: rest_def current_char_def)
next
  case (Cons c r)
  then show ?thesis by (simp add: current_char_rest)
qed

text \<open>
  Where the byte behind the text does not continue an identifier, the loop collects the longest
  run of identifier characters.
\<close>

lemma lex_identifier_again_eq:
  assumes "\<not> is_ident_char (past_end (cs lx))"
  shows "lex_identifier_again start str lx =
     (let w = takeWhile is_ident_char (rest (cs lx)) in
      Some (end_of_identifier start (str @ map lower_char w) (bumps (length w) lx)))"
  using assms
proof (induction "rest (cs lx)" arbitrary: str lx)
  case Nil
  then have "\<not> is_ident_char (here lx)" by (simp add: here_or_past_end Nil.hyps [symmetric])
  then show ?case
    by (simp add: lex_identifier_again.simps [of start str lx] is_ident_char_def
        Nil.hyps [symmetric])
next
  case (Cons c r)
  have h: "here lx = c" using Cons.hyps(2) [symmetric] by (simp add: here_or_past_end)
  have r: "rest (cs (bump lx)) = r" using rest_stream_next [OF Cons.hyps(2) [symmetric]] by simp
  show ?case
  proof (cases "is_ident_char c")
    case False
    then show ?thesis
      using h by (simp add: lex_identifier_again.simps [of start str lx] is_ident_char_def
          Cons.hyps(2) [symmetric])
  next
    case True
    then have "lex_identifier_again start str lx
        = lex_identifier_again start (str @ [lower_char c]) (bump lx)"
      using h by (auto simp: lex_identifier_again.simps [of start str lx] is_ident_char_def
          lower_char_def)
    then show ?thesis
      using Cons.hyps(1) [of "bump lx"] r Cons.prems True
      by (simp add: Let_def Cons.hyps(2) [symmetric])
  qed
qed

text \<open>Where it does, and nothing else ends the run, the loop does not end.\<close>

lemma lex_identifier_again_diverges:
  assumes "lex_identifier_again start str lx = Some r"
  shows "\<not> ((\<forall>c \<in> set (rest (cs lx)). is_ident_char c) \<and> is_ident_char (past_end (cs lx)))"
proof (rule lex_identifier_again.raw_induct [OF _ assms, where P = "\<lambda>start str lx r.
    \<not> ((\<forall>c \<in> set (rest (cs lx)). is_ident_char c) \<and> is_ident_char (past_end (cs lx)))"])
  fix f start str lx r
  assume IH: "\<And>start str lx r. f start str lx = Some r \<Longrightarrow>
      \<not> ((\<forall>c \<in> set (rest (cs lx)). is_ident_char c) \<and> is_ident_char (past_end (cs lx)))"
    and step: "(let c = here lx in
      if is_upper c then f start (str @ [plus_32 c]) (bump lx)
      else if is_lower c \<or> is_digit c \<or> c = CHR ''_'' then f start (str @ [c]) (bump lx)
      else Some (end_of_identifier start str lx)) = Some r"
  show "\<not> ((\<forall>c \<in> set (rest (cs lx)). is_ident_char c) \<and> is_ident_char (past_end (cs lx)))"
  proof
    assume all: "(\<forall>c \<in> set (rest (cs lx)). is_ident_char c) \<and> is_ident_char (past_end (cs lx))"
    then have "is_ident_char (here lx)" by (simp add: here_or_past_end split: list.split)
    then obtain s where "f start s (bump lx) = Some r"
      using step by (auto simp: Let_def is_ident_char_def split: if_splits)
    moreover have "set (rest (cs (bump lx))) \<subseteq> set (rest (cs lx))"
      by (auto simp: rest_def stream_next_def dest: in_set_dropD) (metis drop_drop in_set_dropD add.commute plus_1_eq_Suc)
    ultimately show False using IH [of start s "bump lx" r] all by auto
  qed
qed

lemma finish_identifier_lexed:
  assumes "finish_identifier s lx = Inr (t, lx')"
  shows "lexed lx lx' \<and> cs lx' = cs lx"
  using assms lexed_intern
  by (fastforce simp: finish_identifier_def sbind_Inr_iff current_token_is_identifier_def
      current_token_is_keyword_def intro: lexed_trans split: option.splits)

lemma bumps_cs:
  "n \<le> length (rest (cs lx)) \<Longrightarrow> cs (bumps n lx) = advance n (cs lx)"
proof (induction n arbitrary: lx)
  case 0
  then show ?case by (simp add: advance_def)
next
  case (Suc n)
  then have lt: "cur (cs lx) < length (buf (cs lx))" by (simp add: rest_def)
  then have "rest (cs (bump lx)) = tl (rest (cs lx))"
    by (simp add: rest_def stream_next_def drop_Suc drop_tl)
  then show ?case using Suc lt by (simp add: advance_def stream_next_def)
qed

lemma end_of_identifier_lexed:
  assumes res: "end_of_identifier (cur (cs lx)) s (bumps n lx) = Inr (t, lx')"
    and n: "0 < n" "n \<le> length (rest (cs lx))"
  shows "lexed lx lx' \<and> cur (cs lx) < cur (cs lx')"
proof -
  define lx1 where "lx1 = bumps n lx"
  have cs1: "cs lx1 = advance n (cs lx)" using n by (simp add: lx1_def bumps_cs)
  have l1: "lexed lx lx1" by (simp add: lx1_def)
  note res = res [folded lx1_def, unfolded end_of_identifier_def]
  show ?thesis
  proof (cases "(here lx1 = QUOTE \<or> here lx1 = PERCENT) \<and> int (cur (cs lx1)) - int (cur (cs lx)) = 1")
    case True
    then obtain p where p: "set_position (cur (cs lx)) (cs lx1) = Some p"
      "lex_bitstring (lx1\<lparr>cs := p\<rparr>) = Inr (t, lx')"
      using res by (auto split: option.splits)
    then have p': "p = cs lx" using cs1 by (auto simp: set_position_def advance_def split: if_splits)
    from lex_bitstring_lexed [OF p(2)] have l: "lexed (bump (lx1\<lparr>cs := p\<rparr>)) lx'" .
    have "lexed lx (bump (lx1\<lparr>cs := p\<rparr>))"
      using l1 p' by (simp add: lexed_def dias_def stream_next_in_bounds)
    moreover have "cur (cs lx) < cur (cs (bump (lx1\<lparr>cs := p\<rparr>)))"
      using n p' by (auto simp: stream_next_def rest_def)
    ultimately show ?thesis using l by (auto simp: moved_def lexed_def)
  next
    case False
    then have "finish_identifier s lx1 = Inr (t, lx')" using res by auto
    from finish_identifier_lexed [OF this] show ?thesis
      using l1 cs1 n by (auto intro: lexed_trans)
  qed
qed

section \<open>One turn of the scanner\<close>

text \<open>The byte behind the text neither continues an identifier nor is a blank.\<close>

definition end_ok :: "char_stream \<Rightarrow> bool" where
  "end_ok s \<longleftrightarrow> \<not> is_ident_char (past_end s) \<and> past_end s \<notin> {CHR '' '', NBSP}"

lemma end_ok_moved: "moved s s' \<Longrightarrow> end_ok s' = end_ok s"
  by (simp add: moved_def end_ok_def)

lemma end_ok_lexed: "lexed lx lx' \<Longrightarrow> end_ok (cs lx') = end_ok (cs lx)"
  by (simp add: lexed_def end_ok_moved)

lemma return_delimiter_simps [simp]:
  "return_delimiter k lx = (Some (fst (current_token_is_delimiter k lx)), lx\<lparr>yyltok := k\<rparr>)"
  by (simp add: return_delimiter_def current_token_is_delimiter_def)

text \<open>A turn that is not stuck has gone past the character it looked at.\<close>

definition passed :: "lexer \<Rightarrow> lexer \<Rightarrow> bool" where
  "passed lx lx' \<longleftrightarrow> lexed lx lx' \<and> cur (cs lx) < cur (cs lx')"

lemma passed_lexed: "passed lx lx1 \<Longrightarrow> lexed lx1 lx' \<Longrightarrow> passed lx lx'"
  unfolding passed_def using lexed_trans by (auto simp: lexed_def moved_def)

lemma lexed_passed: "lexed lx lx1 \<Longrightarrow> passed lx1 lx' \<Longrightarrow> passed lx lx'"
  unfolding passed_def using lexed_trans by (auto simp: lexed_def moved_def)

lemma passed_bump: "\<not> at_end lx \<Longrightarrow> passed lx (bump lx)"
  by (simp add: passed_def) (simp add: end_of_stream_def stream_next_def)

lemma passed_next: "\<not> at_end lx \<Longrightarrow> passed lx (lx_next lx)"
  by (simp add: passed_def) (simp add: end_of_stream_def stream_next_def)

lemma passed_bump2:
  assumes "look_ahead 1 (cs lx) \<noteq> NUL"
  shows "passed lx (bump2 lx)"
proof -
  have "cur (cs lx) + 2 \<le> length (buf (cs lx))"
    using assms(1) by (auto simp: look_ahead_def split: if_splits)
  then have "lexed lx (bump2 lx)"
    unfolding bump2_def by (intro lexed_trans [OF lexed_advance lexed_columns])
  then show ?thesis by (simp add: passed_def) (simp add: bump2_def)
qed

lemmas passed_then [intro!] =
  passed_lexed [OF _ lexed_yyltok] passed_lexed [OF _ lexed_diagnose] passed_lexed [OF _ lexed_skip]

lemma turn_special_passed:
  "\<lbrakk>\<not> at_end lx; turn_special c lx = Some (r, lx')\<rbrakk> \<Longrightarrow> passed lx lx'"
  by (auto simp: turn_special_def break_turn_def Let_def passed_bump split: if_splits
      intro: passed_lexed [OF passed_bump lexed_bump])

lemma turn_relational_passed:
  "\<lbrakk>\<not> at_end lx; turn_relational c lx = Some (r, lx')\<rbrakk> \<Longrightarrow> passed lx lx'"
  by (auto simp: turn_relational_def Let_def passed_bump passed_bump2 split: if_splits)

lemma turn_other_passed: "\<lbrakk>\<not> at_end lx; turn_other c lx = (r, lx')\<rbrakk> \<Longrightarrow> passed lx lx'"
  by (auto simp: turn_other_def break_turn_def Let_def passed_bump split: if_splits
      intro: passed_lexed [OF passed_bump lexed_bump])

lemma blanks_from_le:
  assumes "c = CHR '' '' \<or> c = NBSP \<Longrightarrow> cur s + l < length (buf s)"
    and "cur s + l \<le> length (buf s)"
  shows "l \<le> blanks_from l c s \<and> cur s + blanks_from l c s \<le> length (buf s)"
  using assms
proof (induction l c s rule: blanks_from.induct)
  case (1 l c s)
  show ?case
  proof (cases "c = CHR '' '' \<or> c = NBSP")
    case True
    then have "cur s + (l + 1) \<le> length (buf s)" using "1.prems"(1) by simp
    moreover have "cur s + (l + 1) < length (buf s)"
      if "look_ahead (l + 1) s = CHR '' '' \<or> look_ahead (l + 1) s = NBSP"
      using that by (auto simp: look_ahead_def split: if_splits)
    ultimately have "l + 1 \<le> blanks_from (l + 1) (look_ahead (l + 1) s) s
        \<and> cur s + blanks_from (l + 1) (look_ahead (l + 1) s) s \<le> length (buf s)"
      using "1.IH" True by blast
    then show ?thesis using True by (simp add: blanks_from.simps [of l c s])
  next
    case False
    then have "blanks_from l c s = l" by (subst blanks_from.simps) simp
    then show ?thesis using "1.prems"(2) by simp
  qed
qed

lemma turn_space_passed:
  assumes "\<not> at_end lx" and "end_ok (cs lx)" and "turn_space c lx = Some (r, lx')"
  shows "passed lx lx'"
proof (cases "c = CHR '' '' \<or> c = TAB")
  case True
  define l where "l = blanks_from 1 (next_char (cs lx)) (cs lx)"
  have "1 \<le> l \<and> cur (cs lx) + l \<le> length (buf (cs lx))"
    unfolding l_def
    by (rule blanks_from_le) (use assms(1,2) in \<open>auto simp: next_char_def end_ok_def
        end_of_stream_def split: if_splits\<close>)
  moreover have "lx' = lx_advance l (lx_columns l lx)"
    using assms(3) True by (auto simp: turn_space_def l_def break_turn_def Let_def)
  ultimately show ?thesis
    by (auto simp: passed_def intro!: lexed_trans [OF lexed_columns lexed_advance])
next
  case False
  note n = False
  show ?thesis
  proof (cases "c = NBSP")
    case True
    then show ?thesis using assms(1,3) n by (auto simp: turn_space_def break_turn_def passed_bump)
  next
    case False
    define lx1 where "lx1 = (if c = CR \<and> look_ahead 1 (cs lx) = LF then lx_next lx else lx)"
    define lx2 where "lx2 = lx1\<lparr>yylloc := location_lines 1 (yylloc lx1)\<rparr>"
    have "lx' = lx_next lx2"
      using assms(3) n False
      by (auto simp: turn_space_def break_turn_def lx2_def lx1_def Let_def split: if_splits)
    moreover have "lexed lx lx1" by (simp add: lx1_def)
    then have "lexed lx lx2" unfolding lx2_def by (rule lexed_trans [OF _ lexed_yylloc])
    moreover have "\<not> at_end lx1" using assms(1)
      by (auto simp: lx1_def look_ahead_def end_of_stream_def stream_next_def split: if_splits)
    then have "\<not> at_end lx2" by (simp add: lx2_def)
    ultimately show ?thesis using lexed_passed passed_next by metis
  qed
qed

section \<open>The scanner\<close>

text \<open>A character literal whose character is not graphic; \<open>_lex_character\<close> does not consume it.\<close>

definition stuck :: "lexer \<Rightarrow> bool" where
  "stuck lx \<longleftrightarrow> \<not> at_end lx \<and> here lx = TICK \<and> look_ahead 2 (cs lx) = TICK
     \<and> \<not> tick_is_delimiter_after (yyltok lx) \<and> \<not> is_graphic_character (look_ahead 1 (cs lx))"

definition turn_ok :: "lexer \<Rightarrow> lex_error + turn \<Rightarrow> bool" where
  "turn_ok lx r \<longleftrightarrow>
     (\<forall>t lx'. r = Inr (t, lx') \<longrightarrow> lexed lx lx' \<and> (\<not> stuck lx \<or> t = None \<longrightarrow> passed lx lx'))"

lemma turn_ok_passed:
  "(\<And>t lx'. r = Inr (t, lx') \<Longrightarrow> passed lx lx') \<Longrightarrow> turn_ok lx r"
  by (auto simp: turn_ok_def passed_def)

lemma stuck_step [simp]: "stuck (lx_step lx) = stuck lx"
  by (simp add: stuck_def)

lemma turn_ok_step: "turn_ok (lx_step lx) r \<Longrightarrow> turn_ok lx r"
  unfolding turn_ok_def using lexed_passed [OF lexed_step] lexed_trans [OF lexed_step]
  by (metis stuck_step)

lemma takeWhile_pos: "rest (cs lx) \<noteq> [] \<Longrightarrow> is_ident_char (here lx) \<Longrightarrow>
    0 < length (takeWhile is_ident_char (rest (cs lx)))"
  by (cases "rest (cs lx)") (auto simp: current_char_rest)

lemma identifier_turn:
  assumes "\<not> at_end lx" and "end_ok (cs lx)" and "is_ident_char (here lx)"
  shows "\<exists>r. lex_identifier_or_keyword_or_bitstring lx = Some r
     \<and> (\<forall>t lx'. r = Inr (t, lx') \<longrightarrow> passed lx lx')"
proof -
  define n where "n = length (takeWhile is_ident_char (rest (cs lx)))"
  have n: "0 < n" "n \<le> length (rest (cs lx))"
    using assms takeWhile_pos by (auto simp: n_def end_of_stream_rest length_takeWhile_le)
  show ?thesis
    using assms(2) end_of_identifier_lexed [OF _ n]
    by (auto simp: lex_identifier_or_keyword_or_bitstring_def lex_identifier_again_eq end_ok_def
        n_def Let_def passed_def)
qed

lemma turn_ok_token:
  assumes "\<And>t lx'. r = Inr (t, lx') \<Longrightarrow> passed lx lx'"
  shows "\<exists>r'. return_token r = Some r' \<and> turn_ok lx r'"
  using assms by (auto simp: return_token_def turn_ok_def sbind_Inr_iff passed_def)

lemma turn_ok_identifier:
  assumes "\<exists>r. m = Some r \<and> (\<forall>t lx'. r = Inr (t, lx') \<longrightarrow> passed lx lx')"
  shows "\<exists>r'. obind m (\<lambda>(t, lx). Some (Inr (Some t, lx))) = Some r' \<and> turn_ok lx r'"
proof -
  obtain r where r: "m = Some r" "\<forall>t lx'. r = Inr (t, lx') \<longrightarrow> passed lx lx'"
    using assms by blast
  show ?thesis using r by (cases r) (auto simp: turn_ok_def passed_def)
qed

lemma character_turn:
  assumes ne: "\<not> at_end lx" and t: "here lx = TICK" "look_ahead 2 (cs lx) = TICK"
    and k: "\<not> tick_is_delimiter_after (yyltok lx)"
  shows "\<exists>r'. return_token (lex_character lx) = Some r' \<and> turn_ok lx r'"
proof -
  have "lexed lx lx' \<and> (\<not> stuck lx \<longrightarrow> passed lx lx')" if "lex_character lx = Inr (t, lx')" for t lx'
    using lex_character_lexed [OF that] ne t k by (auto simp: stuck_def passed_def)
  then show ?thesis by (auto simp: return_token_def turn_ok_def sbind_Inr_iff)
qed

lemma lex_turn_ok_stepped:
  assumes ne: "\<not> at_end lx" and e: "end_ok (cs lx)" and lx: "lx = lx_step lx0"
  shows "\<exists>r. lex_turn lx0 = Some r \<and> turn_ok lx r"
proof -
  define c where "c = here lx"
  note def = lex_turn_def [of lx0, unfolded Let_def lx [symmetric]]
  have bumped: "passed lx lx'" if "lexed (bump lx) lx'" for lx'
    using passed_lexed [OF passed_bump [OF ne] that] .
  consider (under) "c = CHR ''_''" | (letter) "is_upper c \<or> is_lower c" "c \<noteq> CHR ''_''"
    | (digit) "is_digit c" "\<not> (is_upper c \<or> is_lower c)" "c \<noteq> CHR ''_''"
    | (tick) "c = TICK" | (other) "\<not> is_ident_char c" "c \<noteq> TICK"
    unfolding is_ident_char_def by blast
  then show ?thesis
  proof cases
    case under
    define lx1 where "lx1 = diagnose Id_start_under lx"
    have "\<exists>r. lex_identifier_or_keyword_or_bitstring lx1 = Some r
       \<and> (\<forall>t lx'. r = Inr (t, lx') \<longrightarrow> passed lx1 lx')"
      using ne e under by (intro identifier_turn) (simp_all add: lx1_def c_def is_ident_char_def)
    then have "\<exists>r. lex_identifier_or_keyword_or_bitstring lx1 = Some r
       \<and> (\<forall>t lx'. r = Inr (t, lx') \<longrightarrow> passed lx lx')"
      using lexed_passed [OF lexed_diagnose] unfolding lx1_def by blast
    from turn_ok_identifier [OF this] show ?thesis using under by (simp add: def c_def lx1_def)
  next
    case letter
    have "\<exists>r. lex_identifier_or_keyword_or_bitstring lx = Some r
       \<and> (\<forall>t lx'. r = Inr (t, lx') \<longrightarrow> passed lx lx')"
      using ne e letter by (intro identifier_turn) (auto simp add: c_def is_ident_char_def)
    from turn_ok_identifier [OF this] show ?thesis using letter by (simp add: def c_def)
  next
    case digit
    have "\<exists>r. return_token (lex_number lx) = Some r \<and> turn_ok lx r"
      by (rule turn_ok_token, rule bumped, erule lex_number_lexed, rule ne)
    then show ?thesis using digit by (simp add: def c_def)
  next
    case tick
    show ?thesis
    proof (cases "look_ahead 2 (cs lx) = TICK \<and> \<not> tick_is_delimiter_after (yyltok lx)")
      case True
      then show ?thesis using character_turn [OF ne] tick
        by (simp add: def c_def is_upper_def is_lower_def is_digit_def)
    next
      case False
      have "turn_ok lx (Inr (return_delimiter tk_tick (bump lx)))"
        by (rule turn_ok_passed) (use passed_bump [OF ne] in auto)
      then show ?thesis using False tick
        by (auto simp: def c_def is_upper_def is_lower_def is_digit_def)
    qed
  next
    case other
    then have no: "c \<noteq> CHR ''_''" "\<not> is_upper c" "\<not> is_lower c" "\<not> is_digit c"
      by (auto simp: is_ident_char_def)
    have str: "\<exists>r. return_token (lex_string lx) = Some r \<and> turn_ok lx r"
      by (rule turn_ok_token) (blast intro: bumped lex_string_lexed)
    define lx1 where "lx1 = (if vhdl_version lx = vhdl87 then diagnose Vhdl87_extId lx else lx)"
    have "passed lx1 lx'" if "lexed (bump lx1) lx'" for lx'
      using passed_lexed [OF passed_bump that] ne by (simp add: lx1_def split: if_splits)
    moreover have "lexed lx lx1" by (simp add: lx1_def)
    ultimately have "passed lx lx'" if "lex_extended_identifier lx1 = Inr (t, lx')" for t lx'
      using lexed_passed lex_extended_identifier_lexed [OF that] by blast
    then have ext: "\<exists>r. return_token (lex_extended_identifier lx1) = Some r \<and> turn_ok lx r"
      by (rule turn_ok_token)
    have sp: "turn_ok lx (Inr r)" if "turn_special c lx = Some r" for r
      by (rule turn_ok_passed) (use turn_special_passed [OF ne] that in auto)
    have rl: "turn_ok lx (Inr r)" if "turn_relational c lx = Some r" for r
      by (rule turn_ok_passed) (use turn_relational_passed [OF ne] that in auto)
    have bl: "turn_ok lx (Inr r)" if "turn_space c lx = Some r" for r
      by (rule turn_ok_passed) (use turn_space_passed [OF ne e] that in auto)
    have ot: "turn_ok lx (Inr (turn_other c lx))"
      by (rule turn_ok_passed) (use turn_other_passed [OF ne] in auto)
    show ?thesis
      using no other(2) str ext sp rl bl ot unfolding def c_def [symmetric] lx1_def [symmetric]
      by (auto split: option.split)
  qed
qed

lemma lex_turn_ok:
  assumes "\<not> at_end lx" and "end_ok (cs lx)"
  shows "\<exists>r. lex_turn lx = Some r \<and> turn_ok lx r"
  using lex_turn_ok_stepped [OF _ _ refl, of lx] assms turn_ok_step by auto

lemma lex_at_end: "at_end lx \<Longrightarrow> lex lx = Some (Inr (plain_token tk_eof (lx_step lx), lx_step lx))"
  by (subst lex.simps) (simp add: Let_def)

lemma lex_ok:
  assumes "end_ok (cs lx)"
  shows "\<exists>r. lex lx = Some r \<and> (\<forall>t lx'. r = Inr (t, lx') \<longrightarrow> lexed lx lx'
    \<and> (\<not> at_end lx \<and> \<not> stuck lx \<longrightarrow> passed lx lx'))"
  using assms
proof (induction "left lx" arbitrary: lx rule: less_induct)
  case less
  show ?case
  proof (cases "at_end lx")
    case True
    then show ?thesis by (simp add: lex_at_end)
  next
    case False
    obtain r where r: "lex_turn lx = Some r" "turn_ok lx r"
      using lex_turn_ok [OF False less.prems] by blast
    show ?thesis
    proof (cases "\<exists>lx1. r = Inr (None, lx1)")
      case True
      then obtain lx1 where lx1: "r = Inr (None, lx1)" by blast
      then have p: "passed lx lx1" using r(2) by (simp add: turn_ok_def)
      have "left lx1 < left lx"
        using p False by (auto simp: passed_def lexed_def moved_def left_def end_of_stream_def)
      then obtain r' where r': "lex lx1 = Some r'"
        "\<forall>t lx'. r' = Inr (t, lx') \<longrightarrow> lexed lx1 lx'"
        using less.hyps [of lx1] less.prems p end_ok_lexed by (force simp: passed_def)
      have eq: "lex lx = lex lx1"
        using False r(1) lx1 by (subst lex.simps) simp
      have "passed lx lx'" if "r' = Inr (t, lx')" for t lx'
        using passed_lexed [OF p] r'(2) that by blast
      then show ?thesis unfolding eq r'(1) by (auto simp: passed_def)
    next
      case other: False
      show ?thesis
      proof (cases r)
        case (Inl e)
        then have "lex lx = Some (Inl e)" using False r(1) by (subst lex.simps) simp
        then show ?thesis by simp
      next
        case (Inr x)
        then obtain t lx1 where "x = (Some t, lx1)" using other by (cases x) auto
        then have "lex lx = Some (Inr (t, lx1))" using False r(1) Inr by (subst lex.simps) simp
        then show ?thesis using r(2) Inr \<open>x = (Some t, lx1)\<close> by (auto simp: turn_ok_def)
      qed
    qed
  qed
qed

end
