(* ===== verification/Scan_Text.thy ===== *)
theory Scan_Text
  imports Lexer_Facts
begin

text \<open>
  The scanner as a function of the text that is left: which token a word, a string literal, an
  integer or a delimiter is read as, what separators do, and from these that printed lexemes are
  scanned back; and the properties of the scanner.
\<close>

section \<open>The scanner as a function of the text that is left\<close>

lemma lex_by_token:
  "\<not> at_end lx \<Longrightarrow> lex_turn lx = Some (Inr (Some t, lx')) \<Longrightarrow> lex lx = Some (Inr (t, lx'))"
  by (subst lex.simps) simp

lemma lex_by_break:
  "\<not> at_end lx \<Longrightarrow> lex_turn lx = Some (Inr (None, lx')) \<Longrightarrow> lex lx = lex lx'"
  by (subst lex.simps) simp

text \<open>The state of a scanner whose string table serves the texts in \<open>T\<close>.\<close>

definition ready :: "string set \<Rightarrow> lexer \<Rightarrow> bool" where
  "ready T lx \<longleftrightarrow> end_ok (cs lx) \<and> serves T (strings lx) \<and> vhdl_version lx \<noteq> vhdl87"

lemma ready_cong:
  "\<lbrakk>ready T lx; past_end (cs lx') = past_end (cs lx); strings lx' = strings lx;
    vhdl_version lx' = vhdl_version lx\<rbrakk> \<Longrightarrow> ready T lx'"
  by (simp add: ready_def end_ok_def)

lemma ready_bump [simp]: "ready T lx \<Longrightarrow> ready T (bump lx)"
  by (erule ready_cong) simp_all

lemma ready_next [simp]: "ready T lx \<Longrightarrow> ready T (lx_next lx)"
  by (erule ready_cong) simp_all

lemma ready_step [simp]: "ready T lx \<Longrightarrow> ready T (lx_step lx)"
  by (erule ready_cong) simp_all

lemma ready_diagnose [simp]: "ready T lx \<Longrightarrow> ready T (diagnose m lx)"
  by (erule ready_cong) simp_all

lemma ready_bump2 [simp]: "ready T lx \<Longrightarrow> ready T (bump2 lx)"
  by (erule ready_cong) (simp_all add: bump2_def)

lemma ready_bumps [simp]: "ready T lx \<Longrightarrow> ready T (bumps n lx)"
  by (induction n arbitrary: lx) auto

lemma ready_yyltok [simp]: "ready T lx \<Longrightarrow> ready T (lx\<lparr>yyltok := k\<rparr>)"
  by (erule ready_cong) simp_all

lemma ready_intern:
  assumes "ready T lx" and "s \<in> T"
  shows "\<exists>lx'. lx_intern s lx = Inr (s, lx') \<and> ready T lx' \<and> cs lx' = cs lx \<and> yylloc lx' = yylloc lx"
  using assms serves_intern [of T "strings lx" s] by (auto simp: ready_def lx_intern_def)

lemma rest_bumps: "rest (cs lx) = w @ r \<Longrightarrow> rest (cs (bumps (length w) lx)) = r"
  by (simp add: bumps_cs rest_advance)

definition word_kind :: "string \<Rightarrow> kind_t \<times> string" where
  "word_kind w = (case find_keyword w of
     None \<Rightarrow> (tk_identifier, w) | Some k \<Rightarrow> (k, get_token_string_view k))"

lemma finish_identifier_ready:
  assumes "ready T lx" and "s \<in> T"
  shows "\<exists>t lx'. finish_identifier s lx = Inr (t, lx') \<and> (kind t, val t) = word_kind s
    \<and> loc t = yylloc lx \<and> cs lx' = cs lx \<and> yyltok lx' = kind t \<and> ready T lx'"
  using ready_intern [OF assms]
  by (auto simp: finish_identifier_def word_kind_def current_token_is_identifier_def
      current_token_is_keyword_def split: option.splits)

lemma is_letter_not: "is_upper c \<or> is_lower c \<Longrightarrow> c \<noteq> CHR ''_''"
  by (auto simp: is_upper_def is_lower_def)

lemma lex_word_lemma:
  assumes rest: "rest (cs lx) = w @ r" and w: "w \<noteq> []" "\<forall>c \<in> set w. is_ident_char c"
    and first: "is_upper (hd w) \<or> is_lower (hd w)"
    and stop: "r \<noteq> [] \<Longrightarrow> \<not> is_ident_char (hd r)"
    and quote: "length w = 1 \<Longrightarrow> r = [] \<or> hd r \<notin> {QUOTE, PERCENT}"
    and past: "r = [] \<Longrightarrow> length w = 1 \<Longrightarrow> past_end (cs lx) \<notin> {QUOTE, PERCENT}"
    and ready: "ready T lx" and T: "map lower_char w \<in> T"
  shows "\<exists>t lx'. lex lx = Some (Inr (t, lx')) \<and> (kind t, val t) = word_kind (map lower_char w)
    \<and> rest (cs lx') = r \<and> yyltok lx' = kind t \<and> ready T lx'"
proof -
  define lx0 where "lx0 = lx_step lx"
  have cs0: "cs lx0 = cs lx" by (simp add: lx0_def)
  obtain c w' where cw: "w = c # w'" using w(1) by (cases w) auto
  have here: "here lx0 = c" using rest cw by (simp add: cs0 current_char_rest)
  have ne: "\<not> at_end lx" using rest cw by (simp add: end_of_stream_rest)
  have tw: "takeWhile is_ident_char (w @ r) = w"
    using w(2) stop by (cases r) (auto simp: takeWhile_append)
  define lx1 where "lx1 = bumps (length w) lx0"
  have r1: "rest (cs lx1) = r" unfolding lx1_def by (rule rest_bumps) (simp add: cs0 rest)
  have cs1: "cs lx1 = advance (length w) (cs lx)"
    unfolding lx1_def cs0 [symmetric] by (rule bumps_cs) (simp add: cs0 rest)
  have id: "lex_identifier_or_keyword_or_bitstring lx0
      = Some (end_of_identifier (cur (cs lx)) (map lower_char w) lx1)"
    using ready tw unfolding lex_identifier_or_keyword_or_bitstring_def
    by (subst lex_identifier_again_eq) (simp_all add: ready_def end_ok_def cs0 rest lx1_def)
  have "\<not> ((here lx1 = QUOTE \<or> here lx1 = PERCENT) \<and> int (cur (cs lx1)) - int (cur (cs lx)) = 1)"
  proof
    assume a: "(here lx1 = QUOTE \<or> here lx1 = PERCENT) \<and> int (cur (cs lx1)) - int (cur (cs lx)) = 1"
    then have l: "length w = 1" by (simp add: cs1)
    have "past_end (cs lx1) = past_end (cs lx)" by (simp add: cs1)
    then have h: "here lx1 = (case r of [] \<Rightarrow> past_end (cs lx) | c # _ \<Rightarrow> c)"
      using here_or_past_end [of lx1] unfolding r1 by (cases r) auto
    show False using a h quote [OF l] past l by (cases r) auto
  qed
  then have fin: "end_of_identifier (cur (cs lx)) (map lower_char w) lx1
      = finish_identifier (map lower_char w) lx1"
    unfolding end_of_identifier_def by (simp only: if_False)
  have "ready T lx1" using ready by (simp add: lx1_def lx0_def)
  from finish_identifier_ready [OF this T] obtain t lx' where
    t: "finish_identifier (map lower_char w) lx1 = Inr (t, lx')"
      "(kind t, val t) = word_kind (map lower_char w)"
      "cs lx' = cs lx1" "yyltok lx' = kind t" "ready T lx'" by blast
  have "lex_turn lx = Some (Inr (Some t, lx'))"
    using first cw id fin t(1) here is_letter_not
    by (simp add: lex_turn_def lx0_def [symmetric])
  then show ?thesis using lex_by_token [OF ne] t r1 by auto
qed

section \<open>String literals\<close>

definition doubled :: "string \<Rightarrow> string" where
  "doubled s = concat (map (\<lambda>c. if c = QUOTE then [c, c] else [c]) s)"

lemma doubled_simps [simp]:
  "doubled [] = []"
  "doubled (c # s) = (if c = QUOTE then c # c # doubled s else c # doubled s)"
  by (simp_all add: doubled_def)

lemma graphic_not [simp]:
  "\<not> is_graphic_character CR" "\<not> is_graphic_character LF" "\<not> is_graphic_character VT"
  "\<not> is_graphic_character FF" "\<not> is_graphic_character TAB"
  by (simp_all add: is_graphic_character_def)

lemma rest_bump: "rest (cs lx) = c # r \<Longrightarrow> rest (cs (bump lx)) = r"
  using rest_stream_next by simp

lemma string_closed:
  assumes rest: "rest (cs lx) = c0 # QUOTE # r" and ready: "ready T lx"
    and stop: "r \<noteq> [] \<Longrightarrow> hd r \<noteq> QUOTE" "r = [] \<Longrightarrow> past_end (cs lx) \<noteq> QUOTE"
    and T: "str @ [QUOTE] \<in> T"
  shows "\<exists>t lx'. lex_string_again QUOTE str lx = Inr (t, lx')
    \<and> kind t = tk_stringliteral \<and> val t = str @ [QUOTE]
    \<and> rest (cs lx') = r \<and> yyltok lx' = kind t \<and> ready T lx'"
proof -
  note r1 = rest_bump [OF rest]
  have h: "here (bump lx) = QUOTE" using r1 by (rule current_char_rest)
  have e: "\<not> at_end (bump lx)" using r1 by (simp add: end_of_stream_rest)
  have n: "next_char (cs (bump lx)) \<noteq> QUOTE"
  proof (cases r)
    case Nil
    then show ?thesis using next_char_rest_last [OF r1 [unfolded Nil]] stop(2) by simp
  next
    case (Cons d r')
    then show ?thesis using next_char_rest [OF r1 [unfolded Cons]] stop(1) by simp
  qed
  define lx2 where "lx2 = bump (bump lx)"
  have r2: "rest (cs lx2) = r" unfolding lx2_def by (rule rest_bump [OF r1])
  have "ready T lx2" using ready by (simp add: lx2_def)
  from ready_intern [OF this T] obtain lx3 where
    "lx_intern (str @ [QUOTE]) lx2 = Inr (str @ [QUOTE], lx3)" "ready T lx3" "cs lx3 = cs lx2"
    by blast
  then show ?thesis
    using h e n r2
    by (subst lex_string_again.simps) (simp add: Let_def current_token_is_literal_def lx2_def)
qed

lemma lex_string_again_doubled:
  assumes "rest (cs lx) = c0 # doubled s @ QUOTE # r" and "ready T lx"
    and "\<forall>c \<in> set s. is_graphic_character c"
    and stop: "r \<noteq> [] \<Longrightarrow> hd r \<noteq> QUOTE" "r = [] \<Longrightarrow> past_end (cs lx) \<noteq> QUOTE"
    and "str @ s @ [QUOTE] \<in> T"
  shows "\<exists>t lx'. lex_string_again QUOTE str lx = Inr (t, lx')
    \<and> kind t = tk_stringliteral \<and> val t = str @ s @ [QUOTE]
    \<and> rest (cs lx') = r \<and> yyltok lx' = kind t \<and> ready T lx'"
  using assms
proof (induction s arbitrary: c0 str lx)
  case Nil
  then show ?case using string_closed [of lx c0 r T str] by simp
next
  case (Cons c s)
  show ?case
  proof (cases "c = QUOTE")
    case True
    then have r1: "rest (cs (bump lx)) = QUOTE # QUOTE # doubled s @ QUOTE # r"
      using Cons.prems(1) by (intro rest_bump) simp
    define lx2 where "lx2 = lx_next (bump lx)"
    have r2: "rest (cs lx2) = QUOTE # doubled s @ QUOTE # r"
      using rest_stream_next [OF r1] by (simp add: lx2_def)
    have "lex_string_again QUOTE str lx = lex_string_again QUOTE (str @ [c]) lx2"
      using current_char_rest [OF r1] next_char_rest [OF r1] current_char_rest [OF r2] r1 True
      by (subst lex_string_again.simps) (simp add: Let_def end_of_stream_rest lx2_def)
    moreover have "past_end (cs lx2) = past_end (cs lx)" "ready T lx2"
      using Cons.prems(2) by (simp_all add: lx2_def)
    ultimately show ?thesis
      using Cons.IH [OF r2, of "str @ [c]"] Cons.prems by simp
  next
    case False
    then have r1: "rest (cs (bump lx)) = c # doubled s @ QUOTE # r"
      using Cons.prems(1) by (intro rest_bump) simp
    have "is_graphic_character c" using Cons.prems(3) by simp
    then have "lex_string_again QUOTE str lx = lex_string_again QUOTE (str @ [c]) (bump lx)"
      using current_char_rest [OF r1] r1 False
      by (subst lex_string_again.simps) (auto simp: Let_def end_of_stream_rest)
    then show ?thesis
      using Cons.IH [OF r1, of "str @ [c]"] Cons.prems by simp
  qed
qed

lemma lex_string_lemma:
  assumes rest: "rest (cs lx) = QUOTE # doubled s @ QUOTE # r" and ready: "ready T lx"
    and s: "\<forall>c \<in> set s. is_graphic_character c"
    and stop: "r \<noteq> [] \<Longrightarrow> hd r \<noteq> QUOTE" "r = [] \<Longrightarrow> past_end (cs lx) \<noteq> QUOTE"
    and T: "QUOTE # s @ [QUOTE] \<in> T"
  shows "\<exists>t lx'. lex lx = Some (Inr (t, lx')) \<and> kind t = tk_stringliteral
    \<and> val t = QUOTE # s @ [QUOTE]
    \<and> rest (cs lx') = r \<and> yyltok lx' = kind t \<and> ready T lx'"
proof -
  have h: "here lx = QUOTE" using rest by (rule current_char_rest)
  have ne: "\<not> at_end lx" using rest by (simp add: end_of_stream_rest)
  have "\<exists>t lx'. lex_string_again QUOTE [QUOTE] (lx_step lx) = Inr (t, lx')
    \<and> kind t = tk_stringliteral \<and> val t = [QUOTE] @ s @ [QUOTE]
    \<and> rest (cs lx') = r \<and> yyltok lx' = kind t \<and> ready T lx'"
    by (rule lex_string_again_doubled) (use assms in auto)
  then obtain t lx' where *: "lex_string_again QUOTE [QUOTE] (lx_step lx) = Inr (t, lx')"
    "kind t = tk_stringliteral" "val t = [QUOTE] @ s @ [QUOTE]" "rest (cs lx') = r"
    "yyltok lx' = kind t" "ready T lx'" by blast
  have "lex_turn lx = Some (Inr (Some t, lx'))"
    using h *(1) by (simp add: lex_turn_def Let_def is_upper_def is_lower_def is_digit_def
        return_token_def lex_string_def)
  then show ?thesis using lex_by_token [OF ne] * by auto
qed

section \<open>Integer literals\<close>

lemma lex_integer_eq:
  assumes "rest (cs lx) = w @ r" and "\<forall>c \<in> set w. is_digit c \<or> c = CHR ''_''"
    and "r \<noteq> [] \<Longrightarrow> \<not> is_digit (hd r) \<and> hd r \<noteq> CHR ''_''"
  shows "lex_integer str lx = (str @ filter is_digit w, bumps (length w) lx)"
  using assms
proof (induction w arbitrary: str lx)
  case Nil
  then show ?case
    by (subst lex_integer.simps) (cases r; auto simp: end_of_stream_rest current_char_rest)
next
  case (Cons c w)
  have h: "here lx = c" "\<not> at_end lx" using Cons.prems(1)
    by (simp_all add: current_char_rest end_of_stream_rest)
  have r: "rest (cs (bump lx)) = w @ r" using Cons.prems(1) by (intro rest_bump) simp
  have "\<not> is_digit CHR ''_''" by (simp add: is_digit_def)
  then have "lex_integer str lx
      = lex_integer (if is_digit c then str @ [c] else str) (bump lx)"
    using Cons.prems(2) h by (subst lex_integer.simps) auto
  then show ?case using Cons.IH [OF r] Cons.prems(2,3) by simp
qed

lemma lex_number_lemma:
  assumes rest: "rest (cs lx) = w @ r" and w: "w \<noteq> []" "is_digit (hd w)"
    "\<forall>c \<in> set w. is_digit c \<or> c = CHR ''_''"
    and r: "r \<noteq> []" "\<not> is_digit (hd r)" "hd r \<notin> set ''_#.eE''"
    and ready: "ready T lx" and T: "filter is_digit w \<in> T"
  shows "\<exists>t lx'. lex lx = Some (Inr (t, lx')) \<and> kind t = tk_integer \<and> val t = filter is_digit w
    \<and> rest (cs lx') = r \<and> yyltok lx' = kind t \<and> ready T lx'"
proof -
  define lx0 where "lx0 = lx_step lx"
  obtain c w' where cw: "w = c # w'" using w(1) by (cases w) auto
  obtain d r' where dr: "r = d # r'" using r(1) by (cases r) auto
  have h: "here lx = c" using rest cw by (simp add: current_char_rest)
  have ne: "\<not> at_end lx" using rest cw by (simp add: end_of_stream_rest)
  define lx1 where "lx1 = bumps (length w) lx0"
  have i: "lex_integer [] lx0 = (filter is_digit w, lx1)"
    unfolding lx1_def using lex_integer_eq [of lx0 w r "[]"] rest w(3) r by (simp add: lx0_def)
  have r1: "rest (cs lx1) = r" unfolding lx1_def by (rule rest_bumps) (simp add: lx0_def rest)
  then have d: "here lx1 = d" using dr by (simp add: current_char_rest)
  have "ready T lx1" using ready by (simp add: lx1_def lx0_def)
  from ready_intern [OF this T] obtain lx2 where
    lx2: "lx_intern (filter is_digit w) lx1 = Inr (filter is_digit w, lx2)" "ready T lx2"
    "cs lx2 = cs lx1" by blast
  define t where "t = fst (current_token_is_literal tk_integer (filter is_digit w) lx2)"
  have n: "lex_number lx0 = Inr (t, lx2\<lparr>yyltok := tk_integer\<rparr>)"
    using h cw w(2) i d dr r lx2(1)
    by (simp add: lex_number_def lex_fraction_def lex_exponent_def finish_number_def lx0_def t_def
        current_token_is_literal_def)
  have "c \<noteq> CHR ''_''" "\<not> is_upper c" "\<not> is_lower c"
    using w(2) cw by (auto simp: is_digit_def is_upper_def is_lower_def)
  then have "lex_turn lx = Some (Inr (Some t, lx2\<lparr>yyltok := tk_integer\<rparr>))"
    using h n w(2) cw by (simp add: lex_turn_def lx0_def return_token_def)
  then show ?thesis
    using lex_by_token [OF ne] lx2 r1 by (auto simp: t_def current_token_is_literal_def)
qed

section \<open>Delimiters\<close>

lemmas turn_defs = lex_turn_def turn_special_def turn_relational_def Let_def break_turn_def
  is_upper_def is_lower_def is_digit_def bump2_def

lemma delimiter_token [simp]:
  "kind (fst (current_token_is_delimiter k lx)) = k"
  "val (fst (current_token_is_delimiter k lx)) = get_token_string_view k"
  by (simp_all add: current_token_is_delimiter_def)

definition scans_as :: "string set \<Rightarrow> lexer \<Rightarrow> kind_t \<times> string \<Rightarrow> string \<Rightarrow> bool" where
  "scans_as T lx kv r \<longleftrightarrow> (\<exists>t lx'. lex lx = Some (Inr (t, lx')) \<and> (kind t, val t) = kv
     \<and> rest (cs lx') = r \<and> yyltok lx' = kind t \<and> ready T lx')"

text \<open>Reading the stream is reading the text that is left.\<close>

lemma rest_stream_next_tl: "rest (stream_next s) = tl (rest s)"
  by (simp add: rest_def stream_next_def drop_Suc drop_tl)

lemma current_char_case: "current_char s = (case rest s of [] \<Rightarrow> past_end s | c # _ \<Rightarrow> c)"
  by (cases "rest s") (auto simp: current_char_rest, simp add: rest_def current_char_def)

lemmas text_simps = rest_stream_next_tl current_char_case look_ahead_rest

lemma scans_delimiter_1:
  assumes "rest (cs lx) \<noteq> []" and "tl (rest (cs lx)) = r" and "ready T lx"
    and "lex_turn lx = Some (Inr (return_delimiter k (bump (lx_step lx))))"
  shows "scans_as T lx (k, get_token_string_view k) r"
  using lex_by_token [of lx] assms
  by (simp add: scans_as_def end_of_stream_rest rest_stream_next_tl)

lemma cs_bump2 [simp]: "cs (bump2 lx) = advance 2 (cs lx)"
  by (simp add: bump2_def)

lemma scans_delimiter_2:
  assumes "rest (cs lx) \<noteq> []" and "tl (tl (rest (cs lx))) = r" and "ready T lx"
    and "lex_turn lx = Some (Inr (return_delimiter k (bump (bump (lx_step lx)))))
      \<or> lex_turn lx = Some (Inr (return_delimiter k (bump2 (lx_step lx))))"
  shows "scans_as T lx (k, get_token_string_view k) r"
  using lex_by_token [of lx] assms
  by (auto simp: scans_as_def end_of_stream_rest rest_stream_next_tl rest_advance
      drop_Suc numeral_2_eq_2)

lemma lex_turn_punctuation:
  assumes "here lx = c" and "\<not> is_ident_char c" and "c \<notin> {QUOTE, TICK, PERCENT, BACKSLASH}"
  shows "lex_turn lx = (case turn_special c (lx_step lx) of
          Some r \<Rightarrow> Some (Inr r)
        | None \<Rightarrow>
            (case turn_relational c (lx_step lx) of
               Some r \<Rightarrow> Some (Inr r)
             | None \<Rightarrow>
                 (case turn_space c (lx_step lx) of
                    Some r \<Rightarrow> Some (Inr r)
                  | None \<Rightarrow> Some (Inr (turn_other c (lx_step lx))))))"
  using assms by (simp add: lex_turn_def Let_def is_ident_char_def split: option.split)

lemmas punctuation_simps = lex_turn_punctuation [OF refl] is_ident_char_def is_upper_def
  is_lower_def is_digit_def turn_special_def turn_relational_def text_simps

definition two_chars :: "delimiter set" where
  "two_chars = {D_rightarrow, D_pow, D_coloneq, D_ne, D_gte, D_lte, D_box}"

lemma lex_turn_delimiter_1:
  assumes "rest (cs lx) = get_token_string_view (Delim d) @ CHR '' '' # r"
    and "d \<noteq> D_tick" and "d \<notin> two_chars" and "vhdl_version lx \<noteq> vhdl87"
  shows "lex_turn lx = Some (Inr (return_delimiter (Delim d) (bump (lx_step lx))))"
  using assms
  by (cases d) (simp_all add: two_chars_def punctuation_simps del: return_delimiter_simps)

lemma lex_turn_delimiter_2:
  assumes "rest (cs lx) = get_token_string_view (Delim d) @ CHR '' '' # r" and "d \<in> two_chars"
  shows "lex_turn lx = Some (Inr (return_delimiter (Delim d) (bump (bump (lx_step lx)))))
      \<or> lex_turn lx = Some (Inr (return_delimiter (Delim d) (bump2 (lx_step lx))))"
  using assms
  by (cases d) (simp_all add: two_chars_def punctuation_simps del: return_delimiter_simps)

lemma lex_delimiter_lemma:
  assumes rest: "rest (cs lx) = get_token_string_view (Delim d) @ CHR '' '' # r"
    and d: "d \<noteq> D_tick" and ready: "ready T lx"
  shows "scans_as T lx (Delim d, get_token_string_view (Delim d)) (CHR '' '' # r)"
proof (cases "d \<in> two_chars")
  case True
  then show ?thesis using rest
    by (intro scans_delimiter_2 ready lex_turn_delimiter_2 [OF rest True])
      (auto simp: two_chars_def)
next
  case False
  have "vhdl_version lx \<noteq> vhdl87" using ready by (simp add: ready_def)
  note turn = lex_turn_delimiter_1 [OF rest d False this]
  have "rest (cs lx) \<noteq> []" using rest by simp
  moreover have "tl (rest (cs lx)) = CHR '' '' # r"
    using rest d False by (cases d) (auto simp: two_chars_def)
  ultimately show ?thesis using ready turn by (rule scans_delimiter_1)
qed

section \<open>Separators\<close>

text \<open>A blank before a character that is none is skipped on its own.\<close>

lemma lex_blank:
  assumes rest: "rest (cs lx) = CHR '' '' # r" and r: "r \<noteq> [] \<Longrightarrow> hd r \<notin> {CHR '' '', NBSP}"
    and ready: "ready T lx"
  shows "\<exists>lx'. lex lx = lex lx' \<and> rest (cs lx') = r \<and> ready T lx' \<and> yyltok lx' = yyltok lx"
proof -
  have "next_char (cs lx) \<notin> {CHR '' '', NBSP}"
    using r ready rest next_char_rest [of "cs lx" "CHR '' ''"] next_char_rest_last [of "cs lx" "CHR '' ''"]
    by (cases r) (auto simp: ready_def end_ok_def)
  then have "blanks_from 1 (next_char (cs lx)) (cs lx) = 1"
    by (subst blanks_from.simps) simp
  then have "lex_turn lx = Some (Inr (None, lx_advance 1 (lx_columns 1 (lx_step lx))))"
    using rest by (simp add: punctuation_simps turn_space_def break_turn_def)
  then have "lex lx = lex (lx_advance 1 (lx_columns 1 (lx_step lx)))"
    using rest by (intro lex_by_break) (auto simp: end_of_stream_rest)
  then show ?thesis
    using rest ready by (intro exI [of _ "lx_advance 1 (lx_columns 1 (lx_step lx))"])
      (auto simp: rest_advance elim!: ready_cong)
qed

section \<open>Printing and scanning\<close>

text \<open>
  A lexeme: a delimiter other than the tick (whose reading depends on what follows), a word, the
  characters of a string literal, an integer with underscores. \<open>show_lexeme\<close> prints it the way a source
  text has it, \<open>read_lexeme\<close> is the kind and the text of the token it should be read as.
\<close>

datatype lexeme = L_delim delimiter | L_word string | L_string string | L_int string

primrec show_lexeme :: "lexeme \<Rightarrow> string" where
  "show_lexeme (L_delim d) = get_token_string_view (Delim d)"
| "show_lexeme (L_word w) = w"
| "show_lexeme (L_string s) = QUOTE # doubled s @ [QUOTE]"
| "show_lexeme (L_int w) = w"

primrec read_lexeme :: "lexeme \<Rightarrow> kind_t \<times> string" where
  "read_lexeme (L_delim d) = (Delim d, get_token_string_view (Delim d))"
| "read_lexeme (L_word w) = word_kind (map lower_char w)"
| "read_lexeme (L_string s) = (tk_stringliteral, QUOTE # s @ [QUOTE])"
| "read_lexeme (L_int w) = (tk_integer, filter is_digit w)"

primrec lexeme_ok :: "lexeme \<Rightarrow> bool" where
  "lexeme_ok (L_delim d) = (d \<noteq> D_tick)"
| "lexeme_ok (L_word w) = (w \<noteq> [] \<and> list_all is_ident_char w \<and> (is_upper (hd w) \<or> is_lower (hd w)))"
| "lexeme_ok (L_string s) = list_all is_graphic_character s"
| "lexeme_ok (L_int w) = (w \<noteq> [] \<and> is_digit (hd w) \<and> list_all (\<lambda>c. is_digit c \<or> c = CHR ''_'') w)"

primrec lexeme_text :: "lexeme \<Rightarrow> string list" where
  "lexeme_text (L_delim d) = []"
| "lexeme_text (L_word w) = [map lower_char w]"
| "lexeme_text (L_string s) = [QUOTE # s @ [QUOTE]]"
| "lexeme_text (L_int w) = [filter is_digit w]"

definition show_lexemes :: "lexeme list \<Rightarrow> string" where
  "show_lexemes ls = concat (map (\<lambda>l. show_lexeme l @ '' '') ls)"

primrec lex_many :: "nat \<Rightarrow> lexer \<Rightarrow> (lex_error, (kind_t \<times> string) list \<times> lexer) outcome" where
  "lex_many 0 lx = Some (Inr ([], lx))"
| "lex_many (Suc n) lx =
     obind (lex lx) (\<lambda>(t, lx1). obind (lex_many n lx1) (\<lambda>(ts, lx2).
       Some (Inr ((kind t, val t) # ts, lx2))))"

lemma scan_lexeme:
  assumes "rest (cs lx) = show_lexeme l @ CHR '' '' # r" and "lexeme_ok l" and "ready T lx"
    and "set (lexeme_text l) \<subseteq> T"
  shows "scans_as T lx (read_lexeme l) (CHR '' '' # r)"
proof (cases l)
  case (L_delim d)
  then show ?thesis using assms lex_delimiter_lemma by simp
next
  case (L_word w)
  then show ?thesis
    using lex_word_lemma [of lx w "CHR '' '' # r" T] assms
    by (simp add: scans_as_def list_all_iff is_ident_char_def is_upper_def is_lower_def is_digit_def)
next
  case (L_string s)
  then show ?thesis
    using lex_string_lemma [of lx s "CHR '' '' # r" T] assms
    by (simp add: scans_as_def list_all_iff conj_assoc)
next
  case (L_int w)
  then show ?thesis
    using lex_number_lemma [of lx w "CHR '' '' # r" T] assms
    by (simp add: scans_as_def list_all_iff is_digit_def)
qed

lemma show_lexeme_first:
  "lexeme_ok l \<Longrightarrow> \<exists>c s. show_lexeme l = c # s \<and> c \<notin> {CHR '' '', NBSP}"
proof (cases l)
  case (L_delim d)
  then show ?thesis by (cases d) auto
next
  case (L_word w)
  then show "lexeme_ok l \<Longrightarrow> ?thesis" by (cases w) (auto simp: is_upper_def is_lower_def)
next
  case (L_int w)
  then show "lexeme_ok l \<Longrightarrow> ?thesis" by (cases w) (auto simp: is_digit_def)
qed simp

lemma show_lexemes_first:
  "list_all lexeme_ok ls \<Longrightarrow> show_lexemes ls \<noteq> [] \<Longrightarrow> hd (show_lexemes ls) \<notin> {CHR '' '', NBSP}"
  using show_lexeme_first by (cases ls) (fastforce simp: show_lexemes_def)+

text \<open>The scanner may stand before the blank that ends the last lexeme.\<close>

lemma lex_many_lexemes:
  assumes "rest (cs lx) = show_lexemes ls \<or> rest (cs lx) = CHR '' '' # show_lexemes ls"
    and "list_all lexeme_ok ls" and "ready T lx" and "set (concat (map lexeme_text ls)) \<subseteq> T"
  shows "\<exists>lx' t lx''. lex_many (length ls) lx = Some (Inr (map read_lexeme ls, lx'))
    \<and> lex lx' = Some (Inr (t, lx'')) \<and> kind t = tk_eof"
  using assms
proof (induction ls arbitrary: lx)
  case Nil
  have e: "\<exists>t lx'. lex lx = Some (Inr (t, lx')) \<and> kind t = tk_eof" if "rest (cs lx) = []" for lx
    using lex_at_end [of lx] that by (simp add: end_of_stream_rest plain_token_def)
  from Nil(1) show ?case
  proof
    assume "rest (cs lx) = show_lexemes []"
    then show ?thesis using e by (simp add: show_lexemes_def)
  next
    assume "rest (cs lx) = CHR '' '' # show_lexemes []"
    then show ?thesis using lex_blank [of lx "[]" T] e Nil(3) by (fastforce simp: show_lexemes_def)
  qed
next
  case (Cons l ls)
  have "\<exists>lx0. lex lx = lex lx0 \<and> rest (cs lx0) = show_lexemes (l # ls) \<and> ready T lx0"
    using Cons.prems(1)
  proof
    assume "rest (cs lx) = show_lexemes (l # ls)"
    then show ?thesis using Cons.prems(3) by blast
  next
    assume "rest (cs lx) = CHR '' '' # show_lexemes (l # ls)"
    then show ?thesis
      using lex_blank [OF _ show_lexemes_first] Cons.prems(2,3) by blast
  qed
  then obtain lx0 where lx0: "lex lx = lex lx0"
    "rest (cs lx0) = show_lexeme l @ CHR '' '' # show_lexemes ls" "ready T lx0"
    by (auto simp: show_lexemes_def)
  have "scans_as T lx0 (read_lexeme l) (CHR '' '' # show_lexemes ls)"
    using lx0 Cons.prems(2,4) by (intro scan_lexeme) auto
  then obtain t lx1 where t: "lex lx = Some (Inr (t, lx1))" "(kind t, val t) = read_lexeme l"
    "rest (cs lx1) = CHR '' '' # show_lexemes ls" "ready T lx1"
    by (auto simp: scans_as_def lx0(1))
  obtain lx' t' lx'' where "lex_many (length ls) lx1 = Some (Inr (map read_lexeme ls, lx'))"
    "lex lx' = Some (Inr (t', lx''))" "kind t' = tk_eof"
    using Cons.IH [of lx1] t(3,4) Cons.prems(2,4) by auto
  then show ?case using t(1,2) by auto
qed

section \<open>Assertions\<close>

text \<open>A computation that fails no assertion; running out of a page is still an error.\<close>

definition no_assert :: "lex_error + 'a \<Rightarrow> bool" where
  "no_assert r \<longleftrightarrow> (\<forall>a. r \<noteq> Inl (Assert_failed a))"

lemma no_assert_Inr [simp]: "no_assert (Inr x)"
  by (simp add: no_assert_def)

lemma no_assert_reject [simp]: "no_assert (reject m lx)"
  by (simp add: reject_def Let_def)

lemma no_assert_intern: "no_assert (sbind (lx_intern s lx) (\<lambda>(sv, lx). Inr (f sv lx)))"
  by (auto simp: no_assert_def lx_intern_def sbind_def split: sum.splits)

lemmas no_assert_literal [simp] = no_assert_intern [of _ _ "\<lambda>sv lx. current_token_is_literal k sv lx" for k]

lemma no_assert_string: "no_assert (lex_string_again q str lx)"
proof (induction "left lx" arbitrary: str lx rule: less_induct)
  case less
  have "no_assert (lex_string_again q s lx1)" if "\<not> at_end (bump lx)" "lexed (bump lx) lx1" for s lx1
    using less left_again [OF that] by blast
  then show ?case
    unfolding lex_string_again.simps [of q str lx] Let_def by simp
qed

lemma no_assert_extended: "no_assert (lex_extended_identifier_again str lx)"
proof (induction "left lx" arbitrary: str lx rule: less_induct)
  case less
  have "no_assert (lex_extended_identifier_again s lx1)"
    if "\<not> at_end (bump lx)" "lexed (bump lx) lx1" for s lx1
    using less left_again [OF that] by blast
  then show ?case
    unfolding lex_extended_identifier_again.simps [of str lx] Let_def by simp
qed

lemma no_assert_bitstring: "no_assert (lex_bitstring_again q str lx)"
proof (induction "left lx" arbitrary: str lx rule: less_induct)
  case less
  have "no_assert (lex_bitstring_again q s lx1)" if "\<not> at_end (bump lx)" "lexed (bump lx) lx1" for s lx1
    using less left_again [OF that] by blast
  then show ?case
    unfolding lex_bitstring_again.simps [of q str lx] Let_def by simp
qed

lemma no_assert_identifier:
  assumes n: "n \<le> length (rest (cs lx))" and e: "\<not> at_end lx"
  shows "no_assert (end_of_identifier (cur (cs lx)) s (bumps n lx))"
proof -
  define lx1 where "lx1 = bumps n lx"
  have cs1: "cs lx1 = advance n (cs lx)" unfolding lx1_def by (rule bumps_cs [OF n])
  have "no_assert (finish_identifier s lx1)"
    by (auto simp: no_assert_def finish_identifier_def lx_intern_def sbind_def
        split: sum.splits option.splits)
  moreover have "no_assert (lex_bitstring (lx1\<lparr>cs := p\<rparr>))"
    if q: "here lx1 = QUOTE \<or> here lx1 = PERCENT" and one: "int (cur (cs lx1)) - int (cur (cs lx)) = 1"
      and p: "set_position (cur (cs lx)) (cs lx1) = Some p" for p
  proof -
    have "p = cs lx" using p cs1 by (auto simp: set_position_def split: if_splits)
    moreover have "n = 1" using one cs1 by simp
    ultimately have "stream_next p = cs lx1"
      using cs1 e by (simp add: stream_next_def advance_def end_of_stream_def)
    then show ?thesis using q by (auto simp: lex_bitstring_def Let_def no_assert_bitstring)
  qed
  moreover have "set_position (cur (cs lx)) (cs lx1) \<noteq> None"
    using e cs1 by (simp add: set_position_def stream_length_def end_of_stream_def)
  ultimately show ?thesis
    unfolding lx1_def [symmetric] end_of_identifier_def by (auto split: option.split)
qed

definition the_assert :: "lex_error + 'a \<Rightarrow> bool" where
  "the_assert r \<longleftrightarrow> (\<forall>a. r = Inl (Assert_failed a) \<longrightarrow> a = ''fix me'')"

lemma the_assert_no [simp]: "no_assert r \<Longrightarrow> the_assert r"
  by (simp add: the_assert_def no_assert_def)

lemma the_assert_number: "is_digit (here lx) \<Longrightarrow> the_assert (lex_number lx)"
proof -
  have f: "no_assert (finish_number w r)" for w r
    by (simp add: finish_number_def Let_def)
  show "is_digit (here lx) \<Longrightarrow> ?thesis"
    unfolding lex_number_def Let_def
    by (auto simp: f split: prod.split) (simp add: the_assert_def)
qed

lemma the_assert_token: "the_assert r \<Longrightarrow> the_assert (the (return_token r))"
  by (auto simp: the_assert_def return_token_def sbind_def split: sum.splits)

lemma the_assert_word:
  assumes "\<not> at_end lx" and "end_ok (cs lx)"
  shows "the_assert (the (obind (lex_identifier_or_keyword_or_bitstring lx)
           (\<lambda>(t, lx). Some (Inr (Some t, lx)))))"
proof -
  have "no_assert (the (lex_identifier_or_keyword_or_bitstring lx))"
    using assms no_assert_identifier [OF length_takeWhile_le]
    by (simp add: lex_identifier_or_keyword_or_bitstring_def lex_identifier_again_eq end_ok_def Let_def)
  moreover obtain r where "lex_identifier_or_keyword_or_bitstring lx = Some r"
    using assms by (simp add: lex_identifier_or_keyword_or_bitstring_def lex_identifier_again_eq
        end_ok_def Let_def)
  ultimately show ?thesis
    by (cases r) (auto simp: no_assert_def the_assert_def split: prod.splits)
qed

lemma the_assert_turn:
  assumes "\<not> at_end lx" and "end_ok (cs lx)"
  shows "the_assert (the (lex_turn lx))"
proof -
  define lx0 where "lx0 = lx_step lx"
  have h: "\<not> at_end lx0" "end_ok (cs lx0)" using assms by (simp_all add: lx0_def)
  have str: "here lx0 = QUOTE \<or> here lx0 = PERCENT \<Longrightarrow> no_assert (lex_string lx0)"
    by (auto simp: lex_string_def Let_def no_assert_string)
  have chr: "here lx0 = TICK \<Longrightarrow> look_ahead 2 (cs lx0) = TICK \<Longrightarrow> no_assert (lex_character lx0)"
    by (simp add: lex_character_def Let_def)
  have ext: "here lx1 = BACKSLASH \<Longrightarrow> no_assert (lex_extended_identifier lx1)" for lx1
    by (simp add: lex_extended_identifier_def no_assert_extended)
  show ?thesis
    unfolding lex_turn_def Let_def lx0_def [symmetric]
    using h str chr ext the_assert_number [of lx0]
    by (auto intro!: the_assert_word the_assert_token split: option.split)
qed

lemma the_assert_lex:
  assumes "end_ok (cs lx)"
  shows "the_assert (the (lex lx))"
  using assms
proof (induction "left lx" arbitrary: lx rule: less_induct)
  case less
  show ?case
  proof (cases "at_end lx")
    case True
    then show ?thesis by (simp add: lex_at_end)
  next
    case False
    obtain r where r: "lex_turn lx = Some r" "turn_ok lx r"
      using lex_turn_ok [OF False less.prems] by blast
    have a: "the_assert r" using the_assert_turn [OF False less.prems] r(1) by simp
    show ?thesis
    proof (cases "\<exists>lx1. r = Inr (None, lx1)")
      case True
      then obtain lx1 where lx1: "r = Inr (None, lx1)" by blast
      then have p: "passed lx lx1" using r(2) by (simp add: turn_ok_def)
      have "left lx1 < left lx"
        using p False by (auto simp: passed_def lexed_def moved_def left_def end_of_stream_def)
      then have "the_assert (the (lex lx1))"
        using less.hyps [of lx1] less.prems p end_ok_lexed [of lx lx1] by (simp add: passed_def)
      then show ?thesis using lex_by_break [OF False] r(1) lx1 by simp
    next
      case other: False
      have "lex lx = Some (sbind r (\<lambda>x. Inr (the (fst x), snd x)))"
        using other False r(1) by (cases r) (subst lex.simps, force)+
      then show ?thesis using a by (auto simp: the_assert_def sbind_def split: sum.splits)
    qed
  qed
qed

section \<open>The end of the file\<close>

text \<open>Only the end of the text is reported as the end of the file.\<close>

definition no_eof :: "lex_error + token \<times> lexer \<Rightarrow> bool" where
  "no_eof r \<longleftrightarrow> (\<forall>t lx'. r = Inr (t, lx') \<longrightarrow> kind t \<noteq> tk_eof)"

lemma no_eof_Inl [simp]: "no_eof (Inl e)"
  by (simp add: no_eof_def)

lemma no_eof_reject [simp]: "no_eof (reject m lx)"
  by (simp add: no_eof_def reject_def Let_def plain_token_def)

lemma no_eof_literal [simp]:
  "k \<noteq> tk_eof \<Longrightarrow> no_eof (sbind (lx_intern s lx) (\<lambda>(sv, lx). Inr (current_token_is_literal k sv lx)))"
  by (auto simp: no_eof_def sbind_Inr_iff current_token_is_literal_def)

lemma no_eof_string: "no_eof (lex_string_again q str lx)"
proof (induction "left lx" arbitrary: str lx rule: less_induct)
  case less
  have "no_eof (lex_string_again q s lx1)" if "\<not> at_end (bump lx)" "lexed (bump lx) lx1" for s lx1
    using less left_again [OF that] by blast
  then show ?case
    unfolding lex_string_again.simps [of q str lx] Let_def by simp
qed

lemma no_eof_extended: "no_eof (lex_extended_identifier_again str lx)"
proof (induction "left lx" arbitrary: str lx rule: less_induct)
  case less
  have "no_eof (lex_extended_identifier_again s lx1)"
    if "\<not> at_end (bump lx)" "lexed (bump lx) lx1" for s lx1
    using less left_again [OF that] by blast
  then show ?case
    unfolding lex_extended_identifier_again.simps [of str lx] Let_def by simp
qed

lemma no_eof_bitstring: "no_eof (lex_bitstring_again q str lx)"
proof (induction "left lx" arbitrary: str lx rule: less_induct)
  case less
  have "no_eof (lex_bitstring_again q s lx1)" if "\<not> at_end (bump lx)" "lexed (bump lx) lx1" for s lx1
    using less left_again [OF that] by blast
  then show ?case
    unfolding lex_bitstring_again.simps [of q str lx] Let_def by simp
qed

lemma keyword_not_eof: "find_keyword s = Some k \<Longrightarrow> k \<noteq> tk_eof"
  using identifier_to_keyword_spelled
  by (auto simp: find_keyword_iff list_all_iff is_reserved_word_def)

lemma no_eof_identifier: "no_eof (end_of_identifier start s lx)"
  by (auto simp: no_eof_def end_of_identifier_def finish_identifier_def sbind_Inr_iff
      lex_bitstring_def Let_def current_token_is_identifier_def current_token_is_keyword_def
      dest: keyword_not_eof no_eof_bitstring [unfolded no_eof_def, rule_format]
      split: if_splits option.splits)

lemma no_eof_number: "no_eof (lex_number lx)"
  by (auto simp: lex_number_def finish_number_def Let_def split: prod.split)

lemma no_eof_simple: "no_eof (lex_string lx)" "no_eof (lex_extended_identifier lx)" "no_eof (lex_character lx)"
  by (auto simp: lex_string_def lex_extended_identifier_def lex_character_def Let_def no_eof_string
      no_eof_extended)

lemma no_eof_turns:
  "turn_special c lx = Some (Some t, lx') \<Longrightarrow> kind t \<noteq> tk_eof"
  "turn_relational c lx = Some (Some t, lx') \<Longrightarrow> kind t \<noteq> tk_eof"
  "turn_space c lx = Some (Some t, lx') \<Longrightarrow> kind t \<noteq> tk_eof"
  "turn_other c lx = (Some t, lx') \<Longrightarrow> kind t \<noteq> tk_eof"
  by (auto simp: turn_special_def turn_relational_def turn_space_def turn_other_def Let_def
      break_turn_def split: if_splits)

lemma no_eof_return_token: "return_token r = Some (Inr (Some t, lx')) \<Longrightarrow> no_eof r \<Longrightarrow> kind t \<noteq> tk_eof"
  by (auto simp: return_token_def sbind_Inr_iff no_eof_def)

lemma no_eof_word:
  assumes "end_ok (cs lx)"
    and "obind (lex_identifier_or_keyword_or_bitstring lx) (\<lambda>(t, lx). Some (Inr (Some t, lx)))
      = Some (Inr (Some t, lx'))"
  shows "kind t \<noteq> tk_eof"
  using assms
  by (auto simp: lex_identifier_or_keyword_or_bitstring_def lex_identifier_again_eq end_ok_def Let_def
      obind_Inr_iff dest: no_eof_identifier [unfolded no_eof_def, rule_format])

lemma lex_turn_not_eof:
  assumes "end_ok (cs lx)" and "lex_turn lx = Some (Inr (Some t, lx'))"
  shows "kind t \<noteq> tk_eof"
proof -
  define lx0 where "lx0 = lx_step lx"
  have h: "end_ok (cs lx0)" "end_ok (cs (diagnose m lx0))" for m using assms by (simp_all add: lx0_def)
  note turn = assms(2) [unfolded lex_turn_def Let_def, folded lx0_def]
  show ?thesis
    using turn
    by (auto split: if_splits option.splits dest: no_eof_turns no_eof_word [OF h(1)] no_eof_word [OF h(2)]
        no_eof_return_token [OF _ no_eof_number] no_eof_return_token [OF _ no_eof_simple(1)]
        no_eof_return_token [OF _ no_eof_simple(2)] no_eof_return_token [OF _ no_eof_simple(3)])
qed

lemma location_step_idem [simp]: "location_step (location_step l) = location_step l"
  by (simp add: location_step_def)

lemma lx_step_idem [simp]: "lx_step (lx_step lx) = lx_step lx"
  by (simp add: lx_step_def)

lemma lex_eof:
  assumes "end_ok (cs lx)" and "lex lx = Some (Inr (t, lx'))" and "kind t = tk_eof"
  shows "lex lx' = Some (Inr (t, lx'))"
  using assms
proof (induction "left lx" arbitrary: lx rule: less_induct)
  case less
  show ?case
  proof (cases "at_end lx")
    case True
    then show ?thesis using less.prems(2) lex_at_end [of lx] lex_at_end [of lx'] by auto
  next
    case False
    obtain r where r: "lex_turn lx = Some r" "turn_ok lx r"
      using lex_turn_ok [OF False less.prems(1)] by blast
    have eq: "lex lx = obind (Some r) (\<lambda>r. case fst r of
        Some t \<Rightarrow> Some (Inr (t, snd r)) | None \<Rightarrow> lex (snd r))"
      using False by (subst lex.simps) (simp add: r(1))
    obtain x where x: "r = Inr x" using eq less.prems(2) by (cases r) auto
    obtain o1 lx1 where "x = (o1, lx1)" by (cases x)
    with x eq less.prems(2) have o: "r = Inr (o1, lx1)"
      "(case o1 of Some t \<Rightarrow> Some (Inr (t, lx1)) | None \<Rightarrow> lex lx1) = Some (Inr (t, lx'))"
      by (simp_all split: option.split_asm)
    show ?thesis
    proof (cases o1)
      case None
      then have p: "passed lx lx1" using r(2) o(1) by (simp add: turn_ok_def)
      have "left lx1 < left lx"
        using p False by (auto simp: passed_def lexed_def moved_def left_def end_of_stream_def)
      then show ?thesis
        using less.hyps [of lx1] less.prems p end_ok_lexed [of lx lx1] o(2) None
        by (simp add: passed_def)
    next
      case (Some t1)
      then show ?thesis
        using lex_turn_not_eof [OF less.prems(1)] r(1) o less.prems(3) by auto
    qed
  qed
qed

section \<open>Properties\<close>

definition sample_lexer :: "string \<Rightarrow> char \<Rightarrow> kind_t \<Rightarrow> lexer" where
  "sample_lexer s e k =
     \<lparr>vhdl_version = vhdl93, strings = stringtable_new length, diagnostics = Some [],
      cs = stream_new s e, yyltok = k, yylloc = location_initialize [] 1 1\<rparr>"

lemmas sample_simps = sample_lexer_def stream_new_def end_ok_def is_ident_char_def is_upper_def
  is_lower_def is_digit_def

text \<open>C6. If the byte behind the text neither continues an identifier nor is a blank (the NUL of a
  \<open>std::string\<close> does not), \<open>_lex\<close> returns from every state: neither its loop over separators nor the
  loop that collects an identifier runs for ever.\<close>

theorem lex_returns:
  assumes "end_ok (cs lx)"
  shows "\<exists>r. lex lx = Some r"
  using lex_ok [OF assms] by blast

theorem lex_returns_witness: "\<exists>r. lex (sample_lexer ''a -- b'' NUL tk_eof) = Some r"
  by (rule lex_returns) (simp add: sample_simps)



text \<open>C31. A tick, a character that is not graphic and a tick, where a tick is not a delimiter: \<open>_lex\<close>
  reports an invalid token and does not consume anything, so that the next call, and every one after it,
  does the same. The end of the text is never reached, and no consumer that waits for it returns.\<close>

theorem lex_stuck:
  assumes "stuck lx"
  shows "\<exists>lx'. lex lx = Some (Inr (plain_token tk_invalid lx', lx')) \<and> cs lx' = cs lx \<and> stuck lx'"
proof -
  define lx' where "lx' = diagnose Graphic_char (lx_step lx)"
  have "lex_turn lx = Some (Inr (Some (plain_token tk_invalid lx'), lx'))"
    using assms by (simp add: stuck_def lex_turn_def Let_def lex_character_def return_token_def
        reject_def is_upper_def is_lower_def is_digit_def lx'_def)
  then have "lex lx = Some (Inr (plain_token tk_invalid lx', lx'))"
    using assms by (intro lex_by_token) (auto simp: stuck_def)
  moreover have "cs lx' = cs lx" "stuck lx'" using assms by (simp_all add: lx'_def stuck_def)
  ultimately show ?thesis by blast
qed

theorem lex_stuck_witness:
  "\<exists>lx'. lex (sample_lexer [TICK, TAB, TICK] NUL tk_eof)
      = Some (Inr (plain_token tk_invalid lx', lx')) \<and> cur (cs lx') = 0"
proof -
  have "stuck (sample_lexer [TICK, TAB, TICK] NUL tk_eof)"
    by (simp add: stuck_def sample_simps end_of_stream_def current_char_def look_ahead_def
        tick_is_delimiter_after_def numeral_2_eq_2)
  from lex_stuck [OF this] show ?thesis by (auto simp: sample_simps)
qed

text \<open>The loop that collects an identifier does not look at the end of the text: an identifier that
  ends the text, where the byte behind the text is a letter, a digit or an underscore, makes \<open>_lex\<close> run
  for ever.\<close>

theorem lex_runs_away:
  assumes "rest (cs lx) \<noteq> []" and "is_upper (hd (rest (cs lx))) \<or> is_lower (hd (rest (cs lx)))"
    and "list_all is_ident_char (rest (cs lx))" and "is_ident_char (past_end (cs lx))"
  shows "lex lx = None"
proof -
  define c where "c = hd (rest (cs lx))"
  have h: "here lx = c" using assms(1) by (cases "rest (cs lx)") (auto simp: c_def current_char_rest)
  have "lex_identifier_or_keyword_or_bitstring (lx_step lx) = None"
    using lex_identifier_again_diverges [of _ _ "lx_step lx"] assms(3,4)
    unfolding lex_identifier_or_keyword_or_bitstring_def
    by (cases "lex_identifier_again (cur (cs (lx_step lx))) [] (lx_step lx)")
      (auto simp: list_all_iff)
  then have "lex_turn lx = None"
    using h assms(2) is_letter_not by (simp add: lex_turn_def Let_def c_def)
  then show ?thesis using assms(1) by (subst lex.simps) (simp add: end_of_stream_rest)
qed

theorem lex_runs_away_witness: "lex (sample_lexer ''ab'' (CHR ''c'') tk_eof) = None"
  by (rule lex_runs_away) (simp_all add: sample_simps rest_def)


definition failed_assertion :: "(lex_error, 'a) outcome \<Rightarrow> string option" where
  "failed_assertion r = (case r of Some (Inl (Assert_failed a)) \<Rightarrow> Some a | _ \<Rightarrow> None)"

lemma failed_assertion_Some [simp]:
  "failed_assertion r = Some a \<longleftrightarrow> r = Some (Inl (Assert_failed a))"
  by (auto simp: failed_assertion_def split: option.splits sum.splits lex_error.splits)

lemma fix_me_fails:
  "failed_assertion (lex (sample_lexer ''1#'' NUL tk_eof)) = Some ''fix me''"
  by code_simp


text \<open>A comment is skipped up to the end of its line and nothing else happens: scanning at a \<open>--\<close>
  is scanning at the next end of line or at the end of the text, with the same strings, diagnostics and
  last token.\<close>

theorem lex_skips_comment:
  assumes "take 2 (rest (cs lx)) = ''--''"
  shows "\<exists>lx'. lex lx = lex lx' \<and> rest (cs lx') = dropWhile (\<lambda>c. \<not> is_eol c) (rest (cs lx))
    \<and> strings lx' = strings lx \<and> diagnostics lx' = diagnostics lx \<and> yyltok lx' = yyltok lx"
proof -
  obtain r where r: "rest (cs lx) = CHR ''-'' # CHR ''-'' # r"
    using assms by (cases "rest (cs lx)"; cases "tl (rest (cs lx))") auto
  define lx' where "lx' = lx_skip_to_eol (bump (lx_step lx))"
  have "lex_turn lx = Some (Inr (None, lx'))"
    using r by (simp add: punctuation_simps break_turn_def lx'_def)
  then have "lex lx = lex lx'" using r by (intro lex_by_break) (simp_all add: end_of_stream_rest)
  moreover have "rest (cs lx') = dropWhile (\<lambda>c. \<not> is_eol c) (rest (cs lx))"
    using r by (simp add: lx'_def rest_skip_to_eol rest_stream_next_tl is_eol_def)
  ultimately show ?thesis by (intro exI [of _ lx']) (simp add: lx'_def)
qed

theorem lex_skips_comment_witness:
  "\<exists>lx'. lex (sample_lexer (''--x'' @ [LF]) NUL tk_eof) = lex lx' \<and> rest (cs lx') = [LF]"
  using lex_skips_comment [of "sample_lexer (''--x'' @ [LF]) NUL tk_eof"]
  by (auto simp: sample_simps rest_def is_eol_def numeral_2_eq_2)



end
