(* ===== verification/Token_Queue.thy ===== *)
theory Token_Queue
  imports Scan_Text
begin

text \<open>
  The public half of \<open>vhdl::lexer\<close> (\<^verbatim>\<open>src/vhdl/lexer.cpp\<close>): the queue of tokens looked ahead, the
  current and the previous token, and the checkpoints, on top of the scanner.

  What a queue needs of its scanner is the locale \<open>token_source\<close>, and the scanner is one when the
  byte behind the text is harmless and the text has no character literal it gets stuck on. The
  queue itself is a token source again, which is what the parsers rely on.
\<close>

section \<open>State and operations\<close>

record queue =
  scanner :: lexer
  lookahead_tokens :: "token list"
  tokens :: "token list"  \<comment> \<open>\<open>tokens_[MAX_LOOKBACK]\<close>\<close>
  current_one :: nat
  checkpoints :: "token list list"  \<comment> \<open>the stack, its top first\<close>

definition MAX_LOOKBACK :: nat where "MAX_LOOKBACK = 2"

definition queue_new :: "lexer \<Rightarrow> queue" where
  "queue_new lx =
     \<lparr>scanner = lx, lookahead_tokens = [], tokens = replicate MAX_LOOKBACK token_default,
      current_one = 0, checkpoints = []\<rparr>"

definition current_token :: "queue \<Rightarrow> token" where
  "current_token q = tokens q ! current_one q"

definition previous_token :: "queue \<Rightarrow> token" where
  "previous_token q = tokens q ! ((current_one q + 1) mod MAX_LOOKBACK)"

text \<open>\<open>fill k\<close> is the loop of \<open>peek\<close>, which runs once for each of the \<open>k\<close> tokens that are missing.\<close>

primrec fill :: "nat \<Rightarrow> queue \<Rightarrow> (lex_error, queue) outcome" where
  "fill 0 q = Some (Inr q)"
| "fill (Suc k) q =
     obind (lex (scanner q)) (\<lambda>(item, lx).
       fill k (q\<lparr>scanner := lx, lookahead_tokens := lookahead_tokens q @ [item]\<rparr>))"

definition peek :: "nat \<Rightarrow> queue \<Rightarrow> (lex_error, token \<times> queue) outcome" where
  "peek n q =
     (if n = 0 then Some (Inr (current_token q, q))
      else obind (fill (n - length (lookahead_tokens q)) q)
        (\<lambda>q. Some (Inr (lookahead_tokens q ! (n - 1), q))))"

definition has_checkpoint :: "queue \<Rightarrow> bool" where
  "has_checkpoint q \<longleftrightarrow> checkpoints q \<noteq> []"

definition push_on_top :: "token \<Rightarrow> token list list \<Rightarrow> token list list" where
  "push_on_top t cps = (case cps of [] \<Rightarrow> [] | newest # below \<Rightarrow> (newest @ [t]) # below)"

definition rotate :: "queue \<Rightarrow> queue" where
  \<comment> \<open>the body of \<open>scan\<close> behind its \<open>peek\<close>\<close>
  "rotate q =
     (let cps = (if has_checkpoint q
                 then push_on_top (current_token q) (checkpoints q)
                 else checkpoints q);
          cur = (current_one q + 1) mod MAX_LOOKBACK
      in q\<lparr>checkpoints := cps, current_one := cur,
           tokens := (tokens q)[cur := hd (lookahead_tokens q)],
           lookahead_tokens := tl (lookahead_tokens q)\<rparr>)"

definition scan :: "queue \<Rightarrow> (lex_error, token \<times> queue) outcome" where
  "scan q0 =
     obind (peek 1 q0) (\<lambda>(_, q). let q = rotate q in Some (Inr (current_token q, q)))"

record look_params =
  look :: "kind_t list"
  stop :: "kind_t list"
  abort :: kind_t
  nest_in :: kind_t
  nest_out :: kind_t
  depth :: nat

partial_function (option) look_for_loop ::
    "look_params \<Rightarrow> nat \<Rightarrow> nat \<Rightarrow> queue \<Rightarrow> (lex_error, bool \<times> queue) outcome" where
  "look_for_loop param n nest q0 =
     obind (peek n q0) (\<lambda>(t, q).
       let k = kind t in
       if k = tk_eof \<or> k = abort param then Some (Inr (False, q))
       else
         let nest = (if k = nest_in param then nest + 1 else nest) in
         if nest = depth param \<and> k \<in> set (look param) then Some (Inr (True, q))
         else if nest = depth param \<and> k \<in> set (stop param) then Some (Inr (False, q))
         else
           let nest = (if k = nest_out param \<and> nest > 0 then nest - 1 else nest) in
           look_for_loop param (n + 1) nest q)"

declare look_for_loop.simps [code]

definition look_for :: "look_params \<Rightarrow> queue \<Rightarrow> (lex_error, bool \<times> queue) outcome" where
  "look_for param q = look_for_loop param 0 0 q"

definition add_checkpoint :: "queue \<Rightarrow> queue" where
  "add_checkpoint q =
     q\<lparr>checkpoints := [previous_token q, current_token q] # checkpoints q\<rparr>"

definition backtrack :: "queue \<Rightarrow> queue" where
  "backtrack q0 =
     (if \<not> has_checkpoint q0 then q0
      else
        let ts = hd (checkpoints q0);
            q = q0\<lparr>checkpoints := tl (checkpoints q0)\<rparr>
        in
        if length ts \<le> 2 then q
        else
          q\<lparr>lookahead_tokens := drop 3 ts @ current_token q # lookahead_tokens q,
            tokens := (tokens q)[current_one q := ts ! 1,
                                 (current_one q + 1) mod MAX_LOOKBACK := ts ! 0]\<rparr>)"

text \<open>
  \<open>drop_checkpoint\<close> appends the tokens to a copy of the checkpoint below (\<open>auto last_checkpoint\<close>),
  and the copy is thrown away.
\<close>

definition drop_checkpoint :: "queue \<Rightarrow> queue" where
  "drop_checkpoint q =
     (if \<not> has_checkpoint q then q else q\<lparr>checkpoints := tl (checkpoints q)\<rparr>)"

section \<open>The current token\<close>

datatype exn = Const_char string | Invalid_argument | Out_of_range

definition get_identifier :: "queue \<Rightarrow> string" where
  "get_identifier q = val (current_token q)"

definition get_string :: "queue \<Rightarrow> exn + string" where
  "get_string q =
     (let tok = current_token q; str = val tok in
      if kind tok = tk_bitstring then Inr str
      else if kind tok = tk_stringliteral \<or> kind tok = tk_character then
        if length str < 2 then Inl (Const_char ''String expected to be 2 characters or more'')
        else if str ! 0 \<noteq> str ! (length str - 1) then
          Inl (Const_char ''String is surrounded by inconsistend characters'')
        else if str ! 0 \<noteq> QUOTE \<and> str ! 0 \<noteq> TICK then
          Inl (Const_char ''String is surrounded by invalid characters'')
        else Inr (take (length str - 2) (drop 1 str))
      else if kind tok = tk_integer \<or> kind tok = tk_real then Inr str
      else Inr [])"

text \<open>\<open>std::stoi\<close>: blanks, a sign, the longest run of digits; what follows is ignored.\<close>

definition digits_value :: "string \<Rightarrow> int" where
  "digits_value ds = foldl (\<lambda>n c. 10 * n + (int (ord c) - 48)) 0 ds"

definition stoi :: "string \<Rightarrow> exn + int" where
  "stoi s =
     (let s = dropWhile (\<lambda>c. c = CHR '' '' \<or> ord c \<ge> 9 \<and> ord c \<le> 13) s;
          neg = (s \<noteq> [] \<and> hd s = CHR ''-'');
          s = (if s \<noteq> [] \<and> (hd s = CHR ''-'' \<or> hd s = CHR ''+'') then tl s else s);
          ds = takeWhile is_digit s;
          n = (if neg then - digits_value ds else digits_value ds)
      in if ds = [] then Inl Invalid_argument
         else if n < - (2 ^ 31) \<or> n \<ge> 2 ^ 31 then Inl Out_of_range
         else Inr n)"

definition get_integer :: "queue \<Rightarrow> exn + int" where
  "get_integer q =
     (let tok = current_token q in if kind tok = tk_integer then stoi (val tok) else Inr 0)"

definition get_current_line :: "queue \<Rightarrow> u32" where
  "get_current_line q = line (begin_pos (loc (current_token q)))"

definition get_current_offset :: "queue \<Rightarrow> u32" where
  "get_current_offset q = column (begin_pos (loc (current_token q)))"

definition get_current_location :: "queue \<Rightarrow> location" where
  "get_current_location q = loc (current_token q)"

definition get_current_position :: "queue \<Rightarrow> position" where
  "get_current_position q = begin_pos (loc (current_token q))"

definition get_previous_location :: "queue \<Rightarrow> location" where
  "get_previous_location q = loc (previous_token q)"

definition get_previous_position :: "queue \<Rightarrow> position" where
  "get_previous_position q = begin_pos (loc (previous_token q))"

section \<open>The interface of a token source\<close>

text \<open>
  A source of tokens: it always returns, and every token that is not the end of the file uses up
  something. Then the end of the file comes, and it comes within \<open>budget s + 1\<close> tokens.
\<close>

primrec take_next :: "('s \<Rightarrow> ('e, 't \<times> 's) outcome) \<Rightarrow> nat \<Rightarrow> 's \<Rightarrow> ('e, 't list \<times> 's) outcome" where
  "take_next draw 0 s = Some (Inr ([], s))"
| "take_next draw (Suc n) s =
     obind (draw s) (\<lambda>(t, s1). obind (take_next draw n s1) (\<lambda>(ts, s2). Some (Inr (t # ts, s2))))"

locale token_source =
  fixes draw :: "'s \<Rightarrow> ('e, 't \<times> 's) outcome"
    and inv :: "'s \<Rightarrow> bool"
    and budget :: "'s \<Rightarrow> nat"
    and eof :: "'t \<Rightarrow> bool"
  assumes next_returns: "inv s \<Longrightarrow> returns (draw s)"
    and next_inv: "\<lbrakk>inv s; draw s = Some (Inr (t, s'))\<rbrakk> \<Longrightarrow> inv s'"
    and next_left: "\<lbrakk>inv s; draw s = Some (Inr (t, s')); \<not> eof t\<rbrakk> \<Longrightarrow> budget s' < budget s"
    and next_eof: "\<lbrakk>inv s; draw s = Some (Inr (t, s')); eof t\<rbrakk> \<Longrightarrow> budget s' \<le> budget s"
begin

lemma take_next_returns: "inv s \<Longrightarrow> returns (take_next draw n s)"
proof (induction n arbitrary: s)
  case (Suc n)
  show ?case
    unfolding take_next.simps
    by (rule returns_obind [OF next_returns [OF Suc.prems]])
      (auto intro!: returns_obind Suc.IH next_inv [OF Suc.prems])
qed simp

lemma take_next_inv: "inv s \<Longrightarrow> take_next draw n s = Some (Inr (ts, s')) \<Longrightarrow> inv s' \<and> budget s' \<le> budget s"
proof (induction n arbitrary: s ts)
  case (Suc n)
  then obtain t s1 ts1 where n: "draw s = Some (Inr (t, s1))"
    and r: "take_next draw n s1 = Some (Inr (ts1, s'))"
    by (auto simp: obind_Inr_iff)
  have "budget s1 \<le> budget s"
    using next_left [OF Suc.prems(1) n] next_eof [OF Suc.prems(1) n] by fastforce
  then show ?case using Suc.IH [OF next_inv [OF Suc.prems(1) n] r] by simp
qed simp

lemma eof_within:
  "inv s \<Longrightarrow> take_next draw n s = Some (Inr (ts, s')) \<Longrightarrow> budget s < n \<Longrightarrow> \<exists>t \<in> set ts. eof t"
proof (induction n arbitrary: s ts)
  case (Suc n)
  then obtain t s1 ts1 where n: "draw s = Some (Inr (t, s1))"
    and r: "take_next draw n s1 = Some (Inr (ts1, s'))" and ts: "ts = t # ts1"
    by (auto simp: obind_Inr_iff)
  show ?case
  proof (cases "eof t")
    case False
    then have "budget s1 < n" using next_left [OF Suc.prems(1) n] Suc.prems(3) by simp
    then show ?thesis using Suc.IH [OF next_inv [OF Suc.prems(1) n] r] ts by auto
  qed (simp add: ts)
qed simp

end

section \<open>The scanner is a token source\<close>

text \<open>No tick, character that is not graphic, and tick in a row.\<close>

primrec no_stuck_text :: "string \<Rightarrow> bool" where
  "no_stuck_text [] = True"
| "no_stuck_text (c # s) =
     ((case s of d # e # _ \<Rightarrow> \<not> (c = TICK \<and> \<not> is_graphic_character d \<and> e = TICK) | _ \<Rightarrow> True)
      \<and> no_stuck_text s)"

lemma no_stuck_drop: "no_stuck_text s \<Longrightarrow> no_stuck_text (drop n s)"
proof (induction s arbitrary: n)
  case (Cons c s)
  then show ?case by (cases n) auto
qed simp

lemma no_stuck: "no_stuck_text (buf (cs lx)) \<Longrightarrow> \<not> stuck lx"
proof
  assume s: "stuck lx" and "no_stuck_text (buf (cs lx))"
  then have n: "no_stuck_text (rest (cs lx))" by (simp add: rest_def no_stuck_drop)
  have "2 < length (rest (cs lx))"
    using s by (auto simp: stuck_def look_ahead_rest split: if_splits)
  then obtain c d e r where r: "rest (cs lx) = c # d # e # r"
    by (cases "rest (cs lx)"; cases "tl (rest (cs lx))"; cases "tl (tl (rest (cs lx)))") auto
  then show False using s n
    by (auto simp: stuck_def look_ahead_rest current_char_rest numeral_2_eq_2)
qed

definition good_text :: "lexer \<Rightarrow> bool" where
  "good_text lx \<longleftrightarrow> end_ok (cs lx) \<and> no_stuck_text (buf (cs lx))"

lemma good_text_lexed: "good_text lx \<Longrightarrow> lexed lx lx' \<Longrightarrow> good_text lx'"
  using end_ok_lexed [of lx lx'] by (simp add: good_text_def lexed_def moved_def)

abbreviation is_eof :: "token \<Rightarrow> bool" where "is_eof t \<equiv> kind t = tk_eof"

interpretation scanner: token_source lex good_text left is_eof
proof (unfold_locales, goal_cases)
  case (1 s)
  then show ?case using lex_ok [of s] by (auto simp: good_text_def)
next
  case (2 s t s')
  then have "lexed s s'" using lex_ok [of s] by (auto simp: good_text_def)
  then show ?case using good_text_lexed [OF 2(1)] by blast
next
  case (3 s t s')
  have "\<not> at_end s" using 3(2,3) lex_at_end by (auto simp: plain_token_def)
  moreover have "\<not> stuck s" using 3(1) no_stuck by (simp add: good_text_def)
  ultimately have "passed s s'" using lex_ok [of s] 3(1,2) by (auto simp: good_text_def)
  then show ?case using \<open>\<not> at_end s\<close>
    by (auto simp: passed_def lexed_def moved_def left_def end_of_stream_def)
next
  case (4 s t s')
  then show ?case using lex_ok [of s] left_lexed by (auto simp: good_text_def)
qed

section \<open>The queue is a token source\<close>

definition queue_ok :: "queue \<Rightarrow> bool" where
  "queue_ok q \<longleftrightarrow> length (tokens q) = 2 \<and> current_one q < 2 \<and> (\<forall>ts \<in> set (checkpoints q). 2 \<le> length ts)"

definition good_queue :: "queue \<Rightarrow> bool" where
  "good_queue q \<longleftrightarrow> queue_ok q \<and> good_text (scanner q)"

definition queue_left :: "queue \<Rightarrow> nat" where
  "queue_left q = length (filter (\<lambda>t. \<not> is_eof t) (lookahead_tokens q)) + left (scanner q)"

lemma fill_frame:
  "fill k q = Some (Inr q') \<Longrightarrow> tokens q' = tokens q \<and> current_one q' = current_one q
     \<and> checkpoints q' = checkpoints q \<and> (\<exists>ts. length ts = k \<and> lookahead_tokens q' = lookahead_tokens q @ ts)"
proof (induction k arbitrary: q)
  case (Suc k)
  then obtain t lx where "lex (scanner q) = Some (Inr (t, lx))"
    and f: "fill k (q\<lparr>scanner := lx, lookahead_tokens := lookahead_tokens q @ [t]\<rparr>) = Some (Inr q')"
    by (auto simp: obind_Inr_iff)
  from Suc.IH [OF f] obtain ts where ts: "length ts = k"
    "lookahead_tokens q' = lookahead_tokens q @ t # ts" by auto
  then have "\<exists>ts'. length ts' = Suc k \<and> lookahead_tokens q' = lookahead_tokens q @ ts'"
    by (intro exI [of _ "t # ts"]) simp
  then show ?case using Suc.IH [OF f] by simp
qed simp

lemma fill_good:
  "good_queue q \<Longrightarrow> returns (fill k q) \<and> (\<forall>q'. fill k q = Some (Inr q') \<longrightarrow>
     good_queue q' \<and> queue_left q' \<le> queue_left q)"
proof (induction k arbitrary: q)
  case (Suc k)
  have g: "good_text (scanner q)" using Suc.prems by (simp add: good_queue_def)
  have step: "good_queue q1 \<and> queue_left q1 \<le> queue_left q"
    if "lex (scanner q) = Some (Inr (t, lx))"
      and "q1 = q\<lparr>scanner := lx, lookahead_tokens := lookahead_tokens q @ [t]\<rparr>" for t lx q1
    using scanner.next_inv [OF g that(1)] scanner.next_left [OF g that(1)]
      scanner.next_eof [OF g that(1)] that(2) Suc.prems
    by (auto simp: good_queue_def queue_ok_def queue_left_def)
  have "returns (fill (Suc k) q)"
    unfolding fill.simps
    by (rule returns_obind [OF scanner.next_returns [OF g]]) (use Suc.IH step in auto)
  moreover have "good_queue q' \<and> queue_left q' \<le> queue_left q" if "fill (Suc k) q = Some (Inr q')" for q'
    using that Suc.IH step by (fastforce simp: obind_Inr_iff)
  ultimately show ?case by blast
qed simp

lemma peek_good:
  assumes "good_queue q"
  shows "returns (peek n q)"
    and "peek n q = Some (Inr (t, q')) \<Longrightarrow> good_queue q' \<and> queue_left q' \<le> queue_left q"
  using fill_good [OF assms, of "n - length (lookahead_tokens q)"] assms
  by (auto simp: peek_def obind_Inr_iff intro!: returns_obind split: if_splits)

lemma peek_frame:
  assumes "peek n q = Some (Inr (t, q'))"
  shows "tokens q' = tokens q \<and> current_one q' = current_one q \<and> checkpoints q' = checkpoints q
    \<and> (0 < n \<longrightarrow> n \<le> length (lookahead_tokens q') \<and> t = lookahead_tokens q' ! (n - 1))"
  using assms fill_frame [of "n - length (lookahead_tokens q)" q q']
  by (auto simp: peek_def obind_Inr_iff split: if_splits)

lemma rotate_simps [simp]:
  "scanner (rotate q) = scanner q"
  "lookahead_tokens (rotate q) = tl (lookahead_tokens q)"
  "checkpoints (rotate q) = push_on_top (current_token q) (checkpoints q)"
  by (simp_all add: rotate_def Let_def has_checkpoint_def push_on_top_def)

lemma two_slots: "i < (2 :: nat) \<Longrightarrow> i \<noteq> (i + 1) mod 2 \<and> (i + 1) mod 2 < 2
    \<and> ((i + 1) mod 2 + 1) mod 2 = i"
  by (auto dest!: less_2_cases)

lemma rotate_slots:
  assumes "queue_ok q"
  shows "current_token (rotate q) = hd (lookahead_tokens q)"
    and "previous_token (rotate q) = current_token q" and "queue_ok (rotate q)"
proof -
  have s: "length (tokens q) = 2" "current_one q < 2" using assms by (auto simp: queue_ok_def)
  note i = two_slots [OF s(2)]
  show "current_token (rotate q) = hd (lookahead_tokens q)"
    using s i by (simp add: current_token_def rotate_def Let_def MAX_LOOKBACK_def)
  show "previous_token (rotate q) = current_token q"
    using s i by (simp add: previous_token_def current_token_def rotate_def Let_def MAX_LOOKBACK_def
        del: One_nat_def)
  have "\<forall>ts \<in> set (checkpoints (rotate q)). 2 \<le> length ts"
    using assms by (cases "checkpoints q") (auto simp: queue_ok_def push_on_top_def)
  moreover have "length (tokens (rotate q)) = 2 \<and> current_one (rotate q) < 2"
    using s i by (simp add: rotate_def Let_def MAX_LOOKBACK_def)
  ultimately show "queue_ok (rotate q)" by (simp add: queue_ok_def)
qed

lemma scan_rotate:
  "scan q = Some (Inr (t, q')) \<longleftrightarrow>
     (\<exists>t1 q1. peek 1 q = Some (Inr (t1, q1)) \<and> q' = rotate q1 \<and> t = current_token q')"
  by (auto simp: scan_def obind_Inr_iff Let_def)

lemma queue_ok_peek: "peek n q = Some (Inr (t, q')) \<Longrightarrow> queue_ok q' = queue_ok q"
  using peek_frame [of n q t q'] by (simp add: queue_ok_def)

lemma scan_slots:
  assumes "queue_ok q" and "scan q = Some (Inr (t, q'))"
  shows "queue_ok q' \<and> current_token q' = t \<and> previous_token q' = current_token q"
proof -
  obtain t1 q1 where p: "peek 1 q = Some (Inr (t1, q1))" and q': "q' = rotate q1" "t = current_token q'"
    using assms(2) unfolding scan_rotate by blast
  have "queue_ok q1" using queue_ok_peek [OF p] assms(1) by simp
  moreover have "current_token q1 = current_token q"
    using peek_frame [OF p] by (simp add: current_token_def)
  ultimately show ?thesis using rotate_slots q' by simp
qed

lemma scan_good:
  assumes good: "good_queue q"
  shows "returns (scan q)"
    and "scan q = Some (Inr (t, q')) \<Longrightarrow> good_queue q' \<and> queue_left q' \<le> queue_left q
      \<and> (\<not> is_eof t \<longrightarrow> queue_left q' < queue_left q)"
proof -
  show "returns (scan q)"
    unfolding scan_def by (rule returns_obind [OF peek_good(1) [OF good]]) (auto simp: Let_def)
  assume "scan q = Some (Inr (t, q'))"
  then obtain t1 q1 where p: "peek 1 q = Some (Inr (t1, q1))" and q': "q' = rotate q1" "t = current_token q'"
    unfolding scan_rotate by blast
  note g = peek_good(2) [OF good p]
  obtain a ts where la: "lookahead_tokens q1 = a # ts"
    using peek_frame [OF p] by (cases "lookahead_tokens q1") auto
  have "queue_ok q1" using g by (simp add: good_queue_def)
  note r = rotate_slots [OF this]
  have "t = a" using r(1) q' la by simp
  moreover have "queue_left q' \<le> queue_left q1" "\<not> is_eof a \<Longrightarrow> queue_left q' < queue_left q1"
    using la by (simp_all add: queue_left_def q'(1))
  ultimately show "good_queue q' \<and> queue_left q' \<le> queue_left q
      \<and> (\<not> is_eof t \<longrightarrow> queue_left q' < queue_left q)"
    using g r(3) by (auto simp: good_queue_def q'(1))
qed

interpretation queue: token_source scan good_queue queue_left is_eof
  by unfold_locales (use scan_good in \<open>blast+\<close>)

section \<open>The stream of tokens to come\<close>

text \<open>The next \<open>n\<close> tokens: those looked ahead, then those the scanner will deliver.\<close>

definition ahead_of :: "nat \<Rightarrow> token list \<Rightarrow> lexer \<Rightarrow> (lex_error, token list) outcome" where
  "ahead_of n la lx =
     (if n \<le> length la then Some (Inr (take n la))
      else obind (take_next lex (n - length la) lx) (\<lambda>(ts, _). Some (Inr (la @ ts))))"

definition ahead :: "nat \<Rightarrow> queue \<Rightarrow> (lex_error, token list) outcome" where
  "ahead n q = ahead_of n (lookahead_tokens q) (scanner q)"

lemma obind_assoc: "obind (obind m f) g = obind m (\<lambda>x. obind (f x) g)"
  by (auto simp: obind_def split: option.splits sum.splits)

lemma take_next_add:
  "take_next lex (j + k) s = obind (take_next lex j s) (\<lambda>(ts, s1).
     obind (take_next lex k s1) (\<lambda>(us, s2). Some (Inr (ts @ us, s2))))"
  by (induction j arbitrary: s)
    (auto simp: obind_def split: option.splits sum.splits prod.splits)

lemma take_next_length: "take_next lex k s = Some (Inr (ts, s')) \<Longrightarrow> length ts = k"
  by (induction k arbitrary: s ts) (auto simp: obind_Inr_iff)

lemma fill_eq:
  "fill k q = obind (take_next lex k (scanner q)) (\<lambda>(ts, lx).
     Some (Inr (q\<lparr>scanner := lx, lookahead_tokens := lookahead_tokens q @ ts\<rparr>)))"
proof (induction k arbitrary: q)
  case (Suc k)
  then show ?case
    by (cases "lex (scanner q)"; cases "the (lex (scanner q))")
      (auto simp: obind_def split: option.splits sum.splits prod.splits)
qed simp

lemma ahead_of_more:
  assumes "take_next lex k lx = Some (Inr (ts, lx'))"
  shows "ahead_of n (la @ ts) lx' = ahead_of n la lx"
proof -
  have len: "length ts = k" by (rule take_next_length [OF assms])
  consider "n \<le> length la" | "length la < n" "n \<le> length la + k" | "length la + k < n" by linarith
  then show ?thesis
  proof cases
    case 2
    define j where "j = n - length la"
    have k: "k = j + (k - j)" using 2 by (simp add: j_def)
    obtain us s1 vs where u: "take_next lex j lx = Some (Inr (us, s1))" "ts = us @ vs"
      using assms by (subst (asm) k, unfold take_next_add) (auto simp: obind_Inr_iff)
    then have "length us = j" by (simp add: take_next_length)
    then show ?thesis using u 2 len by (simp add: ahead_of_def j_def)
  next
    case 3
    then have n: "n - length la = k + (n - length la - k)" by simp
    have "ahead_of n la lx = obind (take_next lex (k + (n - length la - k)) lx)
        (\<lambda>(ts, _). Some (Inr (la @ ts)))"
      using 3 n by (simp add: ahead_of_def)
    also have "\<dots> = ahead_of n (la @ ts) lx'"
      unfolding take_next_add
      using 3 len by (simp add: ahead_of_def assms obind_assoc case_prod_beta')
    finally show ?thesis by (rule sym)
  qed (simp add: ahead_of_def)
qed

lemma peek_ahead:
  assumes "peek k q = Some (Inr (t, q'))"
  shows "ahead_of n (p @ lookahead_tokens q') (scanner q') = ahead_of n (p @ lookahead_tokens q) (scanner q)"
proof (cases "k = 0")
  case True
  then show ?thesis using assms by (simp add: peek_def)
next
  case False
  then obtain ts lx where
    "take_next lex (k - length (lookahead_tokens q)) (scanner q) = Some (Inr (ts, lx))"
    "q' = q\<lparr>scanner := lx, lookahead_tokens := lookahead_tokens q @ ts\<rparr>"
    using assms by (auto simp: peek_def obind_Inr_iff fill_eq)
  then show ?thesis using ahead_of_more [of _ _ ts lx n "p @ lookahead_tokens q"] by simp
qed

lemma ahead_of_prefix:
  "ahead_of n (p @ la) lx = (if n \<le> length p then Some (Inr (take n p))
     else obind (ahead_of (n - length p) la lx) (\<lambda>ts. Some (Inr (p @ ts))))"
  by (auto simp: ahead_of_def obind_assoc case_prod_beta')

lemma scan_ahead:
  assumes q: "queue_ok q" and "scan q = Some (Inr (t, q'))"
  shows "ahead_of n (p @ t # lookahead_tokens q') (scanner q')
    = ahead_of n (p @ lookahead_tokens q) (scanner q)"
proof -
  obtain t1 q1 where pk: "peek 1 q = Some (Inr (t1, q1))" and q': "q' = rotate q1" "t = current_token q'"
    using assms(2) unfolding scan_rotate by blast
  obtain a ts where la: "lookahead_tokens q1 = a # ts"
    using peek_frame [OF pk] by (cases "lookahead_tokens q1") auto
  have "t = a" using rotate_slots(1) [of q1] queue_ok_peek [OF pk] q q' la by simp
  then show ?thesis using peek_ahead [OF pk, of n p] la q'(1) by simp
qed

section \<open>Trying and taking back\<close>

text \<open>
  What a parser does between \<open>add_checkpoint\<close> and \<open>backtrack\<close>: scan, look ahead, and try something
  else in between.
\<close>

datatype op = Scan | Peek nat | Try "op list"

fun run_ops :: "op list \<Rightarrow> queue \<Rightarrow> (lex_error, queue) outcome" where
  "run_ops [] q = Some (Inr q)"
| "run_ops (Scan # ops) q = obind (scan q) (\<lambda>(_, q). run_ops ops q)"
| "run_ops (Peek n # ops) q = obind (peek n q) (\<lambda>(_, q). run_ops ops q)"
| "run_ops (Try body # ops) q =
     obind (run_ops body (add_checkpoint q)) (\<lambda>q. run_ops ops (backtrack q))"

text \<open>\<open>same_tokens q q'\<close>: a parser cannot tell the two queues apart.\<close>

definition same_tokens :: "queue \<Rightarrow> queue \<Rightarrow> bool" where
  "same_tokens q q' \<longleftrightarrow> current_token q' = current_token q \<and> previous_token q' = previous_token q
     \<and> (\<forall>n. ahead n q' = ahead n q) \<and> checkpoints q' = checkpoints q"

text \<open>The newest checkpoint of \<open>q\<close> still knows how to get back to \<open>q0\<close>.\<close>

definition recorded :: "queue \<Rightarrow> queue \<Rightarrow> bool" where
  "recorded q0 q \<longleftrightarrow> queue_ok q \<and> (\<exists>pushed.
     checkpoints q = (previous_token q0 # current_token q0 # pushed) # checkpoints q0
     \<and> (pushed = [] \<longrightarrow> current_token q = current_token q0 \<and> previous_token q = previous_token q0
          \<and> (\<forall>n. ahead n q = ahead n q0))
     \<and> (pushed \<noteq> [] \<longrightarrow> (\<forall>n. ahead_of n (tl pushed @ current_token q # lookahead_tokens q) (scanner q)
          = ahead n q0)))"

lemma recorded_add: "queue_ok q \<Longrightarrow> recorded q (add_checkpoint q)"
  by (simp add: recorded_def add_checkpoint_def queue_ok_def current_token_def previous_token_def
      ahead_def)

lemma recorded_peek:
  assumes "recorded q0 q" and pk: "peek k q = Some (Inr (t, q'))"
  shows "recorded q0 q'"
proof -
  note f = peek_frame [OF pk]
  have t: "current_token q' = current_token q" "previous_token q' = previous_token q"
    using f by (simp_all add: current_token_def previous_token_def)
  have "ahead_of n (p @ lookahead_tokens q') (scanner q')
      = ahead_of n (p @ lookahead_tokens q) (scanner q)" for n p
    by (rule peek_ahead [OF pk])
  from this [of _ "[]"] this [of _ "p @ [current_token q]" for p] show ?thesis
    using assms(1) f t queue_ok_peek [OF pk] unfolding recorded_def ahead_def by auto
qed

lemma recorded_scan:
  assumes r: "recorded q0 q" and sc: "scan q = Some (Inr (t, q'))"
  shows "recorded q0 q'"
proof -
  have ok: "queue_ok q" using r by (simp add: recorded_def)
  note s = scan_slots [OF ok sc]
  obtain pushed where c: "checkpoints q = (previous_token q0 # current_token q0 # pushed) # checkpoints q0"
    and e: "pushed = [] \<Longrightarrow> current_token q = current_token q0 \<and> (\<forall>n. ahead n q = ahead n q0)"
    and ne: "pushed \<noteq> [] \<Longrightarrow> (\<forall>n. ahead_of n (tl pushed @ current_token q # lookahead_tokens q) (scanner q) = ahead n q0)"
    using r unfolding recorded_def by blast
  have cps: "checkpoints q' = push_on_top (current_token q) (checkpoints q)"
    using sc peek_frame [of 1 q] unfolding scan_rotate by (auto simp: current_token_def)
  have "ahead_of n (tl (pushed @ [current_token q]) @ current_token q' # lookahead_tokens q') (scanner q')
      = ahead n q0" for n
  proof (cases "pushed = []")
    case True
    then show ?thesis using e scan_ahead [OF ok sc, of n "[]"] s by (simp add: ahead_def)
  next
    case False
    then show ?thesis
      using ne scan_ahead [OF ok sc, of n "tl pushed @ [current_token q]"] s by simp
  qed
  then show ?thesis
    unfolding recorded_def using s c cps
    by (intro conjI exI [of _ "pushed @ [current_token q]"]) (auto simp: push_on_top_def)
qed

lemma backtrack_recorded:
  assumes r: "recorded q0 q"
  shows "same_tokens q0 (backtrack q) \<and> queue_ok (backtrack q)"
proof -
  have ok: "queue_ok q" using r by (simp add: recorded_def)
  then have sl: "length (tokens q) = 2" "current_one q < 2" by (auto simp: queue_ok_def)
  note i = two_slots [OF sl(2)]
  obtain pushed where c: "checkpoints q = (previous_token q0 # current_token q0 # pushed) # checkpoints q0"
    and e: "pushed = [] \<Longrightarrow> current_token q = current_token q0 \<and> previous_token q = previous_token q0 \<and> (\<forall>n. ahead n q = ahead n q0)"
    and ne: "pushed \<noteq> [] \<Longrightarrow> (\<forall>n. ahead_of n (tl pushed @ current_token q # lookahead_tokens q) (scanner q) = ahead n q0)"
    using r unfolding recorded_def by blast
  show ?thesis
  proof (cases pushed)
    case Nil
    then show ?thesis using c e ok
      by (auto simp: backtrack_def has_checkpoint_def same_tokens_def queue_ok_def
          current_token_def previous_token_def ahead_def)
  next
    case (Cons a mids)
    define q' where "q' = q\<lparr>checkpoints := checkpoints q0,
      lookahead_tokens := mids @ current_token q # lookahead_tokens q,
      tokens := (tokens q)[current_one q := current_token q0,
        (current_one q + 1) mod 2 := previous_token q0]\<rparr>"
    have b: "backtrack q = q'"
      using c Cons by (simp add: backtrack_def has_checkpoint_def Let_def MAX_LOOKBACK_def q'_def
          current_token_def eval_nat_numeral)
    have "current_token q' = current_token q0" "previous_token q' = previous_token q0"
      using sl i by (auto simp: q'_def current_token_def [of "_ \<lparr> tokens := _ \<rparr>"]
          previous_token_def [of "_ \<lparr> tokens := _ \<rparr>"] MAX_LOOKBACK_def)
    moreover have "ahead n q' = ahead n q0" for n
      using ne Cons by (simp add: ahead_def q'_def)
    moreover have "queue_ok q'" using ok c by (simp add: queue_ok_def q'_def)
    ultimately show ?thesis by (simp add: b same_tokens_def) (simp add: q'_def)
  qed
qed

lemma recorded_same:
  assumes r: "recorded q0 q" and s: "same_tokens q q'" and ok: "queue_ok q'"
  shows "recorded q0 q'"
proof -
  have "ahead_of n (lookahead_tokens q') (scanner q') = ahead_of n (lookahead_tokens q) (scanner q)" for n
    using s by (simp add: same_tokens_def ahead_def)
  then have "ahead_of n (p @ lookahead_tokens q') (scanner q')
      = ahead_of n (p @ lookahead_tokens q) (scanner q)" for n p
    by (simp add: ahead_of_prefix)
  from this [of _ "p @ [current_token q]" for p] show ?thesis
    using r s ok unfolding recorded_def same_tokens_def by auto
qed

lemma run_ops_recorded:
  "recorded q0 q \<Longrightarrow> run_ops ops q = Some (Inr q') \<Longrightarrow> recorded q0 q'"
proof (induction ops q arbitrary: q0 q' rule: run_ops.induct)
  case (4 body ops q)
  then obtain q1 where b: "run_ops body (add_checkpoint q) = Some (Inr q1)"
    and r: "run_ops ops (backtrack q1) = Some (Inr q')"
    by (auto simp: obind_Inr_iff)
  have "recorded q (add_checkpoint q)" using 4(3) by (intro recorded_add) (simp add: recorded_def)
  then have "recorded q q1" using 4(1) b by blast
  then have "recorded q0 (backtrack q1)"
    using backtrack_recorded recorded_same [OF 4(3)] by blast
  then show ?case using 4(2) [OF b _ r] by blast
qed (auto simp: obind_Inr_iff dest: recorded_scan recorded_peek)

abbreviation "scan_many \<equiv> take_next scan"

lemma ahead_of_0: "ahead_of 0 la lx = Some (Inr [])"
  by (simp add: ahead_of_def)

lemma scan_1:
  assumes "queue_ok q"
  shows "scan q = obind (ahead 1 q) (\<lambda>_. scan q)"
    and "scan q = Some (Inr (t, q')) \<Longrightarrow> ahead (Suc n) q = obind (ahead n q') (\<lambda>ts. Some (Inr (t # ts)))"
proof -
  show "scan q = obind (ahead 1 q) (\<lambda>_. scan q)"
    by (cases "lookahead_tokens q"; cases "lex (scanner q)"; cases "the (lex (scanner q))")
      (auto simp: ahead_def ahead_of_def scan_def peek_def Let_def)
  assume s: "scan q = Some (Inr (t, q'))"
  have "ahead (Suc n) q = ahead_of (Suc n) ([t] @ lookahead_tokens q') (scanner q')"
    using scan_ahead [OF assms s, of "Suc n" "[]"] by (simp add: ahead_def)
  then show "ahead (Suc n) q = obind (ahead n q') (\<lambda>ts. Some (Inr (t # ts)))"
    unfolding ahead_of_prefix by (cases n) (simp_all add: ahead_def ahead_of_0)
qed

lemma scan_many_ahead:
  "queue_ok q \<Longrightarrow> obind (scan_many n q) (\<lambda>(ts, _). Some (Inr ts)) = ahead n q"
proof (induction n arbitrary: q)
  case 0
  then show ?case by (simp add: ahead_def ahead_of_def)
next
  case (Suc n)
  show ?case
  proof (cases "\<exists>t q'. scan q = Some (Inr (t, q'))")
    case True
    then obtain t q' where s: "scan q = Some (Inr (t, q'))" by blast
    have "queue_ok q'" using scan_slots [OF Suc.prems s] by simp
    from Suc.IH [OF this] show ?thesis
      using scan_1(2) [OF Suc.prems s, of n]
      by (simp add: s obind_assoc case_prod_beta' flip: Suc.IH [OF \<open>queue_ok q'\<close>])
  next
    case False
    then have la: "lookahead_tokens q = []"
      by (cases "lookahead_tokens q") (auto simp: scan_def peek_def Let_def)
    show ?thesis
    proof (cases "lex (scanner q)")
      case None
      then have "scan q = None" using la by (simp add: scan_def peek_def)
      then show ?thesis using None la by (simp add: ahead_def ahead_of_def)
    next
      case (Some r)
      then obtain e where e: "r = Inl e"
        using False la by (cases r) (auto simp: scan_def peek_def Let_def)
      then have "scan q = Some (Inl e)" using Some la by (simp add: scan_def peek_def)
      then show ?thesis using Some e la by (simp add: ahead_def ahead_of_def)
    qed
  qed
qed

lemma peek_ahead_nth:
  assumes "0 < n"
  shows "obind (peek n q) (\<lambda>(t, _). Some (Inr t)) = obind (ahead n q) (\<lambda>ts. Some (Inr (ts ! (n - 1))))"
proof (cases "n \<le> length (lookahead_tokens q)")
  case True
  then show ?thesis using assms by (simp add: peek_def ahead_def ahead_of_def)
next
  case False
  show ?thesis
  proof (cases "take_next lex (n - length (lookahead_tokens q)) (scanner q)")
    case None
    then show ?thesis using False assms by (simp add: peek_def ahead_def ahead_of_def fill_eq)
  next
    case (Some r)
    then show ?thesis using False assms
      by (cases r) (auto simp: peek_def ahead_def ahead_of_def fill_eq)
  qed
qed

section \<open>Looking for a token\<close>

text \<open>What \<open>look_for\<close> computes, on the kinds of the current token and the ones to come.\<close>

fun look_list :: "look_params \<Rightarrow> nat \<Rightarrow> kind_t list \<Rightarrow> bool" where
  "look_list p nest [] = False"
| "look_list p nest (k # ks) =
     (if k = tk_eof \<or> k = abort p then False
      else
        let nest = (if k = nest_in p then nest + 1 else nest) in
        if nest = depth p \<and> k \<in> set (look p) then True
        else if nest = depth p \<and> k \<in> set (stop p) then False
        else look_list p (if k = nest_out p then nest - 1 else nest) ks)"

lemma look_for_step:
  assumes "peek n q = Some (Inr (t, q1))" and "k = kind t" and "nest' = (if k = nest_in p then nest + 1 else nest)"
  shows "look_for_loop p n nest q =
    (if k = tk_eof \<or> k = abort p then Some (Inr (False, q1))
     else if nest' = depth p \<and> k \<in> set (look p) then Some (Inr (True, q1))
     else if nest' = depth p \<and> k \<in> set (stop p) then Some (Inr (False, q1))
     else look_for_loop p (n + 1) (if k = nest_out p then nest' - 1 else nest') q1)"
proof -
  have out: "(if k = nest_out p \<and> nest' > 0 then nest' - 1 else nest')
      = (if k = nest_out p then nest' - 1 else nest')" by simp
  show ?thesis
    unfolding look_for_loop.simps [of p n nest q] assms(1) obind_simps prod.case Let_def
      assms(2,3) [symmetric] out by simp
qed

lemma same_tokens_refl [simp]: "same_tokens q q"
  by (simp add: same_tokens_def)

lemma same_tokens_trans: "same_tokens a b \<Longrightarrow> same_tokens b c \<Longrightarrow> same_tokens a c"
  by (simp add: same_tokens_def)

lemma peek_same: "peek n q = Some (Inr (t, q')) \<Longrightarrow> same_tokens q q'"
  using peek_frame [of n q t q'] peek_ahead [of n q t q' _ "[]"]
  by (simp add: same_tokens_def ahead_def current_token_def previous_token_def)

lemma ahead_prefix:
  assumes "ahead m q = Some (Inr ts)" and "n \<le> m"
  shows "ahead n q = Some (Inr (take n ts)) \<and> length ts = m"
proof (cases "m \<le> length (lookahead_tokens q)")
  case True
  then show ?thesis using assms by (auto simp: ahead_def ahead_of_def min_def)
next
  case False
  define la where "la = lookahead_tokens q"
  define j where "j = n - length la"
  define k where "k = m - length la - j"
  have m: "m - length la = j + k" using assms(2) by (simp add: j_def k_def)
  have "obind (take_next lex (m - length la) (scanner q)) (\<lambda>(us, _). Some (Inr (la @ us)))
      = Some (Inr ts)"
    using assms(1) False by (simp add: ahead_def ahead_of_def la_def)
  then obtain us s1 where u: "take_next lex (j + k) (scanner q) = Some (Inr (us, s1))" "ts = la @ us"
    unfolding m by (auto simp: obind_Inr_iff)
  then obtain vs s2 ws where v: "take_next lex j (scanner q) = Some (Inr (vs, s2))" "us = vs @ ws"
    unfolding take_next_add by (auto simp: obind_Inr_iff)
  have l: "length us = j + k" "length vs = j" using u(1) v(1) take_next_length by blast+
  have "ahead n q = Some (Inr (take n ts))"
  proof (cases "n \<le> length la")
    case True
    then show ?thesis by (simp add: ahead_def ahead_of_def la_def [symmetric] u(2))
  next
    case nla: False
    then show ?thesis using v l u(2)
      by (simp add: ahead_def ahead_of_def la_def [symmetric] j_def)
  qed
  moreover have "length ts = m" using l(1) u(2) m False by (simp add: la_def)
  ultimately show ?thesis by blast
qed

lemma peek_of_ahead:
  assumes "ahead m q = Some (Inr ts)" and "n \<le> m" and "0 < n"
  shows "\<exists>q'. peek n q = Some (Inr (ts ! (n - 1), q'))"
proof -
  have "obind (peek n q) (\<lambda>(t, _). Some (Inr t)) = Some (Inr (ts ! (n - 1)))"
    using peek_ahead_nth [OF assms(3), of q] ahead_prefix [OF assms(1,2)] assms(3) by simp
  then show ?thesis by (auto simp: obind_Inr_iff)
qed

lemma look_for_loop_list:
  assumes "ahead m q = Some (Inr ts)" and "\<exists>t \<in> set (drop n (current_token q # ts)). is_eof t"
  shows "\<exists>q'. look_for_loop p n nest q
      = Some (Inr (look_list p nest (map kind (drop n (current_token q # ts))), q')) \<and> same_tokens q q'"
  using assms
proof (induction "Suc m - n" arbitrary: n nest q rule: less_induct)
  case less
  have len: "length ts = m" using ahead_prefix [OF less.prems(1) order_refl] by simp
  have n: "n \<le> m" using less.prems(2) len by (cases "n \<le> m") auto
  define t where "t = (current_token q # ts) ! n"
  have d: "drop n (current_token q # ts) = t # drop (Suc n) (current_token q # ts)"
    using n len unfolding t_def by (intro drop_eq_nth_Cons) simp
  obtain q1 where pk: "peek n q = Some (Inr (t, q1))"
  proof (cases n)
    case 0
    then show ?thesis using that by (simp add: peek_def t_def)
  next
    case (Suc k)
    then show ?thesis using that peek_of_ahead [OF less.prems(1) n] by (auto simp: t_def)
  qed
  have s: "same_tokens q q1" by (rule peek_same [OF pk])
  then have h: "ahead m q1 = Some (Inr ts)" "current_token q1 = current_token q"
    using less.prems(1) by (simp_all add: same_tokens_def)
  define nest' where "nest' = (if kind t = nest_in p then nest + 1 else nest)"
  note step = look_for_step [OF pk refl refl, of p nest, folded nest'_def]
  have ih: "\<exists>q'. look_for_loop p (Suc n) i q1
      = Some (Inr (look_list p i (map kind (drop (Suc n) (current_token q # ts))), q')) \<and> same_tokens q q'"
    if "kind t \<noteq> tk_eof" for i
  proof -
    have "\<exists>t \<in> set (drop (Suc n) (current_token q1 # ts)). is_eof t"
      using less.prems(2) that unfolding d h(2) by auto
    moreover have "Suc m - Suc n < Suc m - n" using n by simp
    ultimately obtain q' where
      "look_for_loop p (Suc n) i q1
        = Some (Inr (look_list p i (map kind (drop (Suc n) (current_token q # ts))), q'))"
      "same_tokens q1 q'"
      using less.hyps [of "Suc n" q1 i] h by auto
    then show ?thesis using s same_tokens_trans by blast
  qed
  show ?case
    unfolding step d list.map(2) look_list.simps Let_def nest'_def [symmetric]
    using ih s by (auto simp del: drop_Suc_Cons)
qed

section \<open>Properties\<close>

definition sample_queue :: "string \<Rightarrow> queue" where
  "sample_queue s = queue_new (sample_lexer s NUL tk_eof)"

lemma sample_queue_ok: "queue_ok (sample_queue s)"
  by (simp add: sample_queue_def queue_new_def queue_ok_def MAX_LOOKBACK_def)

lemma sample_queue_good: "no_stuck_text s \<Longrightarrow> good_queue (sample_queue s)"
  using sample_queue_ok [of s]
  by (simp add: good_queue_def good_text_def sample_queue_def queue_new_def sample_simps)

definition succeeded :: "('e, 'a) outcome \<Rightarrow> bool" where
  "succeeded r = (case r of Some (Inr _) \<Rightarrow> True | _ \<Rightarrow> False)"

lemma succeededD: "succeeded r \<Longrightarrow> \<exists>x. r = Some (Inr x)"
  by (auto simp: succeeded_def split: option.splits sum.splits)

text \<open>C2. Backtracking undoes everything a parser did since its checkpoint, whatever that was:
  after any scans and peeks, and any tries of the same kind nested in them that were taken back too, the
  current token, the previous token, all the tokens to come and the checkpoints below are what they were.\<close>

theorem backtrack_restores:
  assumes "queue_ok q" and "run_ops ops (add_checkpoint q) = Some (Inr q')"
  shows "same_tokens q (backtrack q')"
  using backtrack_recorded run_ops_recorded [OF recorded_add [OF assms(1)] assms(2)] by blast

theorem backtrack_restores_witness:
  "\<exists>q'. run_ops [Scan, Peek 2, Try [Scan, Scan], Scan] (add_checkpoint (sample_queue ''a b ; c''))
       = Some (Inr q') \<and> same_tokens (sample_queue ''a b ; c'') (backtrack q')"
proof -
  have "succeeded (run_ops [Scan, Peek 2, Try [Scan, Scan], Scan]
      (add_checkpoint (sample_queue ''a b ; c'')))"
    by code_simp
  from succeededD [OF this] backtrack_restores [OF sample_queue_ok] show ?thesis by blast
qed

text \<open>C17. Peeking at the \<open>n\<close>-th token gives exactly the token that the \<open>n\<close>-th call of \<open>scan\<close> would
  return, the same error if there is one, and no result when scanning does not return.\<close>

theorem peek_is_scan:
  assumes "queue_ok q" and "0 < n"
  shows "obind (peek n q) (\<lambda>(t, _). Some (Inr t))
    = obind (scan_many n q) (\<lambda>(ts, _). Some (Inr (ts ! (n - 1))))"
proof -
  have "obind (scan_many n q) (\<lambda>(ts, _). Some (Inr (ts ! (n - 1))))
      = obind (obind (scan_many n q) (\<lambda>(ts, _). Some (Inr ts))) (\<lambda>ts. Some (Inr (ts ! (n - 1))))"
    by (simp add: obind_assoc case_prod_beta')
  then show ?thesis using scan_many_ahead [OF assms(1)] peek_ahead_nth [OF assms(2)] by simp
qed

theorem peek_is_scan_witness:
  "obind (peek 2 (sample_queue ''a ;'')) (\<lambda>(t, _). Some (Inr t))
    = obind (scan_many 2 (sample_queue ''a ;'')) (\<lambda>(ts, _). Some (Inr (ts ! 1)))"
  using peek_is_scan [OF sample_queue_ok, of 2] by simp

text \<open>Dropping an inner checkpoint forgets what was scanned under it: after a checkpoint, a second
  one, a \<open>scan\<close> and a \<open>drop_checkpoint\<close>, backtracking to the first checkpoint takes nothing back. The
  current token stays the scanned one, although the header promises that the tokens may still be
  replayed.\<close>

theorem drop_forgets:
  assumes "queue_ok q" and "scan (add_checkpoint (add_checkpoint q)) = Some (Inr (t, q1))"
  shows "current_token (backtrack (drop_checkpoint q1)) = t
    \<and> previous_token (backtrack (drop_checkpoint q1)) = current_token q
    \<and> checkpoints (backtrack (drop_checkpoint q1)) = checkpoints q"
proof -
  define qa where "qa = add_checkpoint (add_checkpoint q)"
  have qa: "queue_ok qa" "current_token qa = current_token q"
    using assms(1) by (auto simp: qa_def queue_ok_def add_checkpoint_def current_token_def)
  note s = scan_slots [OF qa(1) assms(2) [folded qa_def]]
  have "checkpoints q1 = push_on_top (current_token qa) (checkpoints qa)"
    using assms(2) [folded qa_def] peek_frame [of 1 qa] unfolding scan_rotate
    by (auto simp: current_token_def)
  then obtain c where c: "checkpoints q1 = c # [previous_token q, current_token q] # checkpoints q"
    using qa(2) by (simp add: qa_def add_checkpoint_def push_on_top_def current_token_def
        previous_token_def)
  then have "backtrack (drop_checkpoint q1) = q1\<lparr>checkpoints := checkpoints q\<rparr>"
    by (simp add: drop_checkpoint_def backtrack_def has_checkpoint_def Let_def)
  then show ?thesis using s qa(2) by (simp add: current_token_def previous_token_def)
qed

theorem drop_forgets_witness:
  "\<exists>t q1. scan (add_checkpoint (add_checkpoint (sample_queue ''a ;''))) = Some (Inr (t, q1))
     \<and> current_token (backtrack (drop_checkpoint q1)) = t"
proof -
  have "succeeded (scan (add_checkpoint (add_checkpoint (sample_queue ''a ;''))))"
    by code_simp
  from succeededD [OF this] drop_forgets [OF sample_queue_ok] show ?thesis by fastforce
qed


definition look_for_semicolon :: look_params where
  "look_for_semicolon = \<lparr>look = [tk_semicolon], stop = [], abort = kw_end, nest_in = tk_leftpar,
     nest_out = tk_rightpar, depth = 0\<rparr>"


text \<open>The tokens of a good queue come to an end, so that looking for one does.\<close>

lemma look_for_loop_returns:
  assumes "good_queue q" and "\<forall>t \<in> set (take (n - 1) (lookahead_tokens q)). \<not> is_eof t"
    and "n - 1 \<le> length (lookahead_tokens q)"
  shows "returns (look_for_loop p n nest q)"
  using assms
proof (induction "queue_left q + 2 - n" arbitrary: n nest q rule: less_induct)
  case less
  note g = peek_good [OF less.prems(1), of n]
  show ?case
  proof (cases "peek n q")
    case None
    then show ?thesis using g(1) by simp
  next
    case (Some r)
    show ?thesis
    proof (cases r)
      case (Inl e)
      then show ?thesis using Some by (subst look_for_loop.simps) simp
    next
      case (Inr x)
      obtain t q1 where pk: "peek n q = Some (Inr (t, q1))" using Some Inr by (cases x) auto
      note f = peek_frame [OF pk]
      have good: "good_queue q1" "queue_left q1 \<le> queue_left q" using g(2) [OF pk] by auto
      have "returns (look_for_loop p (n + 1) i q1)" if "\<not> is_eof t" for i
      proof -
        have "\<exists>ts. lookahead_tokens q1 = lookahead_tokens q @ ts"
          using pk fill_frame [of "n - length (lookahead_tokens q)" q q1]
          by (auto simp: peek_def obind_Inr_iff split: if_splits)
        then have old: "take (n - 1) (lookahead_tokens q1) = take (n - 1) (lookahead_tokens q)"
          using less.prems(3) by auto
        have all: "\<forall>t \<in> set (take n (lookahead_tokens q1)). \<not> is_eof t" and le: "n \<le> length (lookahead_tokens q1)"
        proof -
          show le: "n \<le> length (lookahead_tokens q1)" using f by (cases n) auto
          show "\<forall>t \<in> set (take n (lookahead_tokens q1)). \<not> is_eof t"
          proof (cases n)
            case (Suc k)
            then have "take n (lookahead_tokens q1) = take k (lookahead_tokens q1) @ [t]"
              using f le by (simp add: take_Suc_conv_app_nth)
            then show ?thesis using less.prems(2) old Suc that by simp
          qed simp
        qed
        have "filter (\<lambda>t. \<not> is_eof t) (take n (lookahead_tokens q1)) = take n (lookahead_tokens q1)"
          using all by (simp add: filter_id_conv)
        then have "n \<le> length (filter (\<lambda>t. \<not> is_eof t) (lookahead_tokens q1))"
          using le by (metis append_take_drop_id filter_append length_append length_take le_add1 min_absorb2)
        then have "n \<le> queue_left q1" by (simp add: queue_left_def)
        then have "queue_left q1 + 2 - (n + 1) < queue_left q + 2 - n" using good(2) by simp
        then show ?thesis by (rule less.hyps) (use good all le in simp_all)
      qed
      then show ?thesis
        unfolding look_for_step [OF pk refl refl, of p nest] by simp
    qed
  qed
qed

text \<open>C15. On a text without a stuck character literal, with a harmless byte behind it, \<open>look_for\<close>
  returns, whatever it looks for: the lookahead is unbounded but the tokens of a text are not.\<close>

theorem look_for_returns:
  assumes "good_queue q"
  shows "\<exists>r. look_for p q = Some r"
  using look_for_loop_returns [OF assms, of 0 p 0] by (simp add: look_for_def returns_def)

theorem look_for_returns_witness: "\<exists>r. look_for look_for_semicolon (sample_queue ''( a ( ;'') = Some r"
  by (rule look_for_returns [OF sample_queue_good]) simp

lemma sample_ready: "size_ok (length s) \<Longrightarrow> ready {s} (sample_lexer src NUL k)"
  by (simp add: ready_def sample_simps serves_new)



lemma takeWhile_digits:
  "list_all is_digit ds \<Longrightarrow> \<not> is_digit c \<Longrightarrow> takeWhile is_digit (ds @ c # r) = ds"
  by (induction ds) auto

lemma stoi_digit:
  assumes "is_digit d"
  shows "stoi (d # s) =
    (let ds = takeWhile is_digit (d # s); n = digits_value ds in
     if ds = [] then Inl Invalid_argument
     else if n < - (2 ^ 31) \<or> n \<ge> 2 ^ 31 then Inl Out_of_range else Inr n)"
proof -
  have n: "\<not> (d = CHR '' '' \<or> ord d \<ge> 9 \<and> ord d \<le> 13)" "d \<noteq> CHR ''-''" "d \<noteq> CHR ''+''"
    using assms by (auto simp: is_digit_def)
  then have "dropWhile (\<lambda>c. c = CHR '' '' \<or> ord c \<ge> 9 \<and> ord c \<le> 13) (d # s) = d # s" by auto
  then show ?thesis unfolding stoi_def Let_def using n by (simp only: list.sel) simp
qed

text \<open>The value of an integer literal is that of the digits in front of its first other
  character: \<open>get_integer\<close> reads a based literal as its base and ignores an exponent.\<close>

theorem get_integer_prefix:
  assumes "kind (current_token q) = tk_integer" and "val (current_token q) = ds @ c # r"
    and "ds \<noteq> []" and "list_all is_digit ds" and "\<not> is_digit c"
  shows "get_integer q = stoi ds"
proof -
  obtain d ds' where d: "ds = d # ds'" "is_digit d" using assms(3,4) by (cases ds) auto
  have "takeWhile is_digit ds = ds" using assms(4) by (simp add: takeWhile_eq_all_conv list_all_iff)
  moreover have "takeWhile is_digit (ds @ c # r) = ds" by (rule takeWhile_digits [OF assms(4,5)])
  ultimately have "stoi (ds @ c # r) = stoi ds"
    using stoi_digit [OF d(2)] unfolding d(1) append_Cons by simp
  then show ?thesis using assms(1,2) by (simp add: get_integer_def)
qed

theorem get_integer_prefix_witness:
  "\<exists>q. val (current_token q) = ''16#FF#'' \<and> get_integer q = Inr 16"
proof -
  define q where "q = (sample_queue [])\<lparr>tokens := replicate 2
    (token_default\<lparr>kind := tk_integer, val := ''16#FF#''\<rparr>)\<rparr>"
  have "get_integer q = stoi ''16''"
    by (rule get_integer_prefix [of _ _ "CHR ''#''" "''FF#''"])
      (simp_all add: q_def current_token_def sample_queue_def queue_new_def is_digit_def)
  moreover have "stoi ''16'' = Inr 16" by code_simp
  ultimately show ?thesis
    by (intro exI [of _ q]) (simp add: q_def current_token_def sample_queue_def queue_new_def)
qed

end
