(* ===== verification/Fast_Parser.thy ===== *)
theory Fast_Parser
  imports Token_Queue
begin

text \<open>
  The fast parser, \<^verbatim>\<open>src/vhdl/fast_parser.cpp\<close>: it finds the library units of a file without
  parsing it, by looking for the tokens a unit can start with. The model is the code on the token
  queue; \<open>units_of\<close> is what it computes, on the list of tokens.
\<close>

section \<open>The parser\<close>

datatype library_unit_kind = Invalid_unit | Entity | Architecture | Package | Package_body | Configuration

record library_unit =
  unit_kind :: library_unit_kind
  unit_line :: u32
  unit_column :: u32
  unit_name :: string
  unit_of :: "string option"
  unit_file :: string
  unit_time :: nat

text \<open>\<open>get_file\<close> is the constructor's file name, the argument \<open>fn\<close> of the functions below.\<close>

definition make_unit ::
    "library_unit_kind \<Rightarrow> queue \<Rightarrow> string \<Rightarrow> string option \<Rightarrow> string \<Rightarrow> library_unit" where
  "make_unit k q0 name secondary fn =
     \<lparr>unit_kind = k, unit_line = get_current_line q0, unit_column = get_current_offset q0,
      unit_name = name, unit_of = secondary, unit_file = fn, unit_time = 0\<rparr>"

abbreviation current_kind :: "queue \<Rightarrow> kind_t" where
  "current_kind q \<equiv> kind (current_token q)"

definition consume :: "queue \<Rightarrow> (lex_error, queue) outcome" where
  \<comment> \<open>the code's \<open>consume(token)\<close> ignores its argument\<close>
  "consume q = obind (scan q) (\<lambda>(_, q). Some (Inr q))"

type_synonym unit_result = "(lex_error, library_unit option \<times> queue) outcome"

definition parse_entity :: "string \<Rightarrow> queue \<Rightarrow> unit_result" where
  "parse_entity fn q0 =
     obind (consume q0) (\<lambda>q.
       if current_kind q \<noteq> tk_identifier then Some (Inr (None, q))
       else
         let identifier = get_identifier q in
         obind (consume q) (\<lambda>q. Some (Inr (Some (make_unit Entity q0 identifier None fn), q))))"

definition parse_architecture :: "string \<Rightarrow> queue \<Rightarrow> unit_result" where
  "parse_architecture fn q0 =
     obind (consume q0) (\<lambda>q.
       if current_kind q \<noteq> tk_identifier then Some (Inr (None, q))
       else
         let identifier = get_identifier q in
         obind (consume q) (\<lambda>q.
           if current_kind q \<noteq> kw_of then Some (Inr (None, q))
           else
             obind (consume q) (\<lambda>q.
               if current_kind q \<noteq> tk_identifier then Some (Inr (None, q))
               else
                 let identifier2 = get_identifier q in
                 obind (consume q) (\<lambda>q.
                   Some (Inr (Some (make_unit Architecture q0 identifier (Some identifier2) fn), q))))))"

definition parse_package_body :: "string \<Rightarrow> queue \<Rightarrow> unit_result" where
  "parse_package_body fn q0 =
     obind (consume q0) (\<lambda>q.
       if current_kind q \<noteq> tk_identifier then Some (Inr (None, q))
       else
         let identifier = get_identifier q in
         obind (consume q) (\<lambda>q. Some (Inr (Some (make_unit Package_body q0 identifier None fn), q))))"

definition parse_package :: "string \<Rightarrow> queue \<Rightarrow> unit_result" where
  "parse_package fn q =
     (if current_kind q \<noteq> tk_identifier then Some (Inr (None, q))
      else
        let identifier = get_identifier q in
        obind (consume q) (\<lambda>q'. Some (Inr (Some (make_unit Package q identifier None fn), q'))))"

definition parse_configuration :: "string \<Rightarrow> queue \<Rightarrow> unit_result" where
  "parse_configuration fn q0 =
     obind (consume q0) (\<lambda>q.
       if current_kind q \<noteq> tk_identifier then Some (Inr (None, q))
       else
         let identifier = get_identifier q in
         obind (consume q) (\<lambda>q.
           if current_kind q \<noteq> kw_of then Some (Inr (None, q))
           else
             obind (consume q) (\<lambda>q.
               if current_kind q \<noteq> tk_identifier then Some (Inr (None, q))
               else
                 let identifier2 = get_identifier q in
                 obind (consume q) (\<lambda>q.
                   Some (Inr (Some (make_unit Configuration q0 identifier (Some identifier2) fn), q))))))"

definition starts_unit :: "kind_t \<Rightarrow> bool" where
  "starts_unit k \<longleftrightarrow>
     k \<in> {kw_library, kw_use, kw_architecture, kw_entity, kw_package, kw_configuration}"

partial_function (option) resync_to_next_unit :: "queue \<Rightarrow> (lex_error, queue) outcome" where
  "resync_to_next_unit q0 =
     obind (scan q0) (\<lambda>(_, q).
       if current_kind q = tk_eof then Some (Inr q)
       else if starts_unit (current_kind q) \<and> kind (previous_token q) \<noteq> kw_end then Some (Inr q)
       else resync_to_next_unit q)"

declare resync_to_next_unit.simps [code]

text \<open>One turn of the loop of \<open>parse\<close>.\<close>

definition parse_turn :: "string \<Rightarrow> queue \<Rightarrow> unit_result" where
  "parse_turn fn q =
     (let k = current_kind q;
          resync = (\<lambda>q. obind (resync_to_next_unit q) (\<lambda>q. Some (Inr (None, q))))
      in
      if k = kw_entity then parse_entity fn q
      else if k = kw_architecture then parse_architecture fn q
      else if k = kw_package then
        obind (consume q) (\<lambda>q.
          if current_kind q = kw_body then parse_package_body fn q else parse_package fn q)
      else if k = kw_configuration then parse_configuration fn q
      else if k = kw_library \<or> k = kw_use then obind (scan q) (\<lambda>(_, q). resync q)
      else resync q)"

partial_function (option) parse_loop ::
    "string \<Rightarrow> library_unit list \<Rightarrow> queue \<Rightarrow> (lex_error, library_unit list \<times> queue) outcome" where
  "parse_loop fn result q =
     (if current_kind q \<noteq> tk_eof then
        obind (parse_turn fn q) (\<lambda>r.
          parse_loop fn (case fst r of Some u \<Rightarrow> result @ [u] | None \<Rightarrow> result) (snd r))
      else Some (Inr (result, q)))"

declare parse_loop.simps [code]

definition fast_parse :: "string \<Rightarrow> queue \<Rightarrow> (lex_error, library_unit list \<times> queue) outcome" where
  "fast_parse fn q = parse_loop fn [] q"

definition fast_parser_new ::
    "string \<Rightarrow> char \<Rightarrow> stringtable \<Rightarrow> string \<Rightarrow> kind_t \<Rightarrow> (lex_error, queue) outcome" where
  \<comment> \<open>no diagnostics, and the version is the default argument of the lexer\<close>
  "fast_parser_new s e st fn tok0 =
     obind (Some (lexer_new s e st None fn vhdl93 tok0)) (\<lambda>lx.
       obind (scan (queue_new lx)) (\<lambda>(_, q). Some (Inr q)))"

section \<open>The tokens a queue stands for\<close>

text \<open>
  \<open>stands_for q ts\<close>: \<open>ts\<close> is the current token and all that follow, up to the end of the file, which
  goes on for ever.
\<close>

definition stands_for :: "queue \<Rightarrow> token list \<Rightarrow> bool" where
  "stands_for q ts \<longleftrightarrow> queue_ok q \<and> ts \<noteq> [] \<and> is_eof (last ts) \<and> current_token q = hd ts
     \<and> (\<forall>n. ahead n q = Some (Inr (take n (tl ts @ replicate n (last ts)))))"

text \<open>What scanning does to the list: the end of the file is never scanned past.\<close>

fun advance_tokens :: "token list \<Rightarrow> token list" where
  "advance_tokens (t # u # ts) = u # ts"
| "advance_tokens ts = ts"

lemma stands_for_scan:
  assumes s: "stands_for q ts"
  shows "\<exists>q'. scan q = Some (Inr (hd (advance_tokens ts), q')) \<and> stands_for q' (advance_tokens ts)
    \<and> previous_token q' = current_token q"
proof -
  have ok: "queue_ok q" and ne: "ts \<noteq> []" and e: "is_eof (last ts)"
    and a: "ahead n q = Some (Inr (take n (tl ts @ replicate n (last ts))))" for n
    using s by (auto simp: stands_for_def)
  define us where "us = advance_tokens ts"
  have us: "us \<noteq> []" "last us = last ts"
    "take (Suc n) (tl ts @ replicate (Suc n) (last ts)) = hd us # take n (tl us @ replicate n (last us))" for n
    using ne by (cases ts rule: advance_tokens.cases; simp add: us_def replicate_append_same [symmetric])+
  have "obind (scan_many 1 q) (\<lambda>(ts, _). Some (Inr ts)) = Some (Inr [hd us])"
    using scan_many_ahead [OF ok, of 1] a [of 1] us(3) [of 0] by simp
  then obtain q' where sc: "scan q = Some (Inr (hd us, q'))"
    by (auto simp: obind_Inr_iff)
  have "ahead n q' = Some (Inr (take n (tl us @ replicate n (last us))))" for n
  proof -
    define xs where "xs = take n (tl us @ replicate n (last us))"
    have "obind (ahead n q') (\<lambda>ts. Some (Inr (hd us # ts))) = Some (Inr (hd us # xs))"
      using scan_1(2) [OF ok sc, of n] a [of "Suc n"] us(3) [of n] by (simp only: xs_def)
    then show ?thesis unfolding xs_def [symmetric] by (auto simp: obind_Inr_iff)
  qed
  then show ?thesis
    using scan_slots [OF ok sc] sc us(1,2) e by (auto simp: stands_for_def us_def)
qed

text \<open>A queue stands for the tokens it delivers, once it has delivered the end of the file.\<close>

lemma replicate_eof:
  assumes "end_ok (cs lx)" and "lex lx = Some (Inr (t, lx))"
  shows "take_next lex n lx = Some (Inr (replicate n t, lx))"
  using assms by (induction n) auto

lemma take_next_eof:
  assumes "end_ok (cs lx)" and "take_next lex k lx = Some (Inr (ts, lx'))" and "ts \<noteq> []"
    and "is_eof (last ts)"
  shows "take_next lex n lx' = Some (Inr (replicate n (last ts), lx'))"
  using assms
proof (induction k arbitrary: lx ts)
  case (Suc k)
  then obtain t lx1 us where t: "lex lx = Some (Inr (t, lx1))"
    and u: "take_next lex k lx1 = Some (Inr (us, lx'))" and ts: "ts = t # us"
    by (auto simp: obind_Inr_iff)
  have ok: "end_ok (cs lx1)"
    using t lex_ok [OF Suc.prems(1)] end_ok_lexed [of lx lx1] Suc.prems(1) by auto
  show ?case
  proof (cases "us = []")
    case True
    then have "lx' = lx1" using u take_next_length [OF u] by simp
    moreover have "lex lx1 = Some (Inr (t, lx1))"
      using lex_eof [OF Suc.prems(1) t] Suc.prems(4) ts True by simp
    ultimately show ?thesis using replicate_eof [OF ok] ts True by simp
  next
    case False
    then show ?thesis using Suc.IH [OF ok u] Suc.prems(4) ts by simp
  qed
qed simp

lemma stands_for_new:
  assumes ok: "queue_ok q" and e: "end_ok (cs (scanner q))" and "lookahead_tokens q = []"
    and a: "take_next lex k (scanner q) = Some (Inr (ts, lx'))" and "ts \<noteq> []" "is_eof (last ts)"
  shows "stands_for q (current_token q # ts)"
proof -
  have k: "length ts = k" by (rule take_next_length [OF a])
  have "ahead n q = Some (Inr (take n (ts @ replicate n (last ts))))" for n
  proof -
    have "take_next lex (k + n) (scanner q) = Some (Inr (ts @ replicate n (last ts), lx'))"
      using take_next_eof [OF e a assms(5,6), of n] by (simp add: take_next_add a)
    then have "ahead (k + n) q = Some (Inr (ts @ replicate n (last ts)))"
      using assms(3) by (auto simp: ahead_def ahead_of_def)
    from ahead_prefix [OF this, of n] show ?thesis by simp
  qed
  then show ?thesis using assms(1,5,6) by (simp add: stands_for_def)
qed

section \<open>What the fast parser computes\<close>

definition at_identifier :: "token list \<Rightarrow> bool" where
  "at_identifier ts \<longleftrightarrow> kind (hd ts) = tk_identifier"

definition unit_at :: "library_unit_kind \<Rightarrow> token \<Rightarrow> string \<Rightarrow> string option \<Rightarrow> string \<Rightarrow> library_unit" where
  "unit_at k t name secondary fn =
     \<lparr>unit_kind = k, unit_line = line (begin_pos (loc t)), unit_column = column (begin_pos (loc t)),
      unit_name = name, unit_of = secondary, unit_file = fn, unit_time = 0\<rparr>"

text \<open>\<open>k IDENTIFIER\<close> and \<open>k IDENTIFIER of IDENTIFIER\<close>, from the token \<open>t\<close> on.\<close>

definition simple_unit ::
    "library_unit_kind \<Rightarrow> string \<Rightarrow> token \<Rightarrow> token list \<Rightarrow> library_unit option \<times> token list" where
  "simple_unit k fn t ts =
     (if at_identifier ts then (Some (unit_at k t (val (hd ts)) None fn), advance_tokens ts)
      else (None, ts))"

definition secondary_unit ::
    "library_unit_kind \<Rightarrow> string \<Rightarrow> token \<Rightarrow> token list \<Rightarrow> library_unit option \<times> token list" where
  "secondary_unit k fn t ts =
     (let ts1 = advance_tokens ts; ts2 = advance_tokens ts1 in
      if \<not> at_identifier ts then (None, ts)
      else if kind (hd ts1) \<noteq> kw_of then (None, ts1)
      else if \<not> at_identifier ts2 then (None, ts2)
      else (Some (unit_at k t (val (hd ts)) (Some (val (hd ts2))) fn), advance_tokens ts2))"

fun skip_to_unit :: "token list \<Rightarrow> token list" where
  "skip_to_unit [] = []"
| "skip_to_unit [t] = [t]"
| "skip_to_unit (t # u # ts) =
     (if is_eof u \<or> starts_unit (kind u) \<and> kind t \<noteq> kw_end then u # ts else skip_to_unit (u # ts))"

definition unit_turn :: "string \<Rightarrow> token list \<Rightarrow> library_unit option \<times> token list" where
  "unit_turn fn ts =
     (let k = kind (hd ts); ts1 = advance_tokens ts in
      if k = kw_entity then simple_unit Entity fn (hd ts) ts1
      else if k = kw_architecture then secondary_unit Architecture fn (hd ts) ts1
      else if k = kw_package then
        (if kind (hd ts1) = kw_body then simple_unit Package_body fn (hd ts1) (advance_tokens ts1)
         else simple_unit Package fn (hd ts1) ts1)
      else if k = kw_configuration then secondary_unit Configuration fn (hd ts) ts1
      else if k = kw_library \<or> k = kw_use then (None, skip_to_unit ts1)
      else (None, skip_to_unit ts))"

lemma advance_length: "length (advance_tokens ts) \<le> length ts"
  by (cases ts rule: advance_tokens.cases) auto

lemma skip_length: "length (skip_to_unit ts) \<le> length ts"
  by (induction ts rule: skip_to_unit.induct) auto

lemma unit_turn_length:
  assumes "2 \<le> length ts"
  shows "length (snd (unit_turn fn ts)) < length ts"
proof -
  have a: "length (advance_tokens ts) < length ts"
    using assms by (cases ts rule: advance_tokens.cases) auto
  have s: "length (skip_to_unit ts) < length ts"
    using assms by (cases ts rule: skip_to_unit.cases) (auto intro: le_less_trans [OF skip_length])
  have "length (snd (simple_unit k fn t us)) \<le> length us" for k t us
    using advance_length by (simp add: simple_unit_def)
  moreover have "length (snd (secondary_unit k fn t us)) \<le> length us" for k t us
    using advance_length [of us] advance_length [of "advance_tokens us"]
      advance_length [of "advance_tokens (advance_tokens us)"]
    by (simp add: secondary_unit_def Let_def)
  ultimately show ?thesis
    using a s skip_length advance_length
    by (auto simp: unit_turn_def Let_def; meson le_less_trans)
qed

function units_of :: "string \<Rightarrow> token list \<Rightarrow> library_unit list" where
  "units_of fn ts =
     (if length ts < 2 \<or> is_eof (hd ts) then []
      else
        let r = unit_turn fn ts in
        (case fst r of Some u \<Rightarrow> u # units_of fn (snd r) | None \<Rightarrow> units_of fn (snd r)))"
  by pat_completeness auto
termination
  by (relation "measure (\<lambda>(fn, ts). length ts)") (auto simp: unit_turn_length)

declare units_of.simps [simp del]

section \<open>The parser computes it\<close>

lemma stands_for_simps:
  assumes "stands_for q ts"
  shows "current_token q = hd ts" and "ts \<noteq> []" and "is_eof (last ts)" and "queue_ok q"
  using assms by (auto simp: stands_for_def)

lemma consume_stands_for:
  assumes "stands_for q ts"
  obtains q' where "consume q = Some (Inr q')" and "stands_for q' (advance_tokens ts)"
  using stands_for_scan [OF assms] that by (auto simp: consume_def)

text \<open>What the functions for the units do once their first keyword is consumed.\<close>

definition simple_tail :: "library_unit_kind \<Rightarrow> queue \<Rightarrow> string \<Rightarrow> queue \<Rightarrow> unit_result" where
  "simple_tail k q0 fn = (\<lambda>q.
     if current_kind q \<noteq> tk_identifier then Some (Inr (None, q))
      else obind (consume q) (\<lambda>q'. Some (Inr (Some (make_unit k q0 (get_identifier q) None fn), q'))))"

definition secondary_tail :: "library_unit_kind \<Rightarrow> queue \<Rightarrow> string \<Rightarrow> queue \<Rightarrow> unit_result" where
  "secondary_tail k q0 fn = (\<lambda>q.
     if current_kind q \<noteq> tk_identifier then Some (Inr (None, q))
      else obind (consume q) (\<lambda>qa.
        if current_kind qa \<noteq> kw_of then Some (Inr (None, qa))
        else obind (consume qa) (\<lambda>qb.
          if current_kind qb \<noteq> tk_identifier then Some (Inr (None, qb))
          else obind (consume qb) (\<lambda>qc. Some (Inr
            (Some (make_unit k q0 (get_identifier q) (Some (get_identifier qb)) fn), qc))))))"

lemma parse_tails:
  "parse_entity fn q = obind (consume q) (simple_tail Entity q fn)"
  "parse_package_body fn q = obind (consume q) (simple_tail Package_body q fn)"
  "parse_package fn q = simple_tail Package q fn q"
  "parse_architecture fn q = obind (consume q) (secondary_tail Architecture q fn)"
  "parse_configuration fn q = obind (consume q) (secondary_tail Configuration q fn)"
  unfolding parse_entity_def parse_package_body_def parse_package_def parse_architecture_def
    parse_configuration_def simple_tail_def secondary_tail_def Let_def
  by (rule refl)+

lemma simple_tail_stands_for:
  assumes "stands_for q ts"
  shows "\<exists>q'. simple_tail k q0 fn q = Some (Inr (fst (simple_unit k fn (current_token q0) ts), q'))
    \<and> stands_for q' (snd (simple_unit k fn (current_token q0) ts))"
proof -
  obtain q' where "consume q = Some (Inr q')" "stands_for q' (advance_tokens ts)"
    by (rule consume_stands_for [OF assms])
  then show ?thesis
    using assms stands_for_simps(1) [OF assms]
    by (auto simp: simple_tail_def simple_unit_def at_identifier_def make_unit_def unit_at_def
        get_identifier_def get_current_line_def get_current_offset_def)
qed

lemma secondary_tail_stands_for:
  assumes "stands_for q ts"
  shows "\<exists>q'. secondary_tail k q0 fn q
      = Some (Inr (fst (secondary_unit k fn (current_token q0) ts), q'))
    \<and> stands_for q' (snd (secondary_unit k fn (current_token q0) ts))"
proof -
  obtain qa where a: "consume q = Some (Inr qa)" "stands_for qa (advance_tokens ts)"
    by (rule consume_stands_for [OF assms])
  obtain qb where b: "consume qa = Some (Inr qb)" "stands_for qb (advance_tokens (advance_tokens ts))"
    by (rule consume_stands_for [OF a(2)])
  obtain qc where c: "consume qb = Some (Inr qc)"
    "stands_for qc (advance_tokens (advance_tokens (advance_tokens ts)))"
    by (rule consume_stands_for [OF b(2)])
  show ?thesis
    using assms a b c stands_for_simps(1) [OF assms] stands_for_simps(1) [OF a(2)]
      stands_for_simps(1) [OF b(2)]
    by (auto simp: secondary_tail_def secondary_unit_def Let_def at_identifier_def make_unit_def
        unit_at_def get_identifier_def get_current_line_def get_current_offset_def)
qed

lemma resync_stands_for:
  "stands_for q ts \<Longrightarrow> \<exists>q'. resync_to_next_unit q = Some (Inr q') \<and> stands_for q' (skip_to_unit ts)"
proof (induction ts arbitrary: q rule: skip_to_unit.induct)
  case (3 t u ts)
  obtain q1 where sc: "scan q = Some (Inr (u, q1))" "stands_for q1 (u # ts)"
    "previous_token q1 = current_token q"
    using stands_for_scan [OF 3(2)] by auto
  have k: "current_token q1 = u" "previous_token q1 = t"
    using sc stands_for_simps(1) [OF 3(2)] stands_for_simps(1) [OF sc(2)] by simp_all
  show ?case
  proof (cases "is_eof u \<or> starts_unit (kind u) \<and> kind t \<noteq> kw_end")
    case True
    then show ?thesis using sc k
      by (intro exI [of _ q1]) (subst resync_to_next_unit.simps, auto)
  next
    case False
    then have "resync_to_next_unit q = resync_to_next_unit q1"
      using sc(1) k by (subst resync_to_next_unit.simps) auto
    then show ?thesis using 3(1) [OF False sc(2)] False by auto
  qed
next
  case (2 t)
  obtain q1 where "scan q = Some (Inr (t, q1))" "stands_for q1 [t]"
    using stands_for_scan [OF 2] by auto
  moreover have "is_eof t" using stands_for_simps(3) [OF 2] by simp
  ultimately show ?case using stands_for_simps(1) [of q1 "[t]"]
    by (intro exI [of _ q1]) (subst resync_to_next_unit.simps, simp)
qed (simp add: stands_for_def)

lemma parse_turn_stands_for:
  assumes s: "stands_for q ts"
  shows "\<exists>q'. parse_turn fn q = Some (Inr (fst (unit_turn fn ts), q'))
    \<and> stands_for q' (snd (unit_turn fn ts))"
proof -
  define k where "k = kind (hd ts)"
  have k: "current_kind q = k" using stands_for_simps(1) [OF s] by (simp add: k_def)
  obtain qa where a: "consume q = Some (Inr qa)" "stands_for qa (advance_tokens ts)"
    by (rule consume_stands_for [OF s])
  obtain qb where b: "consume qa = Some (Inr qb)" "stands_for qb (advance_tokens (advance_tokens ts))"
    by (rule consume_stands_for [OF a(2)])
  obtain qc where c: "resync_to_next_unit q = Some (Inr qc)" "stands_for qc (skip_to_unit ts)"
    using resync_stands_for [OF s] by blast
  obtain qd where d: "resync_to_next_unit qa = Some (Inr qd)"
    "stands_for qd (skip_to_unit (advance_tokens ts))"
    using resync_stands_for [OF a(2)] by blast
  obtain ta where sc: "scan q = Some (Inr (ta, qa))"
    using a(1) by (auto simp: consume_def obind_Inr_iff)
  note h = stands_for_simps(1) [OF s] stands_for_simps(1) [OF a(2)]
  note simple = simple_tail_stands_for [OF a(2), of Entity q fn]
    simple_tail_stands_for [OF a(2), of Package qa fn]
    simple_tail_stands_for [OF b(2), of Package_body qa fn]
  note secondary = secondary_tail_stands_for [OF a(2), of Architecture q fn]
    secondary_tail_stands_for [OF a(2), of Configuration q fn]
  consider "k = kw_entity" | "k = kw_architecture" | "k = kw_package" "kind (hd (advance_tokens ts)) = kw_body"
    | "k = kw_package" "kind (hd (advance_tokens ts)) \<noteq> kw_body" | "k = kw_configuration"
    | "k = kw_library \<or> k = kw_use"
    | "k \<notin> {kw_entity, kw_architecture, kw_package, kw_configuration, kw_library, kw_use}" by blast
  then show ?thesis
  proof cases
    case 1
    then show ?thesis using simple(1) a h k
      by (simp add: parse_turn_def parse_tails unit_turn_def Let_def)
  next
    case 2
    then show ?thesis using secondary(1) a h k
      by (simp add: parse_turn_def parse_tails unit_turn_def Let_def)
  next
    case 3
    then show ?thesis using simple(3) a b h k
      by (simp add: parse_turn_def parse_tails unit_turn_def Let_def)
  next
    case 4
    then show ?thesis using simple(2) a h k
      by (simp add: parse_turn_def parse_tails unit_turn_def Let_def)
  next
    case 5
    then show ?thesis using secondary(2) a h k
      by (simp add: parse_turn_def parse_tails unit_turn_def Let_def)
  next
    case 6
    then show ?thesis using d sc h k by (auto simp: parse_turn_def unit_turn_def Let_def)
  next
    case 7
    then show ?thesis using c h k by (auto simp: parse_turn_def unit_turn_def Let_def)
  qed
qed

lemma parse_loop_stands_for:
  "stands_for q ts \<Longrightarrow> \<exists>q'. parse_loop fn us q = Some (Inr (us @ units_of fn ts, q'))"
proof (induction fn ts arbitrary: us q rule: units_of.induct)
  case (1 fn ts)
  note s = stands_for_simps [OF 1(3)]
  show ?case
  proof (cases "length ts < 2 \<or> is_eof (hd ts)")
    case True
    then have "is_eof (hd ts)" using s(2,3) by (cases ts; cases "tl ts") auto
    then show ?thesis using True s(1)
      by (subst parse_loop.simps, subst units_of.simps) simp
  next
    case False
    define r where "r = unit_turn fn ts"
    obtain q' where t: "parse_turn fn q = Some (Inr (fst r, q'))" "stands_for q' (snd r)"
      using parse_turn_stands_for [OF 1(3)] by (auto simp: r_def)
    have "parse_loop fn us q
        = parse_loop fn (case fst r of Some u \<Rightarrow> us @ [u] | None \<Rightarrow> us) q'"
      using False s(1) t(1) by (subst parse_loop.simps) simp
    moreover have "units_of fn ts
        = (case fst r of Some u \<Rightarrow> u # units_of fn (snd r) | None \<Rightarrow> units_of fn (snd r))"
      using False unfolding units_of.simps [of fn ts] Let_def r_def by (simp only: if_False)
    ultimately show ?thesis
    proof (cases "fst r")
      case (Some a)
      with \<open>units_of fn ts = _\<close> \<open>parse_loop fn us q = _\<close> show ?thesis
        using 1(2) [OF False r_def Some t(2), of "us @ [a]"] by simp
    qed (use 1(1) [OF False r_def _ t(2)] in simp)
  qed
qed

section \<open>Termination\<close>

definition fp_left :: "queue \<Rightarrow> nat" where
  "fp_left q = queue_left q + (if current_kind q = tk_eof then 0 else 1)"

definition fine :: "nat \<Rightarrow> (lex_error, 'a \<times> queue) outcome \<Rightarrow> bool" where
  "fine m r \<longleftrightarrow> returns r \<and> (\<forall>x q'. r = Some (Inr (x, q')) \<longrightarrow> good_queue q' \<and> fp_left q' \<le> m)"

lemma fine_here: "good_queue q \<Longrightarrow> fp_left q \<le> m \<Longrightarrow> fine m (Some (Inr (x, q)))"
  by (simp add: fine_def)

lemma queue_left_fp: "queue_left q \<le> fp_left q"
  by (simp add: fp_left_def)

lemma fine_scan:
  assumes good: "good_queue q" and m: "queue_left q \<le> m"
    and f: "\<And>t q'. good_queue q' \<Longrightarrow> fp_left q' \<le> m \<Longrightarrow> fine m (f (t, q'))"
  shows "fine m (obind (scan q) f)"
proof -
  have ok: "queue_ok q" using good by (simp add: good_queue_def)
  have step: "fine m (f (t, q'))" if "scan q = Some (Inr (t, q'))" for t q'
  proof (rule f)
    note g = scan_good(2) [OF good that]
    show "good_queue q'" using g by blast
    have "current_token q' = t" using scan_slots [OF ok that] by blast
    then have "fp_left q' \<le> queue_left q" using g by (auto simp: fp_left_def)
    then show "fp_left q' \<le> m" using m by simp
  qed
  show ?thesis
  proof (cases "scan q")
    case None
    then show ?thesis using scan_good(1) [OF good] by simp
  next
    case (Some r)
    then show ?thesis using step by (cases r) (auto simp: fine_def)
  qed
qed

lemma consume_scan: "obind (consume q) f = obind (scan q) (\<lambda>(_, q). f q)"
  by (simp add: consume_def obind_assoc case_prod_beta')

lemma fine_consume:
  assumes "good_queue q" and "queue_left q \<le> m"
    and "\<And>q'. good_queue q' \<Longrightarrow> fp_left q' \<le> m \<Longrightarrow> fine m (f q')"
  shows "fine m (obind (consume q) f)"
  unfolding consume_scan by (rule fine_scan [OF assms(1,2)]) (use assms(3) in simp)

lemmas fine_consume_then = fine_consume [OF _ order_trans [OF queue_left_fp]]

lemma fine_simple_tail:
  assumes "good_queue q" and "fp_left q \<le> m"
  shows "fine m (simple_tail k q0 fn q)"
  unfolding simple_tail_def
  using assms by (auto intro!: fine_here fine_consume_then)

lemma fine_secondary_tail:
  assumes "good_queue q" and "fp_left q \<le> m"
  shows "fine m (secondary_tail k q0 fn q)"
  unfolding secondary_tail_def
  using assms by (auto intro!: fine_here fine_consume_then)

lemma fine_resync:
  "good_queue q \<Longrightarrow> queue_left q \<le> m \<Longrightarrow>
   fine m (obind (resync_to_next_unit q) (\<lambda>q. Some (Inr (x, q))))"
proof (induction "queue_left q" arbitrary: q rule: less_induct)
  case less
  have ok: "queue_ok q" using less.prems(1) by (simp add: good_queue_def)
  show ?case
  proof (cases "scan q")
    case None
    then show ?thesis using scan_good(1) [OF less.prems(1)] by simp
  next
    case (Some r)
    show ?thesis
    proof (cases r)
      case (Inl e)
      then show ?thesis using Some by (subst resync_to_next_unit.simps) (simp add: fine_def)
    next
      case (Inr y)
      obtain t q1 where sc: "scan q = Some (Inr (t, q1))" using Some Inr by (cases y) simp
      note g = scan_good(2) [OF less.prems(1) sc]
      have t: "current_token q1 = t" using scan_slots [OF ok sc] by blast
      have m: "fp_left q1 \<le> m" using g t less.prems(2) by (auto simp: fp_left_def)
      have "fine m (obind (resync_to_next_unit q1) (\<lambda>q. Some (Inr (x, q))))" if "\<not> is_eof t"
        using less.hyps [of q1] g that less.prems(2) by simp
      then show ?thesis
        using sc t g m by (subst resync_to_next_unit.simps) (auto intro: fine_here)
    qed
  qed
qed

lemma fine_parse_turn:
  assumes good: "good_queue q" and "current_kind q \<noteq> tk_eof"
  shows "fine (queue_left q) (parse_turn fn q)"
proof -
  note le = order_trans [OF queue_left_fp]
  have "fine (queue_left q) (obind (consume q) (simple_tail k q0 fn))" for k q0
    by (rule fine_consume [OF good order_refl]) (rule fine_simple_tail)
  moreover have "fine (queue_left q) (obind (consume q) (secondary_tail k q0 fn))" for k q0
    by (rule fine_consume [OF good order_refl]) (rule fine_secondary_tail)
  moreover have "fine (queue_left q) (obind (consume q) (\<lambda>q. if current_kind q = kw_body
      then parse_package_body fn q else parse_package fn q))"
    by (rule fine_consume [OF good order_refl])
      (auto simp: parse_tails intro!: fine_simple_tail fine_consume_then)
  moreover have "fine (queue_left q) (obind (scan q) (\<lambda>(_, q).
      obind (resync_to_next_unit q) (\<lambda>q. Some (Inr (None, q)))))"
    by (rule fine_scan [OF good order_refl]) (auto intro!: fine_resync intro: le)
  moreover have "fine (queue_left q) (obind (resync_to_next_unit q) (\<lambda>q. Some (Inr (None, q))))"
    by (rule fine_resync [OF good order_refl])
  ultimately show ?thesis
    unfolding parse_turn_def Let_def parse_tails(1,4,5) by (auto split: if_split)
qed

lemma parse_loop_returns: "good_queue q \<Longrightarrow> returns (parse_loop fn us q)"
proof (induction "fp_left q" arbitrary: us q rule: less_induct)
  case less
  show ?case
  proof (cases "current_kind q = tk_eof")
    case True
    then show ?thesis by (subst parse_loop.simps) simp
  next
    case False
    have f: "fine (queue_left q) (parse_turn fn q)"
      by (rule fine_parse_turn [OF less.prems False])
    have "returns (parse_loop fn us' (snd x))" if "parse_turn fn q = Some (Inr x)" for x us'
    proof -
      have g: "good_queue (snd x)" "fp_left (snd x) \<le> queue_left q"
        using f that by (cases x; auto simp: fine_def)+
      moreover have "queue_left q < fp_left q" using False by (simp add: fp_left_def)
      ultimately show ?thesis using less.hyps [of "snd x"] by simp
    qed
    then have "returns (obind (parse_turn fn q) (\<lambda>r.
        parse_loop fn (case fst r of Some u \<Rightarrow> us @ [u] | None \<Rightarrow> us) (snd r)))"
      using f by (intro returns_obind) (auto simp: fine_def)
    then show ?thesis using False by (subst parse_loop.simps) simp
  qed
qed

section \<open>Properties\<close>


definition kinds_of :: "(lex_error, token list \<times> lexer) outcome \<Rightarrow> (kind_t \<times> string) list" where
  "kinds_of r = (case r of Some (Inr (ts, _)) \<Rightarrow> map (\<lambda>t. (kind t, val t)) ts | _ \<Rightarrow> [])"

lemma kinds_of_Some:
  "kinds_of r = kvs \<Longrightarrow> kvs \<noteq> [] \<Longrightarrow> \<exists>ts lx. r = Some (Inr (ts, lx)) \<and> map (\<lambda>t. (kind t, val t)) ts = kvs"
  by (auto simp: kinds_of_def split: option.splits sum.splits)


text \<open>C16. On a text without a stuck character literal, with a harmless byte behind it, the fast parser
  returns: every turn of its loops uses up a token, whatever the tokens are.\<close>

theorem fast_parse_returns:
  assumes "good_text lx"
  shows "\<exists>r. obind (scan (queue_new lx)) (\<lambda>(_, q). fast_parse fn q) = Some r"
proof -
  have good: "good_queue (queue_new lx)"
    using assms by (simp add: good_queue_def queue_ok_def queue_new_def MAX_LOOKBACK_def)
  have "returns (obind (scan (queue_new lx)) (\<lambda>(_, q). fast_parse fn q))"
    by (rule returns_obind [OF scan_good(1) [OF good]])
      (use scan_good(2) [OF good] parse_loop_returns in \<open>auto simp: fast_parse_def\<close>)
  then show ?thesis by (simp add: returns_def)
qed

theorem fast_parse_returns_witness:
  "\<exists>r. obind (scan (queue_new (sample_lexer ''use entity ( package'' NUL tk_eof)))
      (\<lambda>(_, q). fast_parse [] q) = Some r"
  by (rule fast_parse_returns) (simp add: good_text_def sample_simps)

lemma skip_to_unit_passes:
  assumes "pre \<noteq> []" and "\<forall>t \<in> set (tl pre). \<not> is_eof t \<and> \<not> starts_unit (kind t)"
    and "kind (last pre) \<noteq> kw_end" and "starts_unit (kind e)"
  shows "skip_to_unit (pre @ e # post) = e # post"
  using assms
proof (induction pre)
  case (Cons t pre)
  then show ?case by (cases pre) auto
qed simp

text \<open>A direct instantiation is taken for a declaration. Behind the header of an architecture,
  the first \<open>entity\<close> keyword that does not follow \<open>end\<close>, as in \<open>u1 : entity work.foo\<close>, makes the fast
  parser report an entity named by the identifier behind it, here the library name \<open>work\<close>.\<close>

theorem direct_instantiation_reported:
  assumes "kind a = kw_architecture" and "kind n = tk_identifier" and "kind o1 = kw_of"
    and "kind m = tk_identifier" and "body \<noteq> []"
    and "\<forall>t \<in> set body. \<not> is_eof t \<and> \<not> starts_unit (kind t)" and "kind (last body) \<noteq> kw_end"
    and "kind e = kw_entity" and "kind w = tk_identifier" and "rest1 \<noteq> []"
  shows "units_of fn (a # n # o1 # m # body @ e # w # rest1) =
    unit_at Architecture a (val n) (Some (val m)) fn # unit_at Entity e (val w) None fn # units_of fn rest1"
proof -
  obtain b body' where b: "body = b # body'" using assms(5) by (cases body) auto
  obtain r rest' where r: "rest1 = r # rest'" using assms(10) by (cases rest1) auto
  have "units_of fn (a # n # o1 # m # body @ e # w # rest1)
      = unit_at Architecture a (val n) (Some (val m)) fn # units_of fn (body @ e # w # rest1)"
    using assms(1-4) b
    by (subst units_of.simps)
      (simp add: unit_turn_def secondary_unit_def at_identifier_def Let_def)
  moreover have "skip_to_unit (body @ e # w # rest1) = e # w # rest1"
    using assms(5-8) b by (intro skip_to_unit_passes) (auto simp: starts_unit_def)
  then have "units_of fn (body @ e # w # rest1) = units_of fn (e # w # rest1)"
    using assms(6) b
    by (subst units_of.simps) (auto simp: unit_turn_def Let_def starts_unit_def)
  moreover have "units_of fn (e # w # rest1) = unit_at Entity e (val w) None fn # units_of fn rest1"
    using assms(8,9) r
    by (subst units_of.simps) (simp add: unit_turn_def simple_unit_def at_identifier_def Let_def)
  ultimately show ?thesis by simp
qed

definition plain :: "kind_t \<Rightarrow> string \<Rightarrow> token" where
  "plain k v = token_default\<lparr>kind := k, val := v\<rparr>"

theorem direct_instantiation_reported_witness:
  "map (\<lambda>u. (unit_kind u, unit_name u)) (units_of []
     [plain kw_architecture [], plain tk_identifier ''rtl'', plain kw_of [], plain tk_identifier ''top'',
      plain kw_is [], plain kw_begin [], plain tk_identifier ''u1'', plain tk_colon [], plain kw_entity [],
      plain tk_identifier ''work'', plain tk_dot [], plain tk_identifier ''foo'', plain tk_semicolon [],
      plain kw_end [], plain tk_semicolon [], plain tk_eof []])
   = [(Architecture, ''rtl''), (Entity, ''work'')]"
proof -
  have "units_of [] (plain kw_architecture [] # plain tk_identifier ''rtl'' # plain kw_of []
      # plain tk_identifier ''top''
      # [plain kw_is [], plain kw_begin [], plain tk_identifier ''u1'', plain tk_colon []]
      @ plain kw_entity [] # plain tk_identifier ''work'' # [plain tk_dot [], plain tk_identifier ''foo'',
         plain tk_semicolon [], plain kw_end [], plain tk_semicolon [], plain tk_eof []])
    = unit_at Architecture (plain kw_architecture []) (val (plain tk_identifier ''rtl''))
        (Some (val (plain tk_identifier ''top''))) []
      # unit_at Entity (plain kw_entity []) (val (plain tk_identifier ''work'')) None []
      # units_of [] [plain tk_dot [], plain tk_identifier ''foo'',
         plain tk_semicolon [], plain kw_end [], plain tk_semicolon [], plain tk_eof []]"
    by (rule direct_instantiation_reported) (simp_all add: plain_def starts_unit_def)
  moreover have "units_of [] [plain tk_dot [], plain tk_identifier ''foo'',
         plain tk_semicolon [], plain kw_end [], plain tk_semicolon [], plain tk_eof []] = []"
    by (subst units_of.simps)
      (simp add: unit_turn_def plain_def starts_unit_def Let_def, subst units_of.simps, simp)
  ultimately show ?thesis by (simp add: unit_at_def plain_def)
qed

end
