(* ===== verification/Silent_Lexer.thy ===== *)
theory Silent_Lexer
  imports Fast_Parser
begin

text \<open>
  The lexer writes diagnostics and never reads them: without the pointer to them it delivers the same
  tokens. What a parser says between two tokens does not change the tokens that follow either.
\<close>

section \<open>Without diagnostics\<close>

definition silent :: "lexer \<Rightarrow> lexer" where
  "silent lx = lx\<lparr>diagnostics := None\<rparr>"

definition silently :: "'e + 'a \<times> lexer \<Rightarrow> 'e + 'a \<times> lexer" where
  "silently r = map_sum id (apsnd silent) r"

named_theorems hush "moves silent out of the lexer's functions"

lemma silent_simps [simp]:
  "cs (silent lx) = cs lx" "strings (silent lx) = strings lx" "vhdl_version (silent lx) = vhdl_version lx"
  "yyltok (silent lx) = yyltok lx" "yylloc (silent lx) = yylloc lx" "diagnostics (silent lx) = None"
  "silent (silent lx) = silent lx"
  by (simp_all add: silent_def)

lemma silently_simps [simp]:
  "silently (Inl e) = Inl e" "silently (Inr (x, lx)) = Inr (x, silent lx)"
  by (simp_all add: silently_def)

lemma silent_steps [hush]:
  "bump (silent lx) = silent (bump lx)" "lx_next (silent lx) = silent (lx_next lx)"
  "lx_columns n (silent lx) = silent (lx_columns n lx)" "lx_advance n (silent lx) = silent (lx_advance n lx)"
  "lx_skip_to_eol (silent lx) = silent (lx_skip_to_eol lx)" "lx_step (silent lx) = silent (lx_step lx)"
  "bump2 (silent lx) = silent (bump2 lx)"
  "(silent lx)\<lparr>cs := s\<rparr> = silent (lx\<lparr>cs := s\<rparr>)" "(silent lx)\<lparr>yylloc := l\<rparr> = silent (lx\<lparr>yylloc := l\<rparr>)"
  by (simp_all add: silent_def bump_def bump2_def lx_next_def lx_columns_def lx_advance_def lx_skip_to_eol_def lx_step_def)

lemma silent_diagnose [simp]: "silent (diagnose m lx) = silent lx"
  by (simp add: silent_def diagnose_def split: option.split)

lemma diagnose_silent [hush]: "diagnose m (silent lx) = silent lx"
  by (simp add: silent_def diagnose_def)

lemma silent_tokens [hush]:
  "current_token_is_delimiter k (silent lx) = apsnd silent (current_token_is_delimiter k lx)"
  "current_token_is_identifier k sv (silent lx) = apsnd silent (current_token_is_identifier k sv lx)"
  "current_token_is_literal k sv (silent lx) = apsnd silent (current_token_is_literal k sv lx)"
  "current_token_is_keyword k (silent lx) = apsnd silent (current_token_is_keyword k lx)"
  "plain_token k (silent lx) = plain_token k lx"
  by (simp_all add: current_token_is_delimiter_def current_token_is_identifier_def
      current_token_is_literal_def current_token_is_keyword_def plain_token_def silent_def)

lemma silently_apsnd: "Inr (apsnd silent r) = silently (Inr r)"
  by (simp add: silently_def)

lemma plain_token_diagnose [simp]: "plain_token k (diagnose m lx) = plain_token k lx"
  by (simp add: plain_token_def)

lemma silent_reject [hush]: "reject m (silent lx) = silently (reject m lx)"
  by (simp add: reject_def Let_def hush)

lemma silent_intern [hush]: "lx_intern s (silent lx) = silently (lx_intern s lx)"
  by (simp add: lx_intern_def silent_def split: sum.split prod.split)

lemma silent_sbind [hush]:
  assumes "\<And>x lx. g (x, silent lx) = silently (g (x, lx))"
  shows "sbind (silently r) g = silently (sbind r g)"
  by (cases r) (auto simp: sbind_def silently_def assms split: prod.split)

lemma silent_if [hush]: "silently (if b then r else r') = (if b then silently r else silently r')"
  by simp

section \<open>The scanning functions\<close>

definition left_of :: "lexer \<Rightarrow> nat" where
  "left_of lx = length (buf (cs lx)) - cur (cs lx)"

lemma left_of_less:
  assumes "\<not> at_end (bump lx)" and "cs lx' \<in> {cs (bump lx), stream_next (cs (bump lx))}"
  shows "left_of lx' < left_of lx"
  using assms by (auto simp: left_of_def end_of_stream_def stream_next_def split: if_splits)

lemma silent_string: "lex_string_again q str (silent lx) = silently (lex_string_again q str lx)"
proof (induction "left_of lx" arbitrary: str lx rule: less_induct)
  case less
  have ih: "lex_string_again q s (silent lx') = silently (lex_string_again q s lx')"
    if "\<not> at_end (bump lx)" and "cs lx' \<in> {cs (bump lx), stream_next (cs (bump lx))}" for s lx'
    using less left_of_less [OF that] by simp
  have said: "silently (lex_string_again q s (diagnose m (bump lx))) = silently (lex_string_again q s (bump lx))"
    if "\<not> at_end (bump lx)" for s m
    using ih [of "bump lx" s] ih [of "diagnose m (bump lx)" s] that by simp
  show ?case
    unfolding lex_string_again.simps [of _ _ "silent lx"] lex_string_again.simps [of _ _ lx]
    by (auto simp: Let_def hush silently_apsnd ih said)
qed

lemma silent_extended: "lex_extended_identifier_again str (silent lx) = silently (lex_extended_identifier_again str lx)"
proof (induction "left_of lx" arbitrary: str lx rule: less_induct)
  case less
  have ih: "lex_extended_identifier_again s (silent lx') = silently (lex_extended_identifier_again s lx')"
    if "\<not> at_end (bump lx)" and "cs lx' \<in> {cs (bump lx), stream_next (cs (bump lx))}" for s lx'
    using less left_of_less [OF that] by simp
  have said: "silently (lex_extended_identifier_again s (diagnose m (bump lx))) = silently (lex_extended_identifier_again s (bump lx))"
    if "\<not> at_end (bump lx)" for s m
    using ih [of "bump lx" s] ih [of "diagnose m (bump lx)" s] that by simp
  show ?case
    unfolding lex_extended_identifier_again.simps [of _ "silent lx"] lex_extended_identifier_again.simps [of _ lx]
    by (auto simp: Let_def hush silently_apsnd ih said)
qed

lemma silent_bitstring: "lex_bitstring_again q str (silent lx) = silently (lex_bitstring_again q str lx)"
proof (induction "left_of lx" arbitrary: str lx rule: less_induct)
  case less
  have ih: "lex_bitstring_again q s (silent lx') = silently (lex_bitstring_again q s lx')"
    if "\<not> at_end (bump lx)" and "cs lx' \<in> {cs (bump lx), stream_next (cs (bump lx))}" for s lx'
    using less left_of_less [OF that] by simp
  have said: "silently (lex_bitstring_again q s (diagnose m (bump lx))) = silently (lex_bitstring_again q s (bump lx))"
    if "\<not> at_end (bump lx)" for s m
    using ih [of "bump lx" s] ih [of "diagnose m (bump lx)" s] that by simp
  show ?case
    unfolding lex_bitstring_again.simps [of _ _ "silent lx"] lex_bitstring_again.simps [of _ _ lx]
    by (auto simp: Let_def hush silently_apsnd ih said)
qed

lemma silent_character [hush]: "lex_character (silent lx) = silently (lex_character lx)"
  by (simp add: lex_character_def Let_def hush silently_apsnd)

lemma silent_scanners [hush]:
  "lex_string (silent lx) = silently (lex_string lx)"
  "lex_extended_identifier (silent lx) = silently (lex_extended_identifier lx)"
  "lex_bitstring (silent lx) = silently (lex_bitstring lx)"
  by (simp_all add: lex_string_def lex_extended_identifier_def lex_bitstring_def Let_def hush
      silent_string silent_extended silent_bitstring)

lemma silent_integer [hush]:
  "lex_integer str (silent lx) = apsnd silent (lex_integer str lx)"
proof (induction str lx rule: lex_integer.induct)
  case (1 str lx)
  show ?case
    unfolding lex_integer.simps [of _ "silent lx"] lex_integer.simps [of _ lx]
    by (simp add: hush 1 cong: if_cong)
qed

lemma silent_based_integer [hush]:
  "lex_based_integer str (silent lx) = apsnd silent (lex_based_integer str lx)"
proof (induction str lx rule: lex_based_integer.induct)
  case (1 str lx)
  show ?case
    unfolding lex_based_integer.simps [of _ "silent lx"] lex_based_integer.simps [of _ lx]
    by (simp add: hush 1 cong: if_cong)
qed

lemma silent_keep [hush]: "keep (apsnd silent r) = apsnd silent (keep r)"
  by (cases r) (simp add: keep_def hush)

lemma silent_fraction [hush]:
  assumes "\<And>str lx. digits str (silent lx) = apsnd silent (digits str lx)"
  shows "lex_fraction digits (apsnd silent r) = apsnd (apsnd silent) (lex_fraction digits r)"
  by (cases r) (simp add: lex_fraction_def hush assms keep_def)

lemma silent_exponent [hush]:
  assumes "\<And>str lx. digits str (silent lx) = apsnd silent (digits str lx)"
  shows "lex_exponent digits (apsnd silent r) = apsnd silent (lex_exponent digits r)"
  by (cases r) (simp add: lex_exponent_def Let_def hush assms keep_def)

lemma silent_finish_number [hush]: "finish_number b (apsnd silent r) = silently (finish_number b r)"
  by (cases r) (simp add: finish_number_def Let_def hush silently_apsnd)

lemma silent_number [hush]: "lex_number (silent lx) = silently (lex_number lx)"
  by (simp add: lex_number_def Let_def hush case_prod_unfold)

lemma silent_end_of_identifier:
  "end_of_identifier start str (silent lx) = silently (end_of_identifier start str lx)"
proof -
  have "finish_identifier str (silent lx) = silently (finish_identifier str lx)"
    unfolding finish_identifier_def
    by (simp add: hush) (rule silent_sbind, simp add: hush silently_apsnd split: option.split)
  then show ?thesis
    unfolding end_of_identifier_def by (simp add: hush split: option.split)
qed

section \<open>The lexer\<close>

definition silently_if :: "('e, 'a \<times> lexer) outcome \<Rightarrow> ('e, 'a \<times> lexer) outcome" where
  "silently_if r = map_option silently r"

lemma silently_if_simps [simp]: "silently_if None = None" "silently_if (Some r) = Some (silently r)"
  by (simp_all add: silently_if_def)

lemma identifier_again_forth:
  assumes "lex_identifier_again start str lx = Some r"
  shows "lex_identifier_again start str (silent lx) = Some (silently r)"
  using assms
proof (rule lex_identifier_again.raw_induct [rotated], goal_cases)
  case (1 lia start str lx r)
  then show ?case
    by (subst lex_identifier_again.simps) (auto simp: Let_def hush silent_end_of_identifier split: if_splits)
qed

lemma identifier_again_back:
  assumes "lex_identifier_again start str (silent lx) = Some r"
  shows "\<exists>r. lex_identifier_again start str lx = Some r"
proof -
  have "\<forall>lx. lx' = silent lx \<longrightarrow> (\<exists>r. lex_identifier_again start str lx = Some r)"
    if "lex_identifier_again start str lx' = Some r" for lx'
    using that
  proof (rule lex_identifier_again.raw_induct [rotated], goal_cases)
    case (1 lia start str lx' r)
    show ?case
    proof (intro allI impI)
      fix lx assume lx': "lx' = silent lx"
      show "\<exists>r. lex_identifier_again start str lx = Some r"
        using 1(2) unfolding lx'
        by (subst lex_identifier_again.simps)
          (auto simp: Let_def hush split: if_splits dest!: 1(1))
    qed
  qed
  then show ?thesis using assms by blast
qed

lemma silent_both_ways:
  assumes "\<And>r. m = Some r \<Longrightarrow> m' = Some (silently r)" and "\<And>r. m' = Some r \<Longrightarrow> \<exists>r. m = Some r"
  shows "m' = silently_if m"
proof (cases m)
  case None
  then show ?thesis using assms(2) by (cases m') auto
qed (simp add: assms(1))

lemma silent_identifier [hush]:
  "lex_identifier_or_keyword_or_bitstring (silent lx) = silently_if (lex_identifier_or_keyword_or_bitstring lx)"
  unfolding lex_identifier_or_keyword_or_bitstring_def silent_simps
  by (rule silent_both_ways) (use identifier_again_forth identifier_again_back in blast)+

lemma silent_turns [hush]:
  "return_delimiter k (silent lx) = apsnd silent (return_delimiter k lx)"
  "break_turn (silent lx) = apsnd silent (break_turn lx)"
  by (simp_all add: return_delimiter_def break_turn_def hush split: prod.split)

lemma silent_switch [hush]:
  "turn_special c (silent lx) = map_option (apsnd silent) (turn_special c lx)"
  "turn_relational c (silent lx) = map_option (apsnd silent) (turn_relational c lx)"
  "turn_space c (silent lx) = map_option (apsnd silent) (turn_space c lx)"
  "turn_other c (silent lx) = apsnd silent (turn_other c lx)"
proof -
  have d: "apsnd silent (return_delimiter k (diagnose m lx)) = apsnd silent (return_delimiter k lx)"
    "apsnd silent (break_turn (diagnose m lx)) = apsnd silent (break_turn lx)"
    "apsnd silent (break_turn (lx_skip_to_eol (diagnose m lx))) = apsnd silent (break_turn (lx_skip_to_eol lx))"
    for k m lx
    by (simp_all only: silent_turns [symmetric] silent_steps [symmetric] silent_diagnose)
  have f: "fst (current_token_is_delimiter k (diagnose m lx)) = fst (current_token_is_delimiter k lx)" for k m lx
    by (simp add: current_token_is_delimiter_def)
  show "turn_special c (silent lx) = map_option (apsnd silent) (turn_special c lx)"
    "turn_relational c (silent lx) = map_option (apsnd silent) (turn_relational c lx)"
    "turn_space c (silent lx) = map_option (apsnd silent) (turn_space c lx)"
    "turn_other c (silent lx) = apsnd silent (turn_other c lx)"
    by (simp_all add: turn_special_def turn_relational_def turn_space_def turn_other_def Let_def hush d f)
qed

text \<open>\<open>hushed\<close> is what \<open>silently\<close> does to a turn, and to any other result of a fallible step.\<close>

definition hushed :: "('e, 'a \<times> lexer) outcome \<Rightarrow> ('e, 'a \<times> lexer) outcome" where
  "hushed m = obind m (\<lambda>(x, lx). Some (Inr (x, silent lx)))"

lemma hushed_simps [simp]:
  "hushed None = None" "hushed (Some (Inl e)) = Some (Inl e)" "hushed (Some (Inr (x, lx))) = Some (Inr (x, silent lx))"
  by (simp_all add: hushed_def)

lemma silently_if_hushed: "silently_if m = hushed m"
  by (cases m) (auto simp: silently_def hushed_def obind_def split: sum.split prod.split)

lemma hushed_bind:
  assumes "\<And>x lx. g (x, silent lx) = hushed (g (x, lx))"
  shows "obind (hushed m) g = hushed (obind m g)"
  by (auto simp: hushed_def obind_def assms split: option.splits sum.splits prod.splits)

lemma silent_return [hush]: "return_token (silently r) = hushed (return_token r)"
  by (cases r) (auto simp: return_token_def silently_def split: prod.split)

definition after_identifier :: "(lex_error, token \<times> lexer) outcome \<Rightarrow> (lex_error, turn) outcome" where
  "after_identifier m = obind m (\<lambda>(t, lx). Some (Inr (Some t, lx)))"

lemma silent_after_identifier:
  "after_identifier (hushed m) = hushed (after_identifier m)"
  unfolding after_identifier_def by (rule hushed_bind) simp

lemma silent_lex_turn: "lex_turn (silent lx) = hushed (lex_turn lx)"
proof -
  have id: "after_identifier (lex_identifier_or_keyword_or_bitstring (silent lx))
      = hushed (after_identifier (lex_identifier_or_keyword_or_bitstring lx))" for lx
    by (simp add: silent_identifier silently_if_hushed silent_after_identifier)
  have said: "hushed (after_identifier (lex_identifier_or_keyword_or_bitstring (diagnose m lx)))
      = hushed (after_identifier (lex_identifier_or_keyword_or_bitstring lx))" for m lx
    using id [of lx] id [of "diagnose m lx"] by simp
  have xid: "hushed (return_token (lex_extended_identifier (diagnose m lx)))
      = hushed (return_token (lex_extended_identifier lx))" for m lx
    using silent_scanners(2) [of lx] silent_scanners(2) [of "diagnose m lx"]
    by (simp flip: silent_return)
  have sw: "hushed (Some (Inr r)) = Some (Inr (apsnd silent r))" for r :: turn by (cases r) simp
  have if': "hushed (if b then m else m') = (if b then hushed m else hushed m')" for b and m m' :: "(lex_error, turn) outcome"
    by simp
  show ?thesis
    unfolding lex_turn_def Let_def after_identifier_def [symmetric]
    by (simp add: hush silently_if_hushed silent_after_identifier said xid if' sw del: hushed_simps split: option.split)
qed

section \<open>The tokens ahead\<close>

text \<open>With or without diagnostics, the lexer returns the same tokens, the same errors, or nothing.\<close>

lemma lex_forth:
  assumes "lex lx = Some r"
  shows "lex (silent lx) = Some (silently r)"
  using assms
proof (rule lex.raw_induct [rotated], goal_cases)
  case (1 lx' lx r)
  then show ?case
    by (subst lex.simps)
      (auto simp: Let_def hush silent_lex_turn hushed_def obind_def split: if_splits option.splits sum.splits)
qed

lemma lex_back:
  assumes "lex (silent lx) = Some r"
  shows "\<exists>r. lex lx = Some r"
proof -
  have "\<forall>lx. lx' = silent lx \<longrightarrow> (\<exists>r. lex lx = Some r)" if "lex lx' = Some r" for lx'
    using that
  proof (rule lex.raw_induct [rotated], goal_cases)
    case (1 lexx lx' r)
    show ?case
    proof (intro allI impI)
      fix lx assume lx': "lx' = silent lx"
      show "\<exists>r. lex lx = Some r"
        using 1(2) unfolding lx'
        by (subst lex.simps)
          (auto simp: Let_def hush silent_lex_turn hushed_def obind_def
            split: if_splits option.splits sum.splits dest!: 1(1))
    qed
  qed
  then show ?thesis using assms by blast
qed

lemma silent_lex: "lex (silent lx) = hushed (lex lx)"
  unfolding silently_if_hushed [symmetric]
  by (rule silent_both_ways) (use lex_forth lex_back in blast)+

lemma silent_take_next: "take_next lex n (silent lx) = hushed (take_next lex n lx)"
proof (induction n arbitrary: lx)
  case (Suc n)
  have "obind (take_next lex n (silent lx)) (\<lambda>(ts, s). Some (Inr (t # ts, s)))
      = hushed (obind (take_next lex n lx) (\<lambda>(ts, s). Some (Inr (t # ts, s))))" for t lx
    unfolding Suc.IH by (rule hushed_bind) simp
  then show ?case by (simp add: silent_lex hushed_bind)
qed simp

definition with_diagnostics :: "diagnostic list option \<Rightarrow> lexer \<Rightarrow> lexer" where
  "with_diagnostics ds lx = lx\<lparr>diagnostics := ds\<rparr>"

lemma silent_with [simp]: "silent (with_diagnostics ds lx) = silent lx"
  by (simp add: silent_def with_diagnostics_def)

lemma hushed_same:
  assumes "hushed m = hushed m'"
  shows "obind m (\<lambda>(x, _). f x) = obind m' (\<lambda>(x, _). f x)"
proof -
  have "obind m (\<lambda>(x, _). f x) = obind (hushed m) (\<lambda>(x, _). f x)" for m
    by (auto simp: hushed_def obind_def split: option.split sum.split)
  then show ?thesis using assms by metis
qed

text \<open>C36. Diagnostics never influence the tokens: whatever the lexer has said before, and whether it says
  anything at all, the next \<open>n\<close> tokens are the same, with the same error or the same run for ever.\<close>

theorem diagnostics_change_nothing:
  "obind (take_next lex n (with_diagnostics ds lx)) (\<lambda>(ts, _). Some (Inr ts))
   = obind (take_next lex n lx) (\<lambda>(ts, _). Some (Inr ts))"
  by (rule hushed_same) (simp flip: silent_take_next)

lemma ahead_with:
  "ahead n (q\<lparr>scanner := with_diagnostics ds (scanner q)\<rparr>) = ahead n q"
  unfolding ahead_def ahead_of_def
  by (auto intro!: hushed_same [where f = "\<lambda>ts. Some (Inr (_ @ ts))"] simp flip: silent_take_next)

lemma stands_for_with [simp]:
  "stands_for (q\<lparr>scanner := with_diagnostics ds (scanner q)\<rparr>) ts = stands_for q ts"
  by (simp add: stands_for_def ahead_with queue_ok_def current_token_def)

end
