(* ===== verification/Parser_Core.thy ===== *)
theory Parser_Core
  imports Fast_Parser
begin

text \<open>
  The machinery of the parser, \<^verbatim>\<open>src/vhdl/parser.cpp\<close> and the templates of \<^verbatim>\<open>src/vhdl/parser.h\<close>: its
  state, the operations on the current token, the watchdog that throws after a hundred looks at
  the same token, error recovery, and \<open>parse_many\<close> with the set of parsing states that tells it
  when to leave a token to an outer list. Then what is built on it alone: labels, designators, the
  context clause, design units and the file. The functions for names and for the four library
  units are arguments, collected in \<open>grammar\<close>.
\<close>

section \<open>State\<close>

datatype parsing_state =
  design_unit_in_design_file | interface_lists | declarative_part_begin_end
  | declarative_part_begin | declarative_part_end | declarative_part_for | entity_statement_part
  | concurrent_statements | sequential_statements

definition array_of_states :: "parsing_state list" where
  "array_of_states =
     [design_unit_in_design_file, interface_lists, declarative_part_begin_end,
      declarative_part_begin, declarative_part_end, declarative_part_for, entity_statement_part,
      concurrent_statements, sequential_statements]"

text \<open>The diagnostics of the parser are those of its lexer, which has a pointer to them.\<close>

record parser =
  pq :: queue  \<comment> \<open>\<open>lexer_\<close>\<close>
  pversion :: version
  parsing_states :: "parsing_state set"  \<comment> \<open>the bit set\<close>
  watchdog :: nat  \<comment> \<open>\<open>temporary_count_that_prevents_forever_loops\<close>\<close>

text \<open>
  A \<open>throw\<close> carries the state it leaves behind, because the caller that catches it goes on with
  the diagnostics; a failed assertion or a null pointer dereferenced ends the program.
\<close>

datatype parse_error = Thrown string parser | Failed_lexer lex_error | Failed_assert string | Null_pointer

type_synonym 'a parse = "parser \<Rightarrow> (parse_error, 'a \<times> parser) outcome"

definition pret :: "'a \<Rightarrow> 'a parse" where
  "pret x p = Some (Inr (x, p))"

definition pbind :: "'a parse \<Rightarrow> ('a \<Rightarrow> 'b parse) \<Rightarrow> 'b parse" where
  "pbind m f p = obind (m p) (\<lambda>(x, p). f x p)"

lemma pbind_mono [partial_function_mono]:
  assumes "mono_option (\<lambda>f. B f p)" and "\<And>x p. mono_option (\<lambda>f. C f x p)"
  shows "mono_option (\<lambda>f. pbind (B f) (C f) p)"
  unfolding pbind_def
proof (rule obind_mono [OF assms(1)])
  fix y
  show "mono_option (\<lambda>f. case y of (x, p) \<Rightarrow> C f x p)"
    by (cases y) (simp add: assms(2))
qed

lemma if_app_mono [partial_function_mono]:
  "\<lbrakk>mono_option (\<lambda>f. B f p); mono_option (\<lambda>f. C f p)\<rbrakk> \<Longrightarrow> mono_option (\<lambda>f. (if c then B f else C f) p)"
  by (cases c) simp_all

definition never_here :: "'a parse" where
  \<comment> \<open>\<open>assert(false && "we should never get here")\<close>\<close>
  "never_here p = Some (Inl (Failed_assert ''we should never get here''))"

section \<open>The current token\<close>

definition on_queue :: "(queue \<Rightarrow> (lex_error, 'a \<times> queue) outcome) \<Rightarrow> 'a parse" where
  "on_queue m p =
     (case m (pq p) of
        None \<Rightarrow> None
      | Some (Inl e) \<Rightarrow> Some (Inl (Failed_lexer e))
      | Some (Inr (x, q)) \<Rightarrow> Some (Inr (x, p\<lparr>pq := q\<rparr>)))"

definition p_scan :: "unit parse" where
  "p_scan p = pbind (on_queue scan) (\<lambda>_. pret ()) p"

definition p_skip :: "unit parse" where
  "p_skip p = p_scan (p\<lparr>watchdog := 0\<rparr>)"

definition p_peek :: "nat \<Rightarrow> kind_t parse" where
  "p_peek n p = pbind (on_queue (peek n)) (\<lambda>t. pret (kind t)) p"

definition p_current_token :: "kind_t parse" where
  "p_current_token p =
     (let p' = p\<lparr>watchdog := watchdog p + 1\<rparr> in
      if watchdog p \<ge> 100 then Some (Inl (Thrown [] p'))
      else Some (Inr (current_kind (pq p), p')))"

text \<open>\<open>diag(msg, loc) << args\<close>.\<close>

definition p_diag_at :: "string \<Rightarrow> arg_t list \<Rightarrow> location \<Rightarrow> parser \<Rightarrow> parser" where
  "p_diag_at msg args at p =
     p\<lparr>pq := (pq p)\<lparr>scanner := (scanner (pq p))\<lparr>diagnostics :=
       map_option (\<lambda>ds. ds @ [foldl (\<lambda>d a. add_arg a d) (new_diagnostic msg at) args])
         (diagnostics (scanner (pq p)))\<rparr>\<rparr>\<rparr>"

definition p_diag :: "string \<Rightarrow> arg_t list \<Rightarrow> parser \<Rightarrow> parser" where
  "p_diag msg args p = p_diag_at msg args (get_current_location (pq p)) p"

text \<open>The same as a step, and looks at the lexer that the watchdog does not count.\<close>

definition say :: "string \<Rightarrow> arg_t list \<Rightarrow> unit parse" where
  "say msg args p = pret () (p_diag msg args p)"

definition say_at :: "string \<Rightarrow> arg_t list \<Rightarrow> location \<Rightarrow> unit parse" where
  "say_at msg args l p = pret () (p_diag_at msg args l p)"

definition this_token :: "token parse" where
  "this_token p = pret (current_token (pq p)) p"

definition this_location :: "location parse" where
  "this_location p = pret (get_current_location (pq p)) p"

definition previous_location :: "location parse" where
  "previous_location p = pret (get_previous_location (pq p)) p"

definition this_version :: "version parse" where
  "this_version p = pret (pversion p) p"

definition p_expecting_msg :: "kind_t \<Rightarrow> string \<Rightarrow> bool parse" where
  "p_expecting_msg k msg =
     pbind this_token (\<lambda>t.
       if kind t = k then pret True
       else pbind (say msg [Arg_string (get_token_string_view k)]) (\<lambda>_. pret False))"

definition p_expecting :: "kind_t \<Rightarrow> bool parse" where
  "p_expecting k = p_expecting_msg k (''Expected '{}'' @ [CHR 0x27])"

definition p_eat :: "kind_t \<Rightarrow> location parse" where
  "p_eat k p =
     pbind (p_expecting k) (\<lambda>found.
       if found then pbind p_scan (\<lambda>_. previous_location) else this_location) (p\<lparr>watchdog := 0\<rparr>)"

definition p_consume :: "kind_t \<Rightarrow> unit parse" where
  "p_consume k p =
     pbind (p_expecting k) (\<lambda>found. if found then p_scan else pret ()) (p\<lparr>watchdog := 0\<rparr>)"

definition p_consume_msg :: "kind_t \<Rightarrow> string \<Rightarrow> unit parse" where
  "p_consume_msg k msg p =
     pbind (p_expecting_msg k msg) (\<lambda>found. if found then p_scan else pret ()) (p\<lparr>watchdog := 0\<rparr>)"

definition p_optional :: "kind_t \<Rightarrow> bool parse" where
  "p_optional k =
     pbind this_token (\<lambda>t.
       if kind t = k then (\<lambda>p. pbind p_scan (\<lambda>_. pret True) (p\<lparr>watchdog := 0\<rparr>)) else pret False)"

section \<open>Resynchronisation\<close>

partial_function (option) resync_to_next_semicolon ::
    "bool \<Rightarrow> parser \<Rightarrow> (parse_error, unit \<times> parser) outcome" where
  "resync_to_next_semicolon consume_the_semicolon p0 =
     pbind p_scan (\<lambda>_.
     pbind this_token (\<lambda>t.
       if kind t = tk_semicolon then
         (if consume_the_semicolon then p_consume tk_semicolon else pret ())
       else if kind t = tk_eof then pret ()
       else resync_to_next_semicolon consume_the_semicolon)) p0"

declare resync_to_next_semicolon.simps [code]

text \<open>The loop behind \<open>check_this_token\<close>; \<open>nests\<close> is \<open>unsigned\<close>.\<close>

definition may_stop_rightpar :: "kind_t \<Rightarrow> bool" where
  "may_stop_rightpar k \<longleftrightarrow>
     k \<in> {tk_rightpar, kw_end, kw_port, kw_is, kw_begin, kw_signal, kw_variable, kw_constant, kw_file,
          kw_function, kw_type, kw_package, tk_semicolon}"

definition nests_after :: "kind_t \<Rightarrow> u32 \<Rightarrow> u32" where
  "nests_after k nests =
     (if k = tk_leftpar then nests + 1 else if k = tk_rightpar then nests - 1 else nests)"

partial_function (option) check_rightpar ::
    "u32 \<Rightarrow> parser \<Rightarrow> (parse_error, unit \<times> parser) outcome" where
  "check_rightpar nests p0 =
     pbind this_token (\<lambda>t.
       if kind t = tk_eof then pret ()
       else if may_stop_rightpar (kind t) \<and> nests_after (kind t) nests = 0 then p_skip
       else pbind p_skip (\<lambda>_. check_rightpar (nests_after (kind t) nests))) p0"

declare check_rightpar.simps [code]

definition resync_to_end_of_rightpar :: "u32 \<Rightarrow> unit parse" where
  "resync_to_end_of_rightpar nests =
     (if nests = 0 then
        pbind p_current_token (\<lambda>k. if k \<noteq> tk_leftpar then pret () else check_rightpar nests)
      else check_rightpar nests)"

section \<open>Where a list begins and ends\<close>

definition is_begin_element_of_design_unit_in_design_file :: "kind_t \<Rightarrow> bool" where
  "is_begin_element_of_design_unit_in_design_file k \<longleftrightarrow>
     k \<in> {kw_entity, kw_architecture, kw_package, kw_configuration, kw_library, kw_use}"

definition is_begin_element_of_interface_lists :: "kind_t \<Rightarrow> bool" where
  "is_begin_element_of_interface_lists k \<longleftrightarrow>
     k \<in> {kw_constant, kw_signal, kw_variable, kw_file, tk_identifier, kw_package, kw_type,
          kw_procedure, kw_pure, kw_impure, kw_function}"

definition is_begin_element_of_declarative_part_begin_end :: "kind_t \<Rightarrow> bool" where
  "is_begin_element_of_declarative_part_begin_end k \<longleftrightarrow>
     k \<in> {kw_type, kw_subtype, kw_signal, kw_constant, kw_variable, kw_shared, kw_file, kw_pure,
          kw_impure, kw_function, kw_procedure, kw_alias, kw_component, kw_for, kw_attribute, kw_use,
          kw_group, kw_package, tk_identifier}"

definition is_begin_element_of_declarative_part_begin :: "kind_t \<Rightarrow> bool" where
  "is_begin_element_of_declarative_part_begin k = is_begin_element_of_declarative_part_begin_end k"

definition is_begin_element_of_declarative_part_end :: "kind_t \<Rightarrow> bool" where
  "is_begin_element_of_declarative_part_end k = is_begin_element_of_declarative_part_begin_end k"

definition is_begin_element_of_declarative_part_for :: "kind_t \<Rightarrow> bool" where
  "is_begin_element_of_declarative_part_for k = is_begin_element_of_declarative_part_begin_end k"

definition is_begin_element_of_entity_statement_part :: "kind_t \<Rightarrow> bool" where
  "is_begin_element_of_entity_statement_part k \<longleftrightarrow>
     k \<in> {tk_identifier, kw_process, kw_assert, kw_postponed}"

definition is_begin_element_of_concurrent_statements :: "kind_t \<Rightarrow> bool" where
  "is_begin_element_of_concurrent_statements k \<longleftrightarrow>
     k \<in> {tk_identifier, kw_process, kw_component, kw_entity, kw_configuration, kw_with, kw_assert,
          kw_postponed, kw_block, kw_if, kw_for, tk_leftpar}"

definition is_begin_element_of_sequential_statements :: "kind_t \<Rightarrow> bool" where
  "is_begin_element_of_sequential_statements k \<longleftrightarrow>
     k \<in> {kw_wait, kw_assert, kw_report, tk_identifier, tk_stringliteral, tk_leftpar, kw_if, kw_for,
          kw_while, kw_loop, kw_case, kw_null, kw_next, kw_exit, kw_return}"

definition is_end_of_design_unit_in_design_file :: "kind_t \<Rightarrow> bool" where
  "is_end_of_design_unit_in_design_file k = False"

definition is_end_of_interface_lists :: "kind_t \<Rightarrow> bool" where
  "is_end_of_interface_lists k \<longleftrightarrow> k = tk_rightpar"

definition is_end_of_declarative_part_begin_end :: "kind_t \<Rightarrow> bool" where
  "is_end_of_declarative_part_begin_end k \<longleftrightarrow> k \<in> {kw_begin, kw_end}"

definition is_end_of_declarative_part_begin :: "kind_t \<Rightarrow> bool" where
  "is_end_of_declarative_part_begin k \<longleftrightarrow> k = kw_begin"

definition is_end_of_declarative_part_end :: "kind_t \<Rightarrow> bool" where
  "is_end_of_declarative_part_end k \<longleftrightarrow> k = kw_end"

definition is_end_of_declarative_part_for :: "kind_t \<Rightarrow> bool" where
  "is_end_of_declarative_part_for k \<longleftrightarrow> k = kw_for"

definition is_end_of_concurrent_statements :: "kind_t \<Rightarrow> bool" where
  "is_end_of_concurrent_statements k \<longleftrightarrow> k = kw_end"

definition is_end_of_entity_statement_part :: "kind_t \<Rightarrow> bool" where
  "is_end_of_entity_statement_part k = is_end_of_concurrent_statements k"

text \<open>The last one does not look at its argument but at the current token.\<close>

definition is_end_of_sequential_statements :: "kind_t \<Rightarrow> bool parse" where
  "is_end_of_sequential_statements _ =
     pbind p_current_token (\<lambda>k. pret (k \<in> {kw_end, kw_else, kw_elsif, kw_when}))"

definition is_begin_of_element_in_state :: "kind_t \<Rightarrow> parsing_state \<Rightarrow> bool" where
  "is_begin_of_element_in_state k st =
     (if k = tk_eof then False
      else case st of
        design_unit_in_design_file \<Rightarrow> is_begin_element_of_design_unit_in_design_file k
      | interface_lists \<Rightarrow> is_begin_element_of_interface_lists k
      | declarative_part_begin_end \<Rightarrow> is_begin_element_of_declarative_part_begin_end k
      | declarative_part_begin \<Rightarrow> is_begin_element_of_declarative_part_begin k
      | declarative_part_end \<Rightarrow> is_begin_element_of_declarative_part_end k
      | declarative_part_for \<Rightarrow> is_begin_element_of_declarative_part_for k
      | entity_statement_part \<Rightarrow> is_begin_element_of_entity_statement_part k
      | concurrent_statements \<Rightarrow> is_begin_element_of_concurrent_statements k
      | sequential_statements \<Rightarrow> is_begin_element_of_sequential_statements k)"

definition is_end_of_state :: "kind_t \<Rightarrow> parsing_state \<Rightarrow> bool parse" where
  "is_end_of_state k st =
     (if k = tk_eof then pret True
      else case st of
        design_unit_in_design_file \<Rightarrow> pret (is_end_of_design_unit_in_design_file k)
      | interface_lists \<Rightarrow> pret (is_end_of_interface_lists k)
      | declarative_part_begin_end \<Rightarrow> pret (is_end_of_declarative_part_begin_end k)
      | declarative_part_begin \<Rightarrow> pret (is_end_of_declarative_part_begin k)
      | declarative_part_end \<Rightarrow> pret (is_end_of_declarative_part_end k)
      | declarative_part_for \<Rightarrow> pret (is_end_of_declarative_part_for k)
      | entity_statement_part \<Rightarrow> pret (is_end_of_entity_statement_part k)
      | concurrent_statements \<Rightarrow> pret (is_end_of_concurrent_statements k)
      | sequential_statements \<Rightarrow> is_end_of_sequential_statements k)"

primrec valid_in_one_of :: "kind_t \<Rightarrow> parsing_state list \<Rightarrow> bool parse" where
  "valid_in_one_of k [] = pret False"
| "valid_in_one_of k (it # its) = (\<lambda>p.
     if it \<in> parsing_states p then
       if is_begin_of_element_in_state k it then pret True p
       else pbind (is_end_of_state k it) (\<lambda>e. if e then pret True else valid_in_one_of k its) p
     else valid_in_one_of k its p)"

definition is_valid_in_parsing_states :: "kind_t \<Rightarrow> bool parse" where
  "is_valid_in_parsing_states k = valid_in_one_of k array_of_states"

section \<open>Lists of elements\<close>

definition skip_with :: "string \<Rightarrow> unit parse" where
  \<comment> \<open>\<open>diag(msg) << lexer_.current_token().to_string(); skip();\<close>\<close>
  "skip_with msg =
     pbind this_token (\<lambda>t. pbind (say msg [Arg_string (val t)]) (\<lambda>_. p_skip))"

definition push_some :: "'a list \<Rightarrow> 'a option \<Rightarrow> 'a list" where
  "push_some xs r = (case r of None \<Rightarrow> xs | Some x \<Rightarrow> xs @ [x])"

partial_function (option) parse_many_loop ::
    "parsing_state \<Rightarrow> (parser \<Rightarrow> (parse_error, 'a option \<times> parser) outcome) \<Rightarrow> 'a list
     \<Rightarrow> parser \<Rightarrow> (parse_error, 'a list \<times> parser) outcome" where
  "parse_many_loop st fn result p0 =
     pbind p_current_token (\<lambda>k.
     pbind (is_end_of_state k st) (\<lambda>ends.
       if ends then pret result
       else
         pbind p_current_token (\<lambda>k.
           if is_begin_of_element_in_state k st then
             pbind fn (\<lambda>element. parse_many_loop st fn (push_some result element))
           else
             pbind p_current_token (\<lambda>k.
             pbind (is_valid_in_parsing_states k) (\<lambda>valid.
               if valid then pret result
               else pbind (skip_with (''Skipping '{}'' @ [CHR 0x27])) (\<lambda>_. parse_many_loop st fn result)))))) p0"

declare parse_many_loop.simps [code]

definition parse_many :: "parsing_state \<Rightarrow> 'a option parse \<Rightarrow> 'a list parse" where
  "parse_many st fn p0 =
     (let saved = parsing_states p0 in
      pbind (parse_many_loop st fn []) (\<lambda>result p. pret result (p\<lparr>parsing_states := saved\<rparr>))
        (p0\<lparr>parsing_states := insert st saved\<rparr>))"

text \<open>What \<open>parse_many_sep\<close> does behind an element; the result is whether the loop is left.\<close>

definition after_element :: "parsing_state \<Rightarrow> kind_t \<Rightarrow> bool parse" where
  "after_element st sep =
     pbind p_current_token (\<lambda>k.
     pbind (if k = sep then pbind (p_peek 1) (\<lambda>k1. is_end_of_state k1 st) else pret False) (\<lambda>last_sep.
       if last_sep then pbind (skip_with ''Ignoring {}'') (\<lambda>_. pret True)
       else
         pbind p_current_token (\<lambda>k.
         pbind (if is_begin_of_element_in_state k st then p_expecting sep else pret True) (\<lambda>_.
         pbind (p_optional sep) (\<lambda>_. pret False)))))"

partial_function (option) parse_many_sep_loop ::
    "parsing_state \<Rightarrow> kind_t \<Rightarrow> (parser \<Rightarrow> (parse_error, 'a option \<times> parser) outcome) \<Rightarrow> 'a list
     \<Rightarrow> parser \<Rightarrow> (parse_error, 'a list \<times> parser) outcome" where
  "parse_many_sep_loop st sep fn result p0 =
     pbind p_current_token (\<lambda>k.
     pbind (is_end_of_state k st) (\<lambda>ends.
       if ends then pret result
       else
         pbind p_current_token (\<lambda>k.
           if is_begin_of_element_in_state k st then
             pbind fn (\<lambda>element.
             pbind (after_element st sep) (\<lambda>leave.
               if leave then pret (push_some result element)
               else parse_many_sep_loop st sep fn (push_some result element)))
           else
             pbind p_current_token (\<lambda>k.
             pbind (is_valid_in_parsing_states k) (\<lambda>valid.
               if valid then pret result
               else pbind (skip_with (''Skipping '{}'' @ [CHR 0x27])) (\<lambda>_. parse_many_sep_loop st sep fn result)))))) p0"

declare parse_many_sep_loop.simps [code]

definition parse_many_sep :: "parsing_state \<Rightarrow> kind_t \<Rightarrow> 'a option parse \<Rightarrow> 'a list parse" where
  "parse_many_sep st sep fn p0 =
     (let saved = parsing_states p0 in
      pbind (parse_many_sep_loop st sep fn []) (\<lambda>result p. pret result (p\<lparr>parsing_states := saved\<rparr>))
        (p0\<lparr>parsing_states := insert st saved\<rparr>))"

section \<open>Labels and designators\<close>

definition Expected_alias_designator :: string where
  "Expected_alias_designator = ''Expected alias designator''"

definition End_name_not_allowed_vhdl87 :: string where
  "End_name_not_allowed_vhdl87 = ''End names are not allowed in vhdl87''"

definition End_name_misspelling :: string where
  "End_name_misspelling = ''Mispelling, expected {}''"

definition parse_identifier :: "string \<Rightarrow> (token \<times> bool) parse" where
  "parse_identifier msg =
     pbind this_token (\<lambda>t.
       if kind t \<noteq> tk_identifier then pbind (say msg []) (\<lambda>_. pret (t, False))
       else pbind p_skip (\<lambda>_. pret (t, True)))"

definition parse_optional_label :: "token option parse" where
  "parse_optional_label =
     pbind (p_peek 0) (\<lambda>k0.
       if k0 \<noteq> tk_identifier then pret None
       else pbind (p_peek 1) (\<lambda>k1.
         if k1 \<noteq> tk_colon then pret None
         else
           pbind this_token (\<lambda>result.
           pbind p_skip (\<lambda>_.
           pbind (p_consume tk_colon) (\<lambda>_.
             pret (Some result))))))"

definition parse_non_optional_label :: "string \<Rightarrow> (token \<times> bool) parse" where
  "parse_non_optional_label msg =
     pbind this_token (\<lambda>t.
       if kind t \<noteq> tk_identifier then
         pbind (say msg []) (\<lambda>_. pbind (p_optional tk_colon) (\<lambda>_. pret (t, False)))
       else pbind p_skip (\<lambda>_. pbind (p_consume tk_colon) (\<lambda>_. pret (t, True))))"

definition parse_designator :: "string \<Rightarrow> (token \<times> bool) parse" where
  "parse_designator msg =
     pbind this_token (\<lambda>t.
       if kind t \<noteq> tk_identifier \<and> kind t \<noteq> tk_stringliteral then
         pbind (say msg []) (\<lambda>_. pret (t, False))
       else pbind p_skip (\<lambda>_. pret (t, True)))"

definition parse_alias_designator :: "(token \<times> bool) parse" where
  "parse_alias_designator =
     pbind this_token (\<lambda>t.
       if kind t \<notin> {tk_identifier, tk_character, tk_stringliteral} then
         pbind (say Expected_alias_designator []) (\<lambda>_. pret (t, False))
       else pbind p_skip (\<lambda>_. pret (t, True)))"

definition parse_optional_closing_label :: "token \<Rightarrow> unit parse" where
  "parse_optional_closing_label name =
     pbind p_current_token (\<lambda>k.
       if k = tk_identifier then
         pbind this_version (\<lambda>v.
         pbind (if version_number v < version_number vhdl87
                then say End_name_not_allowed_vhdl87 [] else pret ()) (\<lambda>_.
         pbind this_token (\<lambda>t.
         pbind (if val t \<noteq> val name \<and> kind name \<noteq> tk_identifier
                then say End_name_misspelling [Arg_string (val name)] else pret ()) (\<lambda>_.
           p_skip))))
       else pret ())"

text \<open>The argument is the designator of the specification, \<open>None\<close> for the null pointer.\<close>

definition misspelt_designator :: "token option \<Rightarrow> unit parse" where
  "misspelt_designator s =
     (case s of
        None \<Rightarrow> pret ()
      | Some designator \<Rightarrow>
          pbind this_token (\<lambda>t.
            if val t \<noteq> val designator then
              pbind p_current_token (\<lambda>k.
                if kind designator \<noteq> k then say End_name_misspelling [Arg_string (val designator)]
                else pret ())
            else pret ()))"

definition parse_optional_closing_designator :: "token option \<Rightarrow> unit parse" where
  "parse_optional_closing_designator s =
     pbind p_current_token (\<lambda>k.
     pbind (if k = tk_identifier then pret True
            else pbind p_current_token (\<lambda>k. pret (k = tk_stringliteral))) (\<lambda>closes.
       if closes then pbind (misspelt_designator s) (\<lambda>_. p_skip) else pret ()))"

section \<open>The context clause\<close>

definition Expected_library_name :: string where
  "Expected_library_name = ''Expected library name''"

definition Expected_use_name :: string where
  "Expected_use_name = ''Expected use name''"

definition Unexpected_comma :: string where
  "Unexpected_comma = ''Unexpected comma''"

datatype 'n context_item = Library_clause "token list" | Use_clause "'n list"

text \<open>What the loops of both clauses do behind a name; the result is whether the loop goes on.\<close>

definition after_name :: "bool parse" where
  "after_name =
     pbind p_current_token (\<lambda>k.
       if k = tk_semicolon then pret False
       else pbind p_current_token (\<lambda>k.
         if k \<noteq> tk_comma then pret False
         else pbind (p_consume tk_comma) (\<lambda>_.
           pbind p_current_token (\<lambda>k.
             if k = tk_semicolon then
               pbind previous_location (\<lambda>l. pbind (say_at Unexpected_comma [] l) (\<lambda>_. pret False))
             else pret True))))"

text \<open>And what they do behind the loop.\<close>

definition end_of_clause :: "unit parse" where
  "end_of_clause =
     pbind p_current_token (\<lambda>k.
     pbind (if k \<noteq> tk_semicolon then resync_to_next_semicolon False else pret ()) (\<lambda>_.
       p_consume tk_semicolon))"

partial_function (option) library_names ::
    "token list \<Rightarrow> parser \<Rightarrow> (parse_error, token list \<times> parser) outcome" where
  "library_names names p0 =
     pbind p_current_token (\<lambda>k.
       if k = tk_eof then pret names
       else
         pbind (parse_identifier Expected_library_name) (\<lambda>tv.
         pbind after_name (\<lambda>goes_on.
           if goes_on then library_names (names @ [fst tv]) else pret (names @ [fst tv])))) p0"

declare library_names.simps [code]

definition parse_library_clause :: "'n context_item option parse" where
  "parse_library_clause =
     pbind (p_consume kw_library) (\<lambda>_.
     pbind (library_names []) (\<lambda>names.
     pbind end_of_clause (\<lambda>_.
       pret (if names = [] then None else Some (Library_clause names)))))"

partial_function (option) use_names ::
    "(parser \<Rightarrow> (parse_error, 'n option \<times> parser) outcome) \<Rightarrow> 'n list
     \<Rightarrow> parser \<Rightarrow> (parse_error, 'n list \<times> parser) outcome" where
  "use_names nm names p0 =
     pbind p_current_token (\<lambda>k.
       if k = tk_eof then pret names
       else pbind p_current_token (\<lambda>k.
         if k \<noteq> tk_identifier then pbind (say Expected_use_name []) (\<lambda>_. pret names)
         else
           pbind nm (\<lambda>name.
           pbind after_name (\<lambda>goes_on.
             if goes_on then use_names nm (push_some names name)
             else pret (push_some names name))))) p0"

declare use_names.simps [code]

definition parse_use_clause :: "'n option parse \<Rightarrow> 'n context_item option parse" where
  "parse_use_clause nm =
     pbind (p_consume kw_use) (\<lambda>_.
     pbind (use_names nm []) (\<lambda>names.
     pbind end_of_clause (\<lambda>_.
       pret (if names = [] then None else Some (Use_clause names)))))"

partial_function (option) context_items ::
    "(parser \<Rightarrow> (parse_error, 'n option \<times> parser) outcome) \<Rightarrow> 'n context_item list
     \<Rightarrow> parser \<Rightarrow> (parse_error, 'n context_item list \<times> parser) outcome" where
  "context_items nm result p0 =
     pbind p_current_token (\<lambda>k.
       if k = tk_eof then pret result
       else pbind p_current_token (\<lambda>k.
         if k = kw_library then
           pbind parse_library_clause (\<lambda>c. context_items nm (push_some result c))
         else if k = kw_use then
           pbind (parse_use_clause nm) (\<lambda>c. context_items nm (push_some result c))
         else if k \<in> {kw_entity, kw_architecture, kw_package, kw_configuration} then pret result
         else pbind p_skip (\<lambda>_. context_items nm result))) p0"

declare context_items.simps [code]

definition parse_context_clause :: "'n option parse \<Rightarrow> 'n context_item list parse" where
  "parse_context_clause nm = context_items nm []"

section \<open>Design units and the file\<close>

definition Empty_design_file :: string where
  "Empty_design_file = ''Design file is empty''"

definition Parser_encountered_a_problem :: string where
  "Parser_encountered_a_problem = ''Parser encountered a problem''"

text \<open>The functions of the grammar that are called from here. \<open>parse_name\<close> is called with
  \<open>allow_qifts\<close> off.\<close>

record ('n, 'u) grammar =
  g_name :: "'n option parse"
  g_entity :: "'u option parse"
  g_architecture :: "'u option parse"
  g_package_body :: "'u option parse"
  g_package :: "'u option parse"
  g_configuration :: "'u option parse"

definition parse_unit :: "('n, 'u) grammar \<Rightarrow> 'u option parse" where
  \<comment> \<open>the switch of \<open>parse_design_unit\<close>\<close>
  "parse_unit g =
     pbind p_current_token (\<lambda>k.
       if k = kw_entity then g_entity g
       else if k = kw_architecture then g_architecture g
       else if k = kw_package then
         pbind (p_peek 1) (\<lambda>k1.
           if k1 = kw_body then g_package_body g else g_package g)
       else if k = kw_configuration then g_configuration g
       else never_here)"

definition parse_design_unit :: "('n, 'u) grammar \<Rightarrow> ('n context_item list \<times> 'u) option parse" where
  "parse_design_unit g =
     pbind (parse_context_clause (g_name g)) (\<lambda>contexts.
     pbind (parse_unit g) (\<lambda>u.
       pret (case u of None \<Rightarrow> None | Some u \<Rightarrow> Some (contexts, u))))"

text \<open>The result is the file's \<open>units\<close>; the code's own result is always \<open>true\<close>.\<close>

definition parse_design_file :: "('n, 'u) grammar \<Rightarrow> ('n context_item list \<times> 'u) list parse" where
  "parse_design_file g =
     pbind p_current_token (\<lambda>k.
       if k = tk_eof then pbind (say Empty_design_file []) (\<lambda>_. pret [])
       else parse_many design_unit_in_design_file (parse_design_unit g))"

record 'u parsed =
  parsed_ok :: bool
  parsed_units :: "'u list"  \<comment> \<open>\<open>file_->units\<close>\<close>
  parsed_diagnostics :: "diagnostic list"

definition diagnostics_of :: "parser \<Rightarrow> diagnostic list" where
  "diagnostics_of p = (case diagnostics (scanner (pq p)) of None \<Rightarrow> [] | Some ds \<Rightarrow> ds)"

definition parser_run ::
    "('n, 'u) grammar \<Rightarrow> parser \<Rightarrow> (parse_error, ('n context_item list \<times> 'u) parsed) outcome" where
  \<comment> \<open>\<open>operator()\<close>\<close>
  "parser_run g p =
     (case parse_design_file g p of
        None \<Rightarrow> None
      | Some (Inr (us, p')) \<Rightarrow>
          Some (Inr \<lparr>parsed_ok = True, parsed_units = us, parsed_diagnostics = diagnostics_of p'\<rparr>)
      | Some (Inl (Thrown _ p')) \<Rightarrow>
          Some (Inr \<lparr>parsed_ok = False, parsed_units = [],
                     parsed_diagnostics = diagnostics_of (p_diag Parser_encountered_a_problem [] p')\<rparr>)
      | Some (Inl e) \<Rightarrow> Some (Inl e))"

text \<open>The constructor does not hand its version on to the lexer, whose default is \<open>vhdl93\<close>.\<close>

definition parser_new ::
    "string \<Rightarrow> char \<Rightarrow> stringtable \<Rightarrow> string \<Rightarrow> version \<Rightarrow> kind_t \<Rightarrow> (parse_error, parser) outcome" where
  "parser_new s e st fn v tok0 =
     (case lexer_new s e st (Some []) fn vhdl93 tok0 of
        Inl err \<Rightarrow> Some (Inl (Failed_lexer err))
      | Inr lx \<Rightarrow>
          obind (p_scan \<lparr>pq = queue_new lx, pversion = v, parsing_states = {}, watchdog = 0\<rparr>)
            (\<lambda>(_, p). Some (Inr p)))"

end
