(* ===== verification/Parser_Facts.thy ===== *)
theory Parser_Facts
  imports Parser_Core
begin

text \<open>
  What every function of the parser keeps, and how long it runs. \<open>runs K n m k\<close> says of a function
  \<open>m\<close> of the parser: started with at most \<open>n\<close> tokens to go, the current one among them and of kind
  \<open>K\<close> when that is known, it returns or throws, and when it returns there are at most \<open>k\<close> tokens to
  go, the parsing states are what they were, and no diagnostic made before is lost.
\<close>

section \<open>The frame\<close>

definition p_left :: "parser \<Rightarrow> nat" where
  "p_left p = fp_left (pq p)"

abbreviation p_kind :: "parser \<Rightarrow> kind_t" where
  "p_kind p \<equiv> current_kind (pq p)"

definition p_good :: "parser \<Rightarrow> bool" where
  "p_good p \<longleftrightarrow> good_queue (pq p)"

text \<open>
  \<open>charge q ts\<close> is how many tokens a backtrack to the checkpoint \<open>ts\<close> would leave to go behind the
  token that it makes the current one.
\<close>

definition charge :: "queue \<Rightarrow> token list \<Rightarrow> nat" where
  "charge q ts =
     (if length ts \<le> 2 then queue_left q
      else length (filter (\<lambda>t. \<not> is_eof t) (drop 3 ts)) + fp_left q)"

text \<open>
  A parser does nothing to its lexer but what \<open>queue_step\<close> says; \<open>reached\<close> is any number of such steps.
\<close>

inductive queue_step :: "queue \<Rightarrow> queue \<Rightarrow> bool" where
  step_scan: "scan q = Some (Inr (t, q')) \<Longrightarrow> queue_step q q'"
| step_peek: "peek n q = Some (Inr (t, q')) \<Longrightarrow> queue_step q q'"
| step_say: "queue_step q (q\<lparr>scanner := (scanner q)\<lparr>diagnostics := ds\<rparr>\<rparr>)"
| step_add: "queue_step q (add_checkpoint q)"
| step_back: "queue_step q (backtrack q)"
| step_drop: "queue_step q (drop_checkpoint q)"

abbreviation reached :: "queue \<Rightarrow> queue \<Rightarrow> bool" where
  "reached \<equiv> queue_step\<^sup>*\<^sup>*"

definition onward :: "queue \<Rightarrow> queue \<Rightarrow> bool" where
  "onward q q' \<longleftrightarrow> reached q q' \<and> queue_left q' \<le> queue_left q \<and> fp_left q' \<le> fp_left q
     \<and> (\<exists>ds. dias (scanner q') = dias (scanner q) @ ds)
     \<and> (case checkpoints q of
          [] \<Rightarrow> checkpoints q' = []
        | c # below \<Rightarrow> \<exists>c'. checkpoints q' = c' # below \<and> take 2 c' = take 2 c \<and> charge q' c' \<le> charge q c)"

lemma onward_refl [simp]: "onward q q"
  by (auto simp: onward_def split: list.split)

lemma onward_trans:
  assumes "onward q r" and "onward r s"
  shows "onward q s"
proof -
  have "case checkpoints q of [] \<Rightarrow> checkpoints s = []
    | c # below \<Rightarrow> \<exists>c'. checkpoints s = c' # below \<and> take 2 c' = take 2 c \<and> charge s c' \<le> charge q c"
    using assms by (cases "checkpoints q") (fastforce simp: onward_def)+
  moreover have "queue_left s \<le> queue_left q" "fp_left s \<le> fp_left q"
    using assms unfolding onward_def by linarith+
  moreover have "\<exists>ds. dias (scanner s) = dias (scanner q) @ ds"
    using assms unfolding onward_def by (metis append_assoc)
  moreover have "reached q s" using assms by (auto simp: onward_def)
  ultimately show ?thesis by (simp add: onward_def)
qed

definition kept :: "parser \<Rightarrow> parser \<Rightarrow> bool" where
  "kept p p' \<longleftrightarrow> pversion p' = pversion p \<and> parsing_states p' = parsing_states p
     \<and> onward (pq p) (pq p')"

lemma kept_refl [simp]: "kept p p"
  by (simp add: kept_def)

lemma kept_trans: "kept p q \<Longrightarrow> kept q r \<Longrightarrow> kept p r"
  using onward_trans by (auto simp: kept_def)

lemma fill_dias:
  "good_queue q \<Longrightarrow> fill k q = Some (Inr q') \<Longrightarrow> \<exists>ds. dias (scanner q') = dias (scanner q) @ ds"
proof (induction k arbitrary: q)
  case (Suc k)
  obtain t lx where l: "lex (scanner q) = Some (Inr (t, lx))"
    and f: "fill k (q\<lparr>scanner := lx, lookahead_tokens := lookahead_tokens q @ [t]\<rparr>) = Some (Inr q')"
    using Suc.prems(2) by (auto simp: obind_Inr_iff)
  have g: "good_text (scanner q)" using Suc.prems(1) by (simp add: good_queue_def)
  have "lexed (scanner q) lx" using lex_ok [of "scanner q"] l g by (auto simp: good_text_def)
  moreover have "good_queue (q\<lparr>scanner := lx, lookahead_tokens := lookahead_tokens q @ [t]\<rparr>)"
    using Suc.prems(1) scanner.next_inv [OF g l] by (simp add: good_queue_def queue_ok_def)
  ultimately show ?case using Suc.IH [OF _ f] by (auto simp: lexed_def)
qed simp

lemma peek_dias:
  "good_queue q \<Longrightarrow> peek n q = Some (Inr (t, q')) \<Longrightarrow> \<exists>ds. dias (scanner q') = dias (scanner q) @ ds"
  using fill_dias [of q "n - length (lookahead_tokens q)"]
  by (auto simp: peek_def obind_Inr_iff split: if_splits)

lemma scan_dias:
  "good_queue q \<Longrightarrow> scan q = Some (Inr (t, q')) \<Longrightarrow> \<exists>ds. dias (scanner q') = dias (scanner q) @ ds"
  using peek_dias [of q 1] by (auto simp: scan_rotate)

lemma onward_peek:
  assumes good: "good_queue q" and p: "peek n q = Some (Inr (t, q'))"
  shows "onward q q'"
proof -
  have f: "checkpoints q' = checkpoints q" "current_token q' = current_token q"
    using peek_frame [OF p] by (simp_all add: current_token_def)
  have l: "queue_left q' \<le> queue_left q" using peek_good(2) [OF good p] by simp
  then have fp: "fp_left q' \<le> fp_left q" by (simp add: fp_left_def f)
  have "charge q' c \<le> charge q c" for c using l fp by (simp add: charge_def)
  then show ?thesis
    using l fp f peek_dias [OF good p] step_peek [OF p] by (auto simp: onward_def split: list.split)
qed

lemma onward_rotate:
  assumes ok: "queue_ok q" and la: "lookahead_tokens q \<noteq> []"
  shows "queue_left (rotate q) \<le> queue_left q \<and> fp_left (rotate q) \<le> queue_left q
    \<and> (case checkpoints q of [] \<Rightarrow> checkpoints (rotate q) = []
       | c # below \<Rightarrow> \<exists>c'. checkpoints (rotate q) = c' # below \<and> take 2 c' = take 2 c
           \<and> charge (rotate q) c' \<le> charge q c)"
proof -
  obtain a ts where la: "lookahead_tokens q = a # ts" using la by (cases "lookahead_tokens q") auto
  have cur: "current_token (rotate q) = a" using rotate_slots(1) [OF ok] la by simp
  have l: "queue_left (rotate q) + (if is_eof a then 0 else 1) = queue_left q"
    by (simp add: queue_left_def la)
  then have fp: "fp_left (rotate q) \<le> queue_left q" by (auto simp: fp_left_def cur)
  have "charge (rotate q) (c @ [current_token q]) \<le> charge q c" if "2 \<le> length c" for c
    using that l fp by (auto simp: charge_def fp_left_def cur split: if_splits)
  moreover have "2 \<le> length c" if "checkpoints q = c # cps" for c cps
    using ok that by (simp add: queue_ok_def)
  ultimately show ?thesis
    using l fp by (auto simp: push_on_top_def split: list.split if_splits)
qed

lemma onward_scan:
  assumes good: "good_queue q" and sc: "scan q = Some (Inr (t, q'))"
  shows "onward q q' \<and> fp_left q' \<le> queue_left q"
proof -
  obtain t1 q1 where p: "peek 1 q = Some (Inr (t1, q1))" and q': "q' = rotate q1"
    using sc unfolding scan_rotate by blast
  have o: "onward q q1" by (rule onward_peek [OF good p])
  have ok: "queue_ok q1" using peek_good(2) [OF good p] by (simp add: good_queue_def)
  have la: "lookahead_tokens q1 \<noteq> []" using peek_frame [OF p] by auto
  note r = onward_rotate [OF ok la]
  have le: "queue_left q1 \<le> fp_left q1" by (rule queue_left_fp)
  have "peek 1 q1 = Some (Inr (t1, q1))" using la peek_frame [OF p] by (simp add: peek_def)
  then have "scan q1 = Some (Inr (current_token q', q'))" by (simp add: scan_rotate q')
  then have "reached q1 q'" using step_scan by blast
  then have "onward q1 q'" unfolding onward_def q' using r le by auto
  moreover have "queue_left q1 \<le> queue_left q" using o by (simp add: onward_def)
  ultimately show ?thesis using onward_trans [OF o] r q' by auto
qed

section \<open>Running\<close>

definition known :: "kind_t option \<Rightarrow> parser \<Rightarrow> bool" where
  "known K p \<longleftrightarrow> (case K of None \<Rightarrow> True | Some c \<Rightarrow> p_kind p = c)"

lemma known_simps [simp]: "known None p" "known (Some c) p \<longleftrightarrow> p_kind p = c"
  by (simp_all add: known_def)

definition ready_for :: "kind_t option \<Rightarrow> nat \<Rightarrow> parser \<Rightarrow> bool" where
  "ready_for K n p \<longleftrightarrow> p_good p \<and> p_left p \<le> n \<and> known K p"

definition runs :: "kind_t option \<Rightarrow> nat \<Rightarrow> 'a parse \<Rightarrow> nat \<Rightarrow> bool" where
  "runs K n m k \<longleftrightarrow> (\<forall>p. ready_for K n p \<longrightarrow> returns (m p)
     \<and> (\<forall>x p'. m p = Some (Inr (x, p')) \<longrightarrow> ready_for None k p' \<and> kept p p'))"

named_theorems runs_intros "one rule for each construct of a parsing function"

lemma runsI:
  "\<lbrakk>\<And>p. ready_for K n p \<Longrightarrow> returns (m p);
    \<And>p x p'. \<lbrakk>ready_for K n p; m p = Some (Inr (x, p'))\<rbrakk> \<Longrightarrow> ready_for None k p' \<and> kept p p'\<rbrakk>
   \<Longrightarrow> runs K n m k"
  by (simp add: runs_def)

lemma runsD:
  assumes "runs K n m k" and "ready_for K n p"
  shows "returns (m p)" and "m p = Some (Inr (x, p')) \<Longrightarrow> ready_for None k p' \<and> kept p p'"
  using assms by (auto simp: runs_def)

lemma ready_for_mono: "ready_for K n p \<Longrightarrow> n \<le> n' \<Longrightarrow> ready_for K n' p"
  by (simp add: ready_for_def)

lemma runs_mono: "runs K n m k \<Longrightarrow> n' \<le> n \<Longrightarrow> k \<le> k' \<Longrightarrow> runs K n' m k'"
  by (auto simp: runs_def intro: ready_for_mono)

lemma runs_known: "runs None n m k \<Longrightarrow> runs K n m k"
  by (auto simp: runs_def ready_for_def)

lemma runs_unknown: "(\<And>c. runs (Some c) n m k) \<Longrightarrow> runs None n m k"
  by (auto simp: runs_def ready_for_def)

lemma runs_cong: "(\<And>p. m p = m' p) \<Longrightarrow> runs K n m' k \<Longrightarrow> runs K n m k"
  by (simp add: runs_def)

text \<open>The general rule for a step that keeps the current token, or uses it up.\<close>

lemma runs_step:
  assumes "\<And>p. ready_for K n p \<Longrightarrow> returns (m p)"
    and "\<And>p x p'. \<lbrakk>ready_for K n p; m p = Some (Inr (x, p'))\<rbrakk>
      \<Longrightarrow> kept p p' \<and> (\<exists>K' n'. ready_for K' n' p' \<and> runs K' n' (f x) k)"
  shows "runs K n (pbind m f) k"
proof (rule runsI)
  fix p assume p: "ready_for K n p"
  show "returns (pbind m f p)"
    unfolding pbind_def
    by (rule returns_obind [OF assms(1) [OF p]]) (use assms(2) [OF p] in \<open>auto dest: runsD(1)\<close>)
  fix y p2 assume "pbind m f p = Some (Inr (y, p2))"
  then obtain x p1 where x: "m p = Some (Inr (x, p1))" and y: "f x p1 = Some (Inr (y, p2))"
    by (auto simp: pbind_def obind_Inr_iff)
  obtain K' n' where r: "kept p p1" "ready_for K' n' p1" "runs K' n' (f x) k"
    using assms(2) [OF p x] by blast
  show "ready_for None k p2 \<and> kept p p2"
    using runsD(2) [OF r(3,2) y] kept_trans [OF r(1)] by blast
qed

lemma runs_pbind: "runs K n m n' \<Longrightarrow> (\<And>x. runs None n' (f x) k) \<Longrightarrow> runs K n (pbind m f) k"
  by (rule runs_step) (auto dest: runsD)

lemma runs_pret [runs_intros]: "n \<le> k \<Longrightarrow> runs K n (pret x) k"
  by (auto simp: runs_def pret_def ready_for_def)

lemma runs_if [runs_intros]:
  "(b \<Longrightarrow> runs K n m1 k) \<Longrightarrow> (\<not> b \<Longrightarrow> runs K n m2 k) \<Longrightarrow> runs K n (if b then m1 else m2) k"
  by simp

lemma runs_bind_if [runs_intros]:
  "\<lbrakk>b \<Longrightarrow> runs K n (pbind m1 f) k; \<not> b \<Longrightarrow> runs K n (pbind m2 f) k\<rbrakk>
   \<Longrightarrow> runs K n (pbind (if b then m1 else m2) f) k"
  by simp

lemma pbind_assoc: "pbind (pbind m g) f = pbind m (\<lambda>x. pbind (g x) f)"
  by (rule ext) (auto simp: pbind_def obind_def split: option.split sum.split)

lemma pbind_pret [simp]: "pbind (pret x) f = f x"
  by (rule ext) (simp add: pbind_def pret_def)

lemma runs_bind_bind [runs_intros]:
  "runs K n (pbind m (\<lambda>x. pbind (g x) f)) k \<Longrightarrow> runs K n (pbind (pbind m g) f) k"
  by (simp add: pbind_assoc)

lemma runs_bind_pret [runs_intros]: "runs K n (f x) k \<Longrightarrow> runs K n (pbind (pret x) f) k"
  by simp

lemma runs_let [runs_intros]: "runs K n (f x) k \<Longrightarrow> runs K n (let y = x in f y) k"
  by simp

text \<open>\<open>used K n\<close>: how many tokens are left when the current one, if it is known, is used up.\<close>

definition used :: "kind_t option \<Rightarrow> nat \<Rightarrow> nat" where
  "used K n = (case K of None \<Rightarrow> n | Some c \<Rightarrow> if c = tk_eof then n else n - 1)"

lemma used_simps [simp]:
  "used None n = n" "c \<noteq> tk_eof \<Longrightarrow> used (Some c) n = n - 1" "used (Some tk_eof) n = n"
  by (simp_all add: used_def)

lemma used_le [simp]: "used K n \<le> n"
  by (simp add: used_def split: option.split)

lemma used_mono [simp]: "m \<le> n \<Longrightarrow> used K m \<le> n"
  by (rule order_trans [OF used_le])

lemma scan_used:
  assumes "ready_for K n p" and "scan (pq p) = Some (Inr (t, q'))"
  shows "good_queue q' \<and> fp_left q' \<le> used K n \<and> onward (pq p) q'"
proof -
  have g: "good_queue (pq p)" and l: "fp_left (pq p) \<le> n" and k: "known K p"
    using assms(1) by (auto simp: ready_for_def p_good_def p_left_def)
  have ok: "queue_ok (pq p)" using g by (simp add: good_queue_def)
  note s = scan_good(2) [OF g assms(2)]
  have "current_kind q' = kind t" using scan_slots [OF ok assms(2)] by simp
  then have "fp_left q' \<le> queue_left (pq p)" using s by (auto simp: fp_left_def)
  then have "fp_left q' \<le> used K n"
    using l k by (auto simp: used_def fp_left_def known_def split: option.splits)
  then show ?thesis using s onward_scan [OF g assms(2)] by blast
qed

lemma on_queue_Inr: "on_queue m p = Some (Inr (x, p')) \<longleftrightarrow> (\<exists>q. m (pq p) = Some (Inr (x, q)) \<and> p' = p\<lparr>pq := q\<rparr>)"
  by (auto simp: on_queue_def split: option.splits sum.splits)

lemma returns_on_queue: "returns (m (pq p)) \<Longrightarrow> returns (on_queue m p)"
  by (auto simp: on_queue_def returns_def split: sum.splits)

lemma pret_Inr [simp]: "pret x p = Some (Inr (y, p')) \<longleftrightarrow> y = x \<and> p' = p"
  by (auto simp: pret_def)

lemma obind_pret [simp]: "obind (pret x p) f = f (x, p)"
  by (simp add: pret_def)

lemma returns_pret [simp]: "returns (pret x p)"
  by (simp add: pret_def)

lemma p_scan_Inr: "p_scan p = Some (Inr (x, p')) \<longleftrightarrow> (\<exists>t q. scan (pq p) = Some (Inr (t, q)) \<and> p' = p\<lparr>pq := q\<rparr>)"
  by (auto simp: p_scan_def pbind_def obind_Inr_iff on_queue_Inr)

lemma p_scan_ready:
  assumes "ready_for K n p"
  shows "returns (p_scan (p\<lparr>watchdog := w\<rparr>))"
    and "p_scan (p\<lparr>watchdog := w\<rparr>) = Some (Inr (x, p')) \<Longrightarrow> ready_for None (used K n) p' \<and> kept p p'"
proof -
  have g: "good_queue (pq p)" using assms by (simp add: ready_for_def p_good_def)
  show "returns (p_scan (p\<lparr>watchdog := w\<rparr>))"
    unfolding p_scan_def pbind_def
    by (rule returns_obind) (auto intro!: returns_on_queue scan_good(1) simp: g)
  assume "p_scan (p\<lparr>watchdog := w\<rparr>) = Some (Inr (x, p'))"
  then obtain t q where "scan (pq p) = Some (Inr (t, q))" "p' = p\<lparr>watchdog := w, pq := q\<rparr>"
    by (auto simp: p_scan_Inr)
  then show "ready_for None (used K n) p' \<and> kept p p'"
    using scan_used [OF assms] by (auto simp: ready_for_def p_good_def p_left_def kept_def)
qed

lemma runs_p_skip: "runs K n p_skip (used K n)"
  unfolding p_skip_def using p_scan_ready by (auto intro!: runsI)

lemma runs_p_scan: "runs K n p_scan (used K n)"
proof -
  have "p_scan p = p_scan (p\<lparr>watchdog := watchdog p\<rparr>)" for p by simp
  then show ?thesis using p_scan_ready by (intro runsI) metis+
qed

text \<open>The current token is known behind a look at it.\<close>

lemma ready_for_watchdog [simp]: "ready_for K n (p\<lparr>watchdog := w\<rparr>) = ready_for K n p"
  by (simp add: ready_for_def p_good_def p_left_def known_def split: option.split)

lemma kept_watchdog [simp]: "kept p (p\<lparr>watchdog := w\<rparr>)"
  by (simp add: kept_def)

lemma runs_current_token [runs_intros]:
  "(\<And>c. (\<forall>d. K = Some d \<longrightarrow> c = d) \<Longrightarrow> (c \<noteq> tk_eof \<Longrightarrow> 0 < n) \<Longrightarrow> runs (Some c) n (f c) k)
   \<Longrightarrow> runs K n (pbind p_current_token f) k"
proof (rule runs_step, goal_cases)
  case (2 p x p')
  then have "x = p_kind p" "p' = p\<lparr>watchdog := watchdog p + 1\<rparr>"
    by (auto simp: p_current_token_def Let_def split: if_splits)
  moreover have "\<forall>d. K = Some d \<longrightarrow> p_kind p = d" using 2(2) by (auto simp: ready_for_def)
  moreover have "p_kind p \<noteq> tk_eof \<Longrightarrow> 0 < n" using 2(2) by (auto simp: ready_for_def p_left_def fp_left_def)
  moreover have "ready_for (Some (p_kind p)) n p" using 2(2) by (simp add: ready_for_def)
  ultimately show ?case using 2(1) [of "p_kind p"]
    by (intro conjI exI [of _ "Some (p_kind p)"] exI [of _ n]) simp_all
qed (auto simp: p_current_token_def Let_def)

lemma runs_skip [runs_intros]: "runs None (used K n) (f ()) k \<Longrightarrow> runs K n (pbind p_skip f) k"
  by (rule runs_pbind [OF runs_p_skip]) simp

text \<open>Peeking and looking for a token keep the current one.\<close>

lemma peek_ready:
  assumes "ready_for K n p" and "peek i (pq p) = Some (Inr (t, q'))"
  shows "ready_for K n (p\<lparr>pq := q'\<rparr>) \<and> kept p (p\<lparr>pq := q'\<rparr>)"
proof -
  have g: "good_queue (pq p)" using assms(1) by (simp add: ready_for_def p_good_def)
  have "current_token q' = current_token (pq p)"
    using peek_frame [OF assms(2)] by (simp add: current_token_def)
  then show ?thesis
    using peek_good(2) [OF g assms(2)] onward_peek [OF g assms(2)] assms(1)
    by (auto simp: ready_for_def p_good_def p_left_def fp_left_def kept_def known_def split: option.splits)
qed

lemma runs_peek [runs_intros]: "(\<And>c. runs K n (f c) k) \<Longrightarrow> runs K n (pbind (p_peek i) f) k"
proof (rule runs_step, goal_cases)
  case (1 p)
  then have "good_queue (pq p)" by (simp add: ready_for_def p_good_def)
  then show ?case unfolding p_peek_def pbind_def
    by (intro returns_obind returns_on_queue peek_good(1)) auto
next
  case (2 p x p')
  then obtain t q where "peek i (pq p) = Some (Inr (t, q))" "p' = p\<lparr>pq := q\<rparr>"
    by (auto simp: p_peek_def pbind_def obind_Inr_iff on_queue_Inr)
  then show ?case using peek_ready [OF 2(2)] 2(1) by metis
qed

lemma ready_for_diag [simp]: "ready_for K n (p_diag_at msg args l p) = ready_for K n p"
  by (simp add: ready_for_def p_good_def p_left_def p_diag_at_def fp_left_def queue_left_def
      good_queue_def queue_ok_def good_text_def current_token_def left_def known_def end_of_stream_def
      split: option.split)

lemma kept_diag [simp]: "kept p (p_diag_at msg args l p)"
proof -
  have "queue_left (pq (p_diag_at msg args l p)) = queue_left (pq p)"
    "fp_left (pq (p_diag_at msg args l p)) = fp_left (pq p)"
    "checkpoints (pq (p_diag_at msg args l p)) = checkpoints (pq p)"
    by (simp_all add: p_diag_at_def fp_left_def queue_left_def current_token_def left_def end_of_stream_def)
  moreover from this have "charge (pq (p_diag_at msg args l p)) c = charge (pq p) c" for c
    by (simp add: charge_def)
  moreover have "\<exists>ds. dias (scanner (pq (p_diag_at msg args l p))) = dias (scanner (pq p)) @ ds"
    by (simp add: p_diag_at_def dias_def split: option.split)
  moreover have "reached (pq p) (pq (p_diag_at msg args l p))"
    unfolding p_diag_at_def by (simp add: r_into_rtranclp step_say)
  ultimately show ?thesis
    by (auto simp: kept_def onward_def split: list.split) (simp_all add: p_diag_at_def)
qed

lemma diag_simps [simp]:
  "ready_for K n (p_diag msg args p) = ready_for K n p" "kept p (p_diag msg args p)"
  by (simp_all add: p_diag_def)

lemma pbind_reads [simp]:
  "pbind this_token f p = f (current_token (pq p)) p"
  "pbind this_version g p = g (pversion p) p"
  by (simp_all add: pbind_def this_token_def this_version_def)

lemma runs_this_token [runs_intros]:
  assumes "\<And>t. (\<forall>d. K = Some d \<longrightarrow> kind t = d) \<Longrightarrow> (kind t \<noteq> tk_eof \<Longrightarrow> 0 < n) \<Longrightarrow> runs (Some (kind t)) n (f t) k"
  shows "runs K n (pbind this_token f) k"
proof (rule runs_step, goal_cases)
  case (2 p x p')
  then have x: "x = current_token (pq p)" "p' = p" by (simp_all add: this_token_def)
  have "ready_for (Some (kind x)) n p" "\<forall>d. K = Some d \<longrightarrow> kind x = d" "kind x \<noteq> tk_eof \<Longrightarrow> 0 < n"
    using 2(1) by (auto simp: x ready_for_def p_left_def fp_left_def)
  then show ?case using assms [of x] x
    by (intro conjI exI [of _ "Some (kind x)"] exI [of _ n]) simp_all
qed (simp add: this_token_def)

lemma runs_glance [runs_intros]:
  "(\<And>x. runs K n (f x) k) \<Longrightarrow> runs K n (pbind this_location f) k"
  "(\<And>x. runs K n (f x) k) \<Longrightarrow> runs K n (pbind previous_location f) k"
  "(\<And>v. runs K n (g v) k) \<Longrightarrow> runs K n (pbind this_version g) k"
  by (auto intro!: runs_step exI simp: this_location_def previous_location_def this_version_def)

lemma runs_say [runs_intros]:
  "runs K n (f ()) k \<Longrightarrow> runs K n (pbind (say msg args) f) k"
  "runs K n (f ()) k \<Longrightarrow> runs K n (pbind (say_at msg args l) f) k"
  by (auto intro!: runs_step exI simp: say_def say_at_def)

lemma runs_never [runs_intros]: "runs K n (pbind never_here f) k"
  by (auto intro!: runs_step simp: never_here_def)

lemma runs_diag: "runs K n m k \<Longrightarrow> runs K n (\<lambda>p. m (p_diag msg args p)) k"
  unfolding runs_def by (meson diag_simps kept_trans)

lemma p_expecting_msg_cases:
  "p_expecting_msg c msg p =
     (if p_kind p = c then Some (Inr (True, p))
      else Some (Inr (False, p_diag msg [Arg_string (get_token_string_view c)] p)))"
  by (simp add: p_expecting_msg_def pret_def pbind_def this_token_def say_def)


lemma diag_fields [simp]:
  "p_good (p_diag msg args p) = p_good p" "p_left (p_diag msg args p) = p_left p"
  "p_kind (p_diag msg args p) = p_kind p"
  by (simp_all add: p_diag_def p_diag_at_def p_good_def p_left_def fp_left_def queue_left_def
      good_queue_def queue_ok_def good_text_def current_token_def left_def end_of_stream_def)

lemma runs_expecting_msg [runs_intros]:
  assumes "\<And>b. runs (if b then Some c else K) n (f b) k"
  shows "runs K n (pbind (p_expecting_msg c msg) f) k"
proof (rule runs_step, goal_cases)
  case (2 p x p')
  have "ready_for (if x then Some c else K) n p' \<and> kept p p'"
    using 2 by (auto simp: p_expecting_msg_cases ready_for_def known_def split: if_splits option.splits)
  then show ?case using assms [of x] by blast
qed (simp add: p_expecting_msg_cases)

lemma runs_expecting [runs_intros]:
  "(\<And>b. runs (if b then Some c else K) n (f b) k) \<Longrightarrow> runs K n (pbind (p_expecting c) f) k"
  unfolding p_expecting_def by (rule runs_expecting_msg)

lemma minus_le [simp]: "(m :: nat) \<le> n \<Longrightarrow> m - i \<le> n"
  by simp

text \<open>\<open>left_behind K c n\<close>: how many tokens are left when \<open>c\<close> is used up if it is there.\<close>

definition left_behind :: "kind_t option \<Rightarrow> kind_t \<Rightarrow> nat \<Rightarrow> nat" where
  "left_behind K c n = (if K = Some c then used K n else n)"

lemma left_behind_simps [simp]:
  "left_behind None c n = n" "left_behind (Some c) c n = used (Some c) n"
  "c \<noteq> d \<Longrightarrow> left_behind (Some c) d n = n"
  by (simp_all add: left_behind_def)

lemma left_behind_le [simp]: "m \<le> n \<Longrightarrow> left_behind K c m \<le> n"
  by (simp add: left_behind_def)

lemma ready_for_kind: "ready_for K n p \<Longrightarrow> p_kind p = c \<Longrightarrow> ready_for (Some c) n p"
  by (simp add: ready_for_def)

lemma runs_when_there:
  assumes "runs (Some c) n m (used (Some c) n)" and "runs K n m' n"
  shows "runs K n (\<lambda>p. if p_kind p = c then m p else m' p) (left_behind K c n)"
proof (rule runsI, goal_cases)
  case (1 p)
  then show ?case using runsD(1) [OF assms(1)] runsD(1) [OF assms(2)] ready_for_kind by auto
next
  case (2 p x p')
  show ?case
  proof (cases "p_kind p = c")
    case True
    then have "ready_for None (used (Some c) n) p' \<and> kept p p'"
      using runsD(2) [OF assms(1) ready_for_kind [OF 2(1)]] 2(2) by auto
    moreover have "used (Some c) n \<le> left_behind K c n"
      by (simp add: left_behind_def)
    ultimately show ?thesis using ready_for_mono by blast
  next
    case False
    then have "left_behind K c n = n" using 2(1) by (auto simp: left_behind_def ready_for_def)
    then show ?thesis using runsD(2) [OF assms(2) 2(1)] 2(2) False by auto
  qed
qed

lemma runs_watchdog: "runs K n m k \<Longrightarrow> runs K n (\<lambda>p. m (p\<lparr>watchdog := w\<rparr>)) k"
  unfolding runs_def by (metis kept_trans kept_watchdog ready_for_watchdog)

lemma runs_diag_watchdog:
  "runs K n m k \<Longrightarrow> runs K n (\<lambda>p. m (p_diag msg args (p\<lparr>watchdog := w\<rparr>))) k"
  by (rule runs_watchdog [OF runs_diag])

lemma p_consume_msg_cases:
  "p_consume_msg c msg = (\<lambda>p. if p_kind p = c then p_scan (p\<lparr>watchdog := 0\<rparr>)
     else pret () (p_diag msg [Arg_string (get_token_string_view c)] (p\<lparr>watchdog := 0\<rparr>)))"
  by (rule ext) (simp add: p_consume_msg_def pbind_def p_expecting_msg_cases)

lemma p_consume_cases: "p_consume c = p_consume_msg c (''Expected '{}'' @ [CHR 0x27])"
  by (rule ext) (simp add: p_consume_def p_consume_msg_def p_expecting_def)

lemma p_eat_cases:
  "p_eat c = (\<lambda>p. if p_kind p = c
     then pbind p_scan (\<lambda>_. previous_location) (p\<lparr>watchdog := 0\<rparr>)
     else this_location
       (p_diag (''Expected '{}'' @ [CHR 0x27]) [Arg_string (get_token_string_view c)] (p\<lparr>watchdog := 0\<rparr>)))"
  by (rule ext) (simp add: p_eat_def pbind_def p_expecting_def p_expecting_msg_cases)

lemma runs_reads [runs_intros]:
  "n \<le> k \<Longrightarrow> runs K n this_location k" "n \<le> k \<Longrightarrow> runs K n previous_location k"
  "n \<le> k \<Longrightarrow> runs K n (say msg args) k" "runs K n never_here k"
  by (auto simp: runs_def ready_for_def this_location_def previous_location_def say_def never_here_def)

lemma runs_p_consume_msg: "runs K n (p_consume_msg c msg) (left_behind K c n)"
  unfolding p_consume_msg_cases
  by (rule runs_when_there) (auto intro!: runs_watchdog runs_p_scan runs_pret runs_diag_watchdog)

lemma runs_p_consume: "runs K n (p_consume c) (left_behind K c n)"
  unfolding p_consume_cases by (rule runs_p_consume_msg)

lemma runs_p_eat: "runs K n (p_eat c) (left_behind K c n)"
  unfolding p_eat_cases
  by (rule runs_when_there)
    (auto intro!: runs_watchdog runs_pbind [OF runs_p_scan] runs_reads runs_diag_watchdog)

lemma runs_consume [runs_intros]:
  "runs None (left_behind K c n) (f ()) k \<Longrightarrow> runs K n (pbind (p_consume c) f) k"
  by (rule runs_pbind [OF runs_p_consume]) simp

lemma runs_consume_msg [runs_intros]:
  "runs None (left_behind K c n) (f ()) k \<Longrightarrow> runs K n (pbind (p_consume_msg c msg) f) k"
  by (rule runs_pbind [OF runs_p_consume_msg]) simp

lemma runs_eat [runs_intros]:
  "(\<And>l. runs None (left_behind K c n) (f l) k) \<Longrightarrow> runs K n (pbind (p_eat c) f) k"
  by (rule runs_pbind [OF runs_p_eat]) simp

lemma runs_optional [runs_intros]:
  assumes "\<And>d. (\<forall>e. K = Some e \<longrightarrow> d = e) \<Longrightarrow> d \<noteq> c \<Longrightarrow> runs (Some d) n (f False) k"
    and "(c \<noteq> tk_eof \<Longrightarrow> 0 < n) \<Longrightarrow> runs None (used (Some c) n) (f True) k"
  shows "runs K n (pbind (p_optional c) f) k"
proof (rule runs_step, goal_cases)
  case (1 p)
  then show ?case
    using p_scan_ready(1) [OF 1, of 0]
    by (auto simp: p_optional_def pbind_def this_token_def intro!: returns_obind)
next
  case (2 p x p')
  show ?case
  proof (cases "p_kind p = c")
    case True
    then have "x \<and> p_scan (p\<lparr>watchdog := 0\<rparr>) = Some (Inr ((), p'))"
      using 2(2) by (auto simp: p_optional_def pbind_def this_token_def obind_Inr_iff)
    moreover have "c \<noteq> tk_eof \<Longrightarrow> 0 < n"
      using 2(1) True by (auto simp: ready_for_def p_left_def fp_left_def)
    ultimately have "ready_for None (used (Some c) n) p' \<and> kept p p'" "x = True"
      "runs None (used (Some c) n) (f True) k"
      using p_scan_ready(2) [OF ready_for_kind [OF 2(1) True], of 0 "()" p'] assms(2) by simp_all
    then show ?thesis by auto
  next
    case False
    then have "x = False" "p' = p" using 2(2) by (auto simp: p_optional_def pbind_def this_token_def)
    moreover have "\<forall>e. K = Some e \<longrightarrow> p_kind p = e" using 2(1) by (auto simp: ready_for_def)
    ultimately show ?thesis
      using assms(1) [of "p_kind p"] False ready_for_kind [OF 2(1), of "p_kind p"]
      by (intro conjI exI [of _ "Some (p_kind p)"] exI [of _ n]) simp_all
  qed
qed

section \<open>Looking without touching\<close>

definition looks :: "'a parse \<Rightarrow> bool" where
  "looks m \<longleftrightarrow> (\<forall>p. returns (m p)
     \<and> (\<forall>x p'. m p = Some (Inr (x, p')) \<longrightarrow> (\<exists>w \<ge> watchdog p. p' = p\<lparr>watchdog := w\<rparr>)))"

lemma looks_pret [simp]: "looks (pret x)"
proof -
  have "\<exists>w \<ge> watchdog p. p = p\<lparr>watchdog := w\<rparr>" for p :: parser by (rule exI [of _ "watchdog p"]) simp
  then show ?thesis by (simp add: looks_def)
qed

lemma looks_pbind:
  assumes "looks m" and "\<And>x. looks (f x)"
  shows "looks (pbind m f)"
  unfolding looks_def
proof (intro allI conjI impI)
  fix p
  show "returns (pbind m f p)"
    using assms by (auto simp: pbind_def looks_def intro!: returns_obind)
  fix y p' assume "pbind m f p = Some (Inr (y, p'))"
  then obtain x p1 where "m p = Some (Inr (x, p1))" "f x p1 = Some (Inr (y, p'))"
    by (auto simp: pbind_def obind_Inr_iff)
  then obtain w w' where "watchdog p \<le> w" "p1 = p\<lparr>watchdog := w\<rparr>" "watchdog p1 \<le> w'" "p' = p1\<lparr>watchdog := w'\<rparr>"
    using assms unfolding looks_def by meson
  then show "\<exists>w \<ge> watchdog p. p' = p\<lparr>watchdog := w\<rparr>" by (intro exI [of _ w']) simp
qed

lemma looks_if: "(b \<Longrightarrow> looks m) \<Longrightarrow> (\<not> b \<Longrightarrow> looks m') \<Longrightarrow> looks (if b then m else m')"
  by simp

lemma looks_current_token [simp]: "looks p_current_token"
proof -
  have "\<exists>w \<ge> watchdog p. p\<lparr>watchdog := Suc (watchdog p)\<rparr> = p\<lparr>watchdog := w\<rparr>" for p :: parser
    by (rule exI [of _ "Suc (watchdog p)"]) simp
  then show ?thesis by (auto simp: looks_def p_current_token_def Let_def returns_def)
qed

lemma looks_is_end [simp]: "looks (is_end_of_state k st)"
  by (cases st) (simp_all add: is_end_of_state_def is_end_of_sequential_statements_def looks_pbind)

lemma looks_if_fun: "looks m \<Longrightarrow> looks m' \<Longrightarrow> looks (\<lambda>p. if b p then m p else m' p)"
  by (simp add: looks_def)

lemma looks_valid [simp]: "looks (valid_in_one_of k its)"
proof (induction its)
  case (Cons it its)
  then show ?case unfolding valid_in_one_of.simps
    by (intro looks_if_fun looks_pbind looks_if) simp_all
qed simp

lemma looks_is_valid [simp]: "looks (is_valid_in_parsing_states k)"
  by (simp add: is_valid_in_parsing_states_def)

lemma runs_looks:
  assumes "looks m" and "\<And>x. (\<exists>p p'. m p = Some (Inr (x, p'))) \<Longrightarrow> runs K n (f x) k"
  shows "runs K n (pbind m f) k"
proof (rule runs_step, goal_cases)
  case (2 p x p')
  then obtain w where "p' = p\<lparr>watchdog := w\<rparr>" using assms(1) unfolding looks_def by blast
  then have "kept p p'" "ready_for K n p'" using 2(1) by simp_all
  then show ?case using assms(2) 2(2) by blast
qed (use assms(1) in \<open>simp add: looks_def\<close>)

lemma runs_is_end [runs_intros]:
  assumes "\<And>e. (\<not> e \<Longrightarrow> c \<noteq> tk_eof) \<Longrightarrow> runs K n (f e) k"
  shows "runs K n (pbind (is_end_of_state c st) f) k"
  by (rule runs_looks [OF looks_is_end]) (auto simp: is_end_of_state_def intro!: assms split: if_splits)

lemma runs_is_valid [runs_intros]:
  "(\<And>v. runs K n (f v) k) \<Longrightarrow> runs K n (pbind (is_valid_in_parsing_states c) f) k"
  by (rule runs_looks [OF looks_is_valid])

section \<open>Lists\<close>

lemma runs_skip_with [runs_intros]:
  assumes "runs None (used K n) (f ()) k"
  shows "runs K n (pbind (skip_with msg) f) k"
proof (rule runs_pbind)
  have "runs K n p_skip (used K n)" by (rule runs_p_skip)
  then have "runs K n (\<lambda>p. p_skip (p_diag msg [Arg_string a] p)) (used K n)" for a by (rule runs_diag)
  then show "runs K n (skip_with msg) (used K n)"
    unfolding runs_def by (simp add: skip_with_def pbind_def this_token_def say_def)
qed (use assms in simp)

lemma begin_not_eof: "is_begin_of_element_in_state c st \<Longrightarrow> c \<noteq> tk_eof"
  by (auto simp: is_begin_of_element_in_state_def)

text \<open>An element parser that uses up a token wherever an element can begin.\<close>

definition element_ok :: "parsing_state \<Rightarrow> 'a parse \<Rightarrow> nat \<Rightarrow> bool" where
  "element_ok st fn n \<longleftrightarrow> (\<forall>c m. is_begin_of_element_in_state c st \<longrightarrow> m \<le> n \<longrightarrow> runs (Some c) m fn (m - 1))"

lemma element_okD:
  "element_ok st fn n \<Longrightarrow> is_begin_of_element_in_state c st \<Longrightarrow> m \<le> n \<Longrightarrow> runs (Some c) m fn (m - 1)"
  by (simp add: element_ok_def)

lemma parse_many_loop_runs:
  "element_ok st fn n \<Longrightarrow> runs None n (parse_many_loop st fn xs) n"
proof (induction n arbitrary: xs rule: less_induct)
  case (less n)
  have IH: "0 < n \<Longrightarrow> runs None (n - 1) (parse_many_loop st fn ys) n" for ys
    using less.IH [of "n - 1" ys] less.prems
    by (auto simp: element_ok_def intro: runs_mono)
  show ?case
    by (rule runs_cong [OF parse_many_loop.simps])
      (intro runs_intros runs_pbind [where n' = "n - 1"], auto simp del: One_nat_def intro!: IH element_okD [OF less.prems])
qed

lemma runs_state: 
  assumes "\<And>xs. runs None n (m xs) n"
  shows "runs K n (\<lambda>p0. pbind (m []) (\<lambda>xs p. pret xs (p\<lparr>parsing_states := parsing_states p0\<rparr>))
     (p0\<lparr>parsing_states := insert st (parsing_states p0)\<rparr>)) n"
proof (rule runsI, goal_cases)
  case (1 p)
  then have "ready_for None n (p\<lparr>parsing_states := insert st (parsing_states p)\<rparr>)"
    by (simp add: ready_for_def p_good_def p_left_def)
  then show ?case
    using runsD(1) [OF assms [of "[]"]] by (auto simp: pbind_def intro!: returns_obind)
next
  case (2 p xs p')
  then have r: "ready_for None n (p\<lparr>parsing_states := insert st (parsing_states p)\<rparr>)"
    by (simp add: ready_for_def p_good_def p_left_def)
  obtain p1 where "m [] (p\<lparr>parsing_states := insert st (parsing_states p)\<rparr>) = Some (Inr (xs, p1))"
    and "p' = p1\<lparr>parsing_states := parsing_states p\<rparr>"
    using 2(2) by (auto simp: pbind_def obind_Inr_iff)
  then show ?case
    using runsD(2) [OF assms [of "[]"] r, of xs p1]
    by (simp add: ready_for_def p_good_def p_left_def kept_def)
qed

lemma parse_many_runs: "element_ok st fn n \<Longrightarrow> runs K n (parse_many st fn) n"
  unfolding parse_many_def Let_def
  by (rule runs_state [where m = "parse_many_loop st fn"]) (rule parse_many_loop_runs)

lemma runs_parse_many [runs_intros]:
  "element_ok st fn n \<Longrightarrow> (\<And>xs. runs None n (f xs) k) \<Longrightarrow> runs K n (pbind (parse_many st fn) f) k"
  by (rule runs_pbind [OF parse_many_runs])

text \<open>The same rules for a function that ends with the step.\<close>

lemma runs_tails [runs_intros]:
  "used K n \<le> k \<Longrightarrow> runs K n p_skip k"
  "left_behind K c n \<le> k \<Longrightarrow> runs K n (p_consume c) k"
  "left_behind K c n \<le> k \<Longrightarrow> runs K n (p_eat c) k"
  by (auto intro: runs_mono [OF runs_p_skip] runs_mono [OF runs_p_consume] runs_mono [OF runs_p_eat])

lemma runs_after_element [runs_intros]:
  assumes "\<And>b. runs None n (f b) k"
  shows "runs K n (pbind (after_element st sep) f) k"
proof (rule runs_pbind)
  show "runs K n (after_element st sep) n"
    unfolding after_element_def by (intro runs_intros; simp split: if_split)
qed (rule assms)

lemma parse_many_sep_loop_runs:
  "element_ok st fn n \<Longrightarrow> runs None n (parse_many_sep_loop st sep fn xs) n"
proof (induction n arbitrary: xs rule: less_induct)
  case (less n)
  have IH: "0 < n \<Longrightarrow> runs None (n - 1) (parse_many_sep_loop st sep fn ys) n" for ys
    using less.IH [of "n - 1" ys] less.prems
    by (auto simp: element_ok_def intro: runs_mono)
  show ?case
    by (rule runs_cong [OF parse_many_sep_loop.simps])
      (intro runs_intros runs_pbind [where n' = "n - 1" and m = fn],
        auto simp del: One_nat_def intro!: IH element_okD [OF less.prems])
qed

lemma parse_many_sep_runs: "element_ok st fn n \<Longrightarrow> runs K n (parse_many_sep st sep fn) n"
  unfolding parse_many_sep_def Let_def
  by (rule runs_state [where m = "parse_many_sep_loop st sep fn"]) (rule parse_many_sep_loop_runs)

lemma runs_parse_many_sep [runs_intros]:
  "element_ok st fn n \<Longrightarrow> (\<And>xs. runs None n (f xs) k) \<Longrightarrow> runs K n (pbind (parse_many_sep st sep fn) f) k"
  by (rule runs_pbind [OF parse_many_sep_runs])

section \<open>Resynchronisation\<close>

lemma runs_scan [runs_intros]:
  "runs None (used K n) (f ()) k \<Longrightarrow> runs K n (pbind p_scan f) k"
  by (rule runs_pbind [OF runs_p_scan]) simp

lemma resync_semicolon_known: "c \<noteq> tk_eof \<Longrightarrow> runs (Some c) n (resync_to_next_semicolon b) n"
proof (induction n arbitrary: c)
  case (Suc n)
  have IH: "d \<noteq> tk_eof \<Longrightarrow> runs (Some d) n (resync_to_next_semicolon b) (Suc n)" for d
    by (rule runs_mono [OF Suc.IH]) simp_all
  show ?case
    by (rule runs_cong [OF resync_to_next_semicolon.simps]) (intro runs_intros, use Suc.prems IH in auto)
next
  case 0
  have "\<not> ready_for (Some c) 0 p" for p
    using 0 by (auto simp: ready_for_def p_left_def fp_left_def)
  then show ?case by (simp add: runs_def)
qed

lemma resync_semicolon_runs: "runs K n (resync_to_next_semicolon b) n"
proof (rule runs_cong [OF resync_to_next_semicolon.simps])
  have "d \<noteq> tk_eof \<Longrightarrow> runs (Some d) m (resync_to_next_semicolon b) n" if "m \<le> n" for d m
    by (rule runs_mono [OF resync_semicolon_known]) (use that in simp_all)
  then show "runs K n (pbind p_scan (\<lambda>_. pbind this_token (\<lambda>t.
      if kind t = tk_semicolon then if b then p_consume tk_semicolon else pret ()
      else if kind t = tk_eof then pret () else resync_to_next_semicolon b))) n"
    by (intro runs_intros) auto
qed

lemma check_rightpar_runs: "runs K n (check_rightpar nests) n"
proof (induction n arbitrary: K nests rule: less_induct)
  case (less n)
  have IH: "0 < n \<Longrightarrow> runs None (n - 1) (check_rightpar m) n" for m
    by (rule runs_mono [OF less.IH [of "n - 1"]]) simp_all
  show ?case
    by (rule runs_cong [OF check_rightpar.simps]) (intro runs_intros; simp add: IH del: One_nat_def)
qed

lemma resync_rightpar_runs: "runs K n (resync_to_end_of_rightpar nests) n"
  unfolding resync_to_end_of_rightpar_def
  by (intro runs_intros check_rightpar_runs) simp

lemmas resync_intros [runs_intros] =
  runs_pbind [OF resync_semicolon_runs] runs_mono [OF resync_semicolon_runs order_refl]
  runs_pbind [OF resync_rightpar_runs] runs_mono [OF resync_rightpar_runs order_refl]

section \<open>Labels, designators and clauses\<close>

lemma misspelt_runs: "runs K n (misspelt_designator s) n"
  unfolding misspelt_designator_def by (cases s) (simp_all, (intro runs_intros; simp)+)

lemmas misspelt_intros [runs_intros] = runs_pbind [OF misspelt_runs]

lemma label_runs:
  "runs K n (parse_identifier msg) n" "runs K n parse_optional_label n"
  "runs K n (parse_non_optional_label msg) n" "runs K n (parse_designator msg) n"
  "runs K n parse_alias_designator n" "runs K n (parse_optional_closing_label name) n"
  "runs K n (parse_optional_closing_designator s) n"
  unfolding parse_identifier_def parse_optional_label_def parse_non_optional_label_def
    parse_designator_def parse_alias_designator_def parse_optional_closing_label_def
    parse_optional_closing_designator_def
  by (intro runs_intros; simp)+

lemmas label_intros [runs_intros] =
  label_runs(1) [THEN runs_pbind] label_runs(2) [THEN runs_pbind] label_runs(3) [THEN runs_pbind]
  label_runs(4) [THEN runs_pbind] label_runs(5) [THEN runs_pbind] label_runs(6) [THEN runs_pbind]
  label_runs(7) [THEN runs_pbind]

lemma end_of_clause_runs: "runs K n end_of_clause n"
  unfolding end_of_clause_def by (intro runs_intros; simp)

lemmas end_of_clause_intros [runs_intros] = end_of_clause_runs [THEN runs_pbind]

lemma library_names_runs: "runs K n (library_names names) n"
proof (induction n arbitrary: K names rule: less_induct)
  case (less n)
  have IH: "0 < n \<Longrightarrow> runs L (n - 1) (library_names ns) n" for L ns
    by (rule runs_mono [OF less.IH [of "n - 1"]]) simp_all
  show ?case
    by (rule runs_cong [OF library_names.simps], unfold after_name_def)
      (intro runs_intros; simp add: IH del: One_nat_def)
qed

lemmas library_names_intros [runs_intros] = library_names_runs [THEN runs_pbind]

lemma parse_library_clause_runs: "runs K n parse_library_clause (left_behind K kw_library n)"
  unfolding parse_library_clause_def by (intro runs_intros; simp)

text \<open>A function of the grammar that may be called with at most \<open>n\<close> tokens to go.\<close>

definition calls_ok :: "'a parse \<Rightarrow> nat \<Rightarrow> bool" where
  "calls_ok m n \<longleftrightarrow> (\<forall>k \<le> n. \<forall>K. runs K k m k)"

lemma calls_ok_mono: "calls_ok m n \<Longrightarrow> k \<le> n \<Longrightarrow> calls_ok m k"
  by (simp add: calls_ok_def)

lemma runs_call: "calls_ok m n \<Longrightarrow> k \<le> n \<Longrightarrow> (\<And>x. runs None k (f x) l) \<Longrightarrow> runs K k (pbind m f) l"
  by (rule runs_pbind [where n' = k]) (simp_all add: calls_ok_def)

lemma use_names_runs: "calls_ok nm n \<Longrightarrow> runs K n (use_names nm names) n"
proof (induction n arbitrary: K names rule: less_induct)
  case (less n)
  have IH: "0 < n \<Longrightarrow> runs L (n - 1) (use_names nm ns) n" for L ns
    by (rule runs_mono [OF less.IH [of "n - 1"]]) (simp_all add: calls_ok_mono [OF less.prems])
  show ?case
    by (rule runs_cong [OF use_names.simps], unfold after_name_def)
      (intro runs_intros runs_call [OF less.prems]; simp add: IH del: One_nat_def)
qed

lemma parse_use_clause_runs:
  assumes "calls_ok nm n"
  shows "runs K n (parse_use_clause nm) (left_behind K kw_use n)"
  unfolding parse_use_clause_def
  by (intro runs_intros runs_pbind [OF use_names_runs [OF calls_ok_mono [OF assms]]]; simp)

lemma context_items_runs: "calls_ok nm n \<Longrightarrow> runs K n (context_items nm items) n"
proof (induction n arbitrary: K items rule: less_induct)
  case (less n)
  have IH: "0 < n \<Longrightarrow> runs L (n - 1) (context_items nm items') n" for L items'
    by (rule runs_mono [OF less.IH [of "n - 1"]]) (simp_all add: calls_ok_mono [OF less.prems])
  show ?case
    by (rule runs_cong [OF context_items.simps])
      (intro runs_intros runs_pbind [OF parse_library_clause_runs]
        runs_pbind [OF parse_use_clause_runs [OF less.prems]]; simp add: IH del: One_nat_def)
qed

lemma context_items_tail:
  "calls_ok nm n \<Longrightarrow> j \<le> n \<Longrightarrow> j \<le> k \<Longrightarrow> runs K j (context_items nm items) k"
  by (rule runs_mono [OF context_items_runs]) (auto intro: calls_ok_mono)

definition grammar_ok :: "('n, 'u) grammar \<Rightarrow> nat \<Rightarrow> bool" where
  "grammar_ok g n \<longleftrightarrow> calls_ok (g_name g) n \<and> (\<forall>k \<le> n.
     runs (Some kw_entity) k (g_entity g) (k - 1)
     \<and> runs (Some kw_architecture) k (g_architecture g) (k - 1)
     \<and> runs (Some kw_package) k (g_package_body g) (k - 1)
     \<and> runs (Some kw_package) k (g_package g) (k - 1)
     \<and> runs (Some kw_configuration) k (g_configuration g) (k - 1))"

lemma runs_cong_bind:
  "(\<And>p. m p = m' p) \<Longrightarrow> runs K n (pbind m' f) k \<Longrightarrow> runs K n (pbind m f) k"
  by (simp add: runs_def pbind_def)

lemma parse_unit_runs:
  assumes "grammar_ok g n" and "k \<le> n"
  shows "runs K k (parse_unit g) (if K = None then k else k - 1)"
proof -
  have *: "runs (Some kw_entity) k (g_entity g) (k - 1)"
    "runs (Some kw_architecture) k (g_architecture g) (k - 1)"
    "runs (Some kw_package) k (g_package_body g) (k - 1)"
    "runs (Some kw_package) k (g_package g) (k - 1)"
    "runs (Some kw_configuration) k (g_configuration g) (k - 1)"
    using assms by (simp_all add: grammar_ok_def)
  have "runs (Some c) k (parse_unit g) (k - 1)" for c
    unfolding parse_unit_def by (intro runs_intros; auto simp: * simp del: One_nat_def)
  then show ?thesis
    using runs_mono [OF _ order_refl, of _ k "parse_unit g" "k - 1" k]
    by (cases K) (auto intro!: runs_unknown)
qed

lemma design_unit_element_ok:
  assumes "grammar_ok g n"
  shows "element_ok design_unit_in_design_file (parse_design_unit g) n"
  unfolding element_ok_def
proof (intro allI impI)
  fix c m
  assume c: "is_begin_of_element_in_state c design_unit_in_design_file" and m: "m \<le> n"
  have nm: "calls_ok (g_name g) m"
    using assms m by (auto simp: grammar_ok_def intro: calls_ok_mono)
  have u: "runs K k (parse_unit g) (if K = None then k else k - 1)" if "k \<le> m" for K k
    using parse_unit_runs [OF assms] that m by simp
  have "runs (Some c) m (parse_context_clause (g_name g)) (m - 1)" if "c \<in> {kw_library, kw_use}"
    unfolding parse_context_clause_def
    by (rule runs_cong [OF context_items.simps])
      (use that in \<open>intro runs_intros runs_pbind [OF parse_library_clause_runs]
        runs_pbind [OF parse_use_clause_runs [OF nm]] context_items_tail [OF nm];
        simp\<close>)
  have "runs (Some c) m (parse_design_unit g) (m - 1)" if "c \<in> {kw_library, kw_use}"
    unfolding parse_design_unit_def
    by (intro runs_pbind [OF \<open>_ \<Longrightarrow> runs (Some c) m (parse_context_clause (g_name g)) (m - 1)\<close>]
        runs_pbind [OF u] that) (auto intro!: runs_pret)
  moreover have "runs (Some c) m (parse_design_unit g) (m - 1)" if "c \<notin> {kw_library, kw_use}"
  proof -
    have bind_u: "runs (Some d) m (pbind (parse_unit g) f) (m - 1)"
      if "\<And>x. runs None (m - 1) (f x) (m - 1)" for d and f :: "'b option \<Rightarrow> ('a context_item list \<times> 'b) option parse"
      by (rule runs_pbind [OF u [of m "Some d", simplified]]) (use that in simp_all)
    show ?thesis
      unfolding parse_design_unit_def parse_context_clause_def
      by (rule runs_cong_bind [OF context_items.simps], intro runs_intros bind_u)
        (use that c in \<open>auto simp: is_begin_of_element_in_state_def
          is_begin_element_of_design_unit_in_design_file_def simp del: One_nat_def intro!: bind_u runs_pret\<close>)
  qed
  ultimately show "runs (Some c) m (parse_design_unit g) (m - 1)" by blast
qed

section \<open>Where a list is left\<close>

text \<open>The same tests as functions of the token only.\<close>

definition ends_in :: "parsing_state \<Rightarrow> kind_t \<Rightarrow> bool" where
  "ends_in st k \<longleftrightarrow> k = tk_eof \<or> (case st of
     design_unit_in_design_file \<Rightarrow> False
   | interface_lists \<Rightarrow> k = tk_rightpar
   | declarative_part_begin_end \<Rightarrow> k \<in> {kw_begin, kw_end}
   | declarative_part_begin \<Rightarrow> k = kw_begin
   | declarative_part_end \<Rightarrow> k = kw_end
   | declarative_part_for \<Rightarrow> k = kw_for
   | entity_statement_part \<Rightarrow> k = kw_end
   | concurrent_statements \<Rightarrow> k = kw_end
   | sequential_statements \<Rightarrow> k \<in> {kw_end, kw_else, kw_elsif, kw_when})"

lemma is_end_of_state_result:
  assumes "is_end_of_state (p_kind p) st p = Some (Inr (e, p'))"
  shows "e \<longleftrightarrow> ends_in st (p_kind p)" and "pq p' = pq p" and "parsing_states p' = parsing_states p"
  using assms
  by (cases st; simp add: is_end_of_state_def ends_in_def is_end_of_design_unit_in_design_file_def
      is_end_of_interface_lists_def is_end_of_declarative_part_begin_end_def
      is_end_of_declarative_part_begin_def is_end_of_declarative_part_end_def
      is_end_of_declarative_part_for_def is_end_of_concurrent_statements_def
      is_end_of_entity_statement_part_def is_end_of_sequential_statements_def pbind_def
      p_current_token_def Let_def split: if_splits)+

definition open_somewhere :: "parser \<Rightarrow> bool" where
  "open_somewhere p \<longleftrightarrow> (\<exists>st \<in> parsing_states p.
     is_begin_of_element_in_state (p_kind p) st \<or> ends_in st (p_kind p))"

lemma valid_in_one_of_result:
  "valid_in_one_of (p_kind p) its p = Some (Inr (v, p')) \<Longrightarrow>
     pq p' = pq p \<and> parsing_states p' = parsing_states p \<and> (v \<longrightarrow> open_somewhere p)"
proof (induction its arbitrary: p)
  case (Cons it its)
  show ?case
  proof (cases "it \<in> parsing_states p \<and> \<not> is_begin_of_element_in_state (p_kind p) it")
    case True
    then obtain e p1 where e: "is_end_of_state (p_kind p) it p = Some (Inr (e, p1))"
      and r: "(if e then pret True else valid_in_one_of (p_kind p) its) p1 = Some (Inr (v, p'))"
      using Cons.prems by (auto simp: pbind_def obind_Inr_iff)
    note q = is_end_of_state_result [OF e]
    show ?thesis
    proof (cases e)
      case True
      then show ?thesis using r q \<open>it \<in> _ \<and> _\<close> by (auto simp: open_somewhere_def)
    next
      case False
      then show ?thesis using r q Cons.IH [of p1] by (auto simp: open_somewhere_def)
    qed
  next
    case False
    then show ?thesis using Cons by (auto simp: open_somewhere_def split: if_splits)
  qed
qed simp

lemma is_valid_result:
  "is_valid_in_parsing_states (p_kind p) p = Some (Inr (v, p')) \<Longrightarrow>
     pq p' = pq p \<and> parsing_states p' = parsing_states p \<and> (v \<longrightarrow> open_somewhere p)"
  unfolding is_valid_in_parsing_states_def by (rule valid_in_one_of_result)

lemma p_current_token_Inr:
  "p_current_token p = Some (Inr (k, p')) \<Longrightarrow>
     k = p_kind p \<and> pq p' = pq p \<and> parsing_states p' = parsing_states p"
  by (auto simp: p_current_token_def Let_def split: if_splits)

lemma pbind_Inr: "pbind m f p = Some (Inr y) \<longleftrightarrow>
    (\<exists>x p1. m p = Some (Inr (x, p1)) \<and> f x p1 = Some (Inr y))"
  by (auto simp: pbind_def obind_Inr_iff)

definition stops :: "parsing_state \<Rightarrow> parser \<Rightarrow> bool" where
  "stops st p \<longleftrightarrow> ends_in st (p_kind p) \<or>
     \<not> is_begin_of_element_in_state (p_kind p) st \<and> open_somewhere p"

lemma parse_many_loop_stops:
  assumes "parse_many_loop st fn xs p = Some (Inr (ys, p'))"
  shows "stops st p'"
proof -
  have "\<forall>ys p'. r = Inr (ys, p') \<longrightarrow> stops st p'"
    if "parse_many_loop st fn xs p = Some r" for r
  proof (rule parse_many_loop.raw_induct [OF _ that,
      where P = "\<lambda>st fn xs p r. \<forall>ys p'. r = Inr (ys, p') \<longrightarrow> stops st p'"],
      intro allI impI)
    fix loop :: "parsing_state \<Rightarrow> (parser \<Rightarrow> (parse_error, 'a option \<times> parser) outcome) \<Rightarrow> 'a list
      \<Rightarrow> parser \<Rightarrow> (parse_error, 'a list \<times> parser) outcome"
    fix st xs p r ys p' and fn :: "parser \<Rightarrow> (parse_error, 'a option \<times> parser) outcome"
    assume IH: "\<And>st fn xs p r. loop st fn xs p = Some r \<Longrightarrow>
        \<forall>ys p'. r = Inr (ys, p') \<longrightarrow> stops st p'"
      and body: "pbind p_current_token (\<lambda>k. pbind (is_end_of_state k st) (\<lambda>ends.
         if ends then pret xs
         else pbind p_current_token (\<lambda>k.
           if is_begin_of_element_in_state k st then
             pbind fn (\<lambda>element. loop st fn (push_some xs element))
           else pbind p_current_token (\<lambda>k. pbind (is_valid_in_parsing_states k) (\<lambda>valid.
               if valid then pret xs
               else pbind (skip_with (''Skipping '{}'' @ [CHR 0x27])) (\<lambda>_. loop st fn xs)))))) p = Some r"
      and r: "r = Inr (ys, p')"
    have IH': "loop st fn zs q = Some (Inr (ys, p')) \<Longrightarrow> stops st p'" for zs q
      using IH by blast
    obtain k1 p1 e p2 where k1: "p_current_token p = Some (Inr (k1, p1))"
      and e: "is_end_of_state k1 st p1 = Some (Inr (e, p2))"
      and f: "(if e then pret xs else pbind p_current_token (\<lambda>k.
           if is_begin_of_element_in_state k st then
             pbind fn (\<lambda>element. loop st fn (push_some xs element))
           else pbind p_current_token (\<lambda>k. pbind (is_valid_in_parsing_states k) (\<lambda>valid.
               if valid then pret xs
               else pbind (skip_with (''Skipping '{}'' @ [CHR 0x27])) (\<lambda>_. loop st fn xs))))) p2
         = Some (Inr (ys, p'))"
      using body unfolding r pbind_Inr by blast
    have k: "k1 = p_kind p1" using p_current_token_Inr [OF k1] by simp
    note end_of = is_end_of_state_result [OF e [unfolded k]]
    show "stops st p'"
    proof (cases e)
      case True
      then show ?thesis using f end_of by (simp add: stops_def)
    next
      case False
      then obtain k3 p3 where k3: "p_current_token p2 = Some (Inr (k3, p3))"
        and f3: "(if is_begin_of_element_in_state k3 st then
             pbind fn (\<lambda>element. loop st fn (push_some xs element))
           else pbind p_current_token (\<lambda>k. pbind (is_valid_in_parsing_states k) (\<lambda>valid.
               if valid then pret xs
               else pbind (skip_with (''Skipping '{}'' @ [CHR 0x27])) (\<lambda>_. loop st fn xs)))) p3
         = Some (Inr (ys, p'))"
        using f by (simp only: if_False pbind_Inr) blast
      show ?thesis
      proof (cases "is_begin_of_element_in_state k3 st")
        case True
        then show ?thesis using f3 IH' by (auto simp: pbind_Inr)
      next
        case nb: False
        then obtain k4 p4 v p5 where k4a: "p_current_token p3 = Some (Inr (k4, p4))"
          and v: "is_valid_in_parsing_states k4 p4 = Some (Inr (v, p5))"
          and f5: "(if v then pret xs
               else pbind (skip_with (''Skipping '{}'' @ [CHR 0x27])) (\<lambda>_. loop st fn xs)) p5
             = Some (Inr (ys, p'))"
          using f3 by (simp only: if_False pbind_Inr) blast
        have k4: "k4 = p_kind p4" using p_current_token_Inr [OF k4a] by simp
        note valid = is_valid_result [OF v [unfolded k4]]
        have k3': "k3 = p_kind p3" using p_current_token_Inr [OF k3] by simp
        have k4': "p_kind p4 = p_kind p3" using p_current_token_Inr [OF k4a] by simp
        show ?thesis
        proof (cases v)
          case True
          then have p': "p' = p5" using f5 by simp
          have "\<not> is_begin_of_element_in_state (p_kind p5) st"
            using nb valid k4 k4' k3' by simp
          then show ?thesis
            using valid True unfolding p' by (auto simp: stops_def open_somewhere_def)
        next
          case False
          then show ?thesis using f5 IH' by (auto simp: pbind_Inr)
        qed
      qed
    qed
  qed
  then show ?thesis using assms by blast
qed

section \<open>Properties\<close>

lemma ready_for_here: "p_good p \<Longrightarrow> ready_for None (p_left p) p"
  by (simp add: ready_for_def)


text \<open>A parser at the beginning of a text.\<close>

definition parser_on :: "string \<Rightarrow> parser" where
  "parser_on s =
     \<lparr>pq = (case scan (sample_queue s) of Some (Inr (_, q)) \<Rightarrow> q | _ \<Rightarrow> sample_queue s),
      pversion = vhdl93, parsing_states = {}, watchdog = 0\<rparr>"

lemma parser_on_good: "no_stuck_text s \<Longrightarrow> p_good (parser_on s)"
  using sample_queue_good [of s] scan_good(2) [OF sample_queue_good [of s]]
  by (auto simp: p_good_def parser_on_def split: option.split sum.split)


end
