(* ===== verification/Parser_Steps.thy ===== *)
theory Parser_Steps
  imports Parser_Facts Silent_Lexer
begin

text \<open>
  What the parser does on a list of tokens. \<open>acts m ts w x ts' w'\<close> says: on a parser that stands for
  the tokens \<open>ts\<close>, the watchdog at most at \<open>w\<close>, \<open>m\<close> returns \<open>x\<close> and leaves the tokens \<open>ts'\<close>, the watchdog
  at most at \<open>w'\<close>. One rule for each operation executes a parsing function step by step.
\<close>

section \<open>Acting on tokens\<close>

definition stands_at :: "token list \<Rightarrow> nat \<Rightarrow> parser \<Rightarrow> bool" where
  "stands_at ts w p \<longleftrightarrow> stands_for (pq p) ts \<and> watchdog p \<le> w"

definition acts :: "'a parse \<Rightarrow> token list \<Rightarrow> nat \<Rightarrow> 'a \<Rightarrow> token list \<Rightarrow> nat \<Rightarrow> bool" where
  "acts m ts w x ts' w' \<longleftrightarrow> (\<forall>p. stands_at ts w p \<longrightarrow>
     (\<exists>p'. m p = Some (Inr (x, p')) \<and> stands_at ts' w' p' \<and> parsing_states p' = parsing_states p
       \<and> pversion p' = pversion p))"

named_theorems acts_intros "one rule for each construct of a parsing function"

lemma actsD:
  assumes "acts m ts w x ts' w'" and "stands_at ts w p"
  obtains p' where "m p = Some (Inr (x, p'))" and "stands_at ts' w' p'"
    and "parsing_states p' = parsing_states p" and "pversion p' = pversion p"
  using assms unfolding acts_def by blast

lemma acts_mono: "acts m ts w x ts' w' \<Longrightarrow> v \<le> w \<Longrightarrow> w' \<le> v' \<Longrightarrow> acts m ts v x ts' v'"
  unfolding acts_def stands_at_def by (meson order_trans)

lemma acts_pret [acts_intros]: "w \<le> w' \<Longrightarrow> acts (pret x) ts w x ts w'"
  by (auto simp: acts_def stands_at_def)

lemma acts_pbind:
  assumes "acts m ts w x us v" and "acts (f x) us v y ts' w'"
  shows "acts (pbind m f) ts w y ts' w'"
  unfolding acts_def
proof (intro allI impI)
  fix p assume p: "stands_at ts w p"
  obtain p1 where m: "m p = Some (Inr (x, p1))" "stands_at us v p1"
    and s1: "parsing_states p1 = parsing_states p" "pversion p1 = pversion p"
    by (rule actsD [OF assms(1) p])
  obtain p2 where "f x p1 = Some (Inr (y, p2))" "stands_at ts' w' p2"
    and "parsing_states p2 = parsing_states p1" "pversion p2 = pversion p1"
    by (rule actsD [OF assms(2) m(2)])
  with m s1 show "\<exists>p'. pbind m f p = Some (Inr (y, p')) \<and> stands_at ts' w' p'
      \<and> parsing_states p' = parsing_states p \<and> pversion p' = pversion p"
    by (auto simp: pbind_def)
qed

lemma acts_if [acts_intros]:
  "(b \<Longrightarrow> acts m ts w x us v) \<Longrightarrow> (\<not> b \<Longrightarrow> acts m' ts w x us v) \<Longrightarrow> acts (if b then m else m') ts w x us v"
  by simp

lemma acts_bind_if [acts_intros]:
  "\<lbrakk>b \<Longrightarrow> acts (pbind m f) ts w x us v; \<not> b \<Longrightarrow> acts (pbind m' f) ts w x us v\<rbrakk>
   \<Longrightarrow> acts (pbind (if b then m else m') f) ts w x us v"
  by simp

lemma acts_bind_bind [acts_intros]:
  "acts (pbind m (\<lambda>x. pbind (g x) f)) ts w x us v \<Longrightarrow> acts (pbind (pbind m g) f) ts w x us v"
  by (simp add: pbind_assoc)

lemma acts_bind_pret [acts_intros]: "acts (f x) ts w y us v \<Longrightarrow> acts (pbind (pret x) f) ts w y us v"
  by simp

lemma acts_cong: "(\<And>p. m p = m' p) \<Longrightarrow> acts m' ts w x us v \<Longrightarrow> acts m ts w x us v"
  by (simp add: acts_def)

lemma acts_cong_bind: "(\<And>p. m p = m' p) \<Longrightarrow> acts (pbind m' f) ts w x us v \<Longrightarrow> acts (pbind m f) ts w x us v"
  by (simp add: acts_def pbind_def)

section \<open>The operations\<close>

lemma stands_at_hd: "stands_at ts w p \<Longrightarrow> current_token (pq p) = hd ts \<and> ts \<noteq> [] \<and> is_eof (last ts)"
  using stands_for_simps by (auto simp: stands_at_def)

lemma acts_this_token [acts_intros]:
  "acts (f (hd ts)) ts w x us v \<Longrightarrow> acts (pbind this_token f) ts w x us v"
  by (rule acts_pbind [where x = "hd ts"])
    (auto simp: acts_def this_token_def dest: stands_at_hd)

lemma acts_current_token [acts_intros]:
  assumes "w < 100" and "acts (f (kind (hd ts))) ts (Suc w) x us v"
  shows "acts (pbind p_current_token f) ts w x us v"
proof (rule acts_pbind [where x = "kind (hd ts)" and us = ts and v = "Suc w"])
  show "acts p_current_token ts w (kind (hd ts)) ts (Suc w)"
    using assms(1) stands_at_hd by (fastforce simp: acts_def p_current_token_def Let_def stands_at_def)
qed (rule assms(2))

lemma acts_p_scan: "acts p_scan ts w () (advance_tokens ts) w"
  unfolding acts_def
proof (intro allI impI)
  fix p assume "stands_at ts w p"
  then have "stands_for (pq p) ts" "watchdog p \<le> w" by (simp_all add: stands_at_def)
  then obtain q where "scan (pq p) = Some (Inr (hd (advance_tokens ts), q))"
    "stands_for q (advance_tokens ts)" using stands_for_scan by blast
  then show "\<exists>p'. p_scan p = Some (Inr ((), p')) \<and> stands_at (advance_tokens ts) w p'
      \<and> parsing_states p' = parsing_states p \<and> pversion p' = pversion p"
    using \<open>watchdog p \<le> w\<close>
    by (intro exI [of _ "p\<lparr>pq := q\<rparr>"]) (auto simp: p_scan_Inr stands_at_def)
qed

lemma acts_reset: "acts m ts 0 x us v \<Longrightarrow> acts (\<lambda>p. m (p\<lparr>watchdog := 0\<rparr>)) ts w x us v"
  by (simp add: acts_def stands_at_def) (metis parser.ext_inject parser.surjective parser.update_convs(4))

lemma acts_p_skip: "acts p_skip ts w () (advance_tokens ts) 0"
  using acts_reset [OF acts_p_scan] by (simp add: p_skip_def [abs_def])

lemma acts_skip [acts_intros]:
  "acts (f ()) (advance_tokens ts) 0 x us v \<Longrightarrow> acts (pbind p_skip f) ts w x us v"
  by (rule acts_pbind [OF acts_p_skip])

lemma acts_at: "(\<And>p. stands_at ts w p \<Longrightarrow> m p = m' p) \<Longrightarrow> acts m' ts w x us v \<Longrightarrow> acts m ts w x us v"
  by (simp add: acts_def)

lemma acts_p_consume: "kind (hd ts) = c \<Longrightarrow> acts (p_consume c) ts w () (advance_tokens ts) 0"
  unfolding p_consume_cases p_consume_msg_cases
  by (rule acts_at [OF _ acts_p_skip]) (auto simp: p_skip_def dest: stands_at_hd)

lemma acts_consume [acts_intros]:
  "kind (hd ts) = c \<Longrightarrow> acts (f ()) (advance_tokens ts) 0 x us v \<Longrightarrow> acts (pbind (p_consume c) f) ts w x us v"
  by (rule acts_pbind [OF acts_p_consume])

text \<open>What is said does not change the tokens.\<close>

lemma stands_at_diag [simp]: "stands_at ts w (p_diag msg args p) = stands_at ts w p"
proof -
  have "stands_for (pq (p_diag_at msg args l p)) ts = stands_for (pq p) ts" for l
    unfolding p_diag_at_def using stands_for_with [where q = "pq p"] by (simp add: with_diagnostics_def)
  moreover have "watchdog (p_diag_at msg args l p) = watchdog p" for l by (simp add: p_diag_at_def)
  ultimately show ?thesis by (simp add: stands_at_def p_diag_def)
qed

lemma diag_frame [simp]:
  "parsing_states (p_diag msg args p) = parsing_states p" "pversion (p_diag msg args p) = pversion p"
  by (simp_all add: p_diag_def p_diag_at_def)

lemma acts_say [acts_intros]: "acts (f ()) ts w x us v \<Longrightarrow> acts (pbind (say msg args) f) ts w x us v"
proof -
  assume f: "acts (f ()) ts w x us v"
  have "\<exists>p'. f () (p_diag msg args p) = Some (Inr (x, p')) \<and> stands_at us v p'
      \<and> parsing_states p' = parsing_states p \<and> pversion p' = pversion p" if "stands_at ts w p" for p
    using actsD [OF f, of "p_diag msg args p"] that by (metis diag_frame stands_at_diag)
  then show ?thesis by (simp add: acts_def pbind_def say_def)
qed

lemma acts_consume_other:
  assumes "kind (hd ts) \<noteq> c" and "acts (f ()) ts 0 x us v"
  shows "acts (pbind (p_consume c) f) ts w x us v"
proof -
  have "acts (pbind (say msg args) (\<lambda>_. f ())) ts 0 x us v" for msg args
    by (rule acts_say) (rule assms(2))
  then have "acts (\<lambda>p. pbind (say msg args) (\<lambda>_. f ()) (p\<lparr>watchdog := 0\<rparr>)) ts w x us v" for msg args
    by (rule acts_reset)
  then show ?thesis
    by (rule acts_at [rotated])
      (use assms(1) in \<open>auto simp: pbind_def p_consume_cases p_consume_msg_cases say_def dest: stands_at_hd\<close>)
qed

lemma acts_optional [acts_intros]:
  assumes "kind (hd ts) = c \<Longrightarrow> acts (f True) (advance_tokens ts) 0 x us v"
    and "kind (hd ts) \<noteq> c \<Longrightarrow> acts (f False) ts w x us v"
  shows "acts (pbind (p_optional c) f) ts w x us v"
proof (cases "kind (hd ts) = c")
  case True
  have "acts (pbind p_skip (\<lambda>_. f True)) ts w x us v" by (intro acts_skip assms(1) True)
  then show ?thesis
    by (rule acts_at [rotated])
      (use True in \<open>auto simp: p_optional_def p_skip_def pbind_def this_token_def dest: stands_at_hd
        intro: obind_cong simp: obind_assoc\<close>)
next
  case False
  show ?thesis
    by (rule acts_at [OF _ assms(2) [OF False]])
      (use False in \<open>auto simp: p_optional_def pbind_def this_token_def dest: stands_at_hd\<close>)
qed

lemma stands_for_peek:
  assumes s: "stands_for q ts" and i: "i < length ts"
  shows "\<exists>q'. peek i q = Some (Inr (ts ! i, q')) \<and> stands_for q' ts"
proof -
  have "\<exists>q'. peek i q = Some (Inr (ts ! i, q'))"
  proof (cases i)
    case 0
    then show ?thesis using s by (simp add: peek_def stands_for_def hd_conv_nth)
  next
    case (Suc j)
    have "ahead i q = Some (Inr (take i (tl ts @ replicate i (last ts))))"
      using s by (simp add: stands_for_def)
    from peek_of_ahead [OF this order_refl] show ?thesis
      using Suc i by (simp add: nth_append nth_tl)
  qed
  then obtain q' where p: "peek i q = Some (Inr (ts ! i, q'))" by blast
  have "queue_ok q'" using queue_ok_peek [OF p] s by (simp add: stands_for_def)
  then show ?thesis
    using p peek_same [OF p] s by (auto simp: stands_for_def same_tokens_def)
qed

lemma acts_on_queue:
  assumes "\<And>q. stands_for q ts \<Longrightarrow> \<exists>q'. m q = Some (Inr (x, q')) \<and> stands_for q' ts"
  shows "acts (on_queue m) ts w x ts w"
  unfolding acts_def
proof (intro allI impI)
  fix p assume "stands_at ts w p"
  then obtain q' where "m (pq p) = Some (Inr (x, q'))" "stands_for q' ts" "watchdog p \<le> w"
    using assms by (auto simp: stands_at_def)
  then show "\<exists>p'. on_queue m p = Some (Inr (x, p')) \<and> stands_at ts w p'
      \<and> parsing_states p' = parsing_states p \<and> pversion p' = pversion p"
    by (intro exI [of _ "p\<lparr>pq := q'\<rparr>"]) (auto simp: on_queue_Inr stands_at_def)
qed

lemma acts_peek [acts_intros]:
  "i < length ts \<Longrightarrow> acts (f (kind (ts ! i))) ts w x us v \<Longrightarrow> acts (pbind (p_peek i) f) ts w x us v"
  unfolding p_peek_def [abs_def] pbind_assoc pbind_pret
  by (erule acts_pbind [OF acts_on_queue, rotated]) (rule stands_for_peek)

text \<open>A function that stops with an error.\<close>

definition aborts :: "'a parse \<Rightarrow> token list \<Rightarrow> nat \<Rightarrow> parse_error \<Rightarrow> bool" where
  "aborts m ts w e \<longleftrightarrow> (\<forall>p. stands_at ts w p \<longrightarrow> m p = Some (Inl e))"

lemma aborts_first: "aborts m ts w e \<Longrightarrow> aborts (pbind m f) ts w e"
  by (simp add: aborts_def pbind_def)

lemma aborts_then: "acts m ts w x us v \<Longrightarrow> aborts (f x) us v e \<Longrightarrow> aborts (pbind m f) ts w e"
  by (fastforce simp: aborts_def acts_def pbind_def)

lemma aborts_cong: "(\<And>p. m p = m' p) \<Longrightarrow> aborts m' ts w e \<Longrightarrow> aborts m ts w e"
  by (simp add: aborts_def)

lemma acts_p_current_token: "w < 100 \<Longrightarrow> acts p_current_token ts w (kind (hd ts)) ts (Suc w)"
  using stands_at_hd by (fastforce simp: acts_def p_current_token_def Let_def stands_at_def)

lemma aborts_current_token:
  "w < 100 \<Longrightarrow> aborts (f (kind (hd ts))) ts (Suc w) e \<Longrightarrow> aborts (pbind p_current_token f) ts w e"
  by (rule aborts_then [OF acts_p_current_token])

lemma aborts_never: "aborts never_here ts w (Failed_assert ''we should never get here'')"
  by (simp add: aborts_def never_here_def)

section \<open>Resynchronisation on tokens\<close>

text \<open>Behind the parenthesis that closes the \<open>n\<close> open ones, or at the end of the file.\<close>

fun skip_par :: "nat \<Rightarrow> token list \<Rightarrow> token list" where
  "skip_par n [] = []"
| "skip_par n [t] = [t]"
| "skip_par n (t # u # ts) =
     (if kind t = tk_eof then t # u # ts
      else if kind t = tk_rightpar \<and> n = 1 then u # ts
      else skip_par (if kind t = tk_leftpar then n + 1 else if kind t = tk_rightpar then n - 1 else n) (u # ts))"

lemma of_nat_eq_0_small: "n < 2 ^ 32 \<Longrightarrow> (of_nat n :: u32) = 0 \<longleftrightarrow> n = 0"
  by (auto simp: word_of_nat_eq_0_iff dest: dvd_imp_le)

lemma check_rightpar_acts:
  "\<lbrakk>0 < n; n + length ts < 2 ^ 32; ts \<noteq> []; is_eof (last ts)\<rbrakk>
   \<Longrightarrow> acts (check_rightpar (of_nat n)) ts w () (skip_par n ts) w"
proof (induction n ts arbitrary: w rule: skip_par.induct)
  case (2 n t)
  show ?case
    by (rule acts_cong [OF check_rightpar.simps]) (intro acts_intros, use 2 in \<open>auto intro!: acts_pret\<close>)
next
  case (3 n t u ts)
  define m where "m = (if kind t = tk_leftpar then n + 1 else if kind t = tk_rightpar then n - 1 else n)"
  have m: "nests_after (kind t) (of_nat n) = of_nat m"
    using 3(2) by (auto simp: nests_after_def m_def of_nat_diff)
  have z: "(of_nat m :: u32) = 0 \<longleftrightarrow> m = 0"
    by (rule of_nat_eq_0_small) (use 3(3) in \<open>auto simp: m_def\<close>)
  have stop: "m = 0 \<longleftrightarrow> kind t = tk_rightpar \<and> n = 1" using 3(2) by (auto simp: m_def)
  have IH: "acts (check_rightpar (of_nat m)) (u # ts) 0 () (skip_par m (u # ts)) w"
    if "kind t \<noteq> tk_eof" "\<not> (kind t = tk_rightpar \<and> n = 1)"
  proof -
    have "0 < m" using stop that by (metis neq0_conv)
    moreover have "m + length (u # ts) < 2 ^ 32" using 3(3) by (auto simp: m_def split: if_splits)
    ultimately have "acts (check_rightpar (of_nat m)) (u # ts) 0 () (skip_par m (u # ts)) 0"
      using 3(1) [OF that, of 0] 3(5) by (simp add: m_def)
    then show ?thesis by (rule acts_mono) simp_all
  qed
  have spec: "skip_par n (t # u # ts) = (if kind t = tk_eof then t # u # ts
      else if m = 0 then u # ts else skip_par m (u # ts))"
    using stop 3(2) by (simp add: m_def)
  consider "kind t = tk_eof" | "kind t \<noteq> tk_eof" "m = 0" | "kind t \<noteq> tk_eof" "m \<noteq> 0" by blast
  then show ?case
  proof cases
    case 1
    show ?thesis
      by (rule acts_cong [OF check_rightpar.simps], rule acts_this_token) (simp add: 1 acts_pret)
  next
    case 2
    have k: "may_stop_rightpar (kind t)" using stop 2 by (simp add: may_stop_rightpar_def)
    have "acts p_skip (t # u # ts) w () (u # ts) w"
      using acts_mono [OF acts_p_skip [of "t # u # ts"], of w w w] by simp
    then show ?thesis
      by - (rule acts_cong [OF check_rightpar.simps], rule acts_this_token,
        use 2 m k in \<open>simp add: spec del: skip_par.simps\<close>)
  next
    case 3
    have "acts (pbind p_skip (\<lambda>_. check_rightpar (of_nat m))) (t # u # ts) w () (skip_par m (u # ts)) w"
      by (rule acts_skip) (use IH stop 3 in simp)
    then show ?thesis
      by - (rule acts_cong [OF check_rightpar.simps], rule acts_this_token,
        use 3 m z in \<open>simp add: spec del: skip_par.simps\<close>)
  qed
qed simp

fun to_semicolon :: "token list \<Rightarrow> token list" where
  "to_semicolon [] = []"
| "to_semicolon [t] = [t]"
| "to_semicolon (t # u # ts) =
     (if kind u \<in> {tk_semicolon, tk_eof} then u # ts else to_semicolon (u # ts))"

lemma resync_semicolon_acts:
  "ts \<noteq> [] \<Longrightarrow> is_eof (last ts) \<Longrightarrow> acts (resync_to_next_semicolon False) ts w () (to_semicolon ts) w"
proof (induction ts rule: to_semicolon.induct)
  case (2 t)
  show ?case
    by (rule acts_cong [OF resync_to_next_semicolon.simps])
      (rule acts_pbind [OF acts_p_scan], intro acts_intros, use 2 in \<open>auto intro!: acts_pret\<close>)
next
  case (3 t u ts)
  show ?case
    by (rule acts_cong [OF resync_to_next_semicolon.simps])
      (rule acts_pbind [OF acts_p_scan], intro acts_intros, use 3 in \<open>auto intro!: acts_pret\<close>)
qed simp

section \<open>The library clause\<close>

fun separated :: "token \<Rightarrow> token list \<Rightarrow> token list" where
  "separated c [] = []"
| "separated c [t] = [t]"
| "separated c (t # u # ts) = t # c # separated c (u # ts)"

lemma hd_separated: "ts \<noteq> [] \<Longrightarrow> hd (separated c ts @ us) = hd ts"
  by (induction ts rule: induct_list012) auto

lemma advance_Cons [simp]: "us \<noteq> [] \<Longrightarrow> advance_tokens (t # us) = us"
  by (cases us) auto

lemma acts_identifier:
  "kind (hd ts) = tk_identifier \<Longrightarrow> acts (parse_identifier msg) ts w (hd ts, True) (advance_tokens ts) 0"
  unfolding parse_identifier_def
  by (intro acts_intros; simp)

lemma library_names_step:
  assumes "kind t = tk_identifier" and "kind c = tk_comma" and "us \<noteq> []" and "kind (hd us) = tk_identifier"
    and "acts (library_names (names @ [t])) us 1 xs vs v" and "w < 90"
  shows "acts (library_names names) (t # c # us) w xs vs v"
  by (rule acts_cong [OF library_names.simps], unfold after_name_def)
    (intro acts_intros acts_pbind [OF acts_identifier]; use assms in simp)

lemma library_names_acts:
  assumes "kind c = tk_comma" and "kind s = tk_semicolon" and "rest1 \<noteq> []"
  shows "\<lbrakk>ids \<noteq> []; \<forall>t \<in> set ids. kind t = tk_identifier; w < 90\<rbrakk> \<Longrightarrow>
    acts (library_names names) (separated c ids @ s # rest1) w (names @ ids) (s # rest1) 10"
proof (induction ids arbitrary: names w rule: induct_list012)
  case (2 t)
  show ?case
    by (rule acts_cong [OF library_names.simps], unfold after_name_def)
      (intro acts_intros acts_pbind [OF acts_identifier], use 2 assms in \<open>simp_all add: acts_pret\<close>)
next
  case (3 t u ts)
  have "acts (library_names (names @ [t])) (separated c (u # ts) @ s # rest1) 1
      ((names @ [t]) @ u # ts) (s # rest1) 10"
    using 3(4) by (intro 3(2)) auto
  moreover have "kind (hd (separated c (u # ts) @ s # rest1)) = tk_identifier"
    using 3(4) by (subst hd_separated) auto
  moreover have "kind t = tk_identifier" using 3(4) by auto
  ultimately have "acts (library_names names) (t # c # separated c (u # ts) @ s # rest1) w
      ((names @ [t]) @ u # ts) (s # rest1) 10"
    by (intro library_names_step assms(1) 3(5)) auto
  then show ?case by (simp only: separated.simps append_Cons append_assoc append_Nil)
qed simp

text \<open>A library clause of any number of names is parsed to just these names.\<close>

lemma parse_library_clause_acts:
  assumes "kind l = kw_library" and "ids \<noteq> []" and "\<forall>t \<in> set ids. kind t = tk_identifier"
    and "kind c = tk_comma" and "kind s = tk_semicolon" and "rest1 \<noteq> []"
  shows "acts parse_library_clause (l # separated c ids @ s # rest1) w (Some (Library_clause ids)) rest1 0"
proof -
  have names: "acts (library_names []) (separated c ids @ s # rest1) 0 ids (s # rest1) 10"
    using library_names_acts [OF assms(4,5,6,2,3), of 0 "[]"] by simp
  have clause_end: "acts (pbind end_of_clause (\<lambda>_. pret (if ids = [] then None else Some (Library_clause ids))))
      (s # rest1) 10 (Some (Library_clause ids)) rest1 0"
    unfolding end_of_clause_def by (intro acts_intros; use assms in \<open>simp add: acts_pret\<close>)
  have "acts (pbind (library_names []) (\<lambda>names. pbind end_of_clause (\<lambda>_.
      pret (if names = [] then None else Some (Library_clause names)))))
      (separated c ids @ s # rest1) 0 (Some (Library_clause ids)) rest1 0"
    by (rule acts_pbind [OF names]) (rule clause_end)
  then show ?thesis
    unfolding parse_library_clause_def by (intro acts_consume) (simp_all add: assms(1))
qed

section \<open>A file of context clauses only\<close>

lemma is_end_design_file [simp]:
  "is_end_of_state k design_unit_in_design_file = pret (k = tk_eof)"
  by (simp add: is_end_of_state_def is_end_of_design_unit_in_design_file_def)

lemma lone_clause_context:
  assumes "kind l = kw_library" and "ids \<noteq> []" and "\<forall>t \<in> set ids. kind t = tk_identifier"
    and "kind c = tk_comma" and "kind s = tk_semicolon" and "is_eof e" and "w < 90"
  shows "acts (parse_context_clause nm) (l # separated c ids @ [s, e]) w [Library_clause ids] [e] 1"
proof -
  have last: "acts (context_items nm [Library_clause ids]) [e] 0 [Library_clause ids] [e] 1"
    by (rule acts_cong [OF context_items.simps]) (intro acts_intros; use assms in simp)
  have clause: "acts parse_library_clause (l # separated c ids @ [s, e]) (Suc (Suc w))
      (Some (Library_clause ids)) [e] 0"
    by (rule parse_library_clause_acts) (use assms in simp_all)
  have "acts (pbind parse_library_clause (\<lambda>c. context_items nm (push_some [] c)))
      (l # separated c ids @ [s, e]) (Suc (Suc w)) [Library_clause ids] [e] 1"
    by (rule acts_pbind [OF clause]) (simp add: push_some_def last [simplified])
  then show ?thesis
    unfolding parse_context_clause_def
    by - (rule acts_cong [OF context_items.simps], (intro acts_intros; use assms in simp))
qed

lemma lone_clause_unit:
  assumes "kind l = kw_library" and "ids \<noteq> []" and "\<forall>t \<in> set ids. kind t = tk_identifier"
    and "kind c = tk_comma" and "kind s = tk_semicolon" and "is_eof e" and "w < 90"
  shows "aborts (parse_design_unit g) (l # separated c ids @ [s, e]) w
      (Failed_assert ''we should never get here'')"
  unfolding parse_design_unit_def
proof (rule aborts_then [OF lone_clause_context [OF assms]], rule aborts_first)
  show "aborts (parse_unit g) [e] 1 (Failed_assert ''we should never get here'')"
    unfolding parse_unit_def
    by (rule aborts_current_token) (use assms(6) in \<open>simp_all add: aborts_never\<close>)
qed

section \<open>Properties\<close>

text \<open>A parser at the beginning of a text stands for the tokens of the text.\<close>

lemma parser_on_stands:
  assumes "take_next lex k (sample_lexer s NUL tk_eof) = Some (Inr (ts, lx))" and "ts \<noteq> []" and "is_eof (last ts)"
  shows "stands_at ts 0 (parser_on s)"
proof -
  have "stands_for (sample_queue s) (current_token (sample_queue s) # ts)"
    by (rule stands_for_new [OF sample_queue_ok])
      (use assms in \<open>simp_all add: sample_queue_def queue_new_def sample_simps\<close>)
  moreover have "advance_tokens (t # ts) = ts" for t using assms(2) by simp
  ultimately obtain t q where "scan (sample_queue s) = Some (Inr (t, q))" "stands_for q ts"
    using stands_for_scan by metis
  then show ?thesis by (simp add: stands_at_def parser_on_def)
qed

text \<open>C35. A file that consists of a library clause and no design unit does not come back with a diagnostic:
  \<open>parse_design_unit\<close> reaches the end of the file behind the context clause and fails its assertion.\<close>

theorem lone_context_clause_aborts:
  assumes "stands_for (pq p) (l # separated c ids @ [s, e])" and "watchdog p = 0"
    and "kind l = kw_library" and "ids \<noteq> []" and "\<forall>t \<in> set ids. kind t = tk_identifier"
    and "kind c = tk_comma" and "kind s = tk_semicolon" and "is_eof e"
  shows "parser_run g p = Some (Inl (Failed_assert ''we should never get here''))"
proof -
  define ts where "ts = l # separated c ids @ [s, e]"
  have hd: "kind (hd ts) = kw_library" by (simp add: ts_def assms)
  have begins: "is_begin_of_element_in_state kw_library design_unit_in_design_file"
    by (simp add: is_begin_of_element_in_state_def is_begin_element_of_design_unit_in_design_file_def)
  note unit = lone_clause_unit [OF assms(3-8), folded ts_def]
  have loop: "aborts (parse_many_loop design_unit_in_design_file (parse_design_unit g) []) ts 1
      (Failed_assert ''we should never get here'')"
    by (rule aborts_cong [OF parse_many_loop.simps])
      (simp add: hd begins aborts_current_token aborts_first unit)
  have many: "aborts (parse_many design_unit_in_design_file (parse_design_unit g)) ts 1
      (Failed_assert ''we should never get here'')"
    using loop unfolding parse_many_def Let_def aborts_def pbind_def stands_at_def by simp
  have "aborts (parse_design_file g) ts 0 (Failed_assert ''we should never get here'')"
    unfolding parse_design_file_def
    by (rule aborts_current_token) (use many in \<open>simp_all add: hd\<close>)
  moreover have "stands_at ts 0 p" using assms(1,2) by (simp add: stands_at_def ts_def)
  ultimately show ?thesis by (simp add: aborts_def parser_run_def)
qed


lemma sample_tokens:
  assumes "kinds_of (take_next lex k (sample_lexer s NUL tk_eof)) = kvs" and "kvs \<noteq> []"
    and "fst (last kvs) = tk_eof"
  shows "\<exists>ts. stands_at ts 0 (parser_on s) \<and> map (\<lambda>t. (kind t, val t)) ts = kvs"
proof -
  obtain ts lx where t: "take_next lex k (sample_lexer s NUL tk_eof) = Some (Inr (ts, lx))"
    and m: "map (\<lambda>t. (kind t, val t)) ts = kvs" using kinds_of_Some [OF assms(1,2)] by blast
  have ne: "ts \<noteq> []" using m assms(2) by auto
  then have "is_eof (last ts)" using assms(3) by (simp add: m [symmetric] last_map)
  then show ?thesis using parser_on_stands [OF t ne] m by blast
qed

theorem lone_context_clause_aborts_witness:
  "\<forall>g :: (unit, unit) grammar. parser_run g (parser_on ''library ieee ;'')
     = Some (Inl (Failed_assert ''we should never get here''))"
proof -
  have "kinds_of (take_next lex 4 (sample_lexer ''library ieee ;'' NUL tk_eof))
      = [(kw_library, ''library''), (tk_identifier, ''ieee''), (tk_semicolon, '';''), (tk_eof, [])]"
    by code_simp
  from sample_tokens [OF this] obtain t0 t1 t2 t3
    where p: "stands_at [t0, t1, t2, t3] 0 (parser_on ''library ieee ;'')"
      and k: "kind t0 = kw_library" "kind t1 = tk_identifier" "kind t2 = tk_semicolon" "kind t3 = tk_eof"
    by (auto simp: map_eq_Cons_conv)
  show ?thesis
    by (intro allI, rule lone_context_clause_aborts
        [where l = t0 and ids = "[t1]" and c = "token_default\<lparr>kind := tk_comma\<rparr>" and s = t2 and e = t3])
      (use p k in \<open>simp_all add: stands_at_def\<close>)
qed

text \<open>A library clause of any number of names, separated by commas and ended by a semicolon, is parsed
  to exactly these names, in their order, and the parser stands behind the semicolon.\<close>

theorem library_clause_names:
  assumes "stands_for (pq p) (l # separated c ids @ s # rest1)" and "kind l = kw_library"
    and "ids \<noteq> []" and "\<forall>t \<in> set ids. kind t = tk_identifier"
    and "kind c = tk_comma" and "kind s = tk_semicolon" and "rest1 \<noteq> []"
  shows "\<exists>p'. parse_library_clause p = Some (Inr (Some (Library_clause ids), p'))
    \<and> stands_for (pq p') rest1 \<and> watchdog p' = 0"
  using parse_library_clause_acts [OF assms(2-7), of "watchdog p"] assms(1)
  by (auto simp: acts_def stands_at_def)

theorem library_clause_names_witness:
  "\<exists>t u p'. (parse_library_clause :: unit context_item option parse) (parser_on ''library ieee, my; use'')
      = Some (Inr (Some (Library_clause [t, u]), p')) \<and> val t = ''ieee'' \<and> val u = ''my''
    \<and> p_kind p' = kw_use"
proof -
  have "kinds_of (take_next lex 7 (sample_lexer ''library ieee, my; use'' NUL tk_eof))
      = [(kw_library, ''library''), (tk_identifier, ''ieee''), (tk_comma, '',''), (tk_identifier, ''my''),
         (tk_semicolon, '';''), (kw_use, ''use''), (tk_eof, [])]"
    by code_simp
  from sample_tokens [OF this] obtain t0 t1 t2 t3 t4 t5 t6
    where p: "stands_for (pq (parser_on ''library ieee, my; use'')) (t0 # separated t2 [t1, t3] @ t4 # [t5, t6])"
      and k: "kind t0 = kw_library" "kind t1 = tk_identifier" "kind t2 = tk_comma" "kind t3 = tk_identifier"
        "kind t4 = tk_semicolon" "kind t5 = kw_use" "val t1 = ''ieee''" "val t3 = ''my''"
    by (auto simp: map_eq_Cons_conv stands_at_def)
  obtain p' where "(parse_library_clause :: unit context_item option parse) (parser_on ''library ieee, my; use'')
      = Some (Inr (Some (Library_clause [t1, t3]), p'))" "stands_for (pq p') [t5, t6]"
    using library_clause_names [OF p] k by auto
  then show ?thesis using k stands_for_simps(1) by fastforce
qed

text \<open>The name behind \<open>end\<close> is not checked: for every label the parser makes (its kind is \<open>identifier\<close>)
  and every version, \<open>parse_optional_closing_label\<close> skips an identifier and says nothing, whatever its
  spelling.\<close>

theorem closing_label_unchecked:
  assumes "kind name = tk_identifier"
  shows "parse_optional_closing_label name
    = pbind p_current_token (\<lambda>k. if k = tk_identifier then p_skip else pret ())"
proof -
  have "pbind this_version (\<lambda>v. pbind (if version_number v < version_number vhdl87
      then say End_name_not_allowed_vhdl87 [] else pret ()) (\<lambda>_. pbind this_token (\<lambda>t.
      pbind (if val t \<noteq> val name \<and> kind name \<noteq> tk_identifier
        then say End_name_misspelling [Arg_string (val name)] else pret ()) (\<lambda>_. p_skip)))) = p_skip"
    by (rule ext) (simp add: assms)
  then show ?thesis unfolding parse_optional_closing_label_def by (simp only:)
qed

theorem closing_label_unchecked_witness:
  "parse_optional_closing_label (plain tk_identifier ''rtl'')
    = pbind p_current_token (\<lambda>k. if k = tk_identifier then p_skip else pret ())"
  by (rule closing_label_unchecked) (simp add: plain_def)

text \<open>\<open>resync_to_end_of_rightpar\<close> with \<open>n\<close> parentheses open goes behind the one that closes the last of
  them, and nothing else stops it: the keywords and the semicolon it lists as stopping places never do,
  so without a right parenthesis it runs to the end of the file.\<close>

theorem rightpar_resync:
  assumes "stands_for (pq p) ts" and "0 < n" and "n + length ts < 2 ^ 32"
  shows "\<exists>p'. resync_to_end_of_rightpar (of_nat n) p = Some (Inr ((), p'))
    \<and> stands_for (pq p') (skip_par n ts)
    \<and> ((\<forall>t \<in> set ts. kind t \<noteq> tk_rightpar) \<longrightarrow> p_kind p' = tk_eof)"
proof -
  have ts: "ts \<noteq> []" "is_eof (last ts)" using stands_for_simps [OF assms(1)] by auto
  have "(of_nat n :: u32) \<noteq> 0" using of_nat_eq_0_small [of n] assms(2,3) by simp
  then have "acts (resync_to_end_of_rightpar (of_nat n)) ts (watchdog p) () (skip_par n ts) (watchdog p)"
    unfolding resync_to_end_of_rightpar_def
    using check_rightpar_acts [OF assms(2,3) ts] by simp
  moreover have "kind (hd (skip_par n ts)) = tk_eof" if "\<forall>t \<in> set ts. kind t \<noteq> tk_rightpar"
    using that ts by (induction n ts rule: skip_par.induct) auto
  ultimately show ?thesis
    using assms(1) stands_for_simps(1) by (fastforce simp: acts_def stands_at_def)
qed

theorem rightpar_resync_witness:
  "\<exists>p'. resync_to_end_of_rightpar 1 (parser_on ''a ; end ; begin bb'') = Some (Inr ((), p'))
    \<and> p_kind p' = tk_eof"
proof -
  have "kinds_of (take_next lex 7 (sample_lexer ''a ; end ; begin bb'' NUL tk_eof))
      = [(tk_identifier, ''a''), (tk_semicolon, '';''), (kw_end, ''end''), (tk_semicolon, '';''),
         (kw_begin, ''begin''), (tk_identifier, ''bb''), (tk_eof, [])]"
    by code_simp
  from sample_tokens [OF this] obtain t0 t1 t2 t3 t4 t5 t6
    where p: "stands_for (pq (parser_on ''a ; end ; begin bb'')) [t0, t1, t2, t3, t4, t5, t6]"
      and k: "kind t0 = tk_identifier" "kind t1 = tk_semicolon" "kind t2 = kw_end" "kind t3 = tk_semicolon"
        "kind t4 = kw_begin" "kind t5 = tk_identifier" "kind t6 = tk_eof"
    by (auto simp: map_eq_Cons_conv stands_at_def)
  show ?thesis using rightpar_resync [OF p, of 1] k by auto
qed

end
