(* ===== verification/Parser_Control.thy ===== *)
theory Parser_Control
  imports Parser_Steps
begin

text \<open>
  Control structures of the grammar functions: their loops, the lookahead \<open>look_for\<close>, a checkpoint
  held by a scope guard, and what lets a family of functions that call each other be defined as one
  \<open>partial_function\<close>: every construct is monotone in the functions it calls.
\<close>

section \<open>Loops\<close>

text \<open>
  A loop with the state \<open>s\<close>: the body returns \<open>Inl s'\<close> to go round again and \<open>Inr x\<close> to leave the
  loop, or the function, with \<open>x\<close>. A loop that does not end is \<open>None\<close>.
\<close>

partial_function (option) p_loop ::
    "('s \<Rightarrow> parser \<Rightarrow> (parse_error, ('s + 'a) \<times> parser) outcome) \<Rightarrow> 's
     \<Rightarrow> parser \<Rightarrow> (parse_error, 'a \<times> parser) outcome" where
  "p_loop body s p0 =
     obind (body s p0) (\<lambda>(r, p).
       case r of Inl s' \<Rightarrow> p_loop body s' p | Inr x \<Rightarrow> pret x p)"

declare p_loop.simps [code]

lemma p_loop_unfold:
  "p_loop body s = pbind (body s) (\<lambda>r. case r of Inl s' \<Rightarrow> p_loop body s' | Inr x \<Rightarrow> pret x)"
  by (rule ext, subst p_loop.simps) (auto simp: pbind_def intro!: arg_cong2 [of _ _ _ _ obind] split: sum.split)

lemma p_loop_runs:
  assumes "\<And>m s K. \<lbrakk>m \<le> n; \<And>j s' L. j < m \<Longrightarrow> runs L j (p_loop body s') m\<rbrakk> \<Longrightarrow>
    runs K m (pbind (body s) (\<lambda>r. case r of Inl s' \<Rightarrow> p_loop body s' | Inr x \<Rightarrow> pret x)) m"
  shows "runs K n (p_loop body s) n"
  using assms
proof (induction n arbitrary: s K rule: less_induct)
  case (less n)
  have "runs L j (p_loop body s') n" if "j < n" for j s' L
    by (rule runs_mono [OF less.IH [OF that]]) (use that less.prems in auto)
  then show ?case
    unfolding p_loop_unfold [of body s] using less.prems by simp
qed

lemma runs_case_sum [runs_intros]:
  "runs K n (f s) k \<Longrightarrow> runs K n (case Inl s of Inl s \<Rightarrow> f s | Inr x \<Rightarrow> g x) k"
  "runs K n (g x) k \<Longrightarrow> runs K n (case Inr x of Inl s \<Rightarrow> f s | Inr x \<Rightarrow> g x) k"
  by simp_all

lemma acts_loop:
  "acts (pbind (body s) (\<lambda>r. case r of Inl s' \<Rightarrow> p_loop body s' | Inr x \<Rightarrow> pret x)) ts w x us v
   \<Longrightarrow> acts (p_loop body s) ts w x us v"
  by (simp add: p_loop_unfold [symmetric])

lemma acts_case_sum [acts_intros]:
  "acts (f s) ts w x us v \<Longrightarrow> acts (case Inl s of Inl s \<Rightarrow> f s | Inr x \<Rightarrow> g x) ts w x us v"
  "acts (g y) ts w x us v \<Longrightarrow> acts (case Inr y of Inl s \<Rightarrow> f s | Inr x \<Rightarrow> g x) ts w x us v"
  by simp_all

section \<open>Lists whose elements stand still\<close>

text \<open>
  \<open>runs_on S W\<close> is \<open>runs\<close> where the watchdog is at least at \<open>W\<close> and \<open>S\<close> holds, which a parser must
  keep. An element that leaves the tokens as they are but looks at the current one brings the list
  nearer to the watchdog's limit.
\<close>

definition lasting :: "(parser \<Rightarrow> bool) \<Rightarrow> bool" where
  "lasting S \<longleftrightarrow> (\<forall>p p'. S p \<longrightarrow> kept p p' \<longrightarrow> S p')"

lemma lasting_True [simp]: "lasting (\<lambda>_. True)"
  by (simp add: lasting_def)

definition runs_on :: "(parser \<Rightarrow> bool) \<Rightarrow> nat \<Rightarrow> kind_t option \<Rightarrow> nat \<Rightarrow> 'a parse \<Rightarrow> nat \<Rightarrow> bool" where
  "runs_on S W K n m k \<longleftrightarrow> (\<forall>p. ready_for K n p \<and> W \<le> watchdog p \<and> S p \<longrightarrow> returns (m p)
     \<and> (\<forall>x p'. m p = Some (Inr (x, p')) \<longrightarrow> ready_for None k p' \<and> kept p p'))"

lemma not_ready_0: "c \<noteq> tk_eof \<Longrightarrow> \<not> ready_for (Some c) 0 p"
  by (auto simp: ready_for_def p_left_def fp_left_def)

lemma runs_on_runs: "runs K n m k \<Longrightarrow> runs_on S W K n m k"
  unfolding runs_def runs_on_def by blast

lemma runs_on_True: "runs_on (\<lambda>_. True) 0 K n m k = runs K n m k"
  by (simp add: runs_def runs_on_def)

lemma runs_on_cong: "(\<And>p. m p = m' p) \<Longrightarrow> runs_on S W K n m' k \<Longrightarrow> runs_on S W K n m k"
  by (simp add: runs_on_def)

lemma runs_on_mono: "runs_on S W K n m k \<Longrightarrow> n' \<le> n \<Longrightarrow> k \<le> k' \<Longrightarrow> W \<le> W' \<Longrightarrow> runs_on S W' K n' m k'"
  unfolding runs_on_def ready_for_def by (meson order_trans)

lemma runs_on_step:
  assumes S: "lasting S"
    and "\<And>p. \<lbrakk>ready_for K n p; W \<le> watchdog p; S p\<rbrakk> \<Longrightarrow> returns (m p)"
    and "\<And>p x p'. \<lbrakk>ready_for K n p; W \<le> watchdog p; S p; m p = Some (Inr (x, p'))\<rbrakk>
      \<Longrightarrow> kept p p' \<and> (\<exists>W' K' n'. ready_for K' n' p' \<and> W' \<le> watchdog p' \<and> runs_on S W' K' n' (f x) k)"
  shows "runs_on S W K n (pbind m f) k"
  unfolding runs_on_def
proof (intro allI impI conjI)
  fix p assume p: "ready_for K n p \<and> W \<le> watchdog p \<and> S p"
  have next_step: "kept p p1 \<and> returns (f x p1)
      \<and> (\<forall>y p'. f x p1 = Some (Inr (y, p')) \<longrightarrow> ready_for None k p' \<and> kept p1 p')"
    if m: "m p = Some (Inr (x, p1))" for x p1
  proof -
    obtain W' K' n' where k: "kept p p1" and r: "ready_for K' n' p1" "W' \<le> watchdog p1"
      and f: "runs_on S W' K' n' (f x) k"
      using assms(3) [OF _ _ _ m] p by blast
    have "S p1" using S p k by (auto simp: lasting_def)
    then show ?thesis using f k r unfolding runs_on_def by blast
  qed
  show "returns (pbind m f p)"
    unfolding pbind_def
    by (rule returns_obind) (use assms(2) p next_step in auto)
  show "\<And>x p'. pbind m f p = Some (Inr (x, p')) \<Longrightarrow> ready_for None k p'"
    "\<And>x p'. pbind m f p = Some (Inr (x, p')) \<Longrightarrow> kept p p'"
    using next_step kept_trans by (fastforce simp: pbind_Inr)+
qed

lemma runs_on_bind:
  assumes "lasting S" and m: "runs_on S W K n m n'" and f: "\<And>x. runs_on S 0 None n' (f x) k"
  shows "runs_on S W K n (pbind m f) k"
proof (rule runs_on_step [OF assms(1)], goal_cases)
  case (2 p x p')
  then have "ready_for None n' p' \<and> kept p p'" using m by (simp add: runs_on_def)
  then show ?case using f by blast
qed (use m in \<open>simp add: runs_on_def\<close>)

lemma runs_on_current_token:
  assumes "lasting S" and "\<And>c. (\<forall>d. K = Some d \<longrightarrow> c = d) \<Longrightarrow> runs_on S (Suc W) (Some c) n (f c) k"
  shows "runs_on S W K n (pbind p_current_token f) k"
proof (rule runs_on_step [OF assms(1)], goal_cases)
  case (2 p x p')
  then have "x = p_kind p" "p' = p\<lparr>watchdog := watchdog p + 1\<rparr>"
    by (auto simp: p_current_token_def Let_def split: if_splits)
  moreover have "ready_for (Some (p_kind p)) n p" "\<forall>d. K = Some d \<longrightarrow> p_kind p = d"
    using 2 by (auto simp: ready_for_def)
  ultimately show ?case using assms(2) [of "p_kind p"] 2(2)
    by (intro conjI exI [of _ "Suc W"] exI [of _ "Some (p_kind p)"] exI [of _ n]) simp_all
qed (auto simp: p_current_token_def Let_def)

lemma runs_on_limit: "100 \<le> W \<Longrightarrow> runs_on S W K n (pbind p_current_token f) k"
  by (auto simp: runs_on_def pbind_def p_current_token_def Let_def returns_def)

lemma runs_on_looks:
  assumes "lasting S" and "looks m" and "\<And>x. (\<exists>p p'. m p = Some (Inr (x, p'))) \<Longrightarrow> runs_on S W K n (f x) k"
  shows "runs_on S W K n (pbind m f) k"
proof (rule runs_on_step [OF assms(1)], goal_cases)
  case (2 p x p')
  then obtain w where "watchdog p \<le> w" "p' = p\<lparr>watchdog := w\<rparr>" using assms(2) unfolding looks_def by blast
  then have "kept p p'" "ready_for K n p'" "W \<le> watchdog p'" using 2 by simp_all
  then show ?case using assms(3) 2(4) by blast
qed (use assms(2) in \<open>simp add: looks_def\<close>)

lemma runs_on_if:
  "(b \<Longrightarrow> runs_on S W K n m k) \<Longrightarrow> (\<not> b \<Longrightarrow> runs_on S W K n m' k) \<Longrightarrow> runs_on S W K n (if b then m else m') k"
  by simp

lemma runs_on_is_end:
  assumes "lasting S" and "\<And>e. (\<not> e \<Longrightarrow> c \<noteq> tk_eof) \<Longrightarrow> runs_on S W K n (f e) k"
  shows "runs_on S W K n (pbind (is_end_of_state c st) f) k"
  by (rule runs_on_looks [OF assms(1) looks_is_end]) (auto simp: is_end_of_state_def intro!: assms(2) split: if_splits)

definition stands_still :: "'a parse \<Rightarrow> kind_t \<Rightarrow> nat \<Rightarrow> bool" where
  "stands_still m c n \<longleftrightarrow> (\<forall>p. ready_for (Some c) n p \<longrightarrow> returns (m p)
     \<and> (\<forall>x p'. m p = Some (Inr (x, p')) \<longrightarrow> ready_for None n p' \<and> kept p p' \<and> watchdog p \<le> watchdog p'))"

text \<open>What only looks and says: the current token stays, and the watchdog is not reset.\<close>

definition patient :: "'a parse \<Rightarrow> bool" where
  "patient m \<longleftrightarrow> (\<forall>p K n. ready_for K n p \<longrightarrow> returns (m p)
     \<and> (\<forall>x p'. m p = Some (Inr (x, p')) \<longrightarrow> ready_for K n p' \<and> kept p p' \<and> watchdog p \<le> watchdog p'))"

named_theorems patient_intros "one rule for each construct that only looks and says"

lemma patientD:
  assumes "patient m" and "ready_for K n p"
  shows "returns (m p)"
    and "m p = Some (Inr (x, p')) \<Longrightarrow> ready_for K n p' \<and> kept p p' \<and> watchdog p \<le> watchdog p'"
  using assms by (simp_all add: patient_def)

lemma patient_still: "patient m \<Longrightarrow> stands_still m c n"
proof -
  assume m: "patient m"
  have "ready_for None n p" if "ready_for (Some c) n p" for p using that by (simp add: ready_for_def)
  then show ?thesis unfolding stands_still_def using patientD [OF m, of "Some c" n] by metis
qed

lemma patient_bind:
  assumes m: "patient m" and f: "\<And>x. patient (f x)"
  shows "patient (pbind m f)"
  unfolding patient_def
proof (intro allI impI conjI)
  fix p K n assume p: "ready_for K n p"
  show "returns (pbind m f p)"
    unfolding pbind_def
  proof (rule returns_obind, rule patientD(1) [OF m p])
    fix xp assume "m p = Some (Inr xp)"
    moreover obtain x p1 where "xp = (x, p1)" by (cases xp)
    ultimately show "returns (case xp of (x, p) \<Rightarrow> f x p)"
      using patientD(1) [OF f, of K n p1] patientD(2) [OF m p, of x p1] by simp
  qed
  fix x p' assume "pbind m f p = Some (Inr (x, p'))"
  then obtain y p1 where 1: "m p = Some (Inr (y, p1))" and 2: "f y p1 = Some (Inr (x, p'))"
    by (auto simp: pbind_Inr)
  note first = patientD(2) [OF m p 1]
  note second = patientD(2) [OF f _ 2, of K n]
  show "ready_for K n p'" "watchdog p \<le> watchdog p'" using first second by auto
  show "kept p p'" using first second kept_trans by blast
qed

lemma patient_looks: "looks m \<Longrightarrow> patient m"
proof -
  assume m: "looks m"
  have "ready_for K n p' \<and> kept p p' \<and> watchdog p \<le> watchdog p'"
    if p: "ready_for K n p" and x: "m p = Some (Inr (x, p'))" for K n p x p'
  proof -
    obtain w where "watchdog p \<le> w" "p' = p\<lparr>watchdog := w\<rparr>" using m x unfolding looks_def by meson
    then show ?thesis using p by simp
  qed
  then show ?thesis using m by (simp add: patient_def looks_def)
qed

lemma patient_reads [patient_intros]:
  "patient (pret x)" "patient p_current_token" "patient (say msg args)"
  "patient this_location" "patient previous_location" "patient this_version" "patient this_token"
proof -
  show "patient (pret x)" "patient p_current_token" by (simp_all add: patient_looks)
  have "watchdog (p_diag msg args p) = watchdog p" for p by (simp add: p_diag_def p_diag_at_def)
  then show "patient (say msg args)" by (auto simp: patient_def say_def)
  show "patient this_location" "patient previous_location" "patient this_version" "patient this_token"
    by (simp_all add: patient_def this_location_def previous_location_def this_version_def this_token_def)
qed

lemma patient_peek [patient_intros]: "patient (p_peek i)"
  unfolding patient_def
proof (intro allI impI conjI)
  fix p K n assume p: "ready_for K n p"
  then have "good_queue (pq p)" by (simp add: ready_for_def p_good_def)
  then show "returns (p_peek i p)"
    unfolding p_peek_def pbind_def by (intro returns_obind returns_on_queue peek_good(1)) auto
  fix x p' assume "p_peek i p = Some (Inr (x, p'))"
  then obtain t q where "peek i (pq p) = Some (Inr (t, q))" "p' = p\<lparr>pq := q\<rparr>"
    by (auto simp: p_peek_def pbind_def obind_Inr_iff on_queue_Inr)
  then show "ready_for K n p'" "kept p p'" "watchdog p \<le> watchdog p'"
    using peek_ready [OF p] by simp_all
qed

lemma patient_if [patient_intros]: "(b \<Longrightarrow> patient m) \<Longrightarrow> (\<not> b \<Longrightarrow> patient m') \<Longrightarrow> patient (if b then m else m')"
  by simp

lemma still_location: "(\<And>l. stands_still (f l) c n) \<Longrightarrow> stands_still (pbind this_location f) c n"
  by (simp add: stands_still_def pbind_def this_location_def pret_def obind_def)

lemma still_current:
  assumes "patient (f c)"
  shows "stands_still (pbind p_current_token f) c n"
  unfolding stands_still_def
proof (intro allI impI conjI)
  fix p assume p: "ready_for (Some c) n p"
  then have k: "p_kind p = c" by (simp add: ready_for_def)
  note f = patientD [OF assms, of "Some c" n "p\<lparr>watchdog := Suc (watchdog p)\<rparr>"]
  show "returns (pbind p_current_token f p)"
    using f(1) p k by (simp add: pbind_def p_current_token_def Let_def returns_def obind_def)
  fix x p' assume "pbind p_current_token f p = Some (Inr (x, p'))"
  then have "f c (p\<lparr>watchdog := Suc (watchdog p)\<rparr>) = Some (Inr (x, p'))"
    using k by (auto simp: pbind_Inr p_current_token_def Let_def split: if_splits)
  from f(2) [OF _ this] p have r: "ready_for (Some c) n p'" "kept (p\<lparr>watchdog := Suc (watchdog p)\<rparr>) p'"
    "Suc (watchdog p) \<le> watchdog p'" by simp_all
  then show "ready_for None n p'" "watchdog p \<le> watchdog p'" by (simp_all add: ready_for_def)
  show "kept p p'" using r(2) kept_watchdog kept_trans by blast
qed

text \<open>An element parser that uses up a token or stands still.\<close>

definition element_fair :: "parsing_state \<Rightarrow> 'a parse \<Rightarrow> nat \<Rightarrow> bool" where
  "element_fair st fn n \<longleftrightarrow> (\<forall>c m. is_begin_of_element_in_state c st \<longrightarrow> m \<le> n \<longrightarrow>
     runs (Some c) m fn (m - 1) \<or> stands_still fn c m)"

lemma element_ok_fair: "element_ok st fn n \<Longrightarrow> element_fair st fn n"
  by (simp add: element_ok_def element_fair_def)

lemma element_fair_mono: "element_fair st fn n \<Longrightarrow> m \<le> n \<Longrightarrow> element_fair st fn m"
  by (simp add: element_fair_def)

text \<open>What both come to: a token is used up, or the watchdog has not been set back.\<close>

definition goes_on :: "(parser \<Rightarrow> bool) \<Rightarrow> 'a parse \<Rightarrow> kind_t \<Rightarrow> nat \<Rightarrow> bool" where
  "goes_on S m c n \<longleftrightarrow> (\<forall>p. ready_for (Some c) n p \<and> S p \<longrightarrow> returns (m p)
     \<and> (\<forall>x p'. m p = Some (Inr (x, p')) \<longrightarrow> kept p p'
          \<and> (ready_for None (n - 1) p' \<or> ready_for None n p' \<and> watchdog p \<le> watchdog p')))"

definition element_goes_on :: "(parser \<Rightarrow> bool) \<Rightarrow> parsing_state \<Rightarrow> 'a parse \<Rightarrow> nat \<Rightarrow> bool" where
  "element_goes_on S st fn n \<longleftrightarrow> (\<forall>c m. is_begin_of_element_in_state c st \<longrightarrow> m \<le> n \<longrightarrow> goes_on S fn c m)"

lemma element_fair_goes_on: "element_fair st fn n \<Longrightarrow> element_goes_on S st fn n"
  unfolding element_fair_def element_goes_on_def goes_on_def runs_def stands_still_def by blast

lemma element_goes_on_mono: "element_goes_on S st fn n \<Longrightarrow> m \<le> n \<Longrightarrow> element_goes_on S st fn m"
  by (simp add: element_goes_on_def)

lemma runs_on_goes_on:
  assumes "lasting S" and "goes_on S m c n"
    and "\<And>x. runs_on S 0 None (n - 1) (f x) k" and "\<And>x. runs_on S W None n (f x) k"
  shows "runs_on S W (Some c) n (pbind m f) k"
proof (rule runs_on_step [OF assms(1)], goal_cases)
  case (2 p x p')
  then have "kept p p'" and "ready_for None (n - 1) p' \<or> ready_for None n p' \<and> W \<le> watchdog p'"
    using assms(2) unfolding goes_on_def by (blast intro: order_trans)+
  then show ?case using assms(3,4) by blast
qed (use assms(2) in \<open>simp add: goes_on_def\<close>)

lemma parse_many_loop_on:
  assumes S: "lasting S"
  shows "element_goes_on S st fn n \<Longrightarrow> runs_on S 0 None n (parse_many_loop st fn xs) n"
proof (induction n arbitrary: xs rule: less_induct)
  case (less n)
  have IH: "0 < n \<Longrightarrow> runs_on S 0 None (n - 1) (parse_many_loop st fn ys) n" for ys
    by (rule runs_on_mono [OF less.IH [of "n - 1"]]) (use less.prems in \<open>auto intro: element_goes_on_mono\<close>)
  have "runs_on S W None n (parse_many_loop st fn ys) n" for W ys
  proof (induction "100 - W" arbitrary: W ys rule: less_induct)
    case (less W)
    show ?case
    proof (cases "100 \<le> W")
      case True
      then show ?thesis by (intro runs_on_cong [OF parse_many_loop.simps] runs_on_limit)
    next
      case False
      have skip: "runs_on S V (Some c) n (pbind (is_valid_in_parsing_states c)
          (\<lambda>valid. if valid then pret ys
             else pbind (skip_with (''Skipping '{}'' @ [CHR 0x27])) (\<lambda>_. parse_many_loop st fn ys))) n"
        if "c \<noteq> tk_eof" for V c
      proof (cases "n = 0")
        case True
        then show ?thesis by (simp add: runs_on_def not_ready_0 that)
      next
        case False
        have skips: "runs (Some c) n (skip_with msg) (n - 1)" for msg
          unfolding skip_with_def by (intro runs_intros runs_mono [OF runs_p_skip order_refl]) (use that in auto)
        show ?thesis
          unfolding is_valid_in_parsing_states_def
          by (intro runs_on_looks [OF S looks_valid] runs_on_if runs_on_runs [OF runs_pret]
              runs_on_bind [OF S runs_on_runs [OF skips]])
            (use IH False in simp_all)
      qed
      have element: "runs_on S (Suc (Suc W)) (Some d) n (pbind fn (\<lambda>e. parse_many_loop st fn (push_some ys e))) n"
        if d: "is_begin_of_element_in_state d st" for d
      proof (cases "n = 0")
        case True
        then show ?thesis by (simp add: runs_on_def not_ready_0 begin_not_eof [OF d])
      next
        case n: False
        have fn: "goes_on S fn d n" using \<open>element_goes_on S st fn n\<close> d by (simp add: element_goes_on_def)
        show ?thesis
          by (rule runs_on_goes_on [OF S fn]) (use IH n less.hyps [of "Suc (Suc W)"] False in simp_all)
      qed
      show ?thesis
        by (intro runs_on_cong [OF parse_many_loop.simps] runs_on_current_token [OF S] runs_on_is_end [OF S] runs_on_if
            runs_on_runs [OF runs_pret])
          (use element skip in auto)
    qed
  qed
  then show ?case by blast
qed

lemma parse_many_on:
  assumes S: "lasting S" and st: "\<And>p A. S (p\<lparr>parsing_states := A\<rparr>) = S p" and "element_goes_on S st fn n"
  shows "runs_on S 0 K n (parse_many st fn) n"
  unfolding runs_on_def
proof (intro allI impI)
  fix p assume p: "ready_for K n p \<and> 0 \<le> watchdog p \<and> S p"
  define p0 where "p0 = p\<lparr>parsing_states := insert st (parsing_states p)\<rparr>"
  have r: "ready_for None n p0 \<and> S p0"
    using p st by (simp add: p0_def ready_for_def p_good_def p_left_def)
  have loop: "returns (parse_many_loop st fn [] p0)
      \<and> (\<forall>x p'. parse_many_loop st fn [] p0 = Some (Inr (x, p')) \<longrightarrow> ready_for None n p' \<and> kept p0 p')"
    using parse_many_loop_on [OF S assms(3)] r unfolding runs_on_def by simp
  show "returns (parse_many st fn p) \<and> (\<forall>x p'. parse_many st fn p = Some (Inr (x, p'))
      \<longrightarrow> ready_for None n p' \<and> kept p p')"
    unfolding parse_many_def Let_def p0_def [symmetric] pbind_def
    using loop by (auto simp: obind_Inr_iff p0_def ready_for_def p_good_def p_left_def kept_def intro!: returns_obind)
qed

lemma parse_many_loop_fair: "element_fair st fn n \<Longrightarrow> runs None n (parse_many_loop st fn xs) n"
  using parse_many_loop_on [OF lasting_True element_fair_goes_on] runs_on_True by blast

lemma parse_many_fair: "element_fair st fn n \<Longrightarrow> runs K n (parse_many st fn) n"
  unfolding parse_many_def Let_def
  by (rule runs_state [where m = "parse_many_loop st fn"]) (rule parse_many_loop_fair)

lemmas parse_many_fair_bind = parse_many_fair [THEN runs_pbind]

section \<open>Looking ahead\<close>

definition p_look_for :: "look_params \<Rightarrow> bool parse" where
  "p_look_for param = on_queue (look_for param)"

lemma look_for_loop_onward:
  assumes "good_queue q" and "look_for_loop param n nest q = Some (Inr (b, q'))"
  shows "good_queue q' \<and> same_tokens q q' \<and> onward q q'"
proof -
  have "\<forall>b q'. good_queue q \<longrightarrow> r = Inr (b, q') \<longrightarrow>
      good_queue q' \<and> same_tokens q q' \<and> onward q q'"
    if "look_for_loop param n nest q = Some r" for r
    using that
  proof (rule look_for_loop.raw_induct [rotated], goal_cases)
    case (1 loop param n nest q r)
    show ?case
    proof (intro allI impI)
      fix b q' assume good: "good_queue q" and r: "r = Inr (b, q')"
      obtain t q1 where pk: "peek n q = Some (Inr (t, q1))"
        using 1(2) r by (auto simp: obind_Inr_iff)
      have q1: "good_queue q1 \<and> same_tokens q q1 \<and> onward q q1"
        using peek_good(2) [OF good pk] peek_same [OF pk] onward_peek [OF good pk] by simp
      have step: "good_queue q' \<and> same_tokens q1 q' \<and> onward q1 q'"
        if "loop param m i q1 = Some (Inr (b, q'))" for m i
        using 1(1) [OF that] q1 by blast
      have "q' = q1 \<or> (\<exists>m i. loop param m i q1 = Some (Inr (b, q')))"
        using 1(2) unfolding r pk by (auto simp: Let_def split: if_splits)
      then show "good_queue q' \<and> same_tokens q q' \<and> onward q q'"
        using q1 step onward_trans same_tokens_trans by metis
    qed
  qed
  then show ?thesis using assms by blast
qed

lemma look_for_loop_ok:
  assumes "queue_ok q" and "look_for_loop param n nest q = Some (Inr (b, q'))"
  shows "queue_ok q'"
proof -
  have "\<forall>b q'. queue_ok q \<longrightarrow> r = Inr (b, q') \<longrightarrow> queue_ok q'"
    if "look_for_loop param n nest q = Some r" for r
    using that
  proof (rule look_for_loop.raw_induct [rotated], goal_cases)
    case (1 loop param n nest q r)
    show ?case
    proof (intro allI impI)
      fix b q' assume ok: "queue_ok q" and r: "r = Inr (b, q')"
      obtain t q1 where pk: "peek n q = Some (Inr (t, q1))"
        using 1(2) r by (auto simp: obind_Inr_iff)
      have q1: "queue_ok q1" using queue_ok_peek [OF pk] ok by simp
      have "q' = q1 \<or> (\<exists>m i. loop param m i q1 = Some (Inr (b, q')))"
        using 1(2) unfolding r pk by (auto simp: Let_def split: if_splits)
      then show "queue_ok q'" using q1 1(1) by blast
    qed
  qed
  then show ?thesis using assms by blast
qed

lemma p_look_for_runs [runs_intros]:
  assumes "\<And>b. runs K n (f b) k"
  shows "runs K n (pbind (p_look_for param) f) k"
proof (rule runs_step, goal_cases)
  case (1 p)
  then have "good_queue (pq p)" by (simp add: ready_for_def p_good_def)
  then show ?case
    unfolding p_look_for_def
    by (intro returns_on_queue) (simp add: look_for_def look_for_loop_returns)
next
  case (2 p b p')
  then obtain q where q: "look_for_loop param 0 0 (pq p) = Some (Inr (b, q))" "p' = p\<lparr>pq := q\<rparr>"
    by (auto simp: p_look_for_def on_queue_Inr look_for_def)
  have "good_queue (pq p)" using 2(1) by (simp add: ready_for_def p_good_def)
  note l = look_for_loop_onward [OF this q(1)]
  have "ready_for K n p' \<and> kept p p'"
    using 2(1) l unfolding q(2)
    by (auto simp: ready_for_def p_good_def p_left_def kept_def onward_def known_def same_tokens_def split: option.splits)
  then show ?case using assms by blast
qed

lemma acts_look_for [acts_intros]:
  assumes "acts (f (look_list param 0 (map kind ts))) ts w x us v"
  shows "acts (pbind (p_look_for param) f) ts w x us v"
proof (rule acts_pbind [where x = "look_list param 0 (map kind ts)" and us = ts and v = w, rotated],
    rule assms)
  show "acts (p_look_for param) ts w (look_list param 0 (map kind ts)) ts w"
    unfolding p_look_for_def
  proof (rule acts_on_queue)
    fix q assume s: "stands_for q ts"
    note h = stands_for_simps [OF s]
    have a: "ahead (length (tl ts)) q = Some (Inr (tl ts))"
      using s by (simp add: stands_for_def)
    have ts: "current_token q # tl ts = ts" using h by simp
    have "\<exists>t \<in> set (drop 0 (current_token q # tl ts)). is_eof t"
      unfolding ts using h(2,3) by (auto intro!: bexI [of _ "last ts"])
    from look_for_loop_list [OF a this, of param 0] obtain q' where
      l: "look_for_loop param 0 0 q = Some (Inr (look_list param 0 (map kind ts), q'))" "same_tokens q q'"
      unfolding ts by auto
    have "queue_ok q'"
      using look_for_loop_ok [OF h(4) l(1)] .
    then show "\<exists>q'. look_for param q = Some (Inr (look_list param 0 (map kind ts), q')) \<and> stands_for q' ts"
      using l s by (auto simp: look_for_def stands_for_def same_tokens_def)
  qed
qed

section \<open>A label ahead\<close>

text \<open>
  A statement is told by the tokens behind its label before the label is parsed. \<open>labelled\<close> is what
  the first two peeks have found; looking ahead does not change it.
\<close>

definition labelled :: "parser \<Rightarrow> bool" where
  "labelled p \<longleftrightarrow> p_kind p = tk_identifier
     \<and> obind (peek 1 (pq p)) (\<lambda>(t, _). Some (Inr (kind t))) = Some (Inr tk_colon)"

definition runs_labelled :: "nat \<Rightarrow> 'a parse \<Rightarrow> nat \<Rightarrow> bool" where
  "runs_labelled n m k \<longleftrightarrow> (\<forall>p. ready_for None n p \<and> labelled p \<longrightarrow> returns (m p)
     \<and> (\<forall>x p'. m p = Some (Inr (x, p')) \<longrightarrow> ready_for None k p' \<and> kept p p'))"

named_theorems labelled_intros "one rule for each construct in front of a label"

lemma runs_labelled_step:
  assumes "\<And>p. \<lbrakk>ready_for None n p; labelled p\<rbrakk> \<Longrightarrow> returns (m p)"
    and "\<And>p x p'. \<lbrakk>ready_for None n p; labelled p; m p = Some (Inr (x, p'))\<rbrakk>
      \<Longrightarrow> kept p p' \<and> ready_for None n p' \<and> labelled p' \<and> runs_labelled n (f x) k"
  shows "runs_labelled n (pbind m f) k"
  unfolding runs_labelled_def
proof (intro allI impI conjI)
  fix p assume p: "ready_for None n p \<and> labelled p"
  have f: "returns (f x p1) \<and> (\<forall>y p'. f x p1 = Some (Inr (y, p')) \<longrightarrow> ready_for None k p' \<and> kept p1 p') \<and> kept p p1"
    if "m p = Some (Inr (x, p1))" for x p1
    using assms(2) [OF _ _ that] p unfolding runs_labelled_def by blast
  show "returns (pbind m f p)"
    unfolding pbind_def by (rule returns_obind) (use assms(1) p f in auto)
  show "\<And>x p'. pbind m f p = Some (Inr (x, p')) \<Longrightarrow> ready_for None k p'"
    "\<And>x p'. pbind m f p = Some (Inr (x, p')) \<Longrightarrow> kept p p'"
    using f kept_trans by (fastforce simp: pbind_Inr)+
qed

lemma labelled_same:
  assumes "labelled p" and "same_tokens (pq p) q"
  shows "labelled (p\<lparr>pq := q\<rparr>)"
proof -
  have "obind (peek 1 q) (\<lambda>(t, _). Some (Inr t)) = obind (peek 1 (pq p)) (\<lambda>(t, _). Some (Inr t))"
    using assms(2) peek_ahead_nth [of 1 q] peek_ahead_nth [of 1 "pq p"] by (simp add: same_tokens_def)
  then have "obind (obind (peek 1 q) (\<lambda>(t, _). Some (Inr t))) (\<lambda>t. Some (Inr (kind t)))
      = obind (obind (peek 1 (pq p)) (\<lambda>(t, _). Some (Inr t))) (\<lambda>t. Some (Inr (kind t)))"
    by simp
  then show ?thesis
    using assms by (simp add: labelled_def same_tokens_def obind_assoc case_prod_unfold)
qed

lemma runs_labelled_peek [labelled_intros]:
  assumes "\<And>c. \<lbrakk>i = 0 \<Longrightarrow> c = tk_identifier; i = 1 \<Longrightarrow> c = tk_colon\<rbrakk> \<Longrightarrow> runs_labelled n (f c) k"
  shows "runs_labelled n (pbind (p_peek i) f) k"
proof (rule runs_labelled_step, goal_cases)
  case (1 p)
  then show ?case using patientD(1) [OF patient_peek] by blast
next
  case (2 p x p')
  then obtain t q where q: "peek i (pq p) = Some (Inr (t, q))" "p' = p\<lparr>pq := q\<rparr>" "x = kind t"
    by (auto simp: p_peek_def pbind_def obind_Inr_iff on_queue_Inr)
  have "i = 0 \<Longrightarrow> x = tk_identifier" using q 2(2) by (auto simp: peek_def labelled_def)
  moreover have "i = 1 \<Longrightarrow> x = tk_colon" using q 2(2) by (simp add: labelled_def)
  ultimately have "runs_labelled n (f x) k" by (rule assms)
  then show ?case using peek_ready [OF 2(1) q(1)] labelled_same [OF 2(2) peek_same [OF q(1)]] q(2) by simp
qed

lemma runs_labelled_look_for [labelled_intros]:
  assumes "\<And>b. runs_labelled n (f b) k"
  shows "runs_labelled n (pbind (p_look_for param) f) k"
proof (rule runs_labelled_step, goal_cases)
  case (1 p)
  then have "good_queue (pq p)" by (simp add: ready_for_def p_good_def)
  then show ?case
    unfolding p_look_for_def
    by (intro returns_on_queue) (simp add: look_for_def look_for_loop_returns)
next
  case (2 p b p')
  then obtain q where q: "look_for_loop param 0 0 (pq p) = Some (Inr (b, q))" "p' = p\<lparr>pq := q\<rparr>"
    by (auto simp: p_look_for_def on_queue_Inr look_for_def)
  have "good_queue (pq p)" using 2(1) by (simp add: ready_for_def p_good_def)
  note l = look_for_loop_onward [OF this q(1)]
  have "ready_for None n p' \<and> kept p p'"
    using 2(1) l unfolding q(2)
    by (auto simp: ready_for_def p_good_def p_left_def kept_def onward_def same_tokens_def)
  then show ?case using labelled_same [OF 2(2)] l q(2) assms by blast
qed

lemma runs_labelled_location [labelled_intros]:
  assumes "\<And>l. runs_labelled n (f l) k"
  shows "runs_labelled n (pbind this_location f) k"
  by (rule runs_labelled_step) (use assms in \<open>auto simp: this_location_def\<close>)

lemma runs_labelled_if [labelled_intros]:
  "(b \<Longrightarrow> runs_labelled n m k) \<Longrightarrow> (\<not> b \<Longrightarrow> runs_labelled n m' k) \<Longrightarrow> runs_labelled n (if b then m else m') k"
  by simp

lemma runs_labelled_runs:
  assumes "runs (Some tk_identifier) n m k"
  shows "runs_labelled n m k"
proof -
  have "ready_for (Some tk_identifier) n p" if "ready_for None n p \<and> labelled p" for p
    using that by (simp add: ready_for_def labelled_def)
  then show ?thesis using assms unfolding runs_labelled_def runs_def by blast
qed

text \<open>How a label is found, and that it is then parsed.\<close>

lemma runs_peek_0: "runs (Some c) n (f c) k \<Longrightarrow> runs (Some c) n (pbind (p_peek 0) f) k"
proof (rule runs_step, goal_cases)
  case (1 p)
  then show ?case using patientD(1) [OF patient_peek] by blast
next
  case (2 p x p')
  then have "x = c \<and> p' = p"
    by (auto simp: p_peek_def pbind_def obind_Inr_iff on_queue_Inr peek_def ready_for_def)
  then show ?case using 2 by auto
qed

lemma runs_peek_1:
  assumes "\<And>c. c \<noteq> tk_colon \<Longrightarrow> runs (Some tk_identifier) n (f c) k" and "runs_labelled n (f tk_colon) k"
  shows "runs (Some tk_identifier) n (pbind (p_peek 1) f) k"
  unfolding runs_def
proof (intro allI impI conjI)
  fix p assume p: "ready_for (Some tk_identifier) n p"
  have f: "returns (f c p1) \<and> (\<forall>y p'. f c p1 = Some (Inr (y, p')) \<longrightarrow> ready_for None k p' \<and> kept p1 p') \<and> kept p p1"
    if pk: "p_peek 1 p = Some (Inr (c, p1))" for c p1
  proof -
    obtain t q where q: "peek 1 (pq p) = Some (Inr (t, q))" "p1 = p\<lparr>pq := q\<rparr>" "c = kind t"
      using pk by (auto simp: p_peek_def pbind_def obind_Inr_iff on_queue_Inr)
    have r: "ready_for (Some tk_identifier) n p1 \<and> kept p p1" using peek_ready [OF p q(1)] q(2) by simp
    show ?thesis
    proof (cases "c = tk_colon")
      case True
      then have "labelled p" using p q by (simp add: labelled_def ready_for_def)
      then have "labelled p1" using labelled_same peek_same q by blast
      then show ?thesis using assms(2) r True unfolding runs_labelled_def by (auto simp: ready_for_def)
    next
      case False
      then show ?thesis using assms(1) r unfolding runs_def by blast
    qed
  qed
  show "returns (pbind (p_peek 1) f p)"
    unfolding pbind_def by (rule returns_obind) (use patientD(1) [OF patient_peek p] f in auto)
  show "\<And>x p'. pbind (p_peek 1) f p = Some (Inr (x, p')) \<Longrightarrow> ready_for None k p'"
    "\<And>x p'. pbind (p_peek 1) f p = Some (Inr (x, p')) \<Longrightarrow> kept p p'"
    using f kept_trans by (fastforce simp: pbind_Inr)+
qed

lemma runs_labelled_label [labelled_intros]:
  assumes "\<And>t. runs None (n - 1) (f (Some t)) k"
  shows "runs_labelled n (pbind parse_optional_label f) k"
  unfolding parse_optional_label_def
  by (subst pbind_assoc, rule runs_labelled_peek, simp, subst pbind_assoc, rule runs_labelled_peek, simp,
      rule runs_labelled_runs, intro runs_intros) (use assms in auto)

section \<open>A checkpoint under a scope guard\<close>

text \<open>
  \<open>guarded m\<close>: the checkpoint is dropped when \<open>m\<close> returns or throws, unless \<open>m\<close> has dismissed the
  guard, which is the result \<open>Inr\<close>; then what follows is no longer guarded.
\<close>

definition p_add_checkpoint :: "unit parse" where
  "p_add_checkpoint p = pret () (p\<lparr>pq := add_checkpoint (pq p)\<rparr>)"

definition p_backtrack :: "unit parse" where
  "p_backtrack p = pret () (p\<lparr>pq := backtrack (pq p)\<rparr>)"

definition p_drop_checkpoint :: "parser \<Rightarrow> parser" where
  "p_drop_checkpoint p = p\<lparr>pq := drop_checkpoint (pq p)\<rparr>"

definition guarded :: "('a + 'b) parse \<Rightarrow> ('a + 'b) parse" where
  "guarded m p0 =
     (case pbind p_add_checkpoint (\<lambda>_. m) p0 of
        None \<Rightarrow> None
      | Some (Inl (Thrown what p)) \<Rightarrow> Some (Inl (Thrown what (p_drop_checkpoint p)))
      | Some (Inl e) \<Rightarrow> Some (Inl e)
      | Some (Inr (Inl x, p)) \<Rightarrow> Some (Inr (Inl x, p_drop_checkpoint p))
      | Some (Inr (Inr y, p)) \<Rightarrow> Some (Inr (Inr y, p)))"

text \<open>
  \<open>tries K n m k\<close>: \<open>m\<close> runs under a guard, and where it dismisses the guard it has just backtracked.
\<close>

definition tries :: "kind_t option \<Rightarrow> nat \<Rightarrow> ('a + 'b) parse \<Rightarrow> nat \<Rightarrow> bool" where
  "tries K n m k \<longleftrightarrow> (\<forall>p. ready_for K n p \<longrightarrow> returns (m p)
     \<and> (\<forall>x p'. m p = Some (Inr (Inl x, p')) \<longrightarrow> ready_for None k p' \<and> kept p p')
     \<and> (\<forall>y p'. m p = Some (Inr (Inr y, p')) \<longrightarrow>
          (\<exists>p1. p_good p1 \<and> kept p p1 \<and> p' = p1\<lparr>pq := backtrack (pq p1)\<rparr>)))"

named_theorems tries_intros "one rule for each construct of a function under a guard"

lemma tries_bind:
  assumes "\<And>p. ready_for K n p \<Longrightarrow> returns (m p)"
    and "\<And>p x p'. \<lbrakk>ready_for K n p; m p = Some (Inr (x, p'))\<rbrakk>
      \<Longrightarrow> kept p p' \<and> (\<exists>K' n'. ready_for K' n' p' \<and> tries K' n' (f x) k)"
  shows "tries K n (pbind m f) k"
  unfolding tries_def
proof (intro allI impI conjI)
  fix p assume p: "ready_for K n p"
  have step: "\<exists>x p1 K' n'. m p = Some (Inr (x, p1)) \<and> f x p1 = Some (Inr r) \<and> kept p p1
      \<and> ready_for K' n' p1 \<and> tries K' n' (f x) k" if "pbind m f p = Some (Inr r)" for r
    using that assms(2) [OF p] by (fastforce simp: pbind_Inr)
  show "returns (pbind m f p)"
    unfolding pbind_def
    by (rule returns_obind [OF assms(1) [OF p]]) (use assms(2) [OF p] in \<open>auto simp: tries_def\<close>)
  show "\<And>x p'. pbind m f p = Some (Inr (Inl x, p')) \<Longrightarrow> ready_for None k p'"
    "\<And>x p'. pbind m f p = Some (Inr (Inl x, p')) \<Longrightarrow> kept p p'"
    "\<And>y p'. pbind m f p = Some (Inr (Inr y, p'))
      \<Longrightarrow> \<exists>p1. p_good p1 \<and> kept p p1 \<and> p' = p1\<lparr>pq := backtrack (pq p1)\<rparr>"
    using step unfolding tries_def by (meson kept_trans)+
qed

lemma tries_pbind: "runs K n m n' \<Longrightarrow> (\<And>x. tries None n' (f x) k) \<Longrightarrow> tries K n (pbind m f) k"
  by (rule tries_bind) (auto dest: runsD)

lemma tries_current_token [tries_intros]:
  "(\<And>c. tries (Some c) n (f c) k) \<Longrightarrow> tries K n (pbind p_current_token f) k"
proof (rule tries_bind, goal_cases)
  case (2 p x p')
  then have "x = p_kind p" "p' = p\<lparr>watchdog := watchdog p + 1\<rparr>"
    by (auto simp: p_current_token_def Let_def split: if_splits)
  moreover have "ready_for (Some (p_kind p)) n p" using 2(2) by (simp add: ready_for_def)
  ultimately show ?case using 2(1) [of "p_kind p"]
    by (intro conjI exI [of _ "Some (p_kind p)"] exI [of _ n]) simp_all
qed (auto simp: p_current_token_def Let_def)

lemma tries_if [tries_intros]:
  "(b \<Longrightarrow> tries K n m1 k) \<Longrightarrow> (\<not> b \<Longrightarrow> tries K n m2 k) \<Longrightarrow> tries K n (if b then m1 else m2) k"
  by simp

lemma tries_option [tries_intros]:
  "(x = None \<Longrightarrow> tries K n m1 k) \<Longrightarrow> (\<And>y. x = Some y \<Longrightarrow> tries K n (m2 y) k)
   \<Longrightarrow> tries K n (case x of None \<Rightarrow> m1 | Some y \<Rightarrow> m2 y) k"
  by (cases x) simp_all

lemma tries_Inl [tries_intros]: "n \<le> k \<Longrightarrow> tries K n (pret (Inl x)) k"
  by (auto simp: tries_def ready_for_def)

lemma tries_say [tries_intros]: "tries K n (f ()) k \<Longrightarrow> tries K n (pbind (say msg args) f) k"
  by (rule tries_bind) (auto simp: say_def)

lemma tries_backtrack [tries_intros]: "tries K n (pbind p_backtrack (\<lambda>_. pret (Inr y))) k"
  by (auto simp: tries_def p_backtrack_def pbind_def ready_for_def intro!: exI [where P = "\<lambda>p. _ p \<and> kept _ p \<and> _ p"])

lemma onward_drop:
  assumes "onward (add_checkpoint q) q'"
  shows "onward q (drop_checkpoint q')"
proof -
  have below: "checkpoints (drop_checkpoint q') = checkpoints q"
    using assms by (auto simp: onward_def add_checkpoint_def drop_checkpoint_def has_checkpoint_def)
  have same: "queue_left (drop_checkpoint q') = queue_left q'" "fp_left (drop_checkpoint q') = fp_left q'"
    "scanner (drop_checkpoint q') = scanner q'" "queue_left (add_checkpoint q) = queue_left q"
    "fp_left (add_checkpoint q) = fp_left q" "scanner (add_checkpoint q) = scanner q"
    by (simp_all add: drop_checkpoint_def add_checkpoint_def fp_left_def queue_left_def current_token_def)
  have "charge (drop_checkpoint q') c \<le> charge q c" for c
    using assms same by (auto simp: charge_def onward_def)
  moreover have "reached q (drop_checkpoint q')"
    using assms step_add step_drop unfolding onward_def
    by (meson converse_rtranclp_into_rtranclp rtranclp.rtrancl_into_rtrancl)
  ultimately show ?thesis using assms same below by (auto simp: onward_def split: list.split)
qed

lemma good_drop: "good_queue q \<Longrightarrow> good_queue (drop_checkpoint q)"
  by (cases "checkpoints q") (auto simp: good_queue_def queue_ok_def drop_checkpoint_def has_checkpoint_def)

lemma fp_left_drop: "fp_left (drop_checkpoint q) = fp_left q"
  by (simp add: drop_checkpoint_def fp_left_def queue_left_def current_token_def)

lemma onward_backtrack:
  assumes o: "onward (add_checkpoint q) q'" and ok: "queue_ok q'"
  shows "onward q (backtrack q') \<and> queue_ok (backtrack q') \<and> scanner (backtrack q') = scanner q'"
proof -
  have same: "queue_left (add_checkpoint q) = queue_left q" "fp_left (add_checkpoint q) = fp_left q"
    "scanner (add_checkpoint q) = scanner q"
    by (simp_all add: add_checkpoint_def fp_left_def queue_left_def current_token_def)
  obtain ts where c: "checkpoints q' = ts # checkpoints q"
    and two: "take 2 ts = [previous_token q, current_token q]"
    and ch: "charge q' ts \<le> queue_left q"
    using o by (auto simp: onward_def add_checkpoint_def charge_def queue_left_def)
  have sl: "length (tokens q') = 2" "current_one q' < 2" using ok by (auto simp: queue_ok_def)
  note i = two_slots [OF sl(2)]
  have "queue_left (backtrack q') \<le> queue_left q \<and> fp_left (backtrack q') \<le> fp_left q
      \<and> checkpoints (backtrack q') = checkpoints q"
  proof (cases "length ts \<le> 2")
    case True
    then have "backtrack q' = q'\<lparr>checkpoints := checkpoints q\<rparr>"
      using c by (simp add: backtrack_def has_checkpoint_def)
    moreover have "queue_left q' \<le> queue_left q" "fp_left q' \<le> fp_left q"
      using o same by (auto simp: onward_def)
    ultimately show ?thesis by (simp add: fp_left_def queue_left_def current_token_def)
  next
    case False
    then have t1: "ts ! 1 = current_token q"
      using two nth_take [of 1 2 ts] by simp
    have b: "backtrack q' = q'\<lparr>checkpoints := checkpoints q,
        lookahead_tokens := drop 3 ts @ current_token q' # lookahead_tokens q',
        tokens := (tokens q')[current_one q' := current_token q,
          (current_one q' + 1) mod MAX_LOOKBACK := ts ! 0]\<rparr>"
      using False c t1 by (simp add: backtrack_def has_checkpoint_def Let_def current_token_def)
    have cur: "current_token (backtrack q') = current_token q"
      using sl i unfolding b by (auto simp: current_token_def [of "_ \<lparr> tokens := _ \<rparr>"] MAX_LOOKBACK_def)
    have "queue_left (backtrack q') = charge q' ts"
      using False unfolding b by (simp add: queue_left_def charge_def fp_left_def)
    then show ?thesis using ch cur by (simp add: fp_left_def) (simp add: b)
  qed
  note l = this
  have s: "scanner (backtrack q') = scanner q'"
    using c by (simp add: backtrack_def has_checkpoint_def Let_def)
  have "charge (backtrack q') c \<le> charge q c" for c using l by (auto simp: charge_def)
  moreover have "queue_ok (backtrack q')"
    using ok c unfolding backtrack_def by (auto simp: has_checkpoint_def Let_def queue_ok_def)
  moreover have "\<exists>ds. dias (scanner q') = dias (scanner q) @ ds" using o same by (simp add: onward_def)
  moreover have "reached q (backtrack q')"
    using o step_add step_back unfolding onward_def
    by (meson converse_rtranclp_into_rtranclp rtranclp.rtrancl_into_rtrancl)
  ultimately show ?thesis using l s by (auto simp: onward_def split: list.split)
qed

lemma runs_guarded [runs_intros]:
  assumes m: "tries K n m k" and "\<And>x. runs None k (f (Inl x)) l" and "\<And>y. runs None n (f (Inr y)) l"
  shows "runs K n (pbind (guarded m) f) l"
proof (rule runs_step)
  fix p assume p: "ready_for K n p"
  define p0 where "p0 = p\<lparr>pq := add_checkpoint (pq p)\<rparr>"
  have ready: "ready_for K n p0"
    using p by (auto simp: p0_def ready_for_def p_good_def good_queue_def queue_ok_def p_left_def
        add_checkpoint_def fp_left_def queue_left_def current_token_def known_def split: option.splits)
  have g: "guarded m p = (case m p0 of
        None \<Rightarrow> None
      | Some (Inl (Thrown what p)) \<Rightarrow> Some (Inl (Thrown what (p_drop_checkpoint p)))
      | Some (Inl e) \<Rightarrow> Some (Inl e)
      | Some (Inr (Inl x, p)) \<Rightarrow> Some (Inr (Inl x, p_drop_checkpoint p))
      | Some (Inr (Inr y, p)) \<Rightarrow> Some (Inr (Inr y, p)))"
    by (simp add: guarded_def p_add_checkpoint_def p0_def pbind_def)
  show "returns (guarded m p)"
    using m ready unfolding g tries_def returns_def
    by (auto split: option.splits sum.splits parse_error.splits prod.splits)
  fix r p' assume r: "guarded m p = Some (Inr (r, p'))"
  show "kept p p' \<and> (\<exists>K' n'. ready_for K' n' p' \<and> runs K' n' (f r) l)"
  proof (cases r)
    case (Inl x)
    then obtain p1 where "m p0 = Some (Inr (Inl x, p1))" and p': "p' = p_drop_checkpoint p1"
      using r unfolding g by (auto split: option.splits sum.splits parse_error.splits prod.splits)
    then have "ready_for None k p1 \<and> kept p0 p1" using m ready by (auto simp: tries_def)
    then have "ready_for None k p' \<and> kept p p'"
      using onward_drop [of "pq p" "pq p1"] good_drop
      by (auto simp: p' p_drop_checkpoint_def p0_def ready_for_def p_good_def p_left_def fp_left_drop kept_def)
    then show ?thesis using assms(2) Inl by blast
  next
    case (Inr y)
    then have "m p0 = Some (Inr (Inr y, p'))"
      using r unfolding g by (auto split: option.splits sum.splits parse_error.splits prod.splits)
    then obtain p1 where p1: "p_good p1" "kept p0 p1" "p' = p1\<lparr>pq := backtrack (pq p1)\<rparr>"
      using m ready unfolding tries_def by blast
    note b = onward_backtrack [of "pq p" "pq p1"]
    have "ready_for None n p' \<and> kept p p'"
      using b p1 p by (auto simp: p0_def ready_for_def p_good_def good_queue_def p_left_def kept_def onward_def)
    then show ?thesis using assms(3) Inr by blast
  qed
qed

lemma acts_guarded:
  assumes "acts m ts w (Inl x) us v"
  shows "acts (guarded m) ts w (Inl x) us v"
  unfolding acts_def
proof (intro allI impI)
  fix p assume p: "stands_at ts w p"
  define p0 where "p0 = p\<lparr>pq := add_checkpoint (pq p)\<rparr>"
  have "stands_at ts w p0"
    using p by (auto simp: p0_def stands_at_def stands_for_def add_checkpoint_def queue_ok_def
        current_token_def ahead_def)
  then obtain p1 where p1: "m p0 = Some (Inr (Inl x, p1))" "stands_at us v p1"
    "parsing_states p1 = parsing_states p0" "pversion p1 = pversion p0"
    using assms unfolding acts_def by blast
  have "guarded m p = Some (Inr (Inl x, p_drop_checkpoint p1))"
    using p1(1) by (simp add: guarded_def p_add_checkpoint_def pbind_def p0_def)
  moreover have "stands_at us v (p_drop_checkpoint p1)"
    using p1(2) by (cases "checkpoints (pq p1)")
      (auto simp: p_drop_checkpoint_def stands_at_def stands_for_def drop_checkpoint_def queue_ok_def
        has_checkpoint_def current_token_def ahead_def)
  ultimately show "\<exists>p'. guarded m p = Some (Inr (Inl x, p')) \<and> stands_at us v p'
      \<and> parsing_states p' = parsing_states p \<and> pversion p' = pversion p"
    using p1(3,4) by (simp add: p_drop_checkpoint_def p0_def)
qed

section \<open>Functions that call each other\<close>

lemma p_loop_more:
  assumes "\<And>s p r. body s p = Some r \<Longrightarrow> body' s p = Some r" and "p_loop body s p = Some r"
  shows "p_loop body' s p = Some r"
proof -
  have "(\<forall>s p r. body s p = Some r \<longrightarrow> body' s p = Some r) \<longrightarrow> p_loop body' s p = Some r"
    using assms(2)
  proof (rule p_loop.raw_induct [rotated], goal_cases)
    case (1 loop body s p r)
    show ?case
    proof
      assume more: "\<forall>s p r. body s p = Some r \<longrightarrow> body' s p = Some r"
      show "p_loop body' s p = Some r"
        using 1(2) more 1(1) by (subst p_loop.simps) (auto simp: obind_def split: option.splits sum.splits)
    qed
  qed
  then show ?thesis using assms(1) by blast
qed

lemma mono_optionD:
  assumes "mono_option F" and "option.le_fun f g" and "F f = Some r"
  shows "F g = Some r"
proof -
  have "option_ord (F f) (F g)" using assms(1,2) unfolding monotone_def by blast
  then show ?thesis using assms(3) by (simp add: flat_ord_def)
qed

lemma mono_optionI:
  "(\<And>f g r. option.le_fun f g \<Longrightarrow> F f = Some r \<Longrightarrow> F g = Some r) \<Longrightarrow> mono_option F"
  by (auto simp: monotone_def flat_ord_def) (metis option.exhaust)

lemma p_loop_mono [partial_function_mono]:
  assumes "\<And>s p. mono_option (\<lambda>f. B f s p)"
  shows "mono_option (\<lambda>f. p_loop (B f) s p)"
  by (rule mono_optionI) (blast intro: p_loop_more mono_optionD [OF assms])

lemma pbind_more:
  "\<lbrakk>pbind m f p = Some r; \<And>p r. m p = Some r \<Longrightarrow> m' p = Some r;
    \<And>x p r. f x p = Some r \<Longrightarrow> f' x p = Some r\<rbrakk> \<Longrightarrow> pbind m' f' p = Some r"
  by (fastforce simp: pbind_def obind_def split: option.splits sum.splits)

lemma if_more:
  "\<lbrakk>(if b then m else n) p = Some r; b \<Longrightarrow> m p = Some r \<Longrightarrow> m' p = Some r;
    \<not> b \<Longrightarrow> n p = Some r \<Longrightarrow> n' p = Some r\<rbrakk> \<Longrightarrow> (if b then m' else n') p = Some r"
  by (cases b) auto

lemma parse_many_loop_more:
  assumes "\<And>p r. fn p = Some r \<Longrightarrow> fn' p = Some r" and "parse_many_loop st fn xs p = Some r"
  shows "parse_many_loop st fn' xs p = Some r"
proof -
  have "(\<forall>p r. fn p = Some r \<longrightarrow> fn' p = Some r) \<longrightarrow> parse_many_loop st fn' xs p = Some r"
    using assms(2)
  proof (rule parse_many_loop.raw_induct [rotated], goal_cases)
    case (1 loop st fn xs p r)
    show ?case
    proof
      assume more: "\<forall>p r. fn p = Some r \<longrightarrow> fn' p = Some r"
      show "parse_many_loop st fn' xs p = Some r"
        by (subst parse_many_loop.simps, rule pbind_more [OF 1(2)])
          (use more 1(1) in \<open>auto elim!: pbind_more if_more\<close>)
    qed
  qed
  then show ?thesis using assms(1) by blast
qed

lemma parse_many_sep_loop_more:
  assumes "\<And>p r. fn p = Some r \<Longrightarrow> fn' p = Some r" and "parse_many_sep_loop st sep fn xs p = Some r"
  shows "parse_many_sep_loop st sep fn' xs p = Some r"
proof -
  have "(\<forall>p r. fn p = Some r \<longrightarrow> fn' p = Some r) \<longrightarrow> parse_many_sep_loop st sep fn' xs p = Some r"
    using assms(2)
  proof (rule parse_many_sep_loop.raw_induct [rotated], goal_cases)
    case (1 loop st sep fn xs p r)
    show ?case
    proof
      assume more: "\<forall>p r. fn p = Some r \<longrightarrow> fn' p = Some r"
      show "parse_many_sep_loop st sep fn' xs p = Some r"
        by (subst parse_many_sep_loop.simps, rule pbind_more [OF 1(2)])
          (use more 1(1) in \<open>auto elim!: pbind_more if_more\<close>)
    qed
  qed
  then show ?thesis using assms(1) by blast
qed

lemma parse_many_mono [partial_function_mono]:
  assumes "\<And>p. mono_option (\<lambda>f. B f p)"
  shows "mono_option (\<lambda>f. parse_many st (B f) p)" and "mono_option (\<lambda>f. parse_many_sep st sep (B f) p)"
proof -
  have "mono_option (\<lambda>f. parse_many_loop st (B f) xs p)" "mono_option (\<lambda>f. parse_many_sep_loop st sep (B f) xs p)"
    for xs p
    by (rule mono_optionI; blast intro: parse_many_loop_more parse_many_sep_loop_more mono_optionD [OF assms])+
  then show "mono_option (\<lambda>f. parse_many st (B f) p)" "mono_option (\<lambda>f. parse_many_sep st sep (B f) p)"
    unfolding parse_many_def parse_many_sep_def Let_def by (intro pbind_mono option.const_mono; simp)+
qed

lemma guarded_mono [partial_function_mono]:
  assumes "\<And>p. mono_option (\<lambda>f. B f p)"
  shows "mono_option (\<lambda>f. guarded (B f) p)"
proof (rule mono_optionI)
  fix f g r assume le: "option.le_fun f g" and r: "guarded (B f) p = Some r"
  have "pbind p_add_checkpoint (\<lambda>_. B g) p = Some s" if "pbind p_add_checkpoint (\<lambda>_. B f) p = Some s" for s
    by (rule pbind_more [OF that]) (auto intro: mono_optionD [OF assms le])
  then show "guarded (B g) p = Some r"
    using r by (auto simp: guarded_def split: option.splits sum.splits prod.splits parse_error.splits)
qed

lemma let_mono [partial_function_mono]: "mono_option (\<lambda>f. B f x p) \<Longrightarrow> mono_option (\<lambda>f. (let y = x in B f y) p)"
  by simp

lemma option_case_mono [partial_function_mono]:
  "\<lbrakk>mono_option (\<lambda>f. B f p); \<And>y. mono_option (\<lambda>f. C f y p)\<rbrakk>
   \<Longrightarrow> mono_option (\<lambda>f. (case x of None \<Rightarrow> B f | Some y \<Rightarrow> C f y) p)"
  by (cases x) simp_all

lemma sum_case_mono [partial_function_mono]:
  "\<lbrakk>\<And>y. mono_option (\<lambda>f. B f y p); \<And>y. mono_option (\<lambda>f. C f y p)\<rbrakk>
   \<Longrightarrow> mono_option (\<lambda>f. (case x of Inl y \<Rightarrow> B f y | Inr y \<Rightarrow> C f y) p)"
  by (cases x) simp_all

lemma case_prod_mono [partial_function_mono]:
  "(\<And>a b. mono_option (\<lambda>f. B f a b p)) \<Longrightarrow> mono_option (\<lambda>f. (case x of (a, b) \<Rightarrow> B f a b) p)"
  by (cases x) simp

lemma runs_prod [runs_intros]:
  "(\<And>a b. x = (a, b) \<Longrightarrow> runs K n (f a b) k) \<Longrightarrow> runs K n (case x of (a, b) \<Rightarrow> f a b) k"
  by (cases x) simp

lemma runs_bind_prod [runs_intros]:
  "(\<And>a b. x = (a, b) \<Longrightarrow> runs K n (pbind (f a b) g) k)
   \<Longrightarrow> runs K n (pbind (case x of (a, b) \<Rightarrow> f a b) g) k"
  by (cases x) simp

end
