(* ===== verification/Syntax.thy ===== *)
theory Syntax
  imports Token
begin

text \<open>
  The syntax tree that the parser builds, as \<^verbatim>\<open>src/vhdl/vhdl.syntax\<close> declares it: a class with a union
  is a datatype with one constructor per alternative, an optional child (\<open>?\<close>) or one that the parser
  leaves null is an \<open>option\<close>, a vector is a list. The back pointers and the members that later passes
  fill in (\<open>denotes\<close>, \<open>region\<close>, \<open>named_entity\<close>) are not part of what is parsed.
\<close>

section \<open>Names and expressions\<close>

datatype attr_kind =
  attr_unknown | attr_length | attr_left | attr_right | attr_low | attr_high | attr_event
  | attr_active | attr_image | attr_ascending | attr_last_value | attr_last_event | attr_path_name
  | attr_instance_name | attr_delayed | attr_stable | attr_quiet | attr_transaction
  | attr_driving_value | attr_last_active | attr_driving | attr_value | attr_succ | attr_pred
  | attr_leftof | attr_rightof | attr_pos | attr_val | attr_range | attr_user_defined

datatype operation =
  op_and | op_or | op_nand | op_nor | op_xor | op_xnor | op_eq | op_neq | op_lt | op_lte | op_gt
  | op_gte | op_sll | op_srl | op_sla | op_sra | op_rol | op_ror | op_add | op_sub | op_concat
  | u_add | u_sub | op_mul | op_div | op_mod | op_rem | op_pow | op_abs | op_not | op_error

datatype literal_kind =
  lit_integer | lit_real | lit_based | lit_enumeration | lit_string | lit_bitstring

datatype name =
    Name_error "name option"
  | Name_simple token
  | Name_selected "name option" token
  | Name_slice name range
  | Name_fcall name "association_element list"
  | Name_ambiguous name "expression list"
  | Name_qualified name expression
  | Name_attribute name "signature option" "expression option" attr_kind token
  | Name_signature name signature
and expression =
    Expr_error "expression option"
  | Expr_binary "expression option" operation "expression option"
  | Expr_unary "expression option" operation
  | Expr_literal token literal_kind
  | Expr_physical token name
  | Expr_aggregate "element_association list"
  | Expr_unresolved name
  | Expr_allocator expression
  | Expr_nested "expression option"
  | Expr_null
and range =
    Range_subtype "subtype option"
  | Range_range name
  | Range_upto expression expression
  | Range_downto expression expression
and subtype = Subtype "name option" name "constraint option"
and "constraint" = Constraint_index "range list" | Constraint_range range
and signature = Signature "name list" "name option"
and association_element = Association "name option" "expression option"
and element_association = Element_association "choice list" expression
and choice = Choice_error | Choice_name expression | Choice_range range | Choice_others

section \<open>Sequential statements\<close>

text \<open>Members named \<open>__x\<close> or \<open>x__\<close> are the places of keywords; one that is never set is \<open>no_location\<close>.\<close>

definition no_location :: location where
  "no_location = location_initialize [] 1 1"

datatype target = Target_name name | Target_expression expression

text \<open>\<open>is_null\<close>, \<open>value\<close>, \<open>time\<close>\<close>

datatype waveform_element = Waveform_element bool "expression option" "expression option"

datatype param_spec = Param_spec token "range option"

datatype sequential_statement = Sequential "token option" sequential_statement_v
and sequential_statement_v =
    Seq_wait "name list" "expression option" "expression option"
  | Seq_assertion expression "expression option" "expression option"
  | Seq_report expression "expression option"
  | Seq_sig_assign target "waveform_element list" bool bool "expression option" bool
  | Seq_var_assign target expression
  | Seq_pcall name
  | Seq_if "expression option" "sequential_statement list" "sequential_statement option" location location
  | Seq_for param_spec "sequential_statement list" location location
  | Seq_while "expression option" "sequential_statement list" location location
  | Seq_case expression "case_alternative list"
  | Seq_next token "expression option"
  | Seq_exit token "expression option"
  | Seq_return "expression option"
  | Seq_null token
and case_alternative = Case_alternative "choice list" "sequential_statement list"

section \<open>Types\<close>

datatype physical_literal = Physical_literal "token option" "name option"

datatype unit_declaration = Unit_declaration token "physical_literal option"

datatype element_declaration = Element_declaration "token list" subtype

datatype index_subtype = Index_subtype name

datatype type_definition_v =
    Type_enumeration "token list"
  | Type_integer range
  | Type_floating range
  | Type_physical "range option" "unit_declaration option" "unit_declaration list"
  | Type_c_array "range list" subtype
  | Type_u_array "index_subtype list" subtype
  | Type_record "element_declaration list"
  | Type_access subtype
  | Type_file name

datatype type_definition = Type_definition token type_definition_v

section \<open>Specifications and configurations\<close>

datatype mode = mode_in | mode_out | mode_inout | mode_buffer | mode_linkage | mode_invalid

datatype entity_class =
  class_file | class_group | class_entity | class_architecture | class_configuration
  | class_procedure | class_function | class_package | class_type | class_subtype | class_constant
  | class_signal | class_variable | class_component | class_label | class_literal | class_units

datatype entity_name_list = Names_list "name list" | Names_others token | Names_all token

datatype entity_specification = Entity_specification entity_name_list entity_class

datatype instantiation_list = Inst_others token | Inst_all token | Inst_labels "token list"

datatype component_specification = Component_specification instantiation_list "name option"

datatype entity_aspect =
  Aspect_none | Aspect_entity "name option" token | Aspect_configuration "name option" | Aspect_open

datatype binding_indication =
  Binding entity_aspect "association_element list" "association_element list"

datatype index_specification = Index_none | Index_discrete "range option" | Index_expr "expression option"

text \<open>The items of a block configuration are block and component configurations; a use clause is the
  list of its names.\<close>

datatype configuration_item =
    Block_configuration name index_specification "name list list" "configuration_item list" location location
  | Component_configuration component_specification "binding_indication option"
      "configuration_item option" location location

section \<open>Declarations\<close>

text \<open>The places of a generic or port clause or map: the keyword, the left and the right parenthesis.\<close>

type_synonym places = "location \<times> location \<times> location"

definition no_places :: places where
  "no_places = (no_location, no_location, no_location)"

text \<open>\<open>is_guarded\<close> and \<open>is_bus\<close> of a signal, \<open>shared\<close> of a variable\<close>

datatype object =
    Object_constant "expression option"
  | Object_signal "expression option" bool bool
  | Object_variable "expression option" bool
  | Object_file "expression option" mode "expression option"

datatype interface_object =
    Interface_constant "expression option"
  | Interface_signal "expression option" mode bool
  | Interface_variable "expression option" mode
  | Interface_file

datatype declarative_item = Declaration declarative_item_v location location
and declarative_item_v =
    Decl_type token "type_definition option"
  | Decl_subtype token subtype
  | Decl_object "token list" subtype object
  | Decl_interface "token list" subtype interface_object
  | Decl_alias token name "subtype option"
  | Decl_attribute token name
  | Decl_component token "declarative_item list" "declarative_item list" places places
  | Decl_attr_spec name entity_specification "expression option"
  | Decl_subprogram "subprogram option" "location option" "location option"
  | Decl_subprogram_body subprogram "declarative_item list" "sequential_statement list"
      "location option" "location option" location location location
  | Decl_config_spec component_specification binding_indication
  | Decl_use "name list"
and subprogram = Subprogram token "declarative_item list" subprogram_v
and subprogram_v = Procedure "name option" | Function "name option" bool

section \<open>Concurrent statements and design units\<close>

datatype con_waveform = Con_waveform "waveform_element list" "expression option"

datatype sel_waveform = Sel_waveform "waveform_element list" "choice list"

datatype instantiated_unit = Unit_component name | Unit_entity name token | Unit_config name

text \<open>\<open>is_guarded\<close>, \<open>is_transport\<close>, \<open>is_reject\<close>, \<open>time\<close>, \<open>is_inertial\<close>\<close>

type_synonym signal_options = "bool \<times> bool \<times> bool \<times> expression option \<times> bool"

datatype concurrent_statement = Concurrent "token option" concurrent_statement_v location location
and concurrent_statement_v =
    Con_block "expression option" "declarative_item list" "association_element list"
      "declarative_item list" "association_element list" "declarative_item list"
      "concurrent_statement list"
  | Con_process bool "name list" "declarative_item list" "sequential_statement list"
      location location location
  | Con_pcall bool name
  | Con_assertion bool expression "expression option" "expression option"
  | Con_assign bool target "con_waveform list" signal_options
  | Con_sel_assign bool target "sel_waveform list" signal_options expression
  | Con_inst instantiated_unit "association_element list" "association_element list" places places
  | Con_for_gen param_spec "declarative_item list" "concurrent_statement list" location location
  | Con_if_gen expression "declarative_item list" "concurrent_statement list" location location

datatype design_unit = Design_unit design_unit_v location location
and design_unit_v =
    Unit_entity_declaration token "declarative_item list" "concurrent_statement list"
      "declarative_item list" "declarative_item list" places places
  | Unit_architecture token name "declarative_item list" "concurrent_statement list"
      location location location
  | Unit_configuration token name "declarative_item list" "configuration_item option" location location
  | Unit_package token "declarative_item list" location location
  | Unit_package_body token "declarative_item list" location location

end
