(* ===== verification/Parser_Expressions.thy ===== *)
theory Parser_Expressions
  imports Parser_Control Syntax
begin

text \<open>
  Names, expressions, ranges, subtype indications and association lists (\<^verbatim>\<open>src/vhdl/parser.cpp\<close>). These
  functions call each other in circles, and every circle passes through \<open>parse_expression\<close>,
  \<open>parse_factor\<close>, \<open>parse_name\<close> or \<open>parse_discrete_range\<close>. So each function takes as its argument \<open>c\<close> the
  parser of these four, and \<open>parse_tree\<close> closes the circle.
\<close>

section \<open>What can be called from inside\<close>

text \<open>\<open>allow_complex_names\<close> and \<open>allow_signature\<close> have no effect in the code.\<close>

record name_options =
  allow_qifts :: bool
  allow_complex_names :: bool
  allow_signature :: bool

definition default_options :: name_options where
  "default_options = \<lparr>allow_qifts = True, allow_complex_names = True, allow_signature = False\<rparr>"

datatype nonterm = NT_expression | NT_factor | NT_name name_options | NT_discrete_range

datatype node =
  Node_expression "expression option" | Node_name "name option" | Node_range "range option"

type_synonym callees = "nonterm \<Rightarrow> node parse"

fun the_expression :: "node \<Rightarrow> expression option" where
  "the_expression (Node_expression e) = e"
| "the_expression _ = None"

fun the_name :: "node \<Rightarrow> name option" where
  "the_name (Node_name n) = n"
| "the_name _ = None"

fun the_range :: "node \<Rightarrow> range option" where
  "the_range (Node_range r) = r"
| "the_range _ = None"

definition call_expression :: "callees \<Rightarrow> expression option parse" where
  "call_expression c = pbind (c NT_expression) (\<lambda>n. pret (the_expression n))"

definition call_factor :: "callees \<Rightarrow> expression option parse" where
  "call_factor c = pbind (c NT_factor) (\<lambda>n. pret (the_expression n))"

definition call_name :: "callees \<Rightarrow> name_options \<Rightarrow> name option parse" where
  "call_name c options = pbind (c (NT_name options)) (\<lambda>n. pret (the_name n))"

definition call_discrete_range :: "callees \<Rightarrow> range option parse" where
  "call_discrete_range c = pbind (c NT_discrete_range) (\<lambda>n. pret (the_range n))"

section \<open>Lookahead\<close>

text \<open>
  The arrays \<open>look\<close> and \<open>stop\<close> have four elements; those that are not given are value-initialised, that
  is, they are the kind \<open>invalid\<close>.
\<close>

definition array_of_four :: "kind_t list \<Rightarrow> kind_t list" where
  "array_of_four ks = take 4 (ks @ replicate 4 tk_invalid)"

definition looking :: "kind_t list \<Rightarrow> kind_t list \<Rightarrow> nat \<Rightarrow> look_params" where
  "looking ks ends d =
     \<lparr>look = array_of_four ks, stop = array_of_four ends, abort = tk_semicolon,
      nest_in = tk_leftpar, nest_out = tk_rightpar, depth = d\<rparr>"

definition downto_upto_or_range_keyword :: look_params where
  "downto_upto_or_range_keyword = looking [kw_downto, kw_to, kw_range] [tk_rightpar, tk_comma] 1"

definition rightarrow_in_call :: look_params where
  "rightarrow_in_call = looking [tk_rightarrow] [tk_rightpar] 1"

definition comma_or_arrow :: look_params where
  "comma_or_arrow = looking [tk_comma, tk_rightarrow] [tk_rightpar] 1"

definition rightarrow_in_association :: look_params where
  "rightarrow_in_association = looking [tk_rightarrow] [tk_comma, tk_rightpar] 0"

definition range_in_choice :: look_params where
  "range_in_choice =
     looking [kw_downto, kw_to, kw_range] [tk_comma, tk_rightpar, tk_rightarrow, tk_bar] 0"

definition right_arrow_in_list :: look_params where
  "right_arrow_in_list = looking [tk_rightarrow] [tk_rightpar, tk_comma] 0"

section \<open>Messages\<close>

definition Expected_name :: string where
  "Expected_name = ''Expected name''"

definition Expected_sel_name :: string where
  "Expected_sel_name = ''Expected selected name''"

definition Expected_expression :: string where
  "Expected_expression = ''Expecting an expression''"

definition Expected_to_downto :: string where
  "Expected_to_downto = ''Expecting keyowrd 'to' or 'downto'' @ [CHR 0x27]"

definition Plus_minus_skip :: string where
  "Plus_minus_skip = ''+ and - cannot be used directly. Skipping this. Use parenthesis''"

definition Index_constraint_not_allowed :: string where
  "Index_constraint_not_allowed = ''index constraint not allowed''"

definition Empty_assoc_list :: string where
  "Empty_assoc_list = ''Empty association list''"

definition null_pointer :: "'a parse" where
  "null_pointer p = Some (Inl Null_pointer)"

definition never_reached :: "'a parse" where
  "never_reached p = Some (Inl (Failed_assert ''this should never be reached''))"

section \<open>Subtype indications\<close>

definition type_mark_options :: name_options where
  "type_mark_options = default_options\<lparr>allow_qifts := False\<rparr>"

definition simple_name_options :: name_options where
  "simple_name_options = default_options\<lparr>allow_qifts := False, allow_complex_names := False\<rparr>"

definition parse_type_mark :: "callees \<Rightarrow> name option parse" where
  "parse_type_mark c = call_name c type_mark_options"

text \<open>The name of a range attribute, which the backtracking parsers of ranges look for.\<close>

fun is_range_attribute :: "name \<Rightarrow> bool" where
  "is_range_attribute (Name_attribute _ _ _ k _) \<longleftrightarrow> k = attr_range"
| "is_range_attribute _ \<longleftrightarrow> False"

fun is_attribute :: "name \<Rightarrow> bool" where
  "is_attribute (Name_attribute _ _ _ _ _) \<longleftrightarrow> True"
| "is_attribute _ \<longleftrightarrow> False"

fun unresolved_name :: "expression \<Rightarrow> name option" where
  "unresolved_name (Expr_unresolved n) = Some n"
| "unresolved_name _ = None"

definition both_bounds ::
    "(expression \<Rightarrow> expression \<Rightarrow> range) \<Rightarrow> expression option \<Rightarrow> expression option \<Rightarrow> range option" where
  "both_bounds con v1 v2 = (case (v1, v2) of (Some a, Some b) \<Rightarrow> Some (con a b) | _ \<Rightarrow> None)"

definition parse_upper_bound ::
    "callees \<Rightarrow> kind_t \<Rightarrow> (expression \<Rightarrow> expression \<Rightarrow> range) \<Rightarrow> expression option \<Rightarrow> range option parse" where
  "parse_upper_bound c k con v1 =
     pbind (p_consume k) (\<lambda>_.
     pbind (call_expression c) (\<lambda>v2.
       pret (both_bounds con v1 v2)))"

text \<open>What is left to do once the lexer has backtracked to the name of the attribute.\<close>

definition range_of_attribute :: "name option \<Rightarrow> range option parse" where
  "range_of_attribute attribute =
     (case attribute of
        None \<Rightarrow> null_pointer
      | Some n \<Rightarrow> if is_range_attribute n then pret (Some (Range_range n)) else never_reached)"

text \<open>What \<open>parse_range\<close> and \<open>parse_discrete_range\<close> have in common: the expression under a checkpoint, and
  the bounds. \<open>otherwise\<close> decides on an expression that is not followed by \<open>to\<close> or \<open>downto\<close>.\<close>

definition bounds_or ::
    "callees \<Rightarrow> (expression \<Rightarrow> (range option + 'b) parse) \<Rightarrow> (range option + 'b) parse" where
  "bounds_or c otherwise = guarded (
     pbind (call_expression c) (\<lambda>e.
     pbind p_current_token (\<lambda>k.
       if k = kw_to then pbind (parse_upper_bound c kw_to Range_upto e) (\<lambda>r. pret (Inl r))
       else if k = kw_downto then pbind (parse_upper_bound c kw_downto Range_downto e) (\<lambda>r. pret (Inl r))
       else case e of None \<Rightarrow> pret (Inl None) | Some e \<Rightarrow> otherwise e)))"

definition no_bounds :: "(range option + 'b) parse" where
  "no_bounds = pbind (say Expected_to_downto []) (\<lambda>_. pret (Inl None))"

definition not_bounds :: "expression \<Rightarrow> (range option + unit) parse" where
  "not_bounds e =
     (case unresolved_name e of
        None \<Rightarrow> no_bounds
      | Some n \<Rightarrow>
          if \<not> is_range_attribute n then no_bounds
          else pbind p_backtrack (\<lambda>_. pret (Inr ())))"

definition parse_range :: "callees \<Rightarrow> range option parse" where
  "parse_range c =
     pbind (bounds_or c not_bounds) (\<lambda>r.
       case r of
         Inl r \<Rightarrow> pret r
       | Inr _ \<Rightarrow> pbind (call_name c type_mark_options) range_of_attribute)"

definition parse_range_constraint :: "callees \<Rightarrow> constraint option parse" where
  "parse_range_constraint c =
     pbind (p_consume kw_range) (\<lambda>_.
     pbind (parse_range c) (\<lambda>r.
       pret (map_option Constraint_range r)))"

text \<open>\<open>do ... while (optional(k))\<close>, the loop body yielding an element or not.\<close>

definition separated_list :: "'a option parse \<Rightarrow> kind_t \<Rightarrow> 'a list parse" where
  "separated_list m k =
     p_loop (\<lambda>xs.
       pbind m (\<lambda>x.
       pbind (p_optional k) (\<lambda>again.
         pret (if again then Inl (push_some xs x) else Inr (push_some xs x))))) []"

definition parse_index_constraint :: "callees \<Rightarrow> constraint option parse" where
  "parse_index_constraint c =
     pbind (p_consume tk_leftpar) (\<lambda>_.
     pbind (separated_list (call_discrete_range c) tk_comma) (\<lambda>indices.
     pbind (p_consume tk_rightpar) (\<lambda>_.
       pret (if indices = [] then None else Some (Constraint_index indices)))))"

definition parse_subtype_indication :: "callees \<Rightarrow> subtype option parse" where
  "parse_subtype_indication c =
     pbind p_current_token (\<lambda>k.
       if k \<noteq> tk_identifier then pret None
       else
         pbind (p_peek 0) (\<lambda>k0.
         pbind (if k0 = tk_identifier then p_peek 1 else pret tk_eof) (\<lambda>k1.
         pbind (if k0 = tk_identifier \<and> k1 = tk_identifier then call_name c simple_name_options else pret None)
           (\<lambda>resolution.
         pbind (parse_type_mark c) (\<lambda>mark.
         pbind p_current_token (\<lambda>k.
         pbind (if k = tk_leftpar then parse_index_constraint c
                else if k = kw_range then parse_range_constraint c else pret None) (\<lambda>cs.
           pret (map_option (\<lambda>mark. Subtype resolution mark cs) mark))))))))"

text \<open>A name that is not an attribute is a subtype indication, parsed again from its beginning.\<close>

definition not_bounds_but_subtype :: "expression \<Rightarrow> (range option + bool) parse" where
  "not_bounds_but_subtype e =
     (case unresolved_name e of
        None \<Rightarrow> no_bounds
      | Some n \<Rightarrow>
          if \<not> is_attribute n then pbind p_backtrack (\<lambda>_. pret (Inr True))
          else if \<not> is_range_attribute n then no_bounds
          else pbind p_backtrack (\<lambda>_. pret (Inr False)))"

definition parse_discrete_range :: "callees \<Rightarrow> range option parse" where
  "parse_discrete_range c =
     pbind (bounds_or c not_bounds_but_subtype) (\<lambda>r.
       case r of
         Inl r \<Rightarrow> pret r
       | Inr by_subtype \<Rightarrow>
           if by_subtype
           then pbind (parse_subtype_indication c) (\<lambda>s. pret (Some (Range_subtype s)))
           else pbind (call_name c default_options) range_of_attribute)"

section \<open>Signatures and association lists\<close>

definition parse_signature :: "callees \<Rightarrow> signature option parse" where
  "parse_signature c =
     pbind (p_consume tk_leftsquare) (\<lambda>_.
     pbind p_current_token (\<lambda>k.
     pbind (if k = tk_identifier then
              separated_list
                (pbind (parse_type_mark c) (\<lambda>t.
                 pbind p_current_token (\<lambda>k.
                   if k = tk_leftpar then
                     pbind (say Index_constraint_not_allowed []) (\<lambda>_.
                     pbind (resync_to_end_of_rightpar 0) (\<lambda>_. pret t))
                   else pret t))) tk_comma
            else pret []) (\<lambda>parameters.
     pbind (p_optional kw_return) (\<lambda>returns.
     pbind (if returns then parse_type_mark c else pret None) (\<lambda>result.
     pbind (p_consume tk_rightsquare) (\<lambda>_.
       pret (Some (Signature parameters result))))))))"

definition association_element :: "callees \<Rightarrow> association_element parse" where
  "association_element c =
     pbind (p_look_for right_arrow_in_list) (\<lambda>arrow.
     pbind (if arrow
            then pbind (call_name c default_options) (\<lambda>formal. pbind (p_consume tk_rightarrow) (\<lambda>_. pret formal))
            else pret None) (\<lambda>formal.
     pbind (p_optional kw_open) (\<lambda>is_open.
     pbind (if is_open then pret None else call_expression c) (\<lambda>actual.
       pret (Association formal actual)))))"

definition association_elements :: "callees \<Rightarrow> association_element list parse" where
  "association_elements c =
     p_loop (\<lambda>result.
       pbind p_current_token (\<lambda>k.
         if k = tk_eof then pret (Inr result)
         else
           pbind (association_element c) (\<lambda>e.
           pbind (p_optional tk_comma) (\<lambda>comma.
             if \<not> comma then pret (Inr (result @ [e]))
             else pbind p_current_token (\<lambda>k.
               if k = tk_rightpar then
                 pbind previous_location (\<lambda>l. pbind (say_at Unexpected_comma [] l) (\<lambda>_. pret (Inr (result @ [e]))))
               else pret (Inl (result @ [e]))))))) []"

definition parse_association_list :: "callees \<Rightarrow> association_element list parse" where
  "parse_association_list c =
     pbind (p_optional tk_rightpar) (\<lambda>closed.
       if closed then
         pbind previous_location (\<lambda>l. pbind (say_at Empty_assoc_list [] l) (\<lambda>_. pret []))
       else association_elements c)"

section \<open>Names\<close>

definition parse_simple_name :: "name option parse" where
  "parse_simple_name = pbind this_token (\<lambda>t. pbind p_skip (\<lambda>_. pret (Some (Name_simple t))))"

definition parse_selected_name :: "name option \<Rightarrow> name option parse" where
  "parse_selected_name p =
     pbind (p_consume tk_dot) (\<lambda>_.
     pbind p_current_token (\<lambda>k.
       if k \<in> {tk_identifier, tk_character, tk_stringliteral, kw_all} then
         pbind this_token (\<lambda>t. pbind p_skip (\<lambda>_. pret (Some (Name_selected p t))))
       else pbind (say Expected_sel_name []) (\<lambda>_. pret None)))"

definition parse_function_call :: "callees \<Rightarrow> name option \<Rightarrow> name option parse" where
  "parse_function_call c name =
     pbind (p_consume tk_leftpar) (\<lambda>_.
     pbind (parse_association_list c) (\<lambda>p.
     pbind (p_consume tk_rightpar) (\<lambda>_.
       pret (map_option (\<lambda>n. Name_fcall n p) name))))"

definition parse_parenthesis_name :: "callees \<Rightarrow> name option \<Rightarrow> name option parse" where
  "parse_parenthesis_name c p =
     pbind (p_look_for downto_upto_or_range_keyword) (\<lambda>slice.
       if slice then
         pbind (p_consume tk_leftpar) (\<lambda>_.
         pbind (call_discrete_range c) (\<lambda>r.
         pbind (p_consume tk_rightpar) (\<lambda>_.
           pret (case (p, r) of (Some p, Some r) \<Rightarrow> Some (Name_slice p r) | _ \<Rightarrow> None))))
       else
         pbind (p_look_for rightarrow_in_call) (\<lambda>call.
           if call then parse_function_call c p
           else
             pbind (p_consume tk_leftpar) (\<lambda>_.
             pbind (separated_list (call_expression c) tk_comma) (\<lambda>es.
             pbind (p_consume tk_rightpar) (\<lambda>_.
               pret (map_option (\<lambda>p. Name_ambiguous p es) p))))))"

definition parse_signed_name :: "callees \<Rightarrow> name option \<Rightarrow> name option parse" where
  "parse_signed_name c p =
     pbind (parse_signature c) (\<lambda>s.
       pret (case (p, s) of (Some p, Some s) \<Rightarrow> Some (Name_signature p s) | _ \<Rightarrow> None))"

definition attr_kinds :: "(string \<times> attr_kind) list" where
  "attr_kinds =
     [(''length'', attr_length), (''left'', attr_left), (''right'', attr_right), (''low'', attr_low),
      (''high'', attr_high), (''event'', attr_event), (''active'', attr_active), (''image'', attr_image),
      (''ascending'', attr_ascending), (''last_value'', attr_last_value),
      (''last_event'', attr_last_event), (''path_name'', attr_path_name),
      (''instance_name'', attr_instance_name), (''delayed'', attr_delayed), (''stable'', attr_stable),
      (''quiet'', attr_quiet), (''transaction'', attr_transaction),
      (''driving_value'', attr_driving_value), (''last_active'', attr_last_active),
      (''driving'', attr_driving), (''value'', attr_value), (''succ'', attr_succ), (''pred'', attr_pred),
      (''leftof'', attr_leftof), (''rightof'', attr_rightof), (''pos'', attr_pos), (''val'', attr_val),
      (''range'', attr_range)]"

definition get_attr_kind :: "token \<Rightarrow> attr_kind" where
  "get_attr_kind t = (case map_of attr_kinds (val t) of None \<Rightarrow> attr_user_defined | Some k \<Rightarrow> k)"

text \<open>\<open>'range\<close> is an attribute although \<open>range\<close> is a keyword; its token is made an identifier.\<close>

definition attribute_token :: "token \<Rightarrow> token" where
  "attribute_token attr =
     (if kind attr = kw_range
      then attr\<lparr>kind := tk_identifier, is_delimiter := False, is_identifier := True, is_keyword := False,
                is_literal := False\<rparr>
      else attr)"

definition parse_attribute_name :: "callees \<Rightarrow> name option \<Rightarrow> name option parse" where
  "parse_attribute_name c p =
     pbind (p_consume tk_tick) (\<lambda>_.
     pbind this_token (\<lambda>attr.
     pbind p_skip (\<lambda>_.
     pbind (p_optional tk_leftpar) (\<lambda>has_argument.
     pbind (if has_argument
            then pbind (call_expression c) (\<lambda>e. pbind (p_consume tk_rightpar) (\<lambda>_. pret e))
            else pret None) (\<lambda>e.
       pret (map_option (\<lambda>p. Name_attribute p None e (get_attr_kind attr) (attribute_token attr)) p))))))"

definition parse_qualified_expression :: "callees \<Rightarrow> name option \<Rightarrow> name option parse" where
  "parse_qualified_expression c name =
     pbind (p_consume tk_tick) (\<lambda>_.
     pbind (p_look_for comma_or_arrow) (\<lambda>aggregate.
     pbind (if aggregate then call_expression c
            else
              pbind (p_consume tk_leftpar) (\<lambda>_.
              pbind (call_expression c) (\<lambda>e.
              pbind (p_consume tk_rightpar) (\<lambda>_. pret e)))) (\<lambda>e.
       pret (case (name, e) of (Some n, Some e) \<Rightarrow> Some (Name_qualified n e) | _ \<Rightarrow> None))))"

text \<open>The loop of \<open>parse_name\<close>. A signature is accepted whatever \<open>allow_signature\<close> says.\<close>

definition name_suffix :: "callees \<Rightarrow> name_options \<Rightarrow> name option \<Rightarrow> (name option + name option) parse" where
  "name_suffix c options result =
     pbind p_current_token (\<lambda>k.
       if k = tk_eof then pret (Inr result)
       else pbind p_current_token (\<lambda>k.
         if k = tk_tick then
           pbind (p_peek 1) (\<lambda>k1.
             if k1 \<noteq> tk_leftpar then pbind (parse_attribute_name c result) (\<lambda>n. pret (Inl n))
             else if allow_qifts options then pbind (parse_qualified_expression c result) (\<lambda>n. pret (Inr n))
             else pret (Inr result))
         else if k = tk_leftsquare then pbind (parse_signed_name c result) (\<lambda>n. pret (Inl n))
         else if k = tk_leftpar then
           if \<not> allow_qifts options then pret (Inr result)
           else pbind (parse_parenthesis_name c result) (\<lambda>n. pret (Inl n))
         else if k = tk_dot then pbind (parse_selected_name result) (\<lambda>n. pret (Inl n))
         else pret (Inr result)))"

definition parse_name :: "callees \<Rightarrow> name_options \<Rightarrow> name option parse" where
  "parse_name c options =
     pbind p_current_token (\<lambda>k.
       if k \<in> {tk_identifier, tk_character, tk_stringliteral} then
         pbind parse_simple_name (\<lambda>result. p_loop (name_suffix c options) result)
       else pbind (say Expected_name []) (\<lambda>_. pret None))"

section \<open>Expressions\<close>

definition operations :: "(kind_t \<times> operation) list" where
  "operations =
     [(kw_and, op_and), (kw_or, op_or), (kw_nand, op_nand), (kw_nor, op_nor), (kw_xor, op_xor),
      (kw_xnor, op_xnor), (tk_eq, op_eq), (tk_ne, op_neq), (tk_lt, op_lt), (tk_lte, op_lte),
      (tk_gt, op_gt), (tk_gte, op_gte), (kw_sll, op_sll), (kw_srl, op_srl), (kw_sla, op_sla),
      (kw_sra, op_sra), (kw_rol, op_rol), (kw_ror, op_ror), (tk_plus, op_add), (tk_minus, op_sub),
      (tk_concat, op_concat), (tk_times, op_mul), (tk_div, op_div), (kw_mod, op_mod),
      (kw_rem, op_rem), (tk_pow, op_pow), (kw_abs, op_abs), (kw_not, op_not)]"

definition parse_operation :: "operation parse" where
  "parse_operation =
     pbind p_current_token (\<lambda>k.
       case map_of operations k of
         None \<Rightarrow> pret op_error
       | Some operation \<Rightarrow> pbind p_skip (\<lambda>_. pret operation))"

definition parse_choice :: "callees \<Rightarrow> choice option parse" where
  "parse_choice c =
     pbind (p_optional kw_others) (\<lambda>others.
       if others then pret (Some Choice_others)
       else
         pbind (p_look_for range_in_choice) (\<lambda>is_range.
           if is_range then
             pbind (call_discrete_range c) (\<lambda>r. pret (map_option Choice_range r))
           else
             pbind (call_expression c) (\<lambda>e. pret (map_option Choice_name e))))"

definition parse_choices :: "callees \<Rightarrow> choice list parse" where
  "parse_choices c =
     p_loop (\<lambda>choices.
       pbind p_current_token (\<lambda>k.
         if k = tk_eof then pret (Inr choices)
         else
           pbind (parse_choice c) (\<lambda>choice.
           pbind p_current_token (\<lambda>k.
             if k \<noteq> tk_bar then pret (Inr (push_some choices choice))
             else pbind (p_consume tk_bar) (\<lambda>_. pret (Inl (push_some choices choice))))))) []"

definition parse_element_association :: "callees \<Rightarrow> element_association option parse" where
  "parse_element_association c =
     pbind p_current_token (\<lambda>k.
     pbind (if k = kw_others then pret True else p_look_for rightarrow_in_association) (\<lambda>has_choices.
     pbind (if has_choices
            then pbind (parse_choices c) (\<lambda>cs. pbind (p_consume tk_rightarrow) (\<lambda>_. pret cs))
            else pret []) (\<lambda>choices.
     pbind (call_expression c) (\<lambda>e.
       pret (map_option (Element_association choices) e)))))"

definition parse_aggregate :: "callees \<Rightarrow> expression option parse" where
  "parse_aggregate c =
     pbind (p_consume tk_leftpar) (\<lambda>_.
     pbind (separated_list (parse_element_association c) tk_comma) (\<lambda>es.
     pbind (p_consume tk_rightpar) (\<lambda>_.
       pret (Some (Expr_aggregate es)))))"

definition parse_allocator :: "callees \<Rightarrow> expression option parse" where
  "parse_allocator c =
     pbind (p_consume kw_new) (\<lambda>_.
     pbind (call_expression c) (\<lambda>e. pret (map_option Expr_allocator e)))"

definition this_literal :: "literal_kind \<Rightarrow> expression option parse" where
  "this_literal lk = pbind this_token (\<lambda>t. pbind p_skip (\<lambda>_. pret (Some (Expr_literal t lk))))"

text \<open>A number, or a physical literal if a name follows.\<close>

definition parse_number :: "callees \<Rightarrow> literal_kind \<Rightarrow> expression option parse" where
  "parse_number c lk =
     pbind this_token (\<lambda>literal.
     pbind p_skip (\<lambda>_.
     pbind p_current_token (\<lambda>k.
       if k = tk_identifier
       then pbind (call_name c default_options) (\<lambda>n. pret (map_option (Expr_physical literal) n))
       else pret (Some (Expr_literal literal lk)))))"

definition parse_nested :: "callees \<Rightarrow> expression option parse" where
  "parse_nested c =
     pbind (p_consume tk_leftpar) (\<lambda>_.
     pbind (call_expression c) (\<lambda>e.
     pbind (p_consume tk_rightpar) (\<lambda>_.
       pret (map_option (\<lambda>e. Expr_nested (Some e)) e))))"

definition unresolved :: "name option \<Rightarrow> expression option parse" where
  "unresolved n = pret (map_option Expr_unresolved n)"

definition character_options :: name_options where
  "character_options = default_options\<lparr>allow_complex_names := False\<rparr>"

definition parse_primary :: "callees \<Rightarrow> expression option parse" where
  "parse_primary c =
     pbind p_current_token (\<lambda>k.
       if k = tk_integer then parse_number c lit_integer
       else if k = tk_real then parse_number c lit_real
       else if k = tk_identifier then pbind (call_name c default_options) unresolved
       else if k = tk_character then pbind (call_name c character_options) unresolved
       else if k = tk_leftpar then
         pbind (p_look_for comma_or_arrow) (\<lambda>aggregate.
           if aggregate then parse_aggregate c else parse_nested c)
       else if k = tk_stringliteral then
         pbind (p_peek 1) (\<lambda>k1.
           if k1 = tk_leftpar then pbind (call_name c default_options) unresolved
           else this_literal lit_string)
       else if k = kw_null then pbind p_skip (\<lambda>_. pret (Some Expr_null))
       else if k = kw_new then parse_allocator c
       else if k = tk_bitstring then this_literal lit_bitstring
       else if k = tk_plus \<or> k = tk_minus then
         pbind (say Plus_minus_skip []) (\<lambda>_.
         pbind (call_expression c) (\<lambda>e. pret (Some (Expr_nested e))))
       else pbind (say Expected_expression []) (\<lambda>_. pret (Some Expr_null)))"

text \<open>An operator and its right operand, behind the left one.\<close>

definition parse_rhs :: "expression option parse \<Rightarrow> expression option \<Rightarrow> expression option parse" where
  "parse_rhs operand lhs =
     pbind parse_operation (\<lambda>operation.
     pbind operand (\<lambda>rhs.
       pret (Some (Expr_binary lhs operation rhs))))"

text \<open>\<open>goto\<close> back to the switch as long as one of the operators follows.\<close>

definition left_associative ::
    "kind_t list \<Rightarrow> expression option parse \<Rightarrow> expression option \<Rightarrow> expression option parse" where
  "left_associative ks operand =
     p_loop (\<lambda>result.
       pbind p_current_token (\<lambda>k.
         if k \<in> set ks then pbind (parse_rhs operand result) (\<lambda>e. pret (Inl e))
         else pret (Inr result)))"

definition parse_factor :: "callees \<Rightarrow> expression option parse" where
  "parse_factor c =
     pbind p_current_token (\<lambda>k.
       if k \<in> {kw_abs, kw_not} then
         pbind parse_operation (\<lambda>operation.
         pbind (parse_primary c) (\<lambda>e. pret (Some (Expr_unary e operation))))
       else
         pbind (parse_primary c) (\<lambda>result.
         pbind p_current_token (\<lambda>k.
           if k = tk_pow then parse_rhs (call_factor c) result else pret result)))"

definition parse_term :: "callees \<Rightarrow> expression option parse" where
  "parse_term c =
     pbind (call_factor c) (left_associative [tk_times, tk_div, kw_mod, kw_rem] (call_factor c))"

definition sign_of :: "kind_t \<Rightarrow> operation option" where
  "sign_of k = (if k = tk_plus then Some u_add else if k = tk_minus then Some u_sub else None)"

definition signed :: "operation option \<Rightarrow> expression option \<Rightarrow> expression option" where
  "signed sign e = (case sign of None \<Rightarrow> e | Some operation \<Rightarrow> Some (Expr_unary e operation))"

definition parse_simple_expression :: "callees \<Rightarrow> expression option parse" where
  "parse_simple_expression c =
     pbind p_current_token (\<lambda>k.
     pbind (if k = tk_plus \<or> k = tk_minus then p_skip else pret ()) (\<lambda>_.
     pbind (parse_term c) (\<lambda>result.
       left_associative [tk_concat, tk_plus, tk_minus] (parse_term c) (signed (sign_of k) result))))"

definition parse_shift_expression :: "callees \<Rightarrow> expression option parse" where
  "parse_shift_expression c =
     pbind (parse_simple_expression c)
       (left_associative [kw_sll, kw_srl, kw_sla, kw_sra, kw_rol, kw_ror] (parse_simple_expression c))"

definition parse_relation :: "callees \<Rightarrow> expression option parse" where
  "parse_relation c =
     pbind (parse_shift_expression c) (\<lambda>result.
     pbind p_current_token (\<lambda>k.
       if k \<in> {tk_eq, tk_ne, tk_lt, tk_gt, tk_lte, tk_gte}
       then parse_rhs (parse_shift_expression c) result else pret result))"

definition parse_boolean_expression :: "callees \<Rightarrow> expression option parse" where
  "parse_boolean_expression c =
     pbind (parse_relation c)
       (p_loop (\<lambda>result.
          pbind p_current_token (\<lambda>k.
            if k \<in> {kw_nand, kw_nor} then pbind (parse_rhs (parse_relation c) result) (\<lambda>e. pret (Inr e))
            else if k \<in> {kw_and, kw_or, kw_xor, kw_xnor} then
              pbind (parse_rhs (parse_relation c) result) (\<lambda>e. pret (Inl e))
            else pret (Inr result))))"

section \<open>The circle closed\<close>

definition parse_node :: "callees \<Rightarrow> nonterm \<Rightarrow> node parse" where
  "parse_node c nt =
     (case nt of
        NT_expression \<Rightarrow> pbind (parse_boolean_expression c) (\<lambda>e. pret (Node_expression e))
      | NT_factor \<Rightarrow> pbind (parse_factor c) (\<lambda>e. pret (Node_expression e))
      | NT_name options \<Rightarrow> pbind (parse_name c options) (\<lambda>n. pret (Node_name n))
      | NT_discrete_range \<Rightarrow> pbind (parse_discrete_range c) (\<lambda>r. pret (Node_range r)))"

text \<open>Each function is monotone in what it calls.\<close>

lemma separated_list_mono [partial_function_mono]:
  "(\<And>p. mono_option (\<lambda>f. m f p)) \<Longrightarrow> mono_option (\<lambda>f. separated_list (m f) k p)"
  unfolding separated_list_def by (intro partial_function_mono option.const_mono)

lemma parse_rhs_mono [partial_function_mono]:
  "(\<And>p. mono_option (\<lambda>f. m f p)) \<Longrightarrow> mono_option (\<lambda>f. parse_rhs (m f) e p)"
  unfolding parse_rhs_def by (intro partial_function_mono option.const_mono)

lemma left_associative_mono [partial_function_mono]:
  "(\<And>p. mono_option (\<lambda>f. m f p)) \<Longrightarrow> mono_option (\<lambda>f. left_associative ks (m f) e p)"
  unfolding left_associative_def by (intro partial_function_mono option.const_mono)

lemma call_expression_mono [partial_function_mono]:
  assumes "\<And>nt p. mono_option (\<lambda>f. c f nt p)"
  shows "mono_option (\<lambda>f. call_expression (c f) p)" and
    "mono_option (\<lambda>f. call_factor (c f) p)" and
    "mono_option (\<lambda>f. call_name (c f) opts p)" and
    "mono_option (\<lambda>f. call_discrete_range (c f) p)"
  unfolding call_expression_def call_factor_def call_name_def call_discrete_range_def by (intro partial_function_mono option.const_mono assms)+

lemma parse_type_mark_mono [partial_function_mono]:
  assumes "\<And>nt p. mono_option (\<lambda>f. c f nt p)"
  shows "mono_option (\<lambda>f. parse_type_mark (c f) p)" and
    "mono_option (\<lambda>f. parse_upper_bound (c f) k con e p)"
  unfolding parse_type_mark_def parse_upper_bound_def by (intro partial_function_mono option.const_mono assms)+

lemma bounds_or_mono [partial_function_mono]:
  assumes "\<And>nt p. mono_option (\<lambda>f. c f nt p)"
  shows "mono_option (\<lambda>f. bounds_or (c f) h p)"
  unfolding bounds_or_def by (intro partial_function_mono option.const_mono assms)

lemma parse_range_mono [partial_function_mono]:
  assumes "\<And>nt p. mono_option (\<lambda>f. c f nt p)"
  shows "mono_option (\<lambda>f. parse_range (c f) p)"
  unfolding parse_range_def by (intro partial_function_mono option.const_mono assms)

lemma parse_range_constraint_mono [partial_function_mono]:
  assumes "\<And>nt p. mono_option (\<lambda>f. c f nt p)"
  shows "mono_option (\<lambda>f. parse_range_constraint (c f) p)"
  unfolding parse_range_constraint_def by (intro partial_function_mono option.const_mono assms)

lemma parse_index_constraint_mono [partial_function_mono]:
  assumes "\<And>nt p. mono_option (\<lambda>f. c f nt p)"
  shows "mono_option (\<lambda>f. parse_index_constraint (c f) p)"
  unfolding parse_index_constraint_def by (intro partial_function_mono option.const_mono assms)

lemma parse_subtype_indication_mono [partial_function_mono]:
  assumes "\<And>nt p. mono_option (\<lambda>f. c f nt p)"
  shows "mono_option (\<lambda>f. parse_subtype_indication (c f) p)"
  unfolding parse_subtype_indication_def by (intro partial_function_mono option.const_mono assms)

lemma parse_discrete_range_mono [partial_function_mono]:
  assumes "\<And>nt p. mono_option (\<lambda>f. c f nt p)"
  shows "mono_option (\<lambda>f. parse_discrete_range (c f) p)"
  unfolding parse_discrete_range_def by (intro partial_function_mono option.const_mono assms)

lemma parse_signature_mono [partial_function_mono]:
  assumes "\<And>nt p. mono_option (\<lambda>f. c f nt p)"
  shows "mono_option (\<lambda>f. parse_signature (c f) p)" and
    "mono_option (\<lambda>f. association_element (c f) p)"
  unfolding parse_signature_def association_element_def by (intro partial_function_mono option.const_mono assms)+

lemma association_elements_mono [partial_function_mono]:
  assumes "\<And>nt p. mono_option (\<lambda>f. c f nt p)"
  shows "mono_option (\<lambda>f. association_elements (c f) p)"
  unfolding association_elements_def by (intro partial_function_mono option.const_mono assms)

lemma parse_association_list_mono [partial_function_mono]:
  assumes "\<And>nt p. mono_option (\<lambda>f. c f nt p)"
  shows "mono_option (\<lambda>f. parse_association_list (c f) p)"
  unfolding parse_association_list_def by (intro partial_function_mono option.const_mono assms)

lemma parse_function_call_mono [partial_function_mono]:
  assumes "\<And>nt p. mono_option (\<lambda>f. c f nt p)"
  shows "mono_option (\<lambda>f. parse_function_call (c f) n p)" and
    "mono_option (\<lambda>f. parse_signed_name (c f) n p)" and
    "mono_option (\<lambda>f. parse_attribute_name (c f) n p)" and
    "mono_option (\<lambda>f. parse_qualified_expression (c f) n p)"
  unfolding parse_function_call_def parse_signed_name_def parse_attribute_name_def parse_qualified_expression_def by (intro partial_function_mono option.const_mono assms)+

lemma parse_parenthesis_name_mono [partial_function_mono]:
  assumes "\<And>nt p. mono_option (\<lambda>f. c f nt p)"
  shows "mono_option (\<lambda>f. parse_parenthesis_name (c f) n p)"
  unfolding parse_parenthesis_name_def by (intro partial_function_mono option.const_mono assms)

lemma name_suffix_mono [partial_function_mono]:
  assumes "\<And>nt p. mono_option (\<lambda>f. c f nt p)"
  shows "mono_option (\<lambda>f. name_suffix (c f) opts n p)"
  unfolding name_suffix_def by (intro partial_function_mono option.const_mono assms)

lemma parse_name_mono [partial_function_mono]:
  assumes "\<And>nt p. mono_option (\<lambda>f. c f nt p)"
  shows "mono_option (\<lambda>f. parse_name (c f) opts p)"
  unfolding parse_name_def by (intro partial_function_mono option.const_mono assms)

lemma parse_choice_mono [partial_function_mono]:
  assumes "\<And>nt p. mono_option (\<lambda>f. c f nt p)"
  shows "mono_option (\<lambda>f. parse_choice (c f) p)"
  unfolding parse_choice_def by (intro partial_function_mono option.const_mono assms)

lemma parse_choices_mono [partial_function_mono]:
  assumes "\<And>nt p. mono_option (\<lambda>f. c f nt p)"
  shows "mono_option (\<lambda>f. parse_choices (c f) p)"
  unfolding parse_choices_def by (intro partial_function_mono option.const_mono assms)

lemma parse_element_association_mono [partial_function_mono]:
  assumes "\<And>nt p. mono_option (\<lambda>f. c f nt p)"
  shows "mono_option (\<lambda>f. parse_element_association (c f) p)"
  unfolding parse_element_association_def by (intro partial_function_mono option.const_mono assms)

lemma parse_aggregate_mono [partial_function_mono]:
  assumes "\<And>nt p. mono_option (\<lambda>f. c f nt p)"
  shows "mono_option (\<lambda>f. parse_aggregate (c f) p)" and
    "mono_option (\<lambda>f. parse_allocator (c f) p)" and
    "mono_option (\<lambda>f. parse_number (c f) lk p)" and
    "mono_option (\<lambda>f. parse_nested (c f) p)"
  unfolding parse_aggregate_def parse_allocator_def parse_number_def parse_nested_def by (intro partial_function_mono option.const_mono assms)+

lemma parse_primary_mono [partial_function_mono]:
  assumes "\<And>nt p. mono_option (\<lambda>f. c f nt p)"
  shows "mono_option (\<lambda>f. parse_primary (c f) p)"
  unfolding parse_primary_def by (intro partial_function_mono option.const_mono assms)

lemma parse_factor_mono [partial_function_mono]:
  assumes "\<And>nt p. mono_option (\<lambda>f. c f nt p)"
  shows "mono_option (\<lambda>f. parse_factor (c f) p)" and
    "mono_option (\<lambda>f. parse_term (c f) p)"
  unfolding parse_factor_def parse_term_def by (intro partial_function_mono option.const_mono assms)+

lemma parse_simple_expression_mono [partial_function_mono]:
  assumes "\<And>nt p. mono_option (\<lambda>f. c f nt p)"
  shows "mono_option (\<lambda>f. parse_simple_expression (c f) p)"
  unfolding parse_simple_expression_def by (intro partial_function_mono option.const_mono assms)

lemma parse_shift_expression_mono [partial_function_mono]:
  assumes "\<And>nt p. mono_option (\<lambda>f. c f nt p)"
  shows "mono_option (\<lambda>f. parse_shift_expression (c f) p)"
  unfolding parse_shift_expression_def by (intro partial_function_mono option.const_mono assms)

lemma parse_relation_mono [partial_function_mono]:
  assumes "\<And>nt p. mono_option (\<lambda>f. c f nt p)"
  shows "mono_option (\<lambda>f. parse_relation (c f) p)"
  unfolding parse_relation_def by (intro partial_function_mono option.const_mono assms)

lemma parse_boolean_expression_mono [partial_function_mono]:
  assumes "\<And>nt p. mono_option (\<lambda>f. c f nt p)"
  shows "mono_option (\<lambda>f. parse_boolean_expression (c f) p)"
  unfolding parse_boolean_expression_def by (intro partial_function_mono option.const_mono assms)

lemma parse_node_mono [partial_function_mono]:
  assumes "\<And>nt p. mono_option (\<lambda>f. c f nt p)"
  shows "mono_option (\<lambda>f. parse_node (c f) nt p)"
  unfolding parse_node_def by (cases nt; simp only: nonterm.case) (intro partial_function_mono option.const_mono assms)+

partial_function (option) parse_tree :: "nonterm \<Rightarrow> parser \<Rightarrow> (parse_error, node \<times> parser) outcome" where
  "parse_tree nt p0 = parse_node parse_tree nt p0"

declare parse_tree.simps [code]

text \<open>The functions as the rest of the grammar calls them.\<close>

abbreviation "an_expression \<equiv> call_expression parse_tree"
abbreviation "a_name \<equiv> call_name parse_tree default_options"
abbreviation "a_simple_name \<equiv> call_name parse_tree simple_name_options"
abbreviation "a_type_mark \<equiv> parse_type_mark parse_tree"
abbreviation "a_range \<equiv> parse_range parse_tree"
abbreviation "a_discrete_range \<equiv> call_discrete_range parse_tree"
abbreviation "a_subtype_indication \<equiv> parse_subtype_indication parse_tree"
abbreviation "an_association_list \<equiv> parse_association_list parse_tree"
abbreviation "some_choices \<equiv> parse_choices parse_tree"

end
