(* ===== verification/Expression_Facts.thy ===== *)
theory Expression_Facts
  imports Parser_Expressions
begin

text \<open>
  The circle of names, expressions and ranges comes to an end: with at most \<open>n\<close> tokens to go, every
  function of it returns or throws. What the others are called for is the hypothesis: with fewer
  tokens each of them runs; with the same number only in the order name, factor, expression, range.
\<close>

section \<open>What may be called\<close>

definition callees_ok :: "callees \<Rightarrow> nat \<Rightarrow> bool" where
  "callees_ok c n \<longleftrightarrow> (\<forall>m \<le> n. \<forall>nt K. runs K m (c nt) m)"

definition below :: "callees \<Rightarrow> nat \<Rightarrow> bool" where
  "below c n \<longleftrightarrow> (\<forall>m < n. callees_ok c m)"

lemma callees_ok_mono: "callees_ok c n \<Longrightarrow> m \<le> n \<Longrightarrow> callees_ok c m"
  by (simp add: callees_ok_def)

lemma callees_below: "callees_ok c n \<Longrightarrow> below c n"
  by (simp add: callees_ok_def below_def)

lemma below_mono: "below c n \<Longrightarrow> m \<le> n \<Longrightarrow> below c m"
  by (simp add: below_def)

lemma belowD: "below c n \<Longrightarrow> m < n \<Longrightarrow> callees_ok c m"
  by (simp add: below_def)

lemma below_pred [simp]: "below c n \<Longrightarrow> 0 < n \<Longrightarrow> callees_ok c (n - Suc 0)"
  by (simp add: below_def)

text \<open>\<open>nt_ok c n nt\<close>: with \<open>n\<close> tokens to go, \<open>nt\<close> may be called.\<close>

definition nt_ok :: "callees \<Rightarrow> nat \<Rightarrow> nonterm \<Rightarrow> bool" where
  "nt_ok c n nt \<longleftrightarrow> (\<forall>K. runs K n (c nt) n)"

lemma callees_nt [simp]: "callees_ok c n \<Longrightarrow> nt_ok c n nt"
  by (simp add: callees_ok_def nt_ok_def)

lemma nt_sub: "callees_ok c n \<Longrightarrow> m \<le> n \<Longrightarrow> nt_ok c m nt"
  by (rule callees_nt [OF callees_ok_mono])

lemma nt_runs: "nt_ok c n nt \<Longrightarrow> n \<le> k \<Longrightarrow> runs K n (c nt) k"
  unfolding nt_ok_def by (meson runs_mono order_refl)

lemma call_runs:
  "nt_ok c n NT_expression \<Longrightarrow> n \<le> k \<Longrightarrow> runs K n (call_expression c) k"
  "nt_ok c n NT_factor \<Longrightarrow> n \<le> k \<Longrightarrow> runs K n (call_factor c) k"
  "nt_ok c n (NT_name opts) \<Longrightarrow> n \<le> k \<Longrightarrow> runs K n (call_name c opts) k"
  "nt_ok c n NT_discrete_range \<Longrightarrow> n \<le> k \<Longrightarrow> runs K n (call_discrete_range c) k"
  unfolding call_expression_def call_factor_def call_name_def call_discrete_range_def
  by (auto intro!: runs_pbind [where n' = n] runs_pret nt_runs)

lemmas call_bind = call_runs [OF _ order_refl, THEN runs_pbind]

lemma runs_option [runs_intros]:
  "(x = None \<Longrightarrow> runs K n m1 k) \<Longrightarrow> (\<And>y. x = Some y \<Longrightarrow> runs K n (m2 y) k)
   \<Longrightarrow> runs K n (case x of None \<Rightarrow> m1 | Some y \<Rightarrow> m2 y) k"
  by (cases x) simp_all

lemma runs_bind_option [runs_intros]:
  "(x = None \<Longrightarrow> runs K n (pbind m1 f) k) \<Longrightarrow> (\<And>y. x = Some y \<Longrightarrow> runs K n (pbind (m2 y) f) k)
   \<Longrightarrow> runs K n (pbind (case x of None \<Rightarrow> m1 | Some y \<Rightarrow> m2 y) f) k"
  by (cases x) simp_all

lemma runs_bind_sum [runs_intros]:
  "(\<And>x. r = Inl x \<Longrightarrow> runs K n (f x) k) \<Longrightarrow> (\<And>y. r = Inr y \<Longrightarrow> runs K n (g y) k)
   \<Longrightarrow> runs K n (case r of Inl x \<Rightarrow> f x | Inr y \<Rightarrow> g y) k"
  by (cases r) simp_all

lemma runs_null [runs_intros]: "runs K n null_pointer k" "runs K n never_reached k"
  by (auto simp: runs_def null_pointer_def never_reached_def)

section \<open>Constructs\<close>

lemma separated_loop_runs:
  assumes "k \<noteq> tk_eof" and "\<And>j K. j \<le> n \<Longrightarrow> runs K j m j"
  shows "runs K n (p_loop (\<lambda>xs. pbind m (\<lambda>x. pbind (p_optional k)
    (\<lambda>again. pret (if again then Inl (push_some xs x) else Inr (push_some xs x))))) xs) n"
proof (rule p_loop_runs, goal_cases)
  case (1 j xs K)
  show ?case
    by (intro runs_intros runs_pbind [OF assms(2) [OF 1(1)]]) (use assms(1) 1(2) in \<open>auto intro: runs_pret\<close>)
qed

lemma separated_list_used:
  assumes "k \<noteq> tk_eof" and "runs K n m i" and "\<And>j K. j \<le> i \<Longrightarrow> runs K j m j"
  shows "runs K n (separated_list m k) i"
proof -
  note loop = runs_mono [OF separated_loop_runs [OF assms(1)] order_refl]
  show ?thesis
    unfolding separated_list_def
    by (rule runs_cong [OF fun_cong [OF p_loop_unfold]])
      (intro runs_intros runs_pbind [OF assms(2)], use assms(1,3) in \<open>auto intro!: runs_pret loop\<close>)
qed

lemma separated_list_runs:
  "\<lbrakk>k \<noteq> tk_eof; \<And>j K. j \<le> n \<Longrightarrow> runs K j m j\<rbrakk> \<Longrightarrow> runs K n (separated_list m k) n"
  by (rule separated_list_used) simp_all

lemmas separated_list_bind = runs_pbind [OF separated_list_runs]

lemma runs_operation [runs_intros]:
  assumes "\<And>c operation. \<lbrakk>K = Some c \<or> K = None; map_of operations c = Some operation; 0 < n\<rbrakk>
      \<Longrightarrow> runs None (n - 1) (f operation) k"
    and "\<And>c. \<lbrakk>K = Some c \<or> K = None; map_of operations c = None\<rbrakk> \<Longrightarrow> runs (Some c) n (f op_error) k"
  shows "runs K n (pbind parse_operation f) k"
proof -
  have ne: "c \<noteq> tk_eof" if "map_of operations c = Some operation" for c operation
    using that by (auto simp: operations_def)
  show ?thesis
    unfolding parse_operation_def
    by (intro runs_intros) (use assms ne in \<open>cases K; fastforce\<close>)+
qed

lemma parse_rhs_runs:
  assumes "map_of operations c \<noteq> None" and "0 < n" and "runs None (n - 1) operand (n - 1)"
  shows "runs (Some c) n (parse_rhs operand e) (n - 1)"
  unfolding parse_rhs_def
  by (intro runs_intros runs_pbind [OF assms(3)]) (use assms in auto)

definition all_operators :: "kind_t list \<Rightarrow> bool" where
  "all_operators ks \<longleftrightarrow> (\<forall>k \<in> set ks. map_of operations k \<noteq> None)"

lemma operator_used: "all_operators ks \<Longrightarrow> c \<in> set ks \<Longrightarrow> c \<noteq> tk_eof \<and> map_of operations c \<noteq> None"
  by (auto simp: all_operators_def operations_def)

lemma left_associative_runs:
  assumes ks: "all_operators ks" and m: "\<And>j. j < n \<Longrightarrow> runs None j m j" and "n \<le> k"
  shows "runs K n (left_associative ks m e) k"
proof -
  have "runs K n (left_associative ks m e) n"
    unfolding left_associative_def
  proof (rule p_loop_runs)
    fix j :: nat and e K
    assume j: "j \<le> n" and IH: "\<And>i e L. i < j \<Longrightarrow> runs L i (p_loop (\<lambda>result. pbind p_current_token (\<lambda>k.
        if k \<in> set ks then pbind (parse_rhs m result) (\<lambda>e. pret (Inl e)) else pret (Inr result))) e) j"
    have rhs: "runs (Some c) j (pbind (parse_rhs m e) f) j"
      if "c \<in> set ks" "0 < j" "\<And>x. runs None (j - 1) (f x) j" for c and f :: "expression option \<Rightarrow> 'z parse"
      by (rule runs_pbind, rule parse_rhs_runs) (use operator_used [OF ks that(1)] that m [of "j - 1"] j in auto)
    show "runs K j (pbind (pbind p_current_token (\<lambda>k.
        if k \<in> set ks then pbind (parse_rhs m e) (\<lambda>e. pret (Inl e)) else pret (Inr e)))
        (\<lambda>r. case r of Inl s' \<Rightarrow> p_loop (\<lambda>result. pbind p_current_token (\<lambda>k.
        if k \<in> set ks then pbind (parse_rhs m result) (\<lambda>e. pret (Inl e)) else pret (Inr result))) s'
        | Inr x \<Rightarrow> pret x)) j"
      by (intro runs_intros rhs) (use operator_used [OF ks] IH in \<open>auto intro: runs_pret\<close>)
  qed
  then show ?thesis by (rule runs_mono) (simp_all add: assms)
qed

section \<open>Ranges and subtype indications\<close>

lemma type_mark_runs: "nt_ok c n (NT_name type_mark_options) \<Longrightarrow> n \<le> k \<Longrightarrow> runs K n (parse_type_mark c) k"
  unfolding parse_type_mark_def by (rule call_runs)

lemmas type_mark_bind = type_mark_runs [OF _ order_refl, THEN runs_pbind]

lemma upper_bound_runs:
  assumes "k \<noteq> tk_eof" and "0 < n" and "callees_ok c (n - 1)"
  shows "runs (Some k) n (parse_upper_bound c k con e) n"
  unfolding parse_upper_bound_def
  by (intro runs_intros call_bind) (use assms in simp_all)

lemma bounds_runs:
  assumes "nt_ok c n NT_expression" and "below c n" and "\<And>e K. tries K n (h e) n"
    and "\<And>x. runs None n (f x) k"
  shows "runs K n (pbind (bounds_or c h) f) k"
  unfolding bounds_or_def
proof (intro runs_guarded tries_pbind [OF call_runs(1)] assms(1) tries_current_token order_refl)
  fix e d
  have up: "tries (Some d) n (pbind (parse_upper_bound c d con e) (\<lambda>r. pret (Inl r))) n"
    if "d \<noteq> tk_eof" for d con
  proof (cases "n = 0")
    case True
    have "\<not> ready_for (Some d) 0 p" for p
      using that by (auto simp: ready_for_def p_left_def fp_left_def)
    then show ?thesis by (simp add: True tries_def)
  next
    case False
    then show ?thesis
      using belowD [OF assms(2), of "n - 1"] that
      by (intro tries_pbind [OF upper_bound_runs] tries_Inl) auto
  qed
  show "tries (Some d) n (if d = kw_to then pbind (parse_upper_bound c kw_to Range_upto e) (\<lambda>r. pret (Inl r))
      else if d = kw_downto then pbind (parse_upper_bound c kw_downto Range_downto e) (\<lambda>r. pret (Inl r))
      else case e of None \<Rightarrow> pret (Inl None) | Some e \<Rightarrow> h e) n"
    by (intro tries_intros) (use up assms(3) in auto)
qed (use assms(4) in simp_all)

lemma no_bounds_tries [tries_intros]: "tries K n no_bounds n"
  unfolding no_bounds_def by (intro tries_intros order_refl)

lemma not_bounds_tries: "tries K n (not_bounds e) n" "tries K n (not_bounds_but_subtype e) n"
  unfolding not_bounds_def not_bounds_but_subtype_def by (intro tries_intros)+

lemma range_of_attribute_runs: "n \<le> k \<Longrightarrow> runs K n (range_of_attribute e) k"
  unfolding range_of_attribute_def by (intro runs_intros)

lemma parse_range_runs:
  assumes "callees_ok c n" and "n \<le> k"
  shows "runs K n (parse_range c) k"
  unfolding parse_range_def
  by (intro runs_intros bounds_runs not_bounds_tries call_bind range_of_attribute_runs)
    (use assms in \<open>auto simp: callees_below\<close>)

lemma range_constraint_runs:
  assumes "below c n" and K: "K = Some kw_range"
  shows "runs K n (parse_range_constraint c) n"
proof (cases "n = 0")
  case False
  then show ?thesis unfolding parse_range_constraint_def
    by (intro runs_intros runs_pbind [OF parse_range_runs [OF _ order_refl]]) (use assms in \<open>auto simp: belowD\<close>)
qed (use K in \<open>auto simp: runs_def ready_for_def p_left_def fp_left_def\<close>)

lemma index_constraint_runs:
  assumes "below c n" and K: "K = Some tk_leftpar"
  shows "runs K n (parse_index_constraint c) n"
proof (cases "n = 0")
  case False
  then have "callees_ok c (n - 1)" using assms by (simp add: belowD)
  then show ?thesis unfolding parse_index_constraint_def
    by (intro runs_intros separated_list_bind call_runs) (auto simp: callees_ok_mono K)
qed (use K in \<open>auto simp: runs_def ready_for_def p_left_def fp_left_def\<close>)

lemma subtype_indication_runs:
  assumes "below c n" and "\<And>opts. nt_ok c n (NT_name opts)" and "n \<le> k"
  shows "runs K n (parse_subtype_indication c) k"
  unfolding parse_subtype_indication_def
  by (intro runs_intros call_bind type_mark_bind runs_pbind [OF index_constraint_runs]
      runs_pbind [OF range_constraint_runs]) (use assms in auto)

lemma discrete_range_runs:
  assumes "below c n" and "\<And>opts. nt_ok c n (NT_name opts)" and "nt_ok c n NT_expression"
  shows "runs K n (parse_discrete_range c) n"
  unfolding parse_discrete_range_def
  by (intro runs_intros bounds_runs not_bounds_tries call_bind range_of_attribute_runs
      runs_pbind [OF subtype_indication_runs]) (use assms in auto)

section \<open>Names\<close>

lemma signature_runs:
  assumes "callees_ok c n"
  shows "runs K n (parse_signature c) (left_behind K tk_leftsquare n)"
proof -
  have "callees_ok c (left_behind K tk_leftsquare n)" by (rule callees_ok_mono [OF assms]) simp
  then show ?thesis
    unfolding parse_signature_def
    by (intro runs_intros separated_list_bind type_mark_bind type_mark_runs)
      (auto intro: nt_sub)
qed

lemma association_element_runs:
  assumes "callees_ok c n"
  shows "runs K n (association_element c) n"
  unfolding association_element_def
  by (intro runs_intros call_bind) (use nt_sub [OF assms] in auto)

lemma association_elements_runs:
  assumes "callees_ok c n"
  shows "runs K n (association_elements c) n"
  unfolding association_elements_def
proof (rule p_loop_runs, goal_cases)
  case (1 m xs K)
  have ok: "callees_ok c m" using callees_ok_mono [OF assms 1(1)] .
  show ?case
    by (intro runs_intros runs_pbind [OF association_element_runs [OF ok]])
      (use 1(2) in \<open>auto simp del: One_nat_def intro!: runs_pret\<close>)
qed

lemma association_list_runs:
  assumes "callees_ok c n"
  shows "runs K n (parse_association_list c) n"
  unfolding parse_association_list_def
  by (intro runs_intros association_elements_runs) (use assms in \<open>auto intro: callees_ok_mono\<close>)

lemma simple_name_runs:
  "\<lbrakk>d \<noteq> tk_eof; \<And>x. runs None (n - 1) (f x) k\<rbrakk> \<Longrightarrow> runs (Some d) n (pbind parse_simple_name f) k"
  unfolding parse_simple_name_def by (intro runs_intros) simp_all

text \<open>What follows a name uses up at least the token it begins with.\<close>

lemma used_up: "\<lbrakk>K = Some d; d \<noteq> tk_eof\<rbrakk> \<Longrightarrow> left_behind K d n = n - 1"
  by simp

lemma suffix_runs:
  assumes ok: "callees_ok c n"
  shows "K = Some tk_tick \<Longrightarrow> runs K n (parse_attribute_name c p) (n - 1)"
    and "K = Some tk_tick \<Longrightarrow> runs K n (parse_qualified_expression c p) (n - 1)"
    and "K = Some tk_leftsquare \<Longrightarrow> runs K n (parse_signed_name c p) (n - 1)"
    and "K = Some tk_leftpar \<Longrightarrow> runs K n (parse_function_call c p) (n - 1)"
    and "K = Some tk_leftpar \<Longrightarrow> runs K n (parse_parenthesis_name c p) (n - 1)"
    and "K = Some tk_dot \<Longrightarrow> runs K n (parse_selected_name p) (n - 1)"
proof -
  note sub = callees_ok_mono [OF ok] nt_sub [OF ok]
  show "runs K n (parse_attribute_name c p) (n - 1)" if "K = Some tk_tick"
    unfolding parse_attribute_name_def
    by (intro runs_intros call_bind) (use that sub in auto)
  show "runs K n (parse_qualified_expression c p) (n - 1)" if "K = Some tk_tick"
    unfolding parse_qualified_expression_def
    by (intro runs_intros call_bind) (use that sub in auto)
  show "runs K n (parse_signed_name c p) (n - 1)" if "K = Some tk_leftsquare"
    unfolding parse_signed_name_def
    by (intro runs_intros runs_pbind [OF signature_runs [OF ok]]) (use that in auto)
  show call: "runs K n (parse_function_call c p) (n - 1)" if "K = Some tk_leftpar"
    unfolding parse_function_call_def
    by (intro runs_intros runs_pbind [OF association_list_runs]) (use that sub in auto)
  show "runs K n (parse_parenthesis_name c p) (n - 1)" if "K = Some tk_leftpar"
    unfolding parse_parenthesis_name_def
    by (intro runs_intros call_bind call separated_list_bind call_runs) (use that sub in auto)
  show "runs K n (parse_selected_name p) (n - 1)" if "K = Some tk_dot"
    unfolding parse_selected_name_def
    by (intro runs_intros) (use that in auto)
qed

lemma name_suffixes_run:
  assumes "callees_ok c n"
  shows "runs K n (p_loop (name_suffix c opts) e) n"
proof (rule p_loop_runs, goal_cases)
  case (1 m s K)
  have ok: "callees_ok c m" using callees_ok_mono [OF assms 1(1)] .
  note suffix = suffix_runs(1,2,3,5,6) [OF ok, THEN runs_pbind]
  show ?case
    unfolding name_suffix_def [of c opts s]
    by (intro runs_intros suffix) (use 1(2) in \<open>simp_all add: runs_pret\<close>)
qed

lemma name_runs:
  assumes "below c n"
  shows "runs K n (parse_name c opts) n"
  unfolding parse_name_def
  by (intro runs_intros simple_name_runs runs_mono [OF name_suffixes_run order_refl])
    (use assms in \<open>auto simp: belowD\<close>)

section \<open>Expressions\<close>

lemma choice_runs:
  assumes "callees_ok c n"
  shows "runs K n (parse_choice c) n"
  unfolding parse_choice_def
  by (intro runs_intros call_bind) (use nt_sub [OF assms] in auto)

lemma choices_runs:
  assumes "callees_ok c n"
  shows "runs K n (parse_choices c) n"
  unfolding parse_choices_def
proof (rule p_loop_runs, goal_cases)
  case (1 m xs K)
  have ok: "callees_ok c m" using callees_ok_mono [OF assms 1(1)] .
  show ?case
    by (intro runs_intros runs_pbind [OF choice_runs [OF ok]])
      (use 1(2) in \<open>auto simp del: One_nat_def intro!: runs_pret\<close>)
qed

lemma element_association_runs:
  assumes "callees_ok c n"
  shows "runs K n (parse_element_association c) n"
  unfolding parse_element_association_def
  by (intro runs_intros call_bind runs_pbind [OF choices_runs [OF assms]])
    (use nt_sub [OF assms] in auto)

definition signs_ok :: "callees \<Rightarrow> nat \<Rightarrow> bool" where
  "signs_ok c n \<longleftrightarrow> (\<forall>s \<in> {tk_plus, tk_minus}. runs (Some s) n (c NT_expression) n)"

lemma signs_bind:
  "\<lbrakk>signs_ok c n; d = tk_plus \<or> d = tk_minus; \<And>e. runs None n (f e) k\<rbrakk>
   \<Longrightarrow> runs (Some d) n (pbind (call_expression c) f) k"
  unfolding call_expression_def signs_ok_def by (rule runs_pbind [where n' = n]) (auto intro!: runs_pbind runs_pret)

lemma number_runs:
  "\<lbrakk>below c n; 0 < n; d \<noteq> tk_eof; n \<le> k\<rbrakk> \<Longrightarrow> runs (Some d) n (parse_number c lk) k"
  unfolding parse_number_def
  by (intro runs_intros call_bind) auto

lemma bracket_runs:
  assumes "below c n" and "0 < n" and "n \<le> k"
  shows "K = Some tk_leftpar \<Longrightarrow> runs K n (parse_aggregate c) k"
    and "K = Some tk_leftpar \<Longrightarrow> runs K n (parse_nested c) k"
    and "K = Some kw_new \<Longrightarrow> runs K n (parse_allocator c) k"
proof -
  have ok: "callees_ok c (n - Suc 0)" using assms by simp
  show "runs K n (parse_aggregate c) k" if "K = Some tk_leftpar"
    unfolding parse_aggregate_def
    by (intro runs_intros separated_list_bind element_association_runs)
      (use ok that assms(3) in \<open>auto intro: callees_ok_mono\<close>)
  show "runs K n (parse_nested c) k" if "K = Some tk_leftpar"
    unfolding parse_nested_def
    by (intro runs_intros call_bind) (use ok that assms(3) in auto)
  show "runs K n (parse_allocator c) k" if "K = Some kw_new"
    unfolding parse_allocator_def
    by (intro runs_intros call_bind) (use ok that assms(3) in auto)
qed

lemma this_literal_runs: "n \<le> k \<Longrightarrow> runs K n (this_literal lk) k"
  unfolding this_literal_def by (intro runs_intros) simp

lemma unresolved_runs: "n \<le> k \<Longrightarrow> runs K n (unresolved nm) k"
  unfolding unresolved_def by (rule runs_pret)

lemma primary_runs:
  assumes "below c n" and "\<And>opts. nt_ok c n (NT_name opts)" and "signs_ok c n"
  shows "runs K n (parse_primary c) n"
  unfolding parse_primary_def
  by (intro runs_intros call_bind number_runs bracket_runs this_literal_runs unresolved_runs signs_bind)
    (use assms in auto)

lemma callees_signs: "callees_ok c n \<Longrightarrow> signs_ok c n"
  by (simp add: callees_ok_def signs_ok_def)

lemmas primary_bind = primary_runs [THEN runs_pbind]

lemma rhs_tail:
  "\<lbrakk>map_of operations d \<noteq> None; 0 < n; runs None (n - 1) operand (n - 1); n - 1 \<le> k\<rbrakk>
   \<Longrightarrow> runs (Some d) n (parse_rhs operand e) k"
  by (rule runs_mono [OF parse_rhs_runs order_refl])

lemma factor_runs:
  assumes "below c n" and "\<And>opts. nt_ok c n (NT_name opts)" and "signs_ok c n"
  shows "runs K n (parse_factor c) n"
  unfolding parse_factor_def
  by (intro runs_intros primary_bind rhs_tail call_runs)
    (use assms in \<open>auto simp: operations_def callees_signs below_mono\<close>)

lemma operator_lists [simp]:
  "all_operators [tk_times, tk_div, kw_mod, kw_rem]" "all_operators [tk_concat, tk_plus, tk_minus]"
  "all_operators [kw_sll, kw_srl, kw_sla, kw_sra, kw_rol, kw_ror]"
  by (simp_all add: all_operators_def operations_def)

lemma term_runs:
  assumes "below c n" and "nt_ok c n NT_factor" and "n \<le> k"
  shows "runs K n (parse_term c) k"
  unfolding parse_term_def
  by (intro call_bind left_associative_runs call_runs) (use assms in \<open>auto simp: belowD\<close>)

text \<open>Where an expression may start: where a factor may be called, or at a sign.\<close>

definition starts :: "callees \<Rightarrow> nat \<Rightarrow> kind_t option \<Rightarrow> bool" where
  "starts c n K \<longleftrightarrow> nt_ok c n NT_factor \<or> K = Some tk_plus \<or> K = Some tk_minus"

lemma starts_below: "below c n \<Longrightarrow> m < n \<Longrightarrow> starts c m K"
  by (simp add: starts_def belowD)

lemma simple_expression_runs:
  assumes "below c n" and "starts c n K" and "n \<le> k"
  shows "runs K n (parse_simple_expression c) k"
  unfolding parse_simple_expression_def
  by (intro runs_intros runs_pbind [OF term_runs] left_associative_runs term_runs)
    (use assms in \<open>auto simp: belowD starts_def intro: below_mono\<close>)

lemma shift_expression_runs:
  assumes "below c n" and "starts c n K" and "n \<le> k"
  shows "runs K n (parse_shift_expression c) k"
  unfolding parse_shift_expression_def
  by (intro runs_pbind [OF simple_expression_runs] left_associative_runs simple_expression_runs)
    (use assms in \<open>auto simp: starts_below intro: below_mono\<close>)

lemma relation_runs:
  assumes "below c n" and "starts c n K" and "n \<le> k"
  shows "runs K n (parse_relation c) k"
  unfolding parse_relation_def
  by (intro runs_intros runs_pbind [OF shift_expression_runs] rhs_tail shift_expression_runs)
    (use assms in \<open>auto simp: operations_def starts_below intro: below_mono\<close>)

lemma boolean_loop_runs:
  assumes "below c n"
  shows "runs K n (p_loop (\<lambda>result.
          pbind p_current_token (\<lambda>k.
            if k \<in> {kw_nand, kw_nor} then pbind (parse_rhs (parse_relation c) result) (\<lambda>e. pret (Inr e))
            else if k \<in> {kw_and, kw_or, kw_xor, kw_xnor} then
              pbind (parse_rhs (parse_relation c) result) (\<lambda>e. pret (Inl e))
            else pret (Inr result))) e) n"
proof (rule p_loop_runs, goal_cases)
  case (1 m s K)
  have b: "below c m" using below_mono [OF assms 1(1)] .
  have rhs: "runs (Some d) m (pbind (parse_rhs (parse_relation c) s) f) m"
    if "d \<in> {kw_nand, kw_nor, kw_and, kw_or, kw_xor, kw_xnor}" "0 < m" "\<And>x. runs None (m - 1) (f x) m"
    for d and f :: "expression option \<Rightarrow> expression option parse"
    by (intro runs_pbind [OF parse_rhs_runs] relation_runs)
      (use that b in \<open>auto simp: operations_def starts_below intro: below_mono\<close>)
  show ?case
    by (intro runs_intros) (use 1(2) in \<open>auto simp del: One_nat_def intro!: rhs runs_pret\<close>)
qed

lemma boolean_expression_runs:
  assumes "below c n" and "starts c n K"
  shows "runs K n (parse_boolean_expression c) n"
  unfolding parse_boolean_expression_def
  by (rule runs_pbind [OF relation_runs boolean_loop_runs]) (use assms in auto)

section \<open>The circle\<close>

lemma parse_tree_eq: "parse_tree nt p = parse_node parse_tree nt p"
  by (subst parse_tree.simps) (rule refl)

lemma parse_tree_runs_node: "runs K n (parse_node parse_tree nt) n \<Longrightarrow> runs K n (parse_tree nt) n"
  by (rule runs_cong [OF parse_tree_eq])

lemma parse_tree_ok: "callees_ok parse_tree n"
proof (induction n rule: less_induct)
  case (less n)
  have b: "below parse_tree n" using less by (simp add: below_def)
  have name: "nt_ok parse_tree n (NT_name opts)" for opts
    unfolding nt_ok_def
    by (intro allI parse_tree_runs_node) (simp add: parse_node_def runs_pbind [OF name_runs [OF b]] runs_pret)
  have signs: "signs_ok parse_tree n"
    unfolding signs_ok_def
    by (intro ballI parse_tree_runs_node)
      (auto simp: parse_node_def starts_def intro!: runs_pbind [OF boolean_expression_runs [OF b]] runs_pret)
  have factor: "nt_ok parse_tree n NT_factor"
    unfolding nt_ok_def
    by (intro allI parse_tree_runs_node)
      (simp add: parse_node_def runs_pbind [OF factor_runs [OF b name signs]] runs_pret)
  have expr: "nt_ok parse_tree n NT_expression"
    unfolding nt_ok_def
    by (intro allI parse_tree_runs_node)
      (simp add: parse_node_def starts_def factor runs_pbind [OF boolean_expression_runs [OF b]] runs_pret)
  have "nt_ok parse_tree n NT_discrete_range"
    unfolding nt_ok_def
    by (intro allI parse_tree_runs_node)
      (simp add: parse_node_def runs_pbind [OF discrete_range_runs [OF b name expr]] runs_pret)
  then have "runs K n (parse_tree nt) n" for nt K
    using name factor expr by (cases nt) (auto simp: nt_ok_def)
  then show ?case
    using less by (auto simp: callees_ok_def le_less)
qed

lemma nt_parse_tree [simp]: "nt_ok parse_tree n nt"
  using parse_tree_ok by simp

text \<open>What the parser of the rest of the grammar uses.\<close>

lemmas tree_tails [runs_intros] =
  call_runs(1) [OF nt_parse_tree] call_runs(3) [OF nt_parse_tree] call_runs(4) [OF nt_parse_tree]
  type_mark_runs [OF nt_parse_tree] parse_range_runs [OF parse_tree_ok]
  subtype_indication_runs [OF callees_below [OF parse_tree_ok] nt_parse_tree]
  runs_mono [OF association_list_runs [OF parse_tree_ok] order_refl]
  runs_mono [OF choices_runs [OF parse_tree_ok] order_refl]

lemmas tree_runs =
  call_runs(1) [OF nt_parse_tree order_refl] call_runs(3) [OF nt_parse_tree order_refl]
  call_runs(4) [OF nt_parse_tree order_refl] type_mark_runs [OF nt_parse_tree order_refl]
  parse_range_runs [OF parse_tree_ok order_refl]
  subtype_indication_runs [OF callees_below [OF parse_tree_ok] nt_parse_tree order_refl]
  association_list_runs [OF parse_tree_ok] choices_runs [OF parse_tree_ok]

lemmas tree_intros [runs_intros] = tree_runs [THEN runs_pbind]

end
