(* ===== verification/Parser_Statements.thy ===== *)
theory Parser_Statements
  imports Expression_Facts
begin

text \<open>
  Sequential statements (\<^verbatim>\<open>src/vhdl/parser.cpp\<close>). The statements inside an if, a case or a loop are
  parsed by the argument \<open>s\<close>, and \<open>parse_sequential_statement\<close> closes the circle.
\<close>

section \<open>Messages\<close>

definition Wait_on_until_for_semic :: string where
  "Wait_on_until_for_semic = ''Expecting on, until, for or a semicolon''"

definition Wait_until_for_semic :: string where
  "Wait_until_for_semic = ''Expecting until, for or a semicolon''"

definition Wait_for_semic :: string where
  "Wait_for_semic = ''Expecting for or a semicolon''"

definition Wait_only_name_sensitivity :: string where
  "Wait_only_name_sensitivity = ''Only names allowed in a sensitivity list''"

definition Wait_only_one_condition :: string where
  "Wait_only_one_condition = ''Only one condition is allowed''"

definition Wait_only_one_sensitivity :: string where
  "Wait_only_one_sensitivity = ''Only one sensitivity lists is allowed''"

definition Assert_report_before_severity :: string where
  "Assert_report_before_severity = ''report must be before severity''"

definition Report_vhdl87 :: string where
  "Report_vhdl87 = ''report statement is not allowed in vhdl87''"

definition Reject_vhdl87 :: string where
  "Reject_vhdl87 = ''reject delay mechanism is not allowed in vhdl87''"

definition Inertial_vhdl87 :: string where
  "Inertial_vhdl87 = ''inertial delay mechanism is not allowed in vhdl87''"

definition Unaffected_waveforms_vhdl87 :: string where
  "Unaffected_waveforms_vhdl87 = ''Unaffected waveforms is not allowed in vhdl87''"

definition Case_missing_alternative :: string where
  "Case_missing_alternative = ''Missing alternative in case statement''"

definition Param_spec_expecting_ident :: string where
  "Param_spec_expecting_ident = ''Expecting identifier here''"

definition Expecting_assignment :: string where
  "Expecting_assignment = ''Expecting a signal assignment or a variable assignment''"

definition Expecting_seq_stmt :: string where
  "Expecting_seq_stmt =
     ''Expecting a signal assignment, variable assignment or a procedure call''"

text \<open>\<open>if (version_ == v) diag(msg);\<close> and \<open>if (optional(k)) e = parse_expression();\<close>\<close>

definition say_in :: "version \<Rightarrow> string \<Rightarrow> unit parse" where
  "say_in v msg = pbind this_version (\<lambda>w. if w = v then say msg [] else pret ())"

definition optional_expression :: "kind_t \<Rightarrow> expression option parse" where
  "optional_expression k = pbind (p_optional k) (\<lambda>found. if found then an_expression else pret None)"

section \<open>Simple statements\<close>

definition parse_sensitivity_list :: "name list parse" where
  "parse_sensitivity_list =
     separated_list
       (pbind a_name (\<lambda>n.
          if n \<noteq> None then pret n
          else pbind (say Wait_only_name_sensitivity []) (\<lambda>_. pret n))) tk_comma"

text \<open>The three switches of \<open>parse_wait_statement\<close>, the last one first.\<close>

definition wait_result :: "name list \<Rightarrow> expression option \<Rightarrow> expression option \<Rightarrow> sequential_statement option parse" where
  "wait_result sensitivity condition timeout =
     pret (Some (Sequential None (Seq_wait sensitivity condition timeout)))"

definition wait_timeout :: "name list \<Rightarrow> expression option \<Rightarrow> sequential_statement option parse" where
  "wait_timeout sensitivity condition =
     pbind p_current_token (\<lambda>k.
       if k = kw_on then
         pbind (say Wait_only_one_sensitivity []) (\<lambda>_. wait_result sensitivity condition None)
       else if k = kw_until then
         pbind (say Wait_only_one_condition []) (\<lambda>_. wait_result sensitivity condition None)
       else if k = kw_for then
         pbind (p_consume kw_for) (\<lambda>_.
         pbind an_expression (\<lambda>timeout.
         pbind (p_consume tk_semicolon) (\<lambda>_. wait_result sensitivity condition timeout)))
       else if k = tk_semicolon then
         pbind (p_consume tk_semicolon) (\<lambda>_. wait_result sensitivity condition None)
       else pbind (say Wait_for_semic []) (\<lambda>_. wait_result sensitivity condition None))"

definition wait_condition :: "name list \<Rightarrow> sequential_statement option parse" where
  "wait_condition sensitivity =
     pbind p_current_token (\<lambda>k.
       if k = kw_on then
         pbind (say Wait_only_one_sensitivity []) (\<lambda>_. wait_result sensitivity None None)
       else if k = kw_until then
         pbind (p_consume kw_until) (\<lambda>_.
         pbind an_expression (\<lambda>condition. wait_timeout sensitivity condition))
       else if k = kw_for then wait_timeout sensitivity None
       else if k = tk_semicolon then
         pbind (p_consume tk_semicolon) (\<lambda>_. wait_result sensitivity None None)
       else pbind (say Wait_until_for_semic []) (\<lambda>_. wait_result sensitivity None None))"

definition parse_wait_statement :: "sequential_statement option parse" where
  \<comment> \<open>the label is not stored\<close>
  "parse_wait_statement =
     pbind (p_consume kw_wait) (\<lambda>_.
     pbind p_current_token (\<lambda>k.
       if k = kw_on then
         pbind (p_consume kw_on) (\<lambda>_.
         pbind parse_sensitivity_list (\<lambda>sensitivity. wait_condition sensitivity))
       else if k = kw_until \<or> k = kw_for then wait_condition []
       else if k = tk_semicolon then
         pbind (p_consume tk_semicolon) (\<lambda>_. wait_result [] None None)
       else pbind (say Wait_on_until_for_semic []) (\<lambda>_. wait_result [] None None)))"

definition parse_assertion ::
    "(expression option \<times> expression option \<times> expression option) parse" where
  "parse_assertion =
     pbind (p_consume kw_assert) (\<lambda>_.
     pbind an_expression (\<lambda>c.
     pbind (optional_expression kw_report) (\<lambda>r.
     pbind (p_optional kw_severity) (\<lambda>severity.
       if \<not> severity then pret (c, r, None)
       else
         pbind an_expression (\<lambda>s.
         pbind (p_optional kw_report) (\<lambda>report.
           if \<not> report then pret (c, r, s)
           else
             pbind (say Assert_report_before_severity []) (\<lambda>_.
             pbind an_expression (\<lambda>r. pret (c, r, s)))))))))"

definition parse_assertion_statement :: "token option \<Rightarrow> sequential_statement option parse" where
  "parse_assertion_statement label =
     pbind parse_assertion (\<lambda>(c, r, s).
     pbind (p_consume tk_semicolon) (\<lambda>_.
       pret (map_option (\<lambda>c. Sequential label (Seq_assertion c r s)) c)))"

definition parse_report_statement :: "token option \<Rightarrow> sequential_statement option parse" where
  "parse_report_statement label =
     pbind (say_in vhdl87 Report_vhdl87) (\<lambda>_.
     pbind (p_consume kw_report) (\<lambda>_.
     pbind an_expression (\<lambda>r.
     pbind (optional_expression kw_severity) (\<lambda>s.
     pbind (p_consume tk_semicolon) (\<lambda>_.
       pret (map_option (\<lambda>r. Sequential label (Seq_report r s)) r))))))"

text \<open>The result is \<open>is_transport\<close>, \<open>is_reject\<close>, \<open>time\<close> and \<open>is_inertial\<close>.\<close>

definition inertial_delay ::
    "bool \<Rightarrow> expression option \<Rightarrow> (bool \<times> bool \<times> expression option \<times> bool) parse" where
  "inertial_delay is_reject time =
     pbind this_version (\<lambda>v.
     pbind (if v = vhdl87 then pbind p_current_token (\<lambda>k. pret (k = kw_inertial)) else pret False) (\<lambda>bad.
     pbind (if bad then say Inertial_vhdl87 [] else pret ()) (\<lambda>_.
     pbind (p_consume kw_inertial) (\<lambda>_.
       pret (False, is_reject, time, True)))))"

definition parse_delay_mechanism :: "(bool \<times> bool \<times> expression option \<times> bool) parse" where
  "parse_delay_mechanism =
     pbind p_current_token (\<lambda>k.
       if k = kw_transport then
         pbind (p_consume kw_transport) (\<lambda>_. pret (True, False, None, False))
       else if k = kw_reject then
         pbind (say_in vhdl87 Reject_vhdl87) (\<lambda>_.
         pbind (p_consume kw_reject) (\<lambda>_.
         pbind an_expression (\<lambda>time. inertial_delay True time)))
       else if k = kw_inertial then inertial_delay False None
       else pret (False, False, None, False))"

definition parse_target :: "name option \<Rightarrow> target option parse" where
  "parse_target name =
     (case name of
        Some n \<Rightarrow> pret (Some (Target_name n))
      | None \<Rightarrow>
          pbind p_current_token (\<lambda>k.
            if k = tk_leftpar then
              pbind an_expression (\<lambda>e. pret (map_option Target_expression e))
            else pbind a_name (\<lambda>n. pret (map_option Target_name n))))"

definition parse_waveform_element :: "waveform_element option parse" where
  "parse_waveform_element =
     pbind p_current_token (\<lambda>k.
     pbind (if k = kw_null then pbind p_skip (\<lambda>_. pret None) else an_expression) (\<lambda>e.
     pbind p_current_token (\<lambda>k1.
     pbind (if k1 = kw_after then pbind p_skip (\<lambda>_. an_expression) else pret None) (\<lambda>time.
       pret (Some (Waveform_element (k = kw_null) e time))))))"

definition parse_waveform :: "waveform_element list parse" where
  "parse_waveform =
     pbind p_current_token (\<lambda>k.
       if k = kw_unaffected then
         pbind (say_in vhdl87 Unaffected_waveforms_vhdl87) (\<lambda>_. pbind p_skip (\<lambda>_. pret []))
       else separated_list parse_waveform_element tk_comma)"

definition parse_signal_assignment_statement ::
    "token option \<Rightarrow> target option \<Rightarrow> sequential_statement option parse" where
  "parse_signal_assignment_statement label t =
     pbind (p_consume tk_lte) (\<lambda>_.
     pbind parse_delay_mechanism (\<lambda>(is_transport, is_reject, time, is_inertial).
     pbind parse_waveform (\<lambda>waveforms.
     pbind (p_consume tk_semicolon) (\<lambda>_.
       pret (if waveforms = [] then None
             else map_option (\<lambda>t.
               Sequential label (Seq_sig_assign t waveforms is_transport is_reject time is_inertial)) t)))))"

definition parse_variable_assignment_statement ::
    "token option \<Rightarrow> target option \<Rightarrow> sequential_statement option parse" where
  "parse_variable_assignment_statement label t =
     pbind (p_consume tk_coloneq) (\<lambda>_.
     pbind an_expression (\<lambda>e.
     pbind (p_consume tk_semicolon) (\<lambda>_.
       pret (case (t, e) of
               (Some t, Some e) \<Rightarrow> Some (Sequential label (Seq_var_assign t e))
             | _ \<Rightarrow> None))))"

definition parse_procedure_call_statement ::
    "token option \<Rightarrow> name option \<Rightarrow> sequential_statement option parse" where
  "parse_procedure_call_statement label n =
     pbind (p_consume tk_semicolon) (\<lambda>_.
       pret (map_option (\<lambda>n. Sequential label (Seq_pcall n)) n))"

definition parse_next_statement :: "token option \<Rightarrow> sequential_statement option parse" where
  "parse_next_statement label =
     pbind this_token (\<lambda>t.
     pbind (p_consume kw_next) (\<lambda>_.
     pbind (optional_expression kw_when) (\<lambda>e.
     pbind (p_consume tk_semicolon) (\<lambda>_.
       pret (Some (Sequential label (Seq_next t e)))))))"

definition parse_exit_statement :: "token option \<Rightarrow> sequential_statement option parse" where
  "parse_exit_statement label =
     pbind this_token (\<lambda>t.
     pbind (p_consume kw_exit) (\<lambda>_.
     pbind (p_optional tk_identifier) (\<lambda>_.
     pbind (optional_expression kw_when) (\<lambda>e.
     pbind (p_consume tk_semicolon) (\<lambda>_.
       pret (Some (Sequential label (Seq_exit t e))))))))"

definition parse_return_statement :: "token option \<Rightarrow> sequential_statement option parse" where
  "parse_return_statement label =
     pbind (p_consume kw_return) (\<lambda>_.
     pbind p_current_token (\<lambda>k.
     pbind (if k \<noteq> tk_semicolon then an_expression else pret None) (\<lambda>e.
     pbind (p_consume tk_semicolon) (\<lambda>_.
       pret (Some (Sequential label (Seq_return e)))))))"

definition parse_null_statement :: "token option \<Rightarrow> sequential_statement option parse" where
  "parse_null_statement label =
     pbind this_token (\<lambda>t.
     pbind (p_consume kw_null) (\<lambda>_.
     pbind (p_consume tk_semicolon) (\<lambda>_.
       pret (Some (Sequential label (Seq_null t))))))"

section \<open>Statements of statements\<close>

type_synonym statement_parser = "sequential_statement option parse"

definition parse_sequence_of_statements :: "statement_parser \<Rightarrow> sequential_statement list parse" where
  "parse_sequence_of_statements s = parse_many sequential_statements s"

text \<open>\<open>if (label) parse_optional_closing_label(label.value()); consume(tk::semicolon);\<close>\<close>

definition close_statement :: "token option \<Rightarrow> unit parse" where
  "close_statement label =
     pbind (case label of None \<Rightarrow> pret () | Some l \<Rightarrow> parse_optional_closing_label l) (\<lambda>_.
       p_consume tk_semicolon)"

text \<open>
  The branches of an if statement with their condition, the place of \<open>then\<close>, the statements and the
  place of the end; the code links each one to the one before as its \<open>otherwise\<close>.
\<close>

type_synonym branch = "expression option \<times> location \<times> sequential_statement list"

fun if_chain :: "token option \<Rightarrow> (branch \<times> location) list \<Rightarrow> sequential_statement option" where
  "if_chain label [] = None"
| "if_chain label (((c, t, ss), e) # bs) = Some (Sequential label (Seq_if c ss (if_chain None bs) t e))"

definition then_statements :: "statement_parser \<Rightarrow> expression option \<Rightarrow> branch parse" where
  "then_statements s c =
     pbind previous_location (\<lambda>t.
     pbind (parse_sequence_of_statements s) (\<lambda>ss. pret (c, t, ss)))"

definition condition_then :: "statement_parser \<Rightarrow> branch parse" where
  "condition_then s =
     pbind an_expression (\<lambda>c.
     pbind (p_consume kw_then) (\<lambda>_. then_statements s c))"

text \<open>The \<open>elsif\<close> parts; the state is the branches before and the last one, whose end is not known.\<close>

definition elsif_parts ::
    "statement_parser \<Rightarrow> (branch \<times> location) list \<times> branch \<Rightarrow> ((branch \<times> location) list \<times> branch) parse" where
  "elsif_parts s =
     p_loop (\<lambda>(bs, tail).
       pbind p_current_token (\<lambda>k.
         if k = kw_elsif then
           pbind this_location (\<lambda>e.
           pbind (p_consume kw_elsif) (\<lambda>_.
           pbind (condition_then s) (\<lambda>b. pret (Inl (bs @ [(tail, e)], b)))))
         else pret (Inr (bs, tail))))"

text \<open>The end of the branch before the \<open>else\<close> is set again at \<open>end\<close>, the one of the \<open>else\<close> never.\<close>

definition else_part :: "statement_parser \<Rightarrow> (branch \<times> location) list parse" where
  "else_part s =
     pbind p_current_token (\<lambda>k.
       if k = kw_else then
         pbind (p_consume kw_else) (\<lambda>_.
         pbind (then_statements s None) (\<lambda>b. pret [(b, no_location)]))
       else pret [])"

definition parse_if_statement :: "statement_parser \<Rightarrow> token option \<Rightarrow> sequential_statement option parse" where
  "parse_if_statement s label =
     pbind (p_consume kw_if) (\<lambda>_.
     pbind (condition_then s) (\<lambda>b.
     pbind (elsif_parts s ([], b)) (\<lambda>(bs, tail).
     pbind (else_part s) (\<lambda>otherwise.
     pbind (p_eat kw_end) (\<lambda>e.
     pbind (p_consume kw_if) (\<lambda>_.
     pbind (close_statement label) (\<lambda>_.
       pret (if_chain label (bs @ (tail, e) # otherwise)))))))))"

definition case_alternatives :: "statement_parser \<Rightarrow> case_alternative list parse" where
  "case_alternatives s =
     p_loop (\<lambda>alts.
       pbind p_current_token (\<lambda>k.
         if k = kw_when then
           pbind (p_consume kw_when) (\<lambda>_.
           pbind some_choices (\<lambda>choices.
           pbind (p_consume tk_rightarrow) (\<lambda>_.
           pbind (parse_sequence_of_statements s) (\<lambda>ss.
             pret (Inl (alts @ [Case_alternative choices ss]))))))
         else pret (Inr alts))) []"

definition parse_case_statement :: "statement_parser \<Rightarrow> token option \<Rightarrow> sequential_statement option parse" where
  \<comment> \<open>the label is not stored\<close>
  "parse_case_statement s label =
     pbind (p_consume kw_case) (\<lambda>_.
     pbind an_expression (\<lambda>e.
     pbind (p_consume kw_is) (\<lambda>_.
     pbind p_current_token (\<lambda>k.
     pbind (if k = kw_end then say Case_missing_alternative [] else pret ()) (\<lambda>_.
     pbind (case_alternatives s) (\<lambda>alts.
     pbind (p_consume kw_end) (\<lambda>_.
     pbind (p_consume kw_case) (\<lambda>_.
     pbind (close_statement label) (\<lambda>_.
       pret (map_option (\<lambda>e. Sequential None (Seq_case e alts)) e))))))))))"

definition parse_parameter_specification :: "(param_spec \<times> bool) parse" where
  "parse_parameter_specification =
     pbind (parse_identifier Param_spec_expecting_ident) (\<lambda>(t, v).
     pbind (p_consume kw_in) (\<lambda>_.
     pbind a_discrete_range (\<lambda>r.
       pret (Param_spec t r, v \<and> r \<noteq> None))))"

text \<open>The statements of a loop with the places of \<open>loop\<close> and \<open>end\<close>.\<close>

definition loop_body ::
    "statement_parser \<Rightarrow> token option \<Rightarrow> (location \<times> sequential_statement list \<times> location) parse" where
  "loop_body s label =
     pbind (p_eat kw_loop) (\<lambda>l.
     pbind (parse_sequence_of_statements s) (\<lambda>ss.
     pbind (p_eat kw_end) (\<lambda>e.
     pbind (p_consume kw_loop) (\<lambda>_.
     pbind (close_statement label) (\<lambda>_.
       pret (l, ss, e))))))"

definition parse_for_loop_statement :: "statement_parser \<Rightarrow> token option \<Rightarrow> sequential_statement option parse" where
  "parse_for_loop_statement s label =
     pbind (p_consume kw_for) (\<lambda>_.
     pbind parse_parameter_specification (\<lambda>(param, v).
     pbind (loop_body s label) (\<lambda>(l, ss, e).
       pret (if v then Some (Sequential label (Seq_for param ss l e)) else None))))"

text \<open>The code writes the two places to the member \<open>for_loop\<close> of the union.\<close>

definition parse_while_loop_statement :: "statement_parser \<Rightarrow> token option \<Rightarrow> sequential_statement option parse" where
  "parse_while_loop_statement s label =
     pbind (optional_expression kw_while) (\<lambda>c.
     pbind (loop_body s label) (\<lambda>(l, ss, e).
       pret (Some (Sequential label (Seq_while c ss l e)))))"

definition parse_loop_statement :: "statement_parser \<Rightarrow> token option \<Rightarrow> sequential_statement option parse" where
  "parse_loop_statement s label =
     pbind p_current_token (\<lambda>k.
       if k = kw_for then parse_for_loop_statement s label
       else if k = kw_while \<or> k = kw_loop then parse_while_loop_statement s label
       else pret None)"

section \<open>The statement\<close>

text \<open>An assignment to the target, or the message and a token skipped.\<close>

definition assignment :: "token option \<Rightarrow> target option \<Rightarrow> string \<Rightarrow> sequential_statement option parse" where
  "assignment label t msg =
     pbind p_current_token (\<lambda>k.
       if k = tk_lte then parse_signal_assignment_statement label t
       else pbind p_current_token (\<lambda>k.
         if k = tk_coloneq then parse_variable_assignment_statement label t
         else pbind (say msg []) (\<lambda>_. pbind p_skip (\<lambda>_. pret None))))"

definition name_statement :: "token option \<Rightarrow> sequential_statement option parse" where
  "name_statement label =
     pbind a_name (\<lambda>name.
     pbind p_current_token (\<lambda>k.
       if k = tk_semicolon then parse_procedure_call_statement label name
       else assignment label (map_option Target_name name) Expecting_seq_stmt))"

definition aggregate_statement :: "token option \<Rightarrow> sequential_statement option parse" where
  "aggregate_statement label =
     pbind an_expression (\<lambda>e.
       assignment label (map_option Target_expression e) Expecting_assignment)"

definition sequential_statement_with :: "statement_parser \<Rightarrow> sequential_statement option parse" where
  "sequential_statement_with s =
     pbind parse_optional_label (\<lambda>label.
     pbind p_current_token (\<lambda>k.
       if k = kw_wait then parse_wait_statement
       else if k = kw_assert then parse_assertion_statement label
       else if k = kw_report then parse_report_statement label
       else if k = tk_identifier \<or> k = tk_stringliteral then name_statement label
       else if k = tk_leftpar then aggregate_statement label
       else if k = kw_if then parse_if_statement s label
       else if k \<in> {kw_for, kw_while, kw_loop} then parse_loop_statement s label
       else if k = kw_case then parse_case_statement s label
       else if k = kw_null then parse_null_statement label
       else if k = kw_next then parse_next_statement label
       else if k = kw_exit then parse_exit_statement label
       else if k = kw_return then parse_return_statement label
       else never_here))"

lemma parse_sequence_of_statements_mono [partial_function_mono]:
  assumes "\<And>p. mono_option (\<lambda>f. s f p)"
  shows "mono_option (\<lambda>f. parse_sequence_of_statements (s f) p)"
  unfolding parse_sequence_of_statements_def by (intro partial_function_mono option.const_mono assms)

lemma then_statements_mono [partial_function_mono]:
  assumes "\<And>p. mono_option (\<lambda>f. s f p)"
  shows "mono_option (\<lambda>f. then_statements (s f) c p)"
  unfolding then_statements_def by (intro partial_function_mono option.const_mono assms)

lemma condition_then_mono [partial_function_mono]:
  assumes "\<And>p. mono_option (\<lambda>f. s f p)"
  shows "mono_option (\<lambda>f. condition_then (s f) p)"
  unfolding condition_then_def by (intro partial_function_mono option.const_mono assms)

lemma elsif_parts_mono [partial_function_mono]:
  assumes "\<And>p. mono_option (\<lambda>f. s f p)"
  shows "mono_option (\<lambda>f. elsif_parts (s f) b p)" and
    "mono_option (\<lambda>f. else_part (s f) p)"
  unfolding elsif_parts_def else_part_def by (intro partial_function_mono option.const_mono assms)+

lemma parse_if_statement_mono [partial_function_mono]:
  assumes "\<And>p. mono_option (\<lambda>f. s f p)"
  shows "mono_option (\<lambda>f. parse_if_statement (s f) l p)"
  unfolding parse_if_statement_def by (intro partial_function_mono option.const_mono assms)

lemma case_alternatives_mono [partial_function_mono]:
  assumes "\<And>p. mono_option (\<lambda>f. s f p)"
  shows "mono_option (\<lambda>f. case_alternatives (s f) p)"
  unfolding case_alternatives_def by (intro partial_function_mono option.const_mono assms)

lemma parse_case_statement_mono [partial_function_mono]:
  assumes "\<And>p. mono_option (\<lambda>f. s f p)"
  shows "mono_option (\<lambda>f. parse_case_statement (s f) l p)"
  unfolding parse_case_statement_def by (intro partial_function_mono option.const_mono assms)

lemma loop_body_mono [partial_function_mono]:
  assumes "\<And>p. mono_option (\<lambda>f. s f p)"
  shows "mono_option (\<lambda>f. loop_body (s f) l p)"
  unfolding loop_body_def by (intro partial_function_mono option.const_mono assms)

lemma parse_for_loop_statement_mono [partial_function_mono]:
  assumes "\<And>p. mono_option (\<lambda>f. s f p)"
  shows "mono_option (\<lambda>f. parse_for_loop_statement (s f) l p)" and
    "mono_option (\<lambda>f. parse_while_loop_statement (s f) l p)"
  unfolding parse_for_loop_statement_def parse_while_loop_statement_def by (intro partial_function_mono option.const_mono assms)+

lemma parse_loop_statement_mono [partial_function_mono]:
  assumes "\<And>p. mono_option (\<lambda>f. s f p)"
  shows "mono_option (\<lambda>f. parse_loop_statement (s f) l p)"
  unfolding parse_loop_statement_def by (intro partial_function_mono option.const_mono assms)

lemma sequential_statement_with_mono [partial_function_mono]:
  assumes "\<And>p. mono_option (\<lambda>f. s f p)"
  shows "mono_option (\<lambda>f. sequential_statement_with (s f) p)"
  unfolding sequential_statement_with_def by (intro partial_function_mono option.const_mono assms)

partial_function (option) parse_sequential_statement ::
    "parser \<Rightarrow> (parse_error, sequential_statement option \<times> parser) outcome" where
  "parse_sequential_statement p0 = sequential_statement_with parse_sequential_statement p0"

declare parse_sequential_statement.simps [code]

end
