(* ===== verification/Statement_Facts.thy ===== *)
theory Statement_Facts
  imports Parser_Statements
begin

text \<open>
  Every sequential statement uses up the token it begins with, and the parser of sequential
  statements returns or throws.
\<close>

section \<open>Simple statements\<close>

lemma say_in_runs [runs_intros]:
  "runs K n (f ()) k \<Longrightarrow> runs K n (pbind (say_in v msg) f) k"
  unfolding say_in_def by (intro runs_intros)

lemma optional_expression_runs [runs_intros]:
  "(\<And>e. runs None n (f e) k) \<Longrightarrow> runs K n (pbind (optional_expression c) f) k"
  unfolding optional_expression_def
  by (rule runs_pbind [where n' = n]) (intro runs_intros; simp)+

lemma sensitivity_runs: "runs K n parse_sensitivity_list n"
  unfolding parse_sensitivity_list_def
  by (intro separated_list_runs runs_intros) simp_all

lemma wait_parts_run:
  "n \<le> k \<Longrightarrow> runs K n (wait_result l c t) k"
  "n \<le> k \<Longrightarrow> runs K n (wait_timeout l c) k"
  "n \<le> k \<Longrightarrow> runs K n (wait_condition l) k"
proof -
  show r: "runs K n (wait_result l c t) k" if "n \<le> k" for K n k l c t
    unfolding wait_result_def by (rule runs_pret) (rule that)
  show t: "runs K n (wait_timeout l c) k" if "n \<le> k" for K n k l c
    unfolding wait_timeout_def by (intro runs_intros r) (use that in simp_all)
  show "runs K n (wait_condition l) k" if "n \<le> k"
    unfolding wait_condition_def by (intro runs_intros r t) (use that in simp_all)
qed

lemma assertion_runs: "K = Some kw_assert \<Longrightarrow> runs K n parse_assertion (n - 1)"
  unfolding parse_assertion_def by (intro runs_intros) simp_all

lemma delay_runs: "runs K n parse_delay_mechanism n"
  unfolding parse_delay_mechanism_def inertial_delay_def by (intro runs_intros) simp_all

lemma target_runs: "runs K n (parse_target m) n"
  unfolding parse_target_def by (intro runs_intros) simp_all

lemma waveform_runs: "runs K n parse_waveform n"
  unfolding parse_waveform_def parse_waveform_element_def
  by (intro runs_intros separated_list_runs tree_runs) simp_all

lemma simple_statement_runs:
  "K = Some kw_wait \<Longrightarrow> runs K n parse_wait_statement (n - 1)"
  "K = Some kw_assert \<Longrightarrow> runs K n (parse_assertion_statement l) (n - 1)"
  "K = Some kw_report \<Longrightarrow> runs K n (parse_report_statement l) (n - 1)"
  "K = Some tk_lte \<Longrightarrow> runs K n (parse_signal_assignment_statement l t) (n - 1)"
  "K = Some tk_coloneq \<Longrightarrow> runs K n (parse_variable_assignment_statement l t) (n - 1)"
  "K = Some tk_semicolon \<Longrightarrow> runs K n (parse_procedure_call_statement l m) (n - 1)"
  "K = Some kw_next \<Longrightarrow> runs K n (parse_next_statement l) (n - 1)"
  "K = Some kw_exit \<Longrightarrow> runs K n (parse_exit_statement l) (n - 1)"
  "K = Some kw_return \<Longrightarrow> runs K n (parse_return_statement l) (n - 1)"
  "K = Some kw_null \<Longrightarrow> runs K n (parse_null_statement l) (n - 1)"
  unfolding parse_wait_statement_def parse_assertion_statement_def parse_report_statement_def
    parse_signal_assignment_statement_def parse_variable_assignment_statement_def
    parse_procedure_call_statement_def parse_next_statement_def parse_exit_statement_def
    parse_return_statement_def parse_null_statement_def
  by (intro runs_intros wait_parts_run runs_pbind [OF sensitivity_runs] runs_pbind [OF assertion_runs]
      runs_pbind [OF delay_runs] runs_pbind [OF waveform_runs]; simp)+

section \<open>Statements of statements\<close>

lemma element_ok_mono: "element_ok st s n \<Longrightarrow> m \<le> n \<Longrightarrow> element_ok st s m"
  by (simp add: element_ok_def)

lemma sequence_runs [runs_intros]:
  "element_ok sequential_statements s n \<Longrightarrow> (\<And>ss. runs None n (f ss) k)
   \<Longrightarrow> runs K n (pbind (parse_sequence_of_statements s) f) k"
  unfolding parse_sequence_of_statements_def by (rule runs_parse_many)

lemma close_runs: "runs K n (close_statement l) n"
  unfolding close_statement_def by (intro runs_intros) simp_all

lemmas close_bind [runs_intros] = close_runs [THEN runs_pbind]

lemma then_runs:
  assumes "element_ok sequential_statements s n"
  shows "runs K n (then_statements s c) n" and "runs K n (condition_then s) n"
proof -
  show then': "runs K n (then_statements s c) n" for K c
    unfolding then_statements_def by (intro runs_intros assms) simp
  have "runs K m (then_statements s c) n" if "m \<le> n" for K m c
    unfolding then_statements_def by (intro runs_intros element_ok_mono [OF assms that]) (simp add: that)
  then show "runs K n (condition_then s) n"
    unfolding condition_then_def by (intro runs_intros) simp
qed

lemma elsif_runs:
  assumes "element_ok sequential_statements s n"
  shows "runs K n (elsif_parts s b) n"
  unfolding elsif_parts_def
proof (rule p_loop_runs, goal_cases)
  case (1 m b K)
  have ok: "element_ok sequential_statements s (m - 1)" using element_ok_mono [OF assms] 1(1) by simp
  show ?case
    by (intro runs_intros runs_pbind [OF then_runs(2)])
      (use 1(2) ok in \<open>auto simp del: One_nat_def intro!: runs_pret\<close>)
qed

lemma alternatives_runs:
  assumes "element_ok sequential_statements s n"
  shows "runs K n (case_alternatives s) n"
  unfolding case_alternatives_def
proof (rule p_loop_runs, goal_cases)
  case (1 m b K)
  have ok: "element_ok sequential_statements s (m - 1)" using element_ok_mono [OF assms] 1(1) by simp
  show ?case
    by (intro runs_intros) (use 1(2) ok in \<open>auto simp del: One_nat_def intro!: runs_pret\<close>)
qed

lemma parameter_runs: "runs K n parse_parameter_specification n"
  unfolding parse_parameter_specification_def by (intro runs_intros) simp_all

lemma loop_body_runs:
  assumes "element_ok sequential_statements s n"
  shows "runs K n (loop_body s l) n"
proof -
  have "element_ok sequential_statements s (left_behind K kw_loop n)"
    using assms by (rule element_ok_mono) simp
  then show ?thesis unfolding loop_body_def by (intro runs_intros) simp_all
qed

text \<open>Where the statement is known by its keyword, which is used up before any statement inside.\<close>

lemma compound_runs:
  assumes "element_ok sequential_statements s (n - 1)"
  shows "K = Some kw_if \<Longrightarrow> runs K n (parse_if_statement s l) (n - 1)"
    and "K = Some kw_case \<Longrightarrow> runs K n (parse_case_statement s l) (n - 1)"
    and "K = Some kw_for \<Longrightarrow> runs K n (parse_for_loop_statement s l) (n - 1)"
    and "K = Some c \<Longrightarrow> c \<in> {kw_while, kw_loop} \<Longrightarrow> runs K n (parse_while_loop_statement s l) (n - 1)"
proof -
  have ok: "element_ok sequential_statements s m" if "m \<le> n - 1" for m
    using element_ok_mono [OF assms that] .
  show "runs K n (parse_if_statement s l) (n - 1)" if "K = Some kw_if"
    unfolding parse_if_statement_def else_part_def
    by (intro runs_intros runs_pbind [OF then_runs(2)] runs_pbind [OF elsif_runs] runs_pbind [OF then_runs(1)])
      (use that ok in auto)
  show "runs K n (parse_case_statement s l) (n - 1)" if "K = Some kw_case"
    unfolding parse_case_statement_def
    by (intro runs_intros runs_pbind [OF alternatives_runs]) (use that ok in auto)
  show "runs K n (parse_for_loop_statement s l) (n - 1)" if "K = Some kw_for"
    unfolding parse_for_loop_statement_def
    by (intro runs_intros runs_pbind [OF parameter_runs] runs_pbind [OF loop_body_runs]) (use that ok in auto)
  show "runs K n (parse_while_loop_statement s l) (n - 1)" if "K = Some c" "c \<in> {kw_while, kw_loop}"
  proof (cases "c = kw_while")
    case True
    have "runs K n (optional_expression kw_while) (n - 1)"
      unfolding optional_expression_def by (intro runs_intros) (use that True in auto)
    then show ?thesis
      unfolding parse_while_loop_statement_def
      by (rule runs_pbind) (intro runs_intros runs_pbind [OF loop_body_runs], use ok in auto)
  next
    case False
    have "runs (Some kw_loop) n (loop_body s l) (n - 1)"
      unfolding loop_body_def by (intro runs_intros) (use ok in auto)
    then show ?thesis
      using that False unfolding parse_while_loop_statement_def optional_expression_def
      by (intro runs_intros) (auto intro!: runs_pbind [where n' = "n - 1"] runs_intros loop_body_runs ok)
  qed
qed

section \<open>The statement\<close>

lemma optional_label_known:
  assumes "c \<noteq> tk_eof" and "runs (Some c) n (f None) k" and "\<And>t. 0 < n \<Longrightarrow> runs None (n - 1) (f (Some t)) k"
  shows "runs (Some c) n (pbind parse_optional_label f) k"
  unfolding parse_optional_label_def
  by (intro runs_intros) (use assms in auto)

lemma assignment_runs: "runs K n (assignment l t msg) n"
proof -
  have "runs (Some tk_lte) n (parse_signal_assignment_statement l t) n"
    "runs (Some tk_coloneq) n (parse_variable_assignment_statement l t) n"
    using runs_mono [OF simple_statement_runs(4) [OF refl] order_refl]
      runs_mono [OF simple_statement_runs(5) [OF refl] order_refl] by simp_all
  then show ?thesis
    unfolding assignment_def by (intro runs_intros) auto
qed

text \<open>A name and a parenthesis use up the token they begin with.\<close>

lemma name_used:
  assumes "c \<in> {tk_identifier, tk_character, tk_stringliteral}"
  shows "runs (Some c) n (call_name parse_tree opts) (n - 1)"
proof -
  have "runs (Some c) n (parse_name parse_tree opts) (n - 1)"
    unfolding parse_name_def
    by (intro runs_intros simple_name_runs name_suffixes_run parse_tree_ok) (use assms in auto)
  then have "runs (Some c) n (parse_tree (NT_name opts)) (n - 1)"
    by (intro runs_cong [OF parse_tree_eq]) (simp add: parse_node_def runs_pbind runs_pret)
  then show ?thesis unfolding call_name_def by (rule runs_pbind) (simp add: runs_pret)
qed

lemmas name_used_bind = name_used [THEN runs_pbind]

lemma paren_used: "runs (Some tk_leftpar) n an_expression (n - 1)"
proof (cases "n = 0")
  case False
  define c where "c = parse_tree"
  have ok: "callees_ok c m" for m by (simp add: c_def parse_tree_ok)
  note sub = callees_below [OF ok] ok callees_nt [OF ok] starts_below [OF callees_below [OF ok]]
  have starts: "starts c m K" for m K using ok by (simp add: starts_def)
  have node: "runs (Some tk_leftpar) n (parse_node c nt) (n - 1) \<Longrightarrow> runs (Some tk_leftpar) n (c nt) (n - 1)"
    for nt unfolding c_def by (rule runs_cong [OF parse_tree_eq])
  have "runs (Some tk_leftpar) n (parse_primary c) (n - 1)"
    unfolding parse_primary_def
    by (intro runs_intros)
      (use False ok in \<open>auto simp: parse_aggregate_def parse_nested_def
        intro!: runs_intros separated_list_bind call_bind element_association_runs\<close>)
  then have "runs (Some tk_leftpar) n (parse_factor c) (n - 1)"
    unfolding parse_factor_def
    by (intro runs_intros) (auto intro!: runs_pbind [where n' = "n - 1"] runs_intros rhs_tail call_runs
        simp: operations_def sub)
  then have "runs (Some tk_leftpar) n (c NT_factor) (n - 1)"
    by (intro node) (simp add: parse_node_def runs_pbind runs_pret)
  then have "runs (Some tk_leftpar) n (call_factor c) (n - 1)"
    unfolding call_factor_def by (rule runs_pbind) (simp add: runs_pret)
  then have t: "runs (Some tk_leftpar) n (parse_term c) (n - 1)"
    unfolding parse_term_def
    by (rule runs_pbind) (auto intro!: left_associative_runs call_runs simp: sub)
  have "runs (Some tk_leftpar) n (parse_simple_expression c) (n - 1)"
    unfolding parse_simple_expression_def
    by (intro runs_intros) (auto intro!: runs_pbind [OF t] left_associative_runs term_runs simp: sub)
  then have "runs (Some tk_leftpar) n (parse_shift_expression c) (n - 1)"
    unfolding parse_shift_expression_def
    by (rule runs_pbind) (auto intro!: left_associative_runs simple_expression_runs simp: sub starts)
  then have "runs (Some tk_leftpar) n (parse_relation c) (n - 1)"
    unfolding parse_relation_def
    by (rule runs_pbind) (intro runs_intros rhs_tail shift_expression_runs; auto simp: sub starts operations_def)
  then have "runs (Some tk_leftpar) n (parse_boolean_expression c) (n - 1)"
    unfolding parse_boolean_expression_def
    by (rule runs_pbind [OF _ boolean_loop_runs]) (simp add: sub)
  then have "runs (Some tk_leftpar) n (c NT_expression) (n - 1)"
    by (intro node) (simp add: parse_node_def runs_pbind runs_pret)
  then show ?thesis unfolding call_expression_def c_def by (rule runs_pbind) (simp add: runs_pret)
qed (auto simp: runs_def ready_for_def p_left_def fp_left_def)

lemma loop_statement_runs:
  assumes "element_ok sequential_statements s (n - 1)" and "c \<in> {kw_for, kw_while, kw_loop}"
  shows "runs (Some c) n (parse_loop_statement s l) (n - 1)"
  unfolding parse_loop_statement_def
  by (intro runs_intros compound_runs [OF assms(1)]) (use assms(2) in auto)

lemma expression_statement_runs:
  "c \<in> {tk_identifier, tk_stringliteral} \<Longrightarrow> runs (Some c) n (name_statement l) (n - 1)"
  "runs (Some tk_leftpar) n (aggregate_statement l) (n - 1)"
proof -
  have call: "runs (Some tk_semicolon) m (parse_procedure_call_statement l e) m" for m e
    by (rule runs_mono [OF simple_statement_runs(6) [OF refl] order_refl]) simp
  show "runs (Some c) n (name_statement l) (n - 1)" if "c \<in> {tk_identifier, tk_stringliteral}"
    unfolding name_statement_def
    by (intro name_used_bind runs_intros assignment_runs) (use that call in auto)
  show "runs (Some tk_leftpar) n (aggregate_statement l) (n - 1)"
    unfolding aggregate_statement_def by (rule runs_pbind [OF paren_used assignment_runs])
qed

lemmas statement_tails =
  simple_statement_runs [THEN runs_mono [OF _ order_refl]] compound_runs(1,2) [THEN runs_mono [OF _ order_refl]]
  loop_statement_runs [THEN runs_mono [OF _ order_refl]] expression_statement_runs [THEN runs_mono [OF _ order_refl]]

lemma statement_switch_runs:
  assumes "element_ok sequential_statements s (m - 1)" and "m - 1 \<le> k"
  shows "runs K m (pbind p_current_token (\<lambda>k.
       if k = kw_wait then parse_wait_statement
       else if k = kw_assert then parse_assertion_statement label
       else if k = kw_report then parse_report_statement label
       else if k = tk_identifier \<or> k = tk_stringliteral then name_statement label
       else if k = tk_leftpar then aggregate_statement label
       else if k = kw_if then parse_if_statement s label
       else if k \<in> {kw_for, kw_while, kw_loop} then parse_loop_statement s label
       else if k = kw_case then parse_case_statement s label
       else if k = kw_null then parse_null_statement label
       else if k = kw_next then parse_next_statement label
       else if k = kw_exit then parse_exit_statement label
       else if k = kw_return then parse_return_statement label
       else never_here)) k"
  by (intro runs_intros) (use assms in \<open>auto intro!: statement_tails runs_intros\<close>)

lemma statement_with_runs:
  assumes "element_ok sequential_statements s (n - 1)" and "c \<noteq> tk_eof"
  shows "runs (Some c) n (sequential_statement_with s) (n - 1)"
  unfolding sequential_statement_with_def
  by (intro optional_label_known statement_switch_runs) (use assms in \<open>auto intro: element_ok_mono\<close>)

lemma parse_sequential_statement_ok: "element_ok sequential_statements parse_sequential_statement n"
proof (induction n rule: less_induct)
  case (less n)
  show ?case
    unfolding element_ok_def
  proof (intro allI impI)
    fix c m assume c: "is_begin_of_element_in_state c sequential_statements" and m: "m \<le> n"
    have "element_ok sequential_statements parse_sequential_statement (m - 1) \<or> m = 0"
      using less.IH [of "m - 1"] m by (cases m) auto
    then show "runs (Some c) m parse_sequential_statement (m - 1)"
    proof
      assume "m = 0"
      then show ?thesis using begin_not_eof [OF c] by (auto simp: runs_def ready_for_def p_left_def fp_left_def)
    next
      assume "element_ok sequential_statements parse_sequential_statement (m - 1)"
      from statement_with_runs [OF this begin_not_eof [OF c]] show ?thesis
        by (rule runs_cong [OF parse_sequential_statement.simps])
    qed
  qed
qed

text \<open>With the statement itself the parsers of lists and of the delimited parts are complete.\<close>

abbreviation "some_statements \<equiv> parse_sequence_of_statements parse_sequential_statement"

lemmas statements_bind [runs_intros] = sequence_runs [OF parse_sequential_statement_ok]

end
