(* ===== verification/Parser_Types.thy ===== *)
theory Parser_Types
  imports Statement_Facts
begin

text \<open>
  Type definitions, object and interface declarations and specifications (\<^verbatim>\<open>src/vhdl/parser.cpp\<close>): the
  parts of a declaration that do not contain declarations themselves.
\<close>

section \<open>Messages\<close>

definition Expected_identifier_or_character :: string where
  "Expected_identifier_or_character = ''identifier or character expected''"

definition Expected_scalar_type_defn :: string where
  "Expected_scalar_type_defn = ''Expected a scalar type definition''"

definition Expected_primary_unit :: string where
  "Expected_primary_unit = ''Physical literal expects a primary unit''"

definition Expected_secondary_unit :: string where
  "Expected_secondary_unit = ''Physical literal expects a secondary unit''"

definition Expected_composite_type_defn :: string where
  "Expected_composite_type_defn = ''Expected a composite type definition''"

definition Expected_type_name :: string where
  "Expected_type_name = ''Expected type name''"

definition Expected_subtype_name :: string where
  "Expected_subtype_name = ''Expected type name''"

definition Expecting_type_def :: string where
  "Expecting_type_def = ''Expecting a type definition''"

definition Open_file_vhdl87 :: string where
  "Open_file_vhdl87 = ''open kind expressions not allowed in vhdl87''"

definition File_name_vhdl87 :: string where
  "File_name_vhdl87 = ''file name expected in vhdl87''"

definition File_mode_vhdl87 :: string where
  "File_mode_vhdl87 = ''mode is only allowed in vhdl87''"

definition Wrong_file_mode :: string where
  "Wrong_file_mode = ''This mode is not allowed in a file declaration''"

definition Colon_in_attr_spec :: string where
  "Colon_in_attr_spec = ''use keyword of after attribute identifier''"

definition Char_entity_designator_vhdl87 :: string where
  "Char_entity_designator_vhdl87 = ''Character is not a valid entity designator in vhdl87''"

definition Expected_entity_designator :: string where
  "Expected_entity_designator = ''Expected entity designator''"

definition Expected_attribute_identifier :: string where
  "Expected_attribute_identifier = ''Expected attribute identifier''"

definition Expected_component_name :: string where
  "Expected_component_name = ''Expected component name''"

definition Expected_instantiation_list :: string where
  "Expected_instantiation_list = ''Expected instantiation list''"

definition Expected_entity_aspect :: string where
  "Expected_entity_aspect = ''expected 'entity', 'configuration' or 'open'' @ [CHR 0x27]"

section \<open>Type definitions\<close>

definition parse_identifier_list :: "token list parse" where
  "parse_identifier_list =
     separated_list
       (pbind this_token (\<lambda>t. pbind (p_consume tk_identifier) (\<lambda>_. pret (Some t)))) tk_comma"

text \<open>Is the bound a real literal?\<close>

fun is_real_literal :: "expression \<Rightarrow> bool" where
  "is_real_literal (Expr_literal _ lk) \<longleftrightarrow> lk = lit_real"
| "is_real_literal _ \<longleftrightarrow> False"

fun is_real_range :: "range \<Rightarrow> bool" where
  "is_real_range (Range_upto v1 v2) \<longleftrightarrow> is_real_literal v1 \<or> is_real_literal v2"
| "is_real_range (Range_downto v1 v2) \<longleftrightarrow> is_real_literal v1 \<or> is_real_literal v2"
| "is_real_range _ \<longleftrightarrow> False"

definition parse_anonymous_type_definition :: "range option \<Rightarrow> type_definition_v option" where
  "parse_anonymous_type_definition r =
     map_option (\<lambda>r. if is_real_range r then Type_floating r else Type_integer r) r"

definition unit_options :: name_options where
  "unit_options = default_options\<lparr>allow_complex_names := False\<rparr>"

text \<open>A secondary unit is kept when its multiplier has no unit.\<close>

definition secondary_unit :: "unit_declaration option parse" where
  "secondary_unit =
     pbind this_token (\<lambda>t.
     pbind (p_consume tk_identifier) (\<lambda>_.
     pbind (p_consume tk_eq) (\<lambda>_.
     pbind p_current_token (\<lambda>k.
     pbind (if k = tk_real \<or> k = tk_integer
            then pbind this_token (\<lambda>v. pbind p_skip (\<lambda>_. pret (Some v))) else pret None) (\<lambda>v.
     pbind p_current_token (\<lambda>k.
     pbind (if k = tk_identifier then call_name parse_tree unit_options
            else pbind (say Expected_secondary_unit []) (\<lambda>_. pret None)) (\<lambda>u.
     pbind (p_consume tk_semicolon) (\<lambda>_.
       pret (if u = None then Some (Unit_declaration t (Some (Physical_literal v u))) else None)))))))))"

definition secondary_units :: "unit_declaration list parse" where
  "secondary_units =
     p_loop (\<lambda>us.
       pbind p_current_token (\<lambda>k.
         if k = tk_identifier then pbind secondary_unit (\<lambda>u. pret (Inl (push_some us u)))
         else pret (Inr us))) []"

definition parse_physical_type_definition :: "range option \<Rightarrow> type_definition_v option parse" where
  "parse_physical_type_definition r =
     pbind (p_consume kw_units) (\<lambda>_.
     pbind p_current_token (\<lambda>k.
     pbind (if k = tk_identifier
            then pbind this_token (\<lambda>t. pbind p_skip (\<lambda>_. pret (Some (Unit_declaration t None))))
            else pbind (say Expected_primary_unit []) (\<lambda>_. pret None)) (\<lambda>primary.
     pbind (p_consume tk_semicolon) (\<lambda>_.
     pbind secondary_units (\<lambda>secondary.
     pbind (p_consume kw_end) (\<lambda>_.
     pbind (p_consume kw_units) (\<lambda>_.
     pbind (p_optional tk_identifier) (\<lambda>_.
       pret (if r = None \<and> primary = None then None
             else Some (Type_physical r primary secondary))))))))))"

definition enumeration_literals :: "token list parse" where
  "enumeration_literals =
     p_loop (\<lambda>literals.
       pbind p_current_token (\<lambda>k.
         if k = tk_eof then pret (Inr literals)
         else
           pbind p_current_token (\<lambda>k.
           pbind (if k = tk_character \<or> k = tk_identifier
                  then pbind this_token (\<lambda>t. pbind p_skip (\<lambda>_. pret (literals @ [t])))
                  else pbind (say Expected_identifier_or_character []) (\<lambda>_. pret literals)) (\<lambda>literals.
           pbind p_current_token (\<lambda>k.
             if k \<noteq> tk_comma then pret (Inr literals)
             else
               pbind (p_consume tk_comma) (\<lambda>_.
               pbind p_current_token (\<lambda>k.
                 if k = tk_rightpar then
                   pbind previous_location (\<lambda>l. pbind (say_at Unexpected_comma [] l) (\<lambda>_. pret (Inr literals)))
                 else pret (Inl literals)))))))) []"

definition parse_scalar_type_definition :: "type_definition_v option parse" where
  "parse_scalar_type_definition =
     pbind p_current_token (\<lambda>k.
       if k = kw_range then
         pbind (p_consume kw_range) (\<lambda>_.
         pbind a_range (\<lambda>r.
         pbind p_current_token (\<lambda>k.
           if k = kw_units then parse_physical_type_definition r
           else pret (parse_anonymous_type_definition r))))
       else if k = tk_leftpar then
         pbind (p_consume tk_leftpar) (\<lambda>_.
         pbind enumeration_literals (\<lambda>literals.
         pbind (p_consume tk_rightpar) (\<lambda>_.
           pret (Some (Type_enumeration literals)))))
       else pbind (say Expected_scalar_type_defn []) (\<lambda>_. pret None))"

definition parse_element_declaration :: "element_declaration option parse" where
  "parse_element_declaration =
     pbind parse_identifier_list (\<lambda>ids.
     pbind (p_consume tk_colon) (\<lambda>_.
     pbind a_subtype_indication (\<lambda>t.
     pbind (p_consume tk_semicolon) (\<lambda>_.
       pret (if ids = [] then None else map_option (Element_declaration ids) t)))))"

definition element_declarations :: "element_declaration list parse" where
  "element_declarations =
     p_loop (\<lambda>es.
       pbind p_current_token (\<lambda>k.
         if k = tk_identifier then pbind parse_element_declaration (\<lambda>e. pret (Inl (push_some es e)))
         else pret (Inr es))) []"

definition parse_index_subtype :: "index_subtype option parse" where
  "parse_index_subtype =
     pbind a_type_mark (\<lambda>mark.
     pbind (p_consume kw_range) (\<lambda>_.
     pbind (p_consume tk_box) (\<lambda>_.
       pret (map_option Index_subtype mark))))"

definition box_in_array :: look_params where
  "box_in_array = looking [tk_box] [tk_rightpar] 1"

text \<open>Both kinds of array: the indices in parentheses, then the element type.\<close>

definition array_of :: "'a option parse \<Rightarrow> ('a list \<Rightarrow> subtype \<Rightarrow> type_definition_v) \<Rightarrow> type_definition_v option parse" where
  "array_of index con =
     pbind (p_consume kw_array) (\<lambda>_.
     pbind (p_consume tk_leftpar) (\<lambda>_.
     pbind (separated_list index tk_comma) (\<lambda>indices.
     pbind (p_consume tk_rightpar) (\<lambda>_.
     pbind (p_consume kw_of) (\<lambda>_.
     pbind a_subtype_indication (\<lambda>element.
       pret (if indices = [] then None else map_option (con indices) element)))))))"

definition parse_composite_type_definition :: "type_definition_v option parse" where
  "parse_composite_type_definition =
     pbind p_current_token (\<lambda>k.
       if k = kw_record then
         pbind (p_consume kw_record) (\<lambda>_.
         pbind element_declarations (\<lambda>es.
         pbind (p_consume kw_end) (\<lambda>_.
         pbind (p_consume kw_record) (\<lambda>_.
         pbind (p_optional tk_identifier) (\<lambda>_.
           pret (Some (Type_record es)))))))
       else if k = kw_array then
         pbind (p_look_for box_in_array) (\<lambda>unconstrained.
           if unconstrained then array_of parse_index_subtype Type_u_array
           else array_of a_discrete_range Type_c_array)
       else pbind (say Expected_composite_type_defn []) (\<lambda>_. pret None))"

definition parse_access_type_definition :: "type_definition_v option parse" where
  "parse_access_type_definition =
     pbind (p_consume kw_access) (\<lambda>_.
     pbind a_subtype_indication (\<lambda>t. pret (map_option Type_access t)))"

definition parse_file_type_definition :: "type_definition_v option parse" where
  "parse_file_type_definition =
     pbind (p_consume kw_file) (\<lambda>_.
     pbind (p_consume kw_of) (\<lambda>_.
     pbind a_type_mark (\<lambda>mark.
     pbind p_current_token (\<lambda>k.
     pbind (if k = tk_leftpar then
              pbind (say Index_constraint_not_allowed []) (\<lambda>_. resync_to_end_of_rightpar 0)
            else pret ()) (\<lambda>_.
       pret (map_option Type_file mark))))))"

definition parse_type_declaration :: "declarative_item_v option parse" where
  "parse_type_declaration =
     pbind (p_consume kw_type) (\<lambda>_.
     pbind (parse_identifier Expected_type_name) (\<lambda>(t, _).
     pbind (p_optional tk_semicolon) (\<lambda>incomplete.
       if incomplete then pret (Some (Decl_type t None))
       else
         pbind (p_consume kw_is) (\<lambda>_.
         pbind p_current_token (\<lambda>k.
           if k \<notin> {kw_range, tk_leftpar, kw_access, kw_file, kw_record, kw_array} then
             pbind (say Expecting_type_def []) (\<lambda>_. pret None)
           else
             pbind (if k = kw_range \<or> k = tk_leftpar then parse_scalar_type_definition
                    else if k = kw_access then parse_access_type_definition
                    else if k = kw_file then parse_file_type_definition
                    else parse_composite_type_definition) (\<lambda>d.
             pbind (p_consume tk_semicolon) (\<lambda>_.
               pret (map_option (\<lambda>d. Decl_type t (Some (Type_definition t d))) d))))))))"

definition parse_subtype_declaration :: "declarative_item_v option parse" where
  "parse_subtype_declaration =
     pbind (p_consume kw_subtype) (\<lambda>_.
     pbind (parse_identifier Expected_subtype_name) (\<lambda>(t, _).
     pbind (p_consume kw_is) (\<lambda>_.
     pbind a_subtype_indication (\<lambda>s.
     pbind (p_consume tk_semicolon) (\<lambda>_.
       pret (map_option (Decl_subtype t) s))))))"

section \<open>Objects\<close>

text \<open>\<open>identifier_list : subtype_indication\<close>, and \<open>if (optional(tk::coloneq)) e = parse_expression();\<close>\<close>

definition names_and_type :: "(token list \<times> subtype option) parse" where
  "names_and_type =
     pbind parse_identifier_list (\<lambda>ids.
     pbind (p_consume tk_colon) (\<lambda>_.
     pbind a_subtype_indication (\<lambda>t. pret (ids, t))))"

definition declared_object :: "token list \<Rightarrow> subtype option \<Rightarrow> object \<Rightarrow> declarative_item_v option" where
  "declared_object ids t ob = (if ids = [] then None else map_option (\<lambda>t. Decl_object ids t ob) t)"

definition parse_constant_declaration :: "declarative_item_v option parse" where
  "parse_constant_declaration =
     pbind (p_consume kw_constant) (\<lambda>_.
     pbind names_and_type (\<lambda>(ids, t).
     pbind (optional_expression tk_coloneq) (\<lambda>e.
     pbind (p_consume tk_semicolon) (\<lambda>_.
       pret (declared_object ids t (Object_constant e))))))"

text \<open>\<open>is_guarded\<close> and \<open>is_bus\<close>; without \<open>bus\<close> or \<open>register\<close> the code sets \<open>is_bus\<close>, too.\<close>

definition signal_kind :: "(bool \<times> bool) parse" where
  "signal_kind =
     pbind p_current_token (\<lambda>k.
       if k = kw_bus then pbind (p_consume kw_bus) (\<lambda>_. pret (True, True))
       else pbind p_current_token (\<lambda>k.
         if k = kw_register then pbind (p_consume kw_register) (\<lambda>_. pret (True, False))
         else pret (False, True)))"

definition parse_signal_declaration :: "declarative_item_v option parse" where
  "parse_signal_declaration =
     pbind (p_consume kw_signal) (\<lambda>_.
     pbind names_and_type (\<lambda>(ids, t).
     pbind signal_kind (\<lambda>(is_guarded, is_bus).
     pbind (optional_expression tk_coloneq) (\<lambda>e.
     pbind (p_consume tk_semicolon) (\<lambda>_.
       pret (declared_object ids t (Object_signal e is_guarded is_bus)))))))"

definition parse_variable_declaration :: "declarative_item_v option parse" where
  "parse_variable_declaration =
     pbind (p_optional kw_shared) (\<lambda>shared.
     pbind (p_consume kw_variable) (\<lambda>_.
     pbind names_and_type (\<lambda>(ids, t).
     pbind (optional_expression tk_coloneq) (\<lambda>e.
     pbind (p_consume tk_semicolon) (\<lambda>_.
       pret (declared_object ids t (Object_variable e shared)))))))"

definition mode_of :: "kind_t \<Rightarrow> mode" where
  "mode_of k =
     (if k = kw_in then mode_in else if k = kw_out then mode_out else if k = kw_inout then mode_inout
      else if k = kw_buffer then mode_buffer else if k = kw_linkage then mode_linkage else mode_invalid)"

definition parse_mode :: "mode parse" where
  "parse_mode = pbind p_current_token (\<lambda>k. pret (mode_of k))"

definition open_kind :: "expression option parse" where
  "open_kind =
     pbind (p_optional kw_open) (\<lambda>is_open.
       if is_open then pbind (say_in vhdl87 Open_file_vhdl87) (\<lambda>_. an_expression) else pret None)"

definition file_mode :: "mode parse" where
  "file_mode =
     pbind p_current_token (\<lambda>k.
       if k = kw_in \<or> k = kw_out then
         pbind this_version (\<lambda>v.
         pbind (if v \<noteq> vhdl87 then say File_mode_vhdl87 [] else pret ()) (\<lambda>_.
         pbind parse_mode (\<lambda>m.
         pbind p_skip (\<lambda>_. pret m))))
       else if k = kw_inout \<or> k = kw_linkage then
         pbind (say Wrong_file_mode []) (\<lambda>_. pbind p_skip (\<lambda>_. pret mode_in))
       else pret mode_in)"

definition parse_file_declaration :: "declarative_item_v option parse" where
  "parse_file_declaration =
     pbind (p_consume kw_file) (\<lambda>_.
     pbind names_and_type (\<lambda>(ids, t).
     pbind open_kind (\<lambda>open_kind.
     pbind p_current_token (\<lambda>k.
     pbind this_version (\<lambda>v.
     pbind (if k \<noteq> kw_is \<and> v = vhdl87 then say File_name_vhdl87 [] else pret ()) (\<lambda>_.
     pbind (p_optional kw_is) (\<lambda>has_name.
     pbind (if has_name then pbind file_mode (\<lambda>m. pbind an_expression (\<lambda>e. pret (m, e)))
            else pret (mode_in, None)) (\<lambda>(m, name).
     pbind (p_consume tk_semicolon) (\<lambda>_.
       pret (if name = None then None
             else declared_object ids t (Object_file name m open_kind)))))))))))"

section \<open>Interface objects\<close>

definition declared_interface ::
    "token list \<Rightarrow> subtype option \<Rightarrow> interface_object \<Rightarrow> declarative_item_v option" where
  "declared_interface ids t ob = map_option (\<lambda>t. Decl_interface ids t ob) t"

definition parse_interface_constant_declaration :: "declarative_item_v option parse" where
  "parse_interface_constant_declaration =
     pbind (p_optional kw_constant) (\<lambda>_.
     pbind parse_identifier_list (\<lambda>ids.
     pbind (p_consume tk_colon) (\<lambda>_.
     pbind (p_optional kw_in) (\<lambda>_.
     pbind a_subtype_indication (\<lambda>t.
     pbind (optional_expression tk_coloneq) (\<lambda>e.
       pret (declared_interface ids t (Interface_constant e))))))))"

definition interface_mode :: "mode parse" where
  "interface_mode =
     pbind p_current_token (\<lambda>k.
       if k \<in> {kw_in, kw_out, kw_inout, kw_buffer, kw_linkage}
       then pbind parse_mode (\<lambda>m. pbind p_skip (\<lambda>_. pret m))
       else pret mode_in)"

text \<open>The keyword \<open>bus\<close> is noticed and left where it is.\<close>

definition parse_interface_signal_declaration :: "declarative_item_v option parse" where
  "parse_interface_signal_declaration =
     pbind (p_optional kw_signal) (\<lambda>_.
     pbind parse_identifier_list (\<lambda>ids.
     pbind (p_consume tk_colon) (\<lambda>_.
     pbind interface_mode (\<lambda>m.
     pbind a_subtype_indication (\<lambda>t.
     pbind p_current_token (\<lambda>k.
     pbind (optional_expression tk_coloneq) (\<lambda>e.
       pret (if ids = [] then None
             else declared_interface ids t (Interface_signal e m (k = kw_bus))))))))))"

definition parse_interface_variable_declaration :: "declarative_item_v option parse" where
  "parse_interface_variable_declaration =
     pbind (p_optional kw_variable) (\<lambda>_.
     pbind parse_identifier_list (\<lambda>ids.
     pbind (p_consume tk_colon) (\<lambda>_.
     pbind interface_mode (\<lambda>m.
     pbind a_subtype_indication (\<lambda>t.
     pbind (optional_expression tk_coloneq) (\<lambda>e.
       pret (if ids = [] then None
             else declared_interface ids t (Interface_variable e m))))))))"

definition parse_interface_file_declaration :: "declarative_item_v option parse" where
  "parse_interface_file_declaration =
     pbind (p_consume kw_file) (\<lambda>_.
     pbind names_and_type (\<lambda>(ids, t).
       pret (declared_interface ids t Interface_file)))"

end
