(* ===== verification/Parser_Declarations.thy ===== *)
theory Parser_Declarations
  imports Parser_Types
begin

text \<open>
  Interface lists, specifications, subprograms and \<open>parse_declarative_item\<close> with what each declarative
  part forbids (\<^verbatim>\<open>src/vhdl/parser.cpp\<close>). The declarations inside a subprogram body are parsed by the
  argument \<open>d\<close>, and \<open>parse_declarative_item\<close> closes the circle.
\<close>

section \<open>Messages\<close>

definition No_constant_in_port :: string where
  "No_constant_in_port = ''constant interface not allowed in port''"

definition No_signal_in_generic :: string where
  "No_signal_in_generic = ''signal interface not allowed in generic''"

definition No_variable_in_generic :: string where
  "No_variable_in_generic = ''variable interface not allowed in generic''"

definition No_variable_in_port :: string where
  "No_variable_in_port = ''variable interface not allowed in port''"

definition No_file_in_vhdl87 :: string where
  "No_file_in_vhdl87 = ''file interface not allowed in vhdl87''"

definition No_file_in_generic :: string where
  "No_file_in_generic = ''file interface not allowed in generic''"

definition No_file_in_port :: string where
  "No_file_in_port = ''file interface not allowed in port''"

definition Package_only_in_vhdl08 :: string where
  "Package_only_in_vhdl08 = ''package interface only allowed in vhdl08''"

definition Package_only_in_generic :: string where
  "Package_only_in_generic = ''package interface only allowed in generic''"

definition Type_only_in_vhdl08 :: string where
  "Type_only_in_vhdl08 = ''type interface only allowed in vhdl08''"

definition Type_only_in_generic :: string where
  "Type_only_in_generic = ''type interface only allowed in generic''"

definition Subprogram_only_in_vhdl08 :: string where
  "Subprogram_only_in_vhdl08 = ''subprogram interface only allowed in vhdl08''"

definition Subprogram_only_in_generic :: string where
  "Subprogram_only_in_generic = ''subprogram interface only allowed in generic''"

definition Expected_component_identifier :: string where
  "Expected_component_identifier = ''Expected component identifier''"

definition Is_not_allowed_in_vhdl87 :: string where
  "Is_not_allowed_in_vhdl87 = ''Is is not allowed here in vhdl87''"

definition Expecting_sprgm_designator :: string where
  "Expecting_sprgm_designator = ''Expecting subprogram designator''"

definition Expecting_subprogram_spec :: string where
  "Expecting_subprogram_spec = ''This is not a subprogram specification''"

definition No_return_in_proc :: string where
  "No_return_in_proc = ''Return is not allowed in a procedure''"

definition Return_in_func :: string where
  "Return_in_func = ''Return is expected in a function''"

section \<open>Interface lists\<close>

datatype interface_kind = For_function | For_procedure | For_port | For_generic

text \<open>\<open>diag(msg); throw_away.reset(m);\<close> and the places where that is done.\<close>

definition thrown_away :: "string \<Rightarrow> 'a option parse \<Rightarrow> 'b option parse" where
  "thrown_away msg m = pbind (say msg []) (\<lambda>_. pbind m (\<lambda>_. pret None))"

definition forbidden :: "('k \<times> string) list \<Rightarrow> 'k \<Rightarrow> 'a option parse \<Rightarrow> 'a option parse" where
  "forbidden bans ik m =
     (case map_of bans ik of Some msg \<Rightarrow> thrown_away msg m | None \<Rightarrow> m)"

definition not_yet_supported :: "'a parse" where
  "not_yet_supported p = Some (Inl (Failed_assert ''not yet supported''))"

text \<open>\<open>if (version_ < vhdl08) diag(..); if (kind != interface::generic) diag(..); assert(false)\<close>\<close>

definition only_in_generic :: "interface_kind \<Rightarrow> string \<Rightarrow> string \<Rightarrow> 'a parse" where
  "only_in_generic ik msg08 msg =
     pbind this_version (\<lambda>v.
     pbind (if version_number v < version_number vhdl08 then say msg08 [] else pret ()) (\<lambda>_.
     pbind (if ik \<noteq> For_generic then say msg [] else pret ()) (\<lambda>_.
       not_yet_supported)))"

text \<open>Nothing stops this lookahead but a semicolon (and an invalid token, the unused part of \<open>stop\<close>).\<close>

definition keyword_in :: look_params where
  "keyword_in = looking [kw_in] [] 0"

definition interface_of_identifier :: "interface_kind \<Rightarrow> declarative_item_v option parse" where
  "interface_of_identifier ik =
     (case ik of
        For_function \<Rightarrow> parse_interface_constant_declaration
      | For_generic \<Rightarrow> parse_interface_constant_declaration
      | For_port \<Rightarrow> parse_interface_signal_declaration
      | For_procedure \<Rightarrow>
          pbind (p_look_for keyword_in) (\<lambda>has_in.
            if has_in then parse_interface_constant_declaration
            else parse_interface_variable_declaration))"

definition parse_interface_element :: "interface_kind \<Rightarrow> declarative_item option parse" where
  "parse_interface_element ik =
     pbind this_location (\<lambda>first.
     pbind p_current_token (\<lambda>k.
     pbind (if k = kw_constant then
              forbidden [(For_port, No_constant_in_port)] ik parse_interface_constant_declaration
            else if k = kw_signal then
              forbidden [(For_generic, No_signal_in_generic)] ik parse_interface_signal_declaration
            else if k = kw_variable then
              forbidden [(For_generic, No_variable_in_generic), (For_port, No_variable_in_port)] ik
                parse_interface_variable_declaration
            else if k = kw_file then
              pbind (say_in vhdl87 No_file_in_vhdl87) (\<lambda>_.
                forbidden [(For_generic, No_file_in_generic), (For_port, No_file_in_port)] ik
                  parse_interface_file_declaration)
            else if k = tk_identifier then interface_of_identifier ik
            else if k = kw_package then only_in_generic ik Package_only_in_vhdl08 Package_only_in_generic
            else if k = kw_type then only_in_generic ik Type_only_in_vhdl08 Type_only_in_generic
            else if k \<in> {kw_procedure, kw_pure, kw_impure, kw_function} then
              only_in_generic ik Subprogram_only_in_vhdl08 Subprogram_only_in_generic
            else never_here) (\<lambda>result.
     pbind previous_location (\<lambda>last.
       pret (map_option (\<lambda>v. Declaration v first last) result)))))"

definition parse_interface_list :: "interface_kind \<Rightarrow> declarative_item list parse" where
  "parse_interface_list ik = parse_many_sep interface_lists tk_semicolon (parse_interface_element ik)"

text \<open>A generic or port clause, or a map: the keyword, what is in the parentheses, and the places.\<close>

definition parse_clause :: "kind_t \<Rightarrow> interface_kind \<Rightarrow> (declarative_item list \<times> places) parse" where
  "parse_clause keyword ik =
     pbind (p_eat keyword) (\<lambda>at.
     pbind (p_eat tk_leftpar) (\<lambda>l.
     pbind (parse_interface_list ik) (\<lambda>result.
     pbind (p_eat tk_rightpar) (\<lambda>r.
     pbind (p_consume tk_semicolon) (\<lambda>_.
       pret (result, (at, l, r)))))))"

definition parse_generic_clause :: "(declarative_item list \<times> places) parse" where
  "parse_generic_clause = parse_clause kw_generic For_generic"

definition parse_port_clause :: "(declarative_item list \<times> places) parse" where
  "parse_port_clause = parse_clause kw_port For_port"

definition parse_map_aspect :: "kind_t \<Rightarrow> (association_element list \<times> places) parse" where
  "parse_map_aspect keyword =
     pbind (p_eat keyword) (\<lambda>at.
     pbind (p_consume kw_map) (\<lambda>_.
     pbind (p_eat tk_leftpar) (\<lambda>l.
     pbind an_association_list (\<lambda>result.
     pbind (p_eat tk_rightpar) (\<lambda>r.
       pret (result, (at, l, r)))))))"

definition parse_generic_map_aspect :: "(association_element list \<times> places) parse" where
  "parse_generic_map_aspect = parse_map_aspect kw_generic"

definition parse_port_map_aspect :: "(association_element list \<times> places) parse" where
  "parse_port_map_aspect = parse_map_aspect kw_port"

text \<open>\<open>if (current_token() == k) ... = m;\<close>\<close>

definition if_there :: "kind_t \<Rightarrow> ('a list \<times> places) parse \<Rightarrow> ('a list \<times> places) parse" where
  "if_there keyword m =
     pbind p_current_token (\<lambda>k. if k = keyword then m else pret ([], no_places))"

section \<open>Aliases, attributes and components\<close>

definition alias_options :: name_options where
  "alias_options = \<lparr>allow_qifts = True, allow_complex_names = True, allow_signature = True\<rparr>"

definition parse_alias_declaration :: "declarative_item_v option parse" where
  "parse_alias_declaration =
     pbind (p_consume kw_alias) (\<lambda>_.
     pbind parse_alias_designator (\<lambda>(t, v).
     pbind (p_optional tk_colon) (\<lambda>typed.
     pbind (if typed then a_subtype_indication else pret None) (\<lambda>s.
     pbind (p_consume kw_is) (\<lambda>_.
     pbind (call_name parse_tree alias_options) (\<lambda>n.
     pbind (p_consume tk_semicolon) (\<lambda>_.
       pret (if v then map_option (\<lambda>n. Decl_alias t n s) n else None))))))))"

definition parse_attribute_declaration :: "declarative_item_v option parse" where
  "parse_attribute_declaration =
     pbind (p_consume kw_attribute) (\<lambda>_.
     pbind (parse_identifier Expected_attribute_identifier) (\<lambda>(t, v).
     pbind (p_consume tk_colon) (\<lambda>_.
     pbind a_type_mark (\<lambda>m.
     pbind (p_consume tk_semicolon) (\<lambda>_.
       pret (if v then map_option (Decl_attribute t) m else None))))))"

text \<open>\<open>if (version_ == vhdl87 && current_token() == k) diag(msg);\<close>\<close>

definition say_here_in_vhdl87 :: "kind_t \<Rightarrow> string \<Rightarrow> unit parse" where
  "say_here_in_vhdl87 keyword msg =
     pbind this_version (\<lambda>v.
     pbind (if v = vhdl87 then pbind p_current_token (\<lambda>k. pret (k = keyword)) else pret False) (\<lambda>bad.
       if bad then say msg [] else pret ()))"

definition parse_component_declaration :: "declarative_item_v option parse" where
  "parse_component_declaration =
     pbind (p_consume kw_component) (\<lambda>_.
     pbind (parse_identifier Expected_component_identifier) (\<lambda>(t, v).
     pbind (say_here_in_vhdl87 kw_is Is_not_allowed_in_vhdl87) (\<lambda>_.
     pbind (p_optional kw_is) (\<lambda>_.
     pbind (if_there kw_generic parse_generic_clause) (\<lambda>(gens, gat).
     pbind (if_there kw_port parse_port_clause) (\<lambda>(ports, pat).
     pbind (p_consume kw_end) (\<lambda>_.
     pbind (p_consume kw_component) (\<lambda>_.
     pbind (parse_optional_closing_label t) (\<lambda>_.
     pbind (p_consume tk_semicolon) (\<lambda>_.
       pret (if v then Some (Decl_component t gens ports pat gat) else None)))))))))))"

definition parse_entity_designator :: "name option parse" where
  "parse_entity_designator =
     pbind p_current_token (\<lambda>k.
       if k \<in> {tk_character, tk_identifier, tk_stringliteral} then
         pbind (if k = tk_character then say_in vhdl87 Char_entity_designator_vhdl87 else pret ()) (\<lambda>_. a_name)
       else pbind (say Expected_entity_designator []) (\<lambda>_. pret None))"

definition entity_classes :: "(kind_t \<times> entity_class) list" where
  "entity_classes =
     [(kw_entity, class_entity), (kw_procedure, class_procedure), (kw_type, class_type),
      (kw_signal, class_signal), (kw_label, class_label), (kw_group, class_group),
      (kw_architecture, class_architecture), (kw_function, class_function),
      (kw_subtype, class_subtype), (kw_variable, class_variable), (kw_literal, class_literal),
      (kw_file, class_file), (kw_configuration, class_configuration), (kw_package, class_package),
      (kw_constant, class_constant), (kw_component, class_component), (kw_units, class_units)]"

definition parse_entity_class :: "entity_class option parse" where
  "parse_entity_class =
     pbind p_current_token (\<lambda>k.
       case map_of entity_classes k of
         None \<Rightarrow> pret None
       | Some c \<Rightarrow> pbind p_skip (\<lambda>_. pret (Some c)))"

definition parse_entity_name_list :: "entity_name_list option parse" where
  "parse_entity_name_list =
     pbind p_current_token (\<lambda>k.
       if k \<in> {tk_identifier, tk_character, tk_stringliteral} then
         pbind (separated_list parse_entity_designator tk_comma) (\<lambda>ns. pret (Some (Names_list ns)))
       else if k = kw_others then
         pbind this_token (\<lambda>t. pbind (p_consume kw_others) (\<lambda>_. pret (Some (Names_others t))))
       else if k = kw_all then
         pbind this_token (\<lambda>t. pbind (p_consume kw_all) (\<lambda>_. pret (Some (Names_all t))))
       else pret None)"

definition parse_entity_specification :: "entity_specification option parse" where
  "parse_entity_specification =
     pbind parse_entity_name_list (\<lambda>ns.
     pbind (p_consume tk_colon) (\<lambda>_.
     pbind parse_entity_class (\<lambda>c.
       pret (case (ns, c) of (Some ns, Some c) \<Rightarrow> Some (Entity_specification ns c) | _ \<Rightarrow> None))))"

definition parse_attribute_specification :: "declarative_item_v option parse" where
  "parse_attribute_specification =
     pbind (p_consume kw_attribute) (\<lambda>_.
     pbind a_simple_name (\<lambda>designator.
     pbind p_current_token (\<lambda>k.
     pbind (if k = tk_colon
            then pbind (say Colon_in_attr_spec []) (\<lambda>_. p_consume tk_colon) else pret ()) (\<lambda>_.
     pbind (p_consume kw_of) (\<lambda>_.
     pbind parse_entity_specification (\<lambda>spec.
     pbind (p_consume kw_is) (\<lambda>_.
     pbind an_expression (\<lambda>e.
     pbind (p_consume tk_semicolon) (\<lambda>_.
       pret (case (designator, spec) of
               (Some d, Some s) \<Rightarrow> Some (Decl_attr_spec d s e) | _ \<Rightarrow> None))))))))))"

section \<open>Configuration specifications\<close>

text \<open>The tokens \<open>others\<close> and \<open>all\<close> are not stored.\<close>

definition parse_instantiation_list :: "instantiation_list parse" where
  \<comment> \<open>the switch of \<open>parse_component_specification\<close>\<close>
  "parse_instantiation_list =
     pbind p_current_token (\<lambda>k.
       if k = kw_others then pbind (p_consume kw_others) (\<lambda>_. pret (Inst_others token_default))
       else if k = kw_all then pbind (p_consume kw_all) (\<lambda>_. pret (Inst_all token_default))
       else if k = tk_identifier then
         pbind parse_identifier_list (\<lambda>ts. pret (Inst_labels ts))
       else pbind (say Expected_instantiation_list []) (\<lambda>_. pret (Inst_all token_default)))"

definition parse_component_specification :: "component_specification option parse" where
  "parse_component_specification =
     pbind parse_instantiation_list (\<lambda>il.
     pbind (p_consume tk_colon) (\<lambda>_.
     pbind p_current_token (\<lambda>k.
       if k \<noteq> tk_identifier then pbind (say Expected_component_name []) (\<lambda>_. pret None)
       else pbind a_name (\<lambda>n. pret (Some (Component_specification il n))))))"

text \<open>The architecture in parentheses behind the name of an entity.\<close>

definition parse_architecture_of :: "token parse" where
  "parse_architecture_of =
     pbind (p_optional tk_leftpar) (\<lambda>has_one.
       if has_one then
         pbind this_token (\<lambda>t.
         pbind (p_consume tk_identifier) (\<lambda>_.
         pbind (p_consume tk_rightpar) (\<lambda>_. pret t)))
       else pret token_default)"

definition parse_entity_aspect :: "entity_aspect parse" where
  "parse_entity_aspect =
     pbind p_current_token (\<lambda>k.
       if k = kw_entity then
         pbind (p_consume kw_entity) (\<lambda>_.
         pbind a_simple_name (\<lambda>n.
         pbind parse_architecture_of (\<lambda>t. pret (Aspect_entity n t))))
       else if k = kw_configuration then
         pbind (p_consume kw_configuration) (\<lambda>_.
         pbind a_simple_name (\<lambda>n. pret (Aspect_configuration n)))
       else if k = kw_open then pbind (p_consume kw_open) (\<lambda>_. pret Aspect_open)
       else pbind (say Expected_entity_aspect []) (\<lambda>_. pret Aspect_open))"

definition parse_binding_indication :: "binding_indication option parse" where
  "parse_binding_indication =
     pbind p_current_token (\<lambda>k.
     pbind (if k = kw_use then pbind (p_consume kw_use) (\<lambda>_. parse_entity_aspect) else pret Aspect_none) (\<lambda>a.
     pbind (if_there kw_generic parse_generic_map_aspect) (\<lambda>(gens, _).
     pbind (if_there kw_port parse_port_map_aspect) (\<lambda>(ports, _).
       pret (Some (Binding a gens ports))))))"

definition parse_configuration_specification :: "declarative_item_v option parse" where
  "parse_configuration_specification =
     pbind (p_consume kw_for) (\<lambda>_.
     pbind parse_component_specification (\<lambda>spec.
     pbind parse_binding_indication (\<lambda>binding.
       case (spec, binding) of
         (Some s, Some b) \<Rightarrow> pbind (p_consume tk_semicolon) (\<lambda>_. pret (Some (Decl_config_spec s b)))
       | _ \<Rightarrow> pret None)))"

section \<open>Subprograms\<close>

text \<open>What the first switch finds: a function, pure or not, or a procedure.\<close>

datatype subprogram_kind = A_function bool | A_procedure

definition must_precede :: "string \<Rightarrow> string" where
  "must_precede w = [CHR 0x27] @ w @ [CHR 0x27] @ '' must preceed 'function'' @ [CHR 0x27]"

definition parse_subprogram_kind :: "subprogram_kind option parse" where
  \<comment> \<open>the switch of \<open>parse_subprogram_specification\<close>\<close>
  "parse_subprogram_kind =
     pbind p_current_token (\<lambda>k.
       if k = kw_function then pbind (p_consume kw_function) (\<lambda>_. pret (Some (A_function True)))
       else if k = kw_pure then
         pbind (p_consume kw_pure) (\<lambda>_.
         pbind (p_consume_msg kw_function (must_precede ''pure'')) (\<lambda>_. pret (Some (A_function True))))
       else if k = kw_impure then
         pbind (p_consume kw_impure) (\<lambda>_.
         pbind (p_consume_msg kw_function (must_precede ''impure'')) (\<lambda>_. pret (Some (A_function False))))
       else if k = kw_procedure then pbind (p_consume kw_procedure) (\<lambda>_. pret (Some A_procedure))
       else pbind (say Expecting_subprogram_spec []) (\<lambda>_. pret None))"

definition parameters_in_parentheses ::
    "interface_kind \<Rightarrow> (declarative_item list \<times> location option \<times> location option) parse" where
  "parameters_in_parentheses ik =
     pbind (p_eat tk_leftpar) (\<lambda>l.
     pbind (parse_interface_list ik) (\<lambda>ps.
     pbind (p_eat tk_rightpar) (\<lambda>r. pret (ps, Some l, Some r))))"

definition parse_parameters ::
    "subprogram_kind \<Rightarrow> (declarative_item list \<times> location option \<times> location option) parse" where
  "parse_parameters sk =
     pbind p_current_token (\<lambda>k.
       if k = tk_leftpar \<and> sk \<noteq> A_procedure then parameters_in_parentheses For_function
       else
         pbind p_current_token (\<lambda>k.
           if k = tk_leftpar \<and> sk = A_procedure then parameters_in_parentheses For_procedure
           else pret ([], None, None)))"

text \<open>The result of the subprogram; \<open>None\<close> is the early return of a function without one.\<close>

definition parse_result :: "subprogram_kind \<Rightarrow> subprogram_v option parse" where
  "parse_result sk =
     pbind p_current_token (\<lambda>k.
       case sk of
         A_function pure \<Rightarrow>
           if k = kw_return then
             pbind (p_consume kw_return) (\<lambda>_. pbind a_type_mark (\<lambda>m. pret (Some (Function m pure))))
           else
             pbind p_current_token (\<lambda>_. pbind p_current_token (\<lambda>_.
             pbind (say Return_in_func []) (\<lambda>_. pret None)))
       | A_procedure \<Rightarrow>
           pbind p_current_token (\<lambda>k.
             if k = kw_return then
               pbind (p_consume kw_return) (\<lambda>_.
               pbind a_type_mark (\<lambda>m.
               pbind (say No_return_in_proc []) (\<lambda>_. pret (Some (Procedure m)))))
             else pbind p_current_token (\<lambda>_. pret (Some (Procedure None)))))"

type_synonym subprogram_spec = "location option \<times> subprogram option \<times> location option"

definition parse_subprogram_specification :: "subprogram_spec parse" where
  "parse_subprogram_specification =
     pbind parse_subprogram_kind (\<lambda>sk.
       case sk of
         None \<Rightarrow> pret (None, None, None)
       | Some sk \<Rightarrow>
           pbind (parse_designator Expecting_sprgm_designator) (\<lambda>(t, v).
           pbind (parse_parameters sk) (\<lambda>(ps, l, r).
           pbind (parse_result sk) (\<lambda>res.
             pret (l, (case res of
                         Some sv \<Rightarrow> if v then Some (Subprogram t ps sv) else None
                       | None \<Rightarrow> None), r)))))"

datatype declarative_part =
  P_architecture | P_block | P_configuration | P_entity | P_package_body | P_package | P_process
  | P_protected_body | P_protected_declaration | P_subprogram

type_synonym declaration_parser = "declarative_part \<Rightarrow> declarative_item option parse"

fun designator_of :: "subprogram \<Rightarrow> token" where
  "designator_of (Subprogram t _ _) = t"

fun is_function :: "subprogram \<Rightarrow> bool" where
  "is_function (Subprogram _ _ (Function _ _)) \<longleftrightarrow> True"
| "is_function (Subprogram _ _ (Procedure _)) \<longleftrightarrow> False"

text \<open>\<open>parse_function_body\<close> and \<open>parse_procedure_body\<close> differ in one keyword and the last test.\<close>

definition parse_body ::
    "declaration_parser \<Rightarrow> kind_t \<Rightarrow> (subprogram \<Rightarrow> bool) \<Rightarrow> subprogram_spec \<Rightarrow> declarative_item_v option parse" where
  "parse_body d keyword ok = (\<lambda>(l, spec, r).
     pbind (p_eat kw_is) (\<lambda>is_at.
     pbind (parse_many declarative_part_begin (d P_subprogram)) (\<lambda>decls.
     pbind (p_eat kw_begin) (\<lambda>begin_at.
     pbind some_statements (\<lambda>stmts.
     pbind (p_eat kw_end) (\<lambda>end_at.
     pbind (p_optional keyword) (\<lambda>_.
     pbind (parse_optional_closing_designator (map_option designator_of spec)) (\<lambda>_.
     pbind (p_consume tk_semicolon) (\<lambda>_.
       pret (case spec of
               None \<Rightarrow> None
             | Some s \<Rightarrow>
                 if ok s then Some (Decl_subprogram_body s decls stmts l r is_at begin_at end_at)
                 else None))))))))))"

definition parse_function_body :: "declaration_parser \<Rightarrow> subprogram_spec \<Rightarrow> declarative_item_v option parse" where
  "parse_function_body d = parse_body d kw_function is_function"

definition parse_procedure_body :: "declaration_parser \<Rightarrow> subprogram_spec \<Rightarrow> declarative_item_v option parse" where
  "parse_procedure_body d = parse_body d kw_procedure (\<lambda>s. \<not> is_function s)"

section \<open>What a declarative part forbids\<close>

definition No_sig_in_subprogram :: string where
  "No_sig_in_subprogram = ''Signal not allowed in a subprogram''"

definition No_sig_in_packbody :: string where
  "No_sig_in_packbody = ''Signal not allowed in a package body''"

definition No_sig_in_process :: string where
  "No_sig_in_process = ''Signal not allowed in a process''"

definition No_nsvar_in_entity :: string where
  "No_nsvar_in_entity = ''Non-shared variable not allowed in an entity''"

definition No_nsvar_in_block :: string where
  "No_nsvar_in_block = ''Non-shared variable not allowed in a block''"

definition No_nsvar_in_package :: string where
  "No_nsvar_in_package = ''Non-shared variable not allowed in a package''"

definition No_nsvar_in_packbody :: string where
  "No_nsvar_in_packbody = ''Non-shared variable not allowed in a package body''"

definition No_svar_in_vhdl87 :: string where
  "No_svar_in_vhdl87 = ''Shared variables not allowed in vhdl87''"

definition No_svar_in_subprogram :: string where
  "No_svar_in_subprogram = ''Shared variable not allowed in a subprogram''"

definition No_svar_in_process :: string where
  "No_svar_in_process = ''Shared variable not allowed in a process''"

definition No_function_body_in_package :: string where
  "No_function_body_in_package = ''Function body is not allowed in a package''"

definition Malformed_function :: string where
  "Malformed_function = ''malformed function''"

definition No_procedure_body_in_package :: string where
  "No_procedure_body_in_package = ''Procedure body is not allowed in a package''"

definition Malformed_procedure :: string where
  "Malformed_procedure = ''malformed procedure''"

definition No_component_in_entity :: string where
  "No_component_in_entity = ''Component is not allowed in an entity''"

definition No_component_in_subprogram :: string where
  "No_component_in_subprogram = ''Component is not allowed in a subprogram''"

definition No_component_in_package_body :: string where
  "No_component_in_package_body = ''Component is not allowed in a package body''"

definition No_component_in_process :: string where
  "No_component_in_process = ''Component is not allowed in a process''"

definition No_cfg_spec_in_entity :: string where
  "No_cfg_spec_in_entity = ''Configuration specification not allowed in an entity''"

definition No_cfg_spec_in_subprogram :: string where
  "No_cfg_spec_in_subprogram = ''Configuration specification not allowed in a subprogram''"

definition No_cfg_spec_in_package_body :: string where
  "No_cfg_spec_in_package_body = ''Configuration specification not allowed in a package body''"

definition No_cfg_spec_in_process :: string where
  "No_cfg_spec_in_process = ''Configuration specification not allowed in a process''"

definition No_attr_in_cfg :: string where
  "No_attr_in_cfg = ''Attribute not allowed in a configuration''"

definition Nested_package_vhdl08 :: string where
  "Nested_package_vhdl08 = ''Nested package is not allowed before vhdl08''"

definition No_Packbody_in_pack :: string where
  "No_Packbody_in_pack = ''package body not allowed in a package''"

definition Expected_object_class :: string where
  "Expected_object_class = ''A class such as a variable, signal or constant is expected''"

text \<open>One table for each keyword: the parts in which the declaration is read and thrown away.\<close>

definition no_signal_in :: "(declarative_part \<times> string) list" where
  "no_signal_in =
     [(P_subprogram, No_sig_in_subprogram), (P_package_body, No_sig_in_packbody), (P_process, No_sig_in_process)]"

definition no_variable_in :: "(declarative_part \<times> string) list" where
  "no_variable_in =
     [(P_entity, No_nsvar_in_entity), (P_block, No_nsvar_in_block), (P_package, No_nsvar_in_package),
      (P_package_body, No_nsvar_in_packbody)]"

definition no_shared_in :: "(declarative_part \<times> string) list" where
  "no_shared_in = [(P_subprogram, No_svar_in_subprogram), (P_process, No_svar_in_process)]"

definition no_component_in :: "(declarative_part \<times> string) list" where
  "no_component_in =
     [(P_entity, No_component_in_entity), (P_subprogram, No_component_in_subprogram),
      (P_package_body, No_component_in_package_body), (P_process, No_component_in_process)]"

definition no_cfg_spec_in :: "(declarative_part \<times> string) list" where
  "no_cfg_spec_in =
     [(P_entity, No_cfg_spec_in_entity), (P_subprogram, No_cfg_spec_in_subprogram),
      (P_package_body, No_cfg_spec_in_package_body), (P_process, No_cfg_spec_in_process)]"

section \<open>The declarative item\<close>

text \<open>In VHDL-87 the declaration is thrown away, and then another one is read behind it.\<close>

definition shared_variable :: "declarative_part \<Rightarrow> declarative_item_v option parse" where
  "shared_variable part =
     pbind this_version (\<lambda>v.
     pbind (if version_number v \<le> version_number vhdl87
            then thrown_away No_svar_in_vhdl87 parse_variable_declaration else pret None) (\<lambda>_ :: unit option.
       forbidden no_shared_in part parse_variable_declaration))"

definition subprogram_declared :: "subprogram_spec \<Rightarrow> declarative_item_v option parse" where
  "subprogram_declared = (\<lambda>(l, spec, r).
     pbind p_skip (\<lambda>_. pret (Some (Decl_subprogram spec l r))))"

definition function_item :: "declaration_parser \<Rightarrow> declarative_part \<Rightarrow> declarative_item_v option parse" where
  "function_item d part =
     pbind parse_subprogram_specification (\<lambda>s.
     pbind p_current_token (\<lambda>k.
       if k = tk_semicolon then subprogram_declared s
       else pbind p_current_token (\<lambda>k.
         if k = kw_is \<and> part = P_package then
           thrown_away No_function_body_in_package (parse_function_body d s)
         else pbind p_current_token (\<lambda>k.
           if k = kw_is then parse_function_body d s
           else pbind (say Malformed_function []) (\<lambda>_. pret None)))))"

definition procedure_item :: "declaration_parser \<Rightarrow> declarative_part \<Rightarrow> declarative_item_v option parse" where
  "procedure_item d part =
     pbind parse_subprogram_specification (\<lambda>s.
     pbind p_current_token (\<lambda>k.
       if k = tk_semicolon then subprogram_declared s
       else pbind (p_peek 0) (\<lambda>k.
         if k = kw_is \<and> part = P_package then
           thrown_away No_procedure_body_in_package (parse_procedure_body d s)
         else pbind (p_peek 0) (\<lambda>k.
           if k = kw_is then parse_procedure_body d s
           else pbind (say Malformed_procedure []) (\<lambda>_. pret None)))))"

definition attribute_item :: "declarative_part \<Rightarrow> declarative_item_v option parse" where
  "attribute_item part =
     pbind (p_peek 2) (\<lambda>k2.
       if k2 = kw_of then parse_attribute_specification
       else
         pbind (p_peek 2) (\<lambda>k2.
           if k2 \<noteq> kw_of \<and> part = P_configuration then thrown_away No_attr_in_cfg parse_attribute_declaration
           else parse_attribute_declaration))"

definition use_item :: "declarative_item_v option parse" where
  "use_item =
     pbind (parse_use_clause a_type_mark) (\<lambda>u.
       pret (case u of Some (Use_clause ns) \<Rightarrow> Some (Decl_use ns) | _ \<Rightarrow> None))"

text \<open>Groups and packages are not parsed; not even their keyword is skipped.\<close>

definition package_item :: "declarative_part \<Rightarrow> declarative_item_v option parse" where
  "package_item part =
     pbind this_version (\<lambda>v.
     pbind (if version_number v < version_number vhdl08 then say Nested_package_vhdl08 [] else pret ()) (\<lambda>_.
     pbind (if part = P_package \<or> part = P_package_body then say No_Packbody_in_pack [] else pret ()) (\<lambda>_.
       pret None)))"

definition identifier_item :: "declarative_part \<Rightarrow> declarative_item_v option parse" where
  "identifier_item part =
     (if part \<in> {P_package, P_package_body, P_subprogram} then parse_variable_declaration
      else thrown_away Expected_object_class parse_variable_declaration)"

definition declarative_item_with :: "declaration_parser \<Rightarrow> declaration_parser" where
  "declarative_item_with d part =
     pbind this_location (\<lambda>first.
     pbind p_current_token (\<lambda>k.
     pbind (if k = kw_type then parse_type_declaration
            else if k = kw_subtype then parse_subtype_declaration
            else if k = kw_signal then forbidden no_signal_in part parse_signal_declaration
            else if k = kw_constant then parse_constant_declaration
            else if k = kw_variable then forbidden no_variable_in part parse_variable_declaration
            else if k = kw_shared then shared_variable part
            else if k = kw_file then parse_file_declaration
            else if k \<in> {kw_pure, kw_impure, kw_function} then function_item d part
            else if k = kw_procedure then procedure_item d part
            else if k = kw_alias then parse_alias_declaration
            else if k = kw_component then forbidden no_component_in part parse_component_declaration
            else if k = kw_for then forbidden no_cfg_spec_in part parse_configuration_specification
            else if k = kw_attribute then attribute_item part
            else if k = kw_use then use_item
            else if k = kw_group then pret None
            else if k = kw_package then package_item part
            else if k = tk_identifier then identifier_item part
            else never_here) (\<lambda>result.
     pbind previous_location (\<lambda>last.
       pret (map_option (\<lambda>v. Declaration v first last) result)))))"

lemma thrown_away_mono [partial_function_mono]:
  "(\<And>p. mono_option (\<lambda>f. m f p)) \<Longrightarrow> mono_option (\<lambda>f. thrown_away msg (m f) p)"
  unfolding thrown_away_def by (intro partial_function_mono option.const_mono)

lemma parse_body_mono [partial_function_mono]:
  assumes "\<And>part p. mono_option (\<lambda>f. d f part p)"
  shows "mono_option (\<lambda>f. parse_body (d f) k ok s p)"
  unfolding parse_body_def by (intro partial_function_mono option.const_mono assms)

lemma parse_function_body_mono [partial_function_mono]:
  assumes "\<And>part p. mono_option (\<lambda>f. d f part p)"
  shows "mono_option (\<lambda>f. parse_function_body (d f) s p)" and
    "mono_option (\<lambda>f. parse_procedure_body (d f) s p)"
  unfolding parse_function_body_def parse_procedure_body_def by (intro partial_function_mono option.const_mono assms)+

lemma function_item_mono [partial_function_mono]:
  assumes "\<And>part p. mono_option (\<lambda>f. d f part p)"
  shows "mono_option (\<lambda>f. function_item (d f) part p)" and
    "mono_option (\<lambda>f. procedure_item (d f) part p)"
  unfolding function_item_def procedure_item_def by (intro partial_function_mono option.const_mono assms)+

lemma declarative_item_with_mono [partial_function_mono]:
  assumes "\<And>part p. mono_option (\<lambda>f. d f part p)"
  shows "mono_option (\<lambda>f. declarative_item_with (d f) part p)"
  unfolding declarative_item_with_def by (intro partial_function_mono option.const_mono assms)

partial_function (option) parse_declarative_item ::
    "declarative_part \<Rightarrow> parser \<Rightarrow> (parse_error, declarative_item option \<times> parser) outcome" where
  "parse_declarative_item part p0 = declarative_item_with parse_declarative_item part p0"

declare parse_declarative_item.simps [code]

end
