(* ===== verification/Declaration_Facts.thy ===== *)
theory Declaration_Facts
  imports Parser_Declarations
begin

text \<open>
  Every declaration uses up the token it begins with, except a group and a package: there the item
  parser stands still, and it is the watchdog that ends the list. With that, the parser of
  declarations returns or throws.
\<close>

section \<open>Types and objects\<close>

lemma identifier_list_runs: "runs K n parse_identifier_list (left_behind K tk_identifier n)"
  unfolding parse_identifier_list_def
  by (intro separated_list_used runs_intros) (auto simp: left_behind_def)

lemmas identifier_list_bind [runs_intros] = identifier_list_runs [THEN runs_pbind]

text \<open>A token that is not the expected one stays where it is.\<close>

lemma runs_consume_other:
  assumes "K = Some d" and "d \<noteq> c" and "runs (Some d) n (f ()) k"
  shows "runs K n (pbind (p_consume c) f) k"
proof (rule runs_step, goal_cases)
  case (1 p)
  then show ?case using assms(1,2) by (simp add: p_consume_cases p_consume_msg_cases ready_for_def)
next
  case (2 p x p')
  then have "p' = p_diag (''Expected '{}'' @ [CHR 0x27]) [Arg_string (get_token_string_view c)] (p\<lparr>watchdog := 0\<rparr>)"
    using assms(1,2) by (auto simp: p_consume_cases p_consume_msg_cases ready_for_def)
  moreover have "kept p (p_diag msg args (p\<lparr>watchdog := 0\<rparr>))" for msg args
    by (rule kept_trans [of _ "p\<lparr>watchdog := 0\<rparr>"]) simp_all
  ultimately show ?case using 2(1) assms by (intro conjI exI [of _ "Some d"] exI [of _ n]) simp_all
qed

lemma secondary_unit_runs: "K = Some tk_identifier \<Longrightarrow> runs K n secondary_unit (n - 1)"
  unfolding secondary_unit_def by (intro runs_intros call_runs nt_parse_tree) simp_all

lemma secondary_units_runs: "runs K n secondary_units n"
  unfolding secondary_units_def
proof (rule p_loop_runs, goal_cases)
  case (1 m xs K)
  show ?case
    by (intro runs_intros runs_pbind [OF secondary_unit_runs])
      (use 1(2) in \<open>auto simp del: One_nat_def intro!: runs_pret\<close>)
qed

lemma literals_runs: "runs K n enumeration_literals n"
  unfolding enumeration_literals_def
proof (rule p_loop_runs, goal_cases)
  case (1 m xs K)
  show ?case
    by (intro runs_intros) (use 1(2) in \<open>auto simp del: One_nat_def intro!: runs_pret\<close>)
qed

lemma element_runs: "K = Some tk_identifier \<Longrightarrow> runs K n parse_element_declaration (n - 1)"
  unfolding parse_element_declaration_def
  by (intro runs_intros) simp_all

lemma elements_runs: "runs K n element_declarations n"
  unfolding element_declarations_def
proof (rule p_loop_runs, goal_cases)
  case (1 m xs K)
  show ?case
    by (intro runs_intros runs_pbind [OF element_runs])
      (use 1(2) in \<open>auto simp del: One_nat_def intro!: runs_pret\<close>)
qed

lemma index_subtype_runs: "runs K n parse_index_subtype n"
  unfolding parse_index_subtype_def by (intro runs_intros) simp_all

lemma array_of_runs:
  assumes "\<And>j K. runs K j m j" and "n \<le> k"
  shows "runs K n (array_of m con) k"
  unfolding array_of_def
  by (intro runs_intros separated_list_bind assms(1)) (use assms(2) in simp_all)

lemma physical_runs: "n \<le> k \<Longrightarrow> runs K n (parse_physical_type_definition r) k"
  unfolding parse_physical_type_definition_def
  by (intro runs_intros runs_pbind [OF secondary_units_runs]) simp_all

lemma type_definition_runs:
  "runs K n parse_scalar_type_definition n" "runs K n parse_access_type_definition n"
  "runs K n parse_file_type_definition n" "runs K n parse_composite_type_definition n"
proof -
  show "runs K n parse_scalar_type_definition n"
    unfolding parse_scalar_type_definition_def
    by (intro runs_intros physical_runs runs_pbind [OF literals_runs]) simp_all
  show "runs K n parse_access_type_definition n" "runs K n parse_file_type_definition n"
    unfolding parse_access_type_definition_def parse_file_type_definition_def
    by (intro runs_intros; simp)+
  show "runs K n parse_composite_type_definition n"
    unfolding parse_composite_type_definition_def
    by (intro runs_intros array_of_runs index_subtype_runs runs_pbind [OF elements_runs]) simp_all
qed

lemma names_and_type_runs: "runs K n names_and_type (left_behind K tk_identifier n)"
  unfolding names_and_type_def by (intro runs_intros) simp_all

lemmas names_and_type_bind [runs_intros] = names_and_type_runs [THEN runs_pbind]

lemma object_parts_run:
  "runs K n signal_kind n" "runs K n open_kind n" "runs K n file_mode n" "runs K n interface_mode n"
  unfolding signal_kind_def open_kind_def file_mode_def interface_mode_def parse_mode_def
  by (intro runs_intros; simp)+

lemmas object_parts_bind [runs_intros] =
  object_parts_run(1) [THEN runs_pbind] object_parts_run(2) [THEN runs_pbind]
  object_parts_run(3) [THEN runs_pbind] object_parts_run(4) [THEN runs_pbind]

lemma type_declaration_runs:
  "K = Some kw_type \<Longrightarrow> runs K n parse_type_declaration (n - 1)"
  "K = Some kw_subtype \<Longrightarrow> runs K n parse_subtype_declaration (n - 1)"
  unfolding parse_type_declaration_def parse_subtype_declaration_def
  by (intro runs_intros type_definition_runs [THEN runs_pbind]; simp)+

lemma object_declaration_runs:
  "K = Some kw_constant \<Longrightarrow> runs K n parse_constant_declaration (n - 1)"
  "K = Some kw_signal \<Longrightarrow> runs K n parse_signal_declaration (n - 1)"
  "K = Some kw_file \<Longrightarrow> runs K n parse_file_declaration (n - 1)"
  unfolding parse_constant_declaration_def parse_signal_declaration_def parse_file_declaration_def
  by (intro runs_intros; simp)+

lemma variable_declaration_runs:
  "runs K n parse_variable_declaration n"
  "K = Some c \<Longrightarrow> c \<in> {kw_shared, kw_variable, tk_identifier} \<Longrightarrow> runs K n parse_variable_declaration (n - 1)"
proof -
  show "runs K n parse_variable_declaration n"
    unfolding parse_variable_declaration_def by (intro runs_intros) simp_all
  have rest: "runs (Some c) n (pbind (p_consume kw_variable) (\<lambda>_. pbind names_and_type (\<lambda>(ids, t).
      pbind (optional_expression tk_coloneq) (\<lambda>e. pbind (p_consume tk_semicolon) (\<lambda>_.
      pret (declared_object ids t (Object_variable e shared))))))) (n - 1)"
    if "c \<in> {kw_variable, tk_identifier}" for c shared
  proof (cases "c = kw_variable")
    case True
    then show ?thesis by (intro runs_intros) simp_all
  next
    case False
    then show ?thesis
      using that
      by (intro runs_consume_other [OF refl] runs_intros) auto
  qed
  show "runs K n parse_variable_declaration (n - 1)" if "K = Some c" "c \<in> {kw_shared, kw_variable, tk_identifier}"
    unfolding parse_variable_declaration_def that(1)
    by (rule runs_optional) (use that rest in \<open>auto intro!: runs_intros\<close>)
qed

section \<open>Interface lists\<close>

lemma thrown_away_runs: "runs K n m k \<Longrightarrow> runs K n (thrown_away msg m) k"
  unfolding thrown_away_def by (intro runs_intros, erule runs_pbind) (intro runs_intros order_refl)

lemma forbidden_runs: "runs K n m k \<Longrightarrow> runs K n (forbidden bans part m) k"
  unfolding forbidden_def by (auto split: option.split intro: thrown_away_runs)

lemma interface_declaration_runs:
  "K = Some c \<Longrightarrow> c \<in> {kw_constant, tk_identifier} \<Longrightarrow> runs K n parse_interface_constant_declaration (n - 1)"
  "K = Some c \<Longrightarrow> c \<in> {kw_signal, tk_identifier} \<Longrightarrow> runs K n parse_interface_signal_declaration (n - 1)"
  "K = Some c \<Longrightarrow> c \<in> {kw_variable, tk_identifier} \<Longrightarrow> runs K n parse_interface_variable_declaration (n - 1)"
  "K = Some kw_file \<Longrightarrow> runs K n parse_interface_file_declaration (n - 1)"
proof -
  show "runs K n parse_interface_constant_declaration (n - 1)" if "K = Some c" "c \<in> {kw_constant, tk_identifier}"
    unfolding parse_interface_constant_declaration_def
    by (intro runs_intros) (use that in auto)
  show "runs K n parse_interface_signal_declaration (n - 1)" if "K = Some c" "c \<in> {kw_signal, tk_identifier}"
    unfolding parse_interface_signal_declaration_def
    by (intro runs_intros) (use that in auto)
  show "runs K n parse_interface_variable_declaration (n - 1)" if "K = Some c" "c \<in> {kw_variable, tk_identifier}"
    unfolding parse_interface_variable_declaration_def
    by (intro runs_intros) (use that in auto)
  show "runs K n parse_interface_file_declaration (n - 1)" if "K = Some kw_file"
    unfolding parse_interface_file_declaration_def by (intro runs_intros) (use that in simp_all)
qed

lemma only_in_generic_runs: "runs K n (only_in_generic ik m08 m) k"
  by (auto simp: only_in_generic_def not_yet_supported_def runs_def this_version_def pbind_def say_def)

lemma identifier_interface_runs:
  "K = Some tk_identifier \<Longrightarrow> runs K n (interface_of_identifier ik) (n - 1)"
  unfolding interface_of_identifier_def
  by (cases ik) (auto simp del: One_nat_def intro!: runs_intros interface_declaration_runs)

lemma interface_element_ok: "element_ok interface_lists (parse_interface_element ik) n"
  unfolding element_ok_def
proof (intro allI impI)
  fix c m assume c: "is_begin_of_element_in_state c interface_lists"
  note bind = runs_pbind [where n' = "m - 1"]
  note tail = forbidden_runs [THEN bind] identifier_interface_runs [THEN bind] only_in_generic_runs [THEN bind]
  show "runs (Some c) m (parse_interface_element ik) (m - 1)"
    unfolding parse_interface_element_def
    by (intro runs_intros tail interface_declaration_runs) (auto simp del: One_nat_def)
qed

lemma interface_list_runs: "runs K n (parse_interface_list ik) n"
  unfolding parse_interface_list_def by (rule parse_many_sep_runs [OF interface_element_ok])

lemmas interface_list_bind [runs_intros] = interface_list_runs [THEN runs_pbind]

lemma clause_runs:
  "runs K n (parse_clause kw ik) (left_behind K kw n)" "runs K n (parse_map_aspect kw) (left_behind K kw n)"
  unfolding parse_clause_def parse_map_aspect_def by (intro runs_intros; simp)+

lemma if_there_runs [runs_intros]:
  assumes "\<And>K. runs K n m n" and "\<And>x. runs None n (f x) k"
  shows "runs K n (pbind (if_there kw m) f) k"
  unfolding if_there_def
  by (rule runs_pbind [where n' = n]) (use assms in \<open>auto intro!: runs_intros\<close>)

lemma clauses_run:
  "runs K n parse_generic_clause n" "runs K n parse_port_clause n"
  "runs K n parse_generic_map_aspect n" "runs K n parse_port_map_aspect n"
  unfolding parse_generic_clause_def parse_port_clause_def parse_generic_map_aspect_def
    parse_port_map_aspect_def
  by (rule runs_mono [OF clause_runs(1) order_refl] runs_mono [OF clause_runs(2) order_refl]; simp)+

lemmas clauses_bind [runs_intros] =
  clauses_run(1) [THEN runs_pbind] clauses_run(2) [THEN runs_pbind]
  clauses_run(3) [THEN runs_pbind] clauses_run(4) [THEN runs_pbind]

section \<open>Aliases, attributes, components and specifications\<close>

lemma say_here_runs [runs_intros]:
  "(\<And>K. runs K n (f ()) k) \<Longrightarrow> runs K n (pbind (say_here_in_vhdl87 c msg) f) k"
  unfolding say_here_in_vhdl87_def by (intro runs_intros)

lemma simple_declaration_runs:
  "K = Some kw_alias \<Longrightarrow> runs K n parse_alias_declaration (n - 1)"
  "K = Some kw_attribute \<Longrightarrow> runs K n parse_attribute_declaration (n - 1)"
  "K = Some kw_component \<Longrightarrow> runs K n parse_component_declaration (n - 1)"
  unfolding parse_alias_declaration_def parse_attribute_declaration_def parse_component_declaration_def
  by (intro runs_intros clauses_run; simp)+

lemma entity_specification_runs: "runs K n parse_entity_specification n"
proof -
  have d: "runs K n parse_entity_designator n" for K n
    unfolding parse_entity_designator_def by (intro runs_intros) simp_all
  have l: "runs K n parse_entity_name_list n" for K n
    unfolding parse_entity_name_list_def by (intro runs_intros separated_list_bind d) simp_all
  have c: "runs K n parse_entity_class n" for K n
    unfolding parse_entity_class_def by (intro runs_intros) simp_all
  show ?thesis
    unfolding parse_entity_specification_def
    by (intro runs_intros runs_pbind [OF l] runs_pbind [OF c]) simp_all
qed

lemmas entity_specification_bind [runs_intros] = entity_specification_runs [THEN runs_pbind]

lemma attribute_specification_runs: "K = Some kw_attribute \<Longrightarrow> runs K n parse_attribute_specification (n - 1)"
  unfolding parse_attribute_specification_def by (intro runs_intros) simp_all

lemma component_specification_runs: "runs K n parse_component_specification n"
proof -
  have l: "runs K n parse_instantiation_list n" for K n
    unfolding parse_instantiation_list_def by (intro runs_intros) simp_all
  show ?thesis
    unfolding parse_component_specification_def by (intro runs_intros runs_pbind [OF l]) simp_all
qed

lemma architecture_of_runs: "runs K n parse_architecture_of n"
  unfolding parse_architecture_of_def by (intro runs_intros) simp_all

lemmas specification_bind [runs_intros] =
  component_specification_runs [THEN runs_pbind] architecture_of_runs [THEN runs_pbind]

lemma binding_indication_runs: "runs K n parse_binding_indication n"
proof -
  have a: "runs K n parse_entity_aspect n" for K n
    unfolding parse_entity_aspect_def by (intro runs_intros) simp_all
  show ?thesis
    unfolding parse_binding_indication_def
    by (intro runs_intros runs_pbind [where n' = n] a clauses_run) simp_all
qed

lemmas binding_bind [runs_intros] = binding_indication_runs [THEN runs_pbind]

lemma configuration_specification_runs:
  "K = Some kw_for \<Longrightarrow> runs K n parse_configuration_specification (n - 1)"
  unfolding parse_configuration_specification_def by (intro runs_intros) simp_all

section \<open>Subprograms\<close>

lemma parameters_run: "runs K n (parse_parameters sk) n"
proof -
  have "runs K n (parameters_in_parentheses ik) n" for K n ik
    unfolding parameters_in_parentheses_def by (intro runs_intros) simp_all
  then show ?thesis unfolding parse_parameters_def by (intro runs_intros) simp_all
qed

lemma result_runs: "runs K n (parse_result sk) n"
  unfolding parse_result_def by (cases sk) (simp_all, (intro runs_intros; simp)+)

lemma subprogram_kind_runs:
  "K = Some c \<Longrightarrow> c \<in> {kw_function, kw_pure, kw_impure, kw_procedure} \<Longrightarrow>
   runs K n parse_subprogram_kind (n - 1)"
  unfolding parse_subprogram_kind_def by (intro runs_intros) auto

lemma subprogram_specification_runs:
  "K = Some c \<Longrightarrow> c \<in> {kw_function, kw_pure, kw_impure, kw_procedure} \<Longrightarrow>
   runs K n parse_subprogram_specification (n - 1)"
  unfolding parse_subprogram_specification_def
  by (rule runs_pbind [OF subprogram_kind_runs])
    (auto simp del: One_nat_def split: option.split
      intro!: runs_intros runs_pbind [OF parameters_run] runs_pbind [OF result_runs])

definition declarations_ok :: "declaration_parser \<Rightarrow> nat \<Rightarrow> bool" where
  "declarations_ok d n \<longleftrightarrow> (\<forall>part. element_fair declarative_part_begin (d part) n)"

lemma declarations_okD:
  "declarations_ok d n \<Longrightarrow> m \<le> n \<Longrightarrow> element_fair declarative_part_begin (d part) m"
  unfolding declarations_ok_def by (blast intro: element_fair_mono)

lemma body_runs:
  assumes "declarations_ok d n"
  shows "runs K n (parse_body d c ok s) n"
  unfolding parse_body_def
  by (intro runs_intros parse_many_fair_bind [OF declarations_okD [OF assms]])
    (simp_all add: left_behind_def)

lemma function_body_runs:
  assumes "declarations_ok d n"
  shows "runs K n (parse_function_body d s) n" and "runs K n (parse_procedure_body d s) n"
  unfolding parse_function_body_def parse_procedure_body_def by (rule body_runs [OF assms])+

lemma subprogram_item_runs:
  assumes "declarations_ok d (n - 1)"
  shows "K = Some c \<Longrightarrow> c \<in> {kw_function, kw_pure, kw_impure} \<Longrightarrow> runs K n (function_item d part) (n - 1)"
    and "K = Some kw_procedure \<Longrightarrow> runs K n (procedure_item d part) (n - 1)"
proof -
  have d: "runs K m (subprogram_declared s) m" for K m s
    unfolding subprogram_declared_def by (cases s) (simp, intro runs_intros, simp)
  show "runs K n (function_item d part) (n - 1)" if "K = Some c" "c \<in> {kw_function, kw_pure, kw_impure}"
    unfolding function_item_def
    by (rule runs_pbind [OF subprogram_specification_runs [OF that(1)]])
      (use that(2) in \<open>auto simp del: One_nat_def intro!: runs_intros thrown_away_runs d
        function_body_runs [OF assms]\<close>)
  show "runs K n (procedure_item d part) (n - 1)" if "K = Some kw_procedure"
    unfolding procedure_item_def
    by (rule runs_pbind [OF subprogram_specification_runs [OF that]])
      (auto simp del: One_nat_def intro!: runs_intros thrown_away_runs d function_body_runs [OF assms])
qed

section \<open>The declarative item\<close>

lemma item_parts_run:
  "K = Some kw_shared \<Longrightarrow> runs K n (shared_variable part) (n - 1)"
  "K = Some kw_attribute \<Longrightarrow> runs K n (attribute_item part) (n - 1)"
  "K = Some kw_use \<Longrightarrow> runs K n use_item (n - 1)"
  "K = Some tk_identifier \<Longrightarrow> runs K n (identifier_item part) (n - 1)"
proof -
  show "runs K n (shared_variable part) (n - 1)" if "K = Some kw_shared"
  proof -
    have "runs K n (thrown_away No_svar_in_vhdl87 parse_variable_declaration :: unit option parse) (n - 1)"
      by (rule thrown_away_runs) (rule variable_declaration_runs(2) [OF that], simp)
    moreover have "runs None (n - 1) (forbidden no_shared_in part parse_variable_declaration) (n - 1)"
      "runs K n (forbidden no_shared_in part parse_variable_declaration) (n - 1)"
      by (rule forbidden_runs, rule variable_declaration_runs(1),
          rule forbidden_runs, rule variable_declaration_runs(2) [OF that], simp)
    ultimately show ?thesis
      unfolding shared_variable_def by (intro runs_intros) (auto intro: runs_pbind)
  qed
  show "runs K n (attribute_item part) (n - 1)" if "K = Some kw_attribute"
    unfolding attribute_item_def
    by (intro runs_intros thrown_away_runs attribute_specification_runs simple_declaration_runs) (use that in simp_all)
  have "calls_ok a_type_mark n" by (auto simp: calls_ok_def intro: tree_tails)
  from parse_use_clause_runs [OF this, of K]
  show "runs K n use_item (n - 1)" if "K = Some kw_use"
    unfolding use_item_def by (rule runs_pbind) (simp add: that runs_pret)
  show "runs K n (identifier_item part) (n - 1)" if "K = Some tk_identifier"
    unfolding identifier_item_def
    by (intro runs_intros thrown_away_runs variable_declaration_runs(2) [OF that]) simp_all
qed

lemma item_runs:
  assumes d: "declarations_ok d (n - 1)" and c: "is_begin_element_of_declarative_part_begin_end c"
    and "c \<notin> {kw_group, kw_package}"
  shows "runs (Some c) n (declarative_item_with d part) (n - 1)"
proof -
  note bind = runs_pbind [where n' = "n - 1"]
  note tail = forbidden_runs [THEN bind] subprogram_item_runs [OF d, THEN bind] item_parts_run [THEN bind]
    type_declaration_runs [THEN bind] object_declaration_runs [THEN bind] simple_declaration_runs [THEN bind]
  show ?thesis
    unfolding declarative_item_with_def
    by (intro runs_intros tail variable_declaration_runs(2) object_declaration_runs simple_declaration_runs
        configuration_specification_runs)
      (use assms(3) in \<open>auto simp del: One_nat_def\<close>)
qed

text \<open>Nothing of a group or a package is used up.\<close>

lemma item_stands_still:
  assumes "c \<in> {kw_group, kw_package}"
  shows "stands_still (declarative_item_with d part) c n"
proof -
  have say: "patient (if b then say msg [] else pret ())" for b msg
    by (intro patient_intros)
  have "patient (pbind (if c = kw_group then pret None else package_item part)
      (\<lambda>result. pbind previous_location (\<lambda>last. pret (map_option (\<lambda>v. Declaration v l last) result))))" for l
    unfolding package_item_def by (intro patient_intros patient_bind say)
  then show ?thesis
    unfolding declarative_item_with_def
    by (intro still_location still_current) (use assms in auto)
qed

lemma still_cong: "(\<And>p. m p = m' p) \<Longrightarrow> stands_still m' c n \<Longrightarrow> stands_still m c n"
  by (simp add: stands_still_def)

lemma parse_declarative_item_ok: "declarations_ok parse_declarative_item n"
proof (induction n rule: less_induct)
  case (less n)
  show ?case
    unfolding declarations_ok_def element_fair_def
  proof (intro allI impI)
    fix part c m assume c: "is_begin_of_element_in_state c declarative_part_begin" and m: "m \<le> n"
    have b: "is_begin_element_of_declarative_part_begin_end c"
      using c by (simp add: is_begin_of_element_in_state_def is_begin_element_of_declarative_part_begin_def split: if_splits)
    show "runs (Some c) m (parse_declarative_item part) (m - 1) \<or> stands_still (parse_declarative_item part) c m"
    proof (cases "c \<in> {kw_group, kw_package}")
      case True
      then show ?thesis
        using still_cong [OF parse_declarative_item.simps item_stands_still] by blast
    next
      case False
      have "declarations_ok parse_declarative_item (m - 1) \<or> m = 0"
        using less.IH [of "m - 1"] m by (cases m) auto
      then show ?thesis
      proof
        assume "m = 0"
        then show ?thesis using not_ready_0 [OF begin_not_eof [OF c]] by (simp add: runs_def)
      next
        assume "declarations_ok parse_declarative_item (m - 1)"
        then have "runs (Some c) m (declarative_item_with parse_declarative_item part) (m - 1)"
          using item_runs b False by blast
        then have "runs (Some c) m (parse_declarative_item part) (m - 1)"
          by (rule runs_cong [OF parse_declarative_item.simps])
        then show ?thesis ..
      qed
    qed
  qed
qed

text \<open>The same item parser serves the four kinds of declarative parts.\<close>

lemma item_fair:
  assumes "st \<in> {declarative_part_begin_end, declarative_part_begin, declarative_part_end, declarative_part_for}"
  shows "element_fair st (parse_declarative_item part) n"
proof -
  have "is_begin_of_element_in_state c st = is_begin_of_element_in_state c declarative_part_begin" for c
    using assms by (auto simp: is_begin_of_element_in_state_def is_begin_element_of_declarative_part_begin_def
        is_begin_element_of_declarative_part_end_def is_begin_element_of_declarative_part_for_def)
  then show ?thesis
    using parse_declarative_item_ok [of n] by (simp add: declarations_ok_def element_fair_def)
qed

end
