(* ===== verification/Parser_Concurrent.thy ===== *)
theory Parser_Concurrent
  imports Declaration_Facts
begin

text \<open>
  Concurrent statements (\<^verbatim>\<open>src/vhdl/parser.cpp\<close>). A statement is told by the token behind its label, by
  the one after that, and by a look for \<open><=\<close>. The statements inside a block or a generate statement are
  parsed by the argument \<open>s\<close>, and \<open>parse_concurrent_statement\<close> closes the circle.
\<close>

section \<open>Messages\<close>

definition Block_guard :: string where
  "Block_guard = ''Right parenthesis expected after guard expression''"

definition Block_label :: string where
  "Block_label = ''Block statement must have a label''"

definition Inst_label :: string where
  "Inst_label = ''Component instantiation must have a label''"

definition Generate_label :: string where
  "Generate_label = ''Generate must have a label''"

section \<open>Simple statements\<close>

type_synonym concurrent_parser = "concurrent_statement option parse"

text \<open>The two places are set by \<open>parse_concurrent_statement\<close>, when the statement is there.\<close>

definition placed ::
    "location \<Rightarrow> (token option \<times> concurrent_statement_v) option \<Rightarrow> concurrent_statement option parse" where
  "placed first result =
     (case result of
        None \<Rightarrow> pret None
      | Some (l, v) \<Rightarrow> pbind previous_location (\<lambda>last. pret (Some (Concurrent l v first last))))"

type_synonym statement_v = "(token option \<times> concurrent_statement_v) option parse"

definition process_declarations :: "declarative_item list parse" where
  "process_declarations = parse_many declarative_part_begin (parse_declarative_item P_process)"

definition parse_process_sensitivity :: "name list parse" where
  \<comment> \<open>in \<open>parse_process_statement\<close>\<close>
  "parse_process_sensitivity =
     pbind (p_optional tk_leftpar) (\<lambda>found.
       if found then
         pbind parse_sensitivity_list (\<lambda>ns. pbind (p_consume tk_rightpar) (\<lambda>_. pret ns))
       else pret [])"

definition parse_process_statement :: statement_v where
  "parse_process_statement =
     pbind parse_optional_label (\<lambda>label.
     pbind (p_optional kw_postponed) (\<lambda>postponed.
     pbind (p_eat kw_process) (\<lambda>at.
     pbind parse_process_sensitivity (\<lambda>sensitivity.
     pbind (say_here_in_vhdl87 kw_is Is_not_allowed_in_vhdl87) (\<lambda>_.
     pbind (p_optional kw_is) (\<lambda>_.
     pbind process_declarations (\<lambda>decls.
     pbind (p_eat kw_begin) (\<lambda>begin_at.
     pbind some_statements (\<lambda>stmts.
     pbind (p_eat kw_end) (\<lambda>end_at.
     pbind (if postponed then p_optional kw_postponed else pret False) (\<lambda>_.
     pbind (p_consume kw_process) (\<lambda>_.
     pbind (close_statement label) (\<lambda>_.
       pret (Some (label, Con_process postponed sensitivity decls stmts at begin_at end_at)))))))))))))))"

definition parse_concurrent_procedure_call_statement :: statement_v where
  "parse_concurrent_procedure_call_statement =
     pbind parse_optional_label (\<lambda>label.
     pbind (p_optional kw_postponed) (\<lambda>postponed.
     pbind a_name (\<lambda>n.
     pbind (p_consume tk_semicolon) (\<lambda>_.
       pret (map_option (\<lambda>n. (label, Con_pcall postponed n)) n)))))"

definition parse_concurrent_assertion_statement :: statement_v where
  "parse_concurrent_assertion_statement =
     pbind parse_optional_label (\<lambda>label.
     pbind (p_optional kw_postponed) (\<lambda>postponed.
     pbind parse_assertion (\<lambda>(c, r, s).
     pbind (p_consume tk_semicolon) (\<lambda>_.
       pret (map_option (\<lambda>c. (label, Con_assertion postponed c r s)) c)))))"

section \<open>Signal assignments\<close>

definition parse_option :: "signal_options parse" where
  "parse_option =
     pbind (p_optional kw_guarded) (\<lambda>guarded.
     pbind parse_delay_mechanism (\<lambda>(transport, reject, time, inertial).
       pret (guarded, transport, reject, time, inertial)))"

definition parse_conditional_waveform :: "con_waveform parse" where
  "parse_conditional_waveform =
     pbind parse_waveform (\<lambda>ws.
     pbind (optional_expression kw_when) (\<lambda>e.
       pret (Con_waveform ws e)))"

definition parse_conditional_waveforms :: "con_waveform list parse" where
  "parse_conditional_waveforms =
     separated_list (pbind parse_conditional_waveform (\<lambda>w. pret (Some w))) kw_else"

text \<open>Neither the label nor \<open>postponed\<close> is stored, and \<open>postponed\<close> keeps its initial value.\<close>

definition parse_concurrent_conditional_signal_assignment_statement :: statement_v where
  "parse_concurrent_conditional_signal_assignment_statement =
     pbind (parse_target None) (\<lambda>target.
     pbind (p_consume tk_lte) (\<lambda>_.
     pbind parse_option (\<lambda>opts.
     pbind parse_conditional_waveforms (\<lambda>ws.
     pbind (p_consume tk_semicolon) (\<lambda>_.
       pret (if ws = [] then None
             else map_option (\<lambda>t. (None, Con_assign False t ws opts)) target))))))"

definition parse_selected_waveform :: "sel_waveform option parse" where
  "parse_selected_waveform =
     pbind parse_waveform (\<lambda>ws.
     pbind (p_consume kw_when) (\<lambda>_.
     pbind some_choices (\<lambda>choices.
       pret (if ws = [] \<or> choices = [] then None else Some (Sel_waveform ws choices)))))"

definition parse_selected_waveforms :: "sel_waveform list parse" where
  "parse_selected_waveforms = separated_list parse_selected_waveform tk_comma"

definition parse_concurrent_selected_signal_assignment_statement ::
    "token option \<Rightarrow> bool \<Rightarrow> statement_v" where
  "parse_concurrent_selected_signal_assignment_statement label postponed =
     pbind (p_consume kw_with) (\<lambda>_.
     pbind an_expression (\<lambda>selector.
     pbind (p_consume kw_select) (\<lambda>_.
     pbind (parse_target None) (\<lambda>target.
     pbind (p_consume tk_lte) (\<lambda>_.
     pbind parse_option (\<lambda>opts.
     pbind parse_selected_waveforms (\<lambda>ws.
     pbind (p_consume tk_semicolon) (\<lambda>_.
       pret (case (target, selector) of
               (Some t, Some e) \<Rightarrow>
                 if ws = [] then None else Some (label, Con_sel_assign postponed t ws opts e)
             | _ \<Rightarrow> None)))))))))"

definition parse_concurrent_signal_assignment_statement :: statement_v where
  "parse_concurrent_signal_assignment_statement =
     pbind parse_optional_label (\<lambda>label.
     pbind (p_optional kw_postponed) (\<lambda>postponed.
     pbind p_current_token (\<lambda>k.
       if k = kw_with then parse_concurrent_selected_signal_assignment_statement label postponed
       else parse_concurrent_conditional_signal_assignment_statement)))"

section \<open>Instantiations\<close>

definition inst_options :: name_options where
  "inst_options = \<lparr>allow_qifts = False, allow_complex_names = True, allow_signature = False\<rparr>"

text \<open>Without a name, an entity's architecture is read all the same.\<close>

definition parse_instantiated_unit :: "instantiated_unit option parse" where
  "parse_instantiated_unit =
     pbind p_current_token (\<lambda>k.
     pbind (if k \<in> {kw_entity, kw_configuration, kw_component} then p_consume k else pret ()) (\<lambda>_.
     pbind (call_name parse_tree inst_options) (\<lambda>n.
       if k = kw_entity then
         pbind parse_architecture_of (\<lambda>t. pret (map_option (\<lambda>n. Unit_entity n t) n))
       else if k = kw_configuration then pret (map_option Unit_config n)
       else pret (map_option Unit_component n))))"

definition parse_component_instantiation_statement :: statement_v where
  "parse_component_instantiation_statement =
     pbind (parse_non_optional_label Inst_label) (\<lambda>(t, v).
     pbind parse_instantiated_unit (\<lambda>u.
     pbind (if_there kw_generic parse_generic_map_aspect) (\<lambda>(gens, gat).
     pbind (if_there kw_port parse_port_map_aspect) (\<lambda>(ports, pat).
     pbind (p_consume tk_semicolon) (\<lambda>_.
       pret (map_option (\<lambda>u. (Some t, Con_inst u gens ports pat gat)) u))))))"

section \<open>Statements of statements\<close>

definition parse_concurrent_statements :: "concurrent_parser \<Rightarrow> concurrent_statement list parse" where
  "parse_concurrent_statements s = parse_many concurrent_statements s"

definition parse_block_declarative_part :: "declarative_item list parse" where
  "parse_block_declarative_part = parse_many declarative_part_begin (parse_declarative_item P_block)"

text \<open>A clause of the block, and the map that the same keyword introduces behind it.\<close>

definition clause_and_map ::
    "kind_t \<Rightarrow> (declarative_item list \<times> places) parse \<Rightarrow> (association_element list \<times> places) parse
     \<Rightarrow> (declarative_item list \<times> association_element list) parse" where
  "clause_and_map keyword clause aspect =
     pbind p_current_token (\<lambda>k.
       if k = keyword then
         pbind clause (\<lambda>(items, _).
         pbind p_current_token (\<lambda>k.
           if k = keyword then
             pbind aspect (\<lambda>(assocs, _). pbind (p_consume tk_semicolon) (\<lambda>_. pret (items, assocs)))
           else pret (items, [])))
       else pret ([], []))"

definition parse_block_guard :: "expression option parse" where
  \<comment> \<open>in \<open>parse_block_statement\<close>\<close>
  "parse_block_guard =
     pbind (p_optional tk_leftpar) (\<lambda>found.
       if found then
         pbind an_expression (\<lambda>e. pbind (p_consume_msg tk_rightpar Block_guard) (\<lambda>_. pret e))
       else pret None)"

definition parse_block_statement :: "concurrent_parser \<Rightarrow> statement_v" where
  "parse_block_statement s =
     pbind (parse_non_optional_label Block_label) (\<lambda>(t, v).
     pbind (p_consume kw_block) (\<lambda>_.
     pbind parse_block_guard (\<lambda>guard.
     pbind (p_optional kw_is) (\<lambda>has_is.
     pbind (if has_is then say_in vhdl87 Is_not_allowed_in_vhdl87 else pret ()) (\<lambda>_.
     pbind (clause_and_map kw_generic parse_generic_clause parse_generic_map_aspect) (\<lambda>(gens, gen_map).
     pbind (clause_and_map kw_port parse_port_clause parse_port_map_aspect) (\<lambda>(ports, port_map).
     pbind parse_block_declarative_part (\<lambda>decls.
     pbind (p_consume kw_begin) (\<lambda>_.
     pbind (parse_concurrent_statements s) (\<lambda>stmts.
     pbind (p_consume kw_end) (\<lambda>_.
     pbind (p_consume kw_block) (\<lambda>_.
     pbind (close_statement (Some t)) (\<lambda>_.
       pret (if v then Some (Some t, Con_block guard gens gen_map ports port_map decls stmts)
             else None))))))))))))))"

text \<open>The tokens for which the declarations of a generate statement are read; \<open>procedural\<close> stands where
  \<open>procedure\<close> is meant.\<close>

definition generate_declaration :: "kind_t set" where
  "generate_declaration =
     {kw_function, kw_procedural, kw_type, kw_subtype, kw_constant, kw_signal, kw_variable, kw_file,
      kw_alias, kw_component, kw_attribute, kw_configuration, kw_disconnect, kw_use, kw_group}"

definition generate_declarations :: "declarative_item list parse" where
  "generate_declarations =
     pbind p_current_token (\<lambda>k.
       if k \<in> generate_declaration then
         pbind parse_block_declarative_part (\<lambda>decls. pbind (p_consume kw_begin) (\<lambda>_. pret decls))
       else if k = kw_begin then pbind (p_consume kw_begin) (\<lambda>_. pret [])
       else pret [])"

text \<open>What the two generate statements share, behind the condition or the parameter.\<close>

definition generate_body ::
    "concurrent_parser \<Rightarrow> token
     \<Rightarrow> (location \<times> declarative_item list \<times> concurrent_statement list \<times> location) parse" where
  "generate_body s t =
     pbind (p_eat kw_generate) (\<lambda>at.
     pbind generate_declarations (\<lambda>decls.
     pbind p_current_token (\<lambda>k.
     pbind (if k \<noteq> kw_end then parse_concurrent_statements s else pret []) (\<lambda>stmts.
     pbind (p_eat kw_end) (\<lambda>end_at.
     pbind (p_consume kw_generate) (\<lambda>_.
     pbind (close_statement (Some t)) (\<lambda>_.
       pret (at, decls, stmts, end_at))))))))"

definition parse_generate_if_statement :: "concurrent_parser \<Rightarrow> statement_v" where
  "parse_generate_if_statement s =
     pbind (parse_non_optional_label Generate_label) (\<lambda>(t, v).
     pbind (p_consume kw_if) (\<lambda>_.
     pbind an_expression (\<lambda>c.
     pbind (generate_body s t) (\<lambda>(at, decls, stmts, end_at).
       pret (if v then map_option (\<lambda>c. (Some t, Con_if_gen c decls stmts at end_at)) c else None)))))"

definition parse_generate_for_statement :: "concurrent_parser \<Rightarrow> statement_v" where
  "parse_generate_for_statement s =
     pbind (parse_non_optional_label Generate_label) (\<lambda>(t, v).
     pbind (p_consume kw_for) (\<lambda>_.
     pbind parse_parameter_specification (\<lambda>(param, v2).
     pbind (generate_body s t) (\<lambda>(at, decls, stmts, end_at).
       pret (if v \<and> v2 then Some (Some t, Con_for_gen param decls stmts at end_at) else None)))))"

text \<open>The label is taken to be there: the keyword is looked for at the third place.\<close>

definition parse_generate_statement :: "concurrent_parser \<Rightarrow> statement_v" where
  "parse_generate_statement s =
     pbind (p_peek 2) (\<lambda>k.
       if k = kw_if then parse_generate_if_statement s
       else pbind (p_peek 2) (\<lambda>k.
         if k = kw_for then parse_generate_for_statement s
         else pret None))"

section \<open>The statement\<close>

definition signal_assignment_ahead :: look_params where
  "signal_assignment_ahead = (looking [tk_lte] [tk_semicolon] 0)\<lparr>abort := tk_invalid\<rparr>"

text \<open>\<open>peek(0) == identifier && peek(1) == colon\<close>, and the two tokens behind the label.\<close>

definition behind_label :: "(bool \<times> kind_t \<times> kind_t) parse" where
  "behind_label =
     pbind (p_peek 0) (\<lambda>k0.
     pbind (if k0 = tk_identifier then pbind (p_peek 1) (\<lambda>k1. pret (k1 = tk_colon)) else pret False) (\<lambda>has_label.
     pbind (p_peek (if has_label then 2 else 0)) (\<lambda>first.
     pbind (p_peek (if has_label then 3 else 1)) (\<lambda>secnd.
       pret (has_label, first, secnd)))))"

definition concurrent_statement_with :: "concurrent_parser \<Rightarrow> concurrent_parser" where
  "concurrent_statement_with s =
     pbind behind_label (\<lambda>(has_label, first, secnd).
     pbind this_location (\<lambda>at.
     pbind (p_look_for signal_assignment_ahead) (\<lambda>there_is_a_signal_assignment.
     pbind (if first = tk_identifier then
              if has_label \<and> secnd \<in> {tk_semicolon, kw_generic, kw_port} then
                parse_component_instantiation_statement
              else if there_is_a_signal_assignment then parse_concurrent_signal_assignment_statement
              else parse_concurrent_procedure_call_statement
            else if first = kw_process then parse_process_statement
            else if first \<in> {kw_component, kw_entity, kw_configuration} then
              parse_component_instantiation_statement
            else if first = kw_with then parse_concurrent_signal_assignment_statement
            else if first = kw_assert then parse_concurrent_assertion_statement
            else if first = kw_postponed then
              if secnd = kw_assert then parse_concurrent_assertion_statement
              else parse_process_statement
            else if first = kw_block then parse_block_statement s
            else if first \<in> {kw_if, kw_for} then parse_generate_statement s
            else if first = tk_leftpar then parse_concurrent_signal_assignment_statement
            else never_here)
       (placed at))))"

lemma parse_concurrent_statements_mono [partial_function_mono]:
  assumes "\<And>p. mono_option (\<lambda>f. s f p)"
  shows "mono_option (\<lambda>f. parse_concurrent_statements (s f) p)"
  unfolding parse_concurrent_statements_def by (intro partial_function_mono option.const_mono assms)

lemma parse_block_statement_mono [partial_function_mono]:
  assumes "\<And>p. mono_option (\<lambda>f. s f p)"
  shows "mono_option (\<lambda>f. parse_block_statement (s f) p)"
  unfolding parse_block_statement_def by (intro partial_function_mono option.const_mono assms)

lemma generate_body_mono [partial_function_mono]:
  assumes "\<And>p. mono_option (\<lambda>f. s f p)"
  shows "mono_option (\<lambda>f. generate_body (s f) t p)"
  unfolding generate_body_def by (intro partial_function_mono option.const_mono assms)

lemma parse_generate_statement_mono [partial_function_mono]:
  assumes "\<And>p. mono_option (\<lambda>f. s f p)"
  shows "mono_option (\<lambda>f. parse_generate_statement (s f) p)"
  unfolding parse_generate_statement_def parse_generate_if_statement_def parse_generate_for_statement_def
  by (intro partial_function_mono option.const_mono assms)

lemma concurrent_statement_with_mono [partial_function_mono]:
  assumes "\<And>p. mono_option (\<lambda>f. s f p)"
  shows "mono_option (\<lambda>f. concurrent_statement_with (s f) p)"
  unfolding concurrent_statement_with_def by (intro partial_function_mono option.const_mono assms)

partial_function (option) parse_concurrent_statement ::
    "parser \<Rightarrow> (parse_error, concurrent_statement option \<times> parser) outcome" where
  "parse_concurrent_statement p0 = concurrent_statement_with parse_concurrent_statement p0"

declare parse_concurrent_statement.simps [code]

text \<open>The statements of an entity; \<open>has_label\<close> and the tokens behind it are found in the same way.\<close>

definition parse_entity_statement :: concurrent_parser where
  "parse_entity_statement =
     pbind behind_label (\<lambda>(has_label, first, secnd).
     pbind this_location (\<lambda>at.
     pbind (if first = tk_identifier then parse_concurrent_procedure_call_statement
            else if first = kw_process then parse_process_statement
            else if first = kw_assert then parse_concurrent_assertion_statement
            else if first = kw_postponed then
              if secnd = kw_assert then parse_concurrent_assertion_statement
              else parse_process_statement
            else never_here)
       (placed at)))"

end
