(* ===== verification/Parser_Units.thy ===== *)
theory Parser_Units
  imports Parser_Concurrent
begin

text \<open>
  The five library units and the configurations of an architecture's blocks
  (\<^verbatim>\<open>src/vhdl/parser.cpp\<close>). With them the grammar that \<open>parser_run\<close> needs is complete.
\<close>

section \<open>Messages\<close>

definition Expected_entity_name :: string where
  "Expected_entity_name = ''Expected entity name''"

definition Expected_architecture_name :: string where
  "Expected_architecture_name = ''Expected architecture name''"

definition Expected_configuration_name :: string where
  "Expected_configuration_name = ''Expected configuration name''"

definition Expected_package_name :: string where
  "Expected_package_name = ''Expected package name''"

definition End_architecture_vhdl87 :: string where
  "End_architecture_vhdl87 = ''Keyword not allowed in vhdl87''"

definition End_config_keyword_vhdl87 :: string where
  "End_config_keyword_vhdl87 = [CHR 0x27] @ ''configuration'' @ [CHR 0x27] @ '' keyword not allowed in vhdl87''"

definition End_package_keyword_vhdl87 :: string where
  "End_package_keyword_vhdl87 = [CHR 0x27] @ ''package'' @ [CHR 0x27] @ '' keyword not allowed in vhdl87''"

section \<open>Entities and architectures\<close>

definition parse_entity_declarative_part :: "declarative_item list parse" where
  "parse_entity_declarative_part = parse_many declarative_part_begin_end (parse_declarative_item P_entity)"

definition parse_entity_statement_part :: "concurrent_statement list parse" where
  "parse_entity_statement_part = parse_many entity_statement_part parse_entity_statement"

definition parse_entity_declaration :: "design_unit option parse" where
  "parse_entity_declaration =
     pbind (p_eat kw_entity) (\<lambda>first.
     pbind (parse_identifier Expected_entity_name) (\<lambda>(t, v).
     pbind (p_consume kw_is) (\<lambda>_.
     pbind (if_there kw_generic parse_generic_clause) (\<lambda>(gens, gat).
     pbind (if_there kw_port parse_port_clause) (\<lambda>(ports, pat).
     pbind parse_entity_declarative_part (\<lambda>decls.
     pbind (p_optional kw_begin) (\<lambda>has_begin.
     pbind (if has_begin then parse_entity_statement_part else pret []) (\<lambda>stmts.
     pbind (p_consume kw_end) (\<lambda>_.
     pbind (p_optional kw_entity) (\<lambda>_.
     pbind (parse_optional_closing_label t) (\<lambda>_.
     pbind (p_eat tk_semicolon) (\<lambda>last.
       pret (if v then Some (Design_unit (Unit_entity_declaration t decls stmts ports gens pat gat) first last)
             else None)))))))))))))"

definition parse_architecture_declarative_part :: "declarative_item list parse" where
  "parse_architecture_declarative_part = parse_block_declarative_part"

definition parse_architecture_statement_part :: "concurrent_statement list parse" where
  "parse_architecture_statement_part = parse_concurrent_statements parse_concurrent_statement"

definition parse_architecture_body :: "design_unit option parse" where
  "parse_architecture_body =
     pbind (p_eat kw_architecture) (\<lambda>first.
     pbind (parse_identifier Expected_architecture_name) (\<lambda>(t, v).
     pbind (p_consume kw_of) (\<lambda>_.
     pbind a_simple_name (\<lambda>entity.
     pbind (p_eat kw_is) (\<lambda>is_at.
     pbind parse_architecture_declarative_part (\<lambda>decls.
     pbind (p_eat kw_begin) (\<lambda>begin_at.
     pbind parse_architecture_statement_part (\<lambda>stmts.
     pbind (p_eat kw_end) (\<lambda>end_at.
     pbind (say_here_in_vhdl87 kw_architecture End_architecture_vhdl87) (\<lambda>_.
     pbind (p_optional kw_architecture) (\<lambda>_.
     pbind (parse_optional_closing_label t) (\<lambda>_.
     pbind (p_eat tk_semicolon) (\<lambda>last.
       pret (if v then map_option (\<lambda>e.
               Design_unit (Unit_architecture t e decls stmts is_at begin_at end_at) first last) entity
             else None))))))))))))))"

section \<open>Configurations\<close>

definition range_in_index :: look_params where
  "range_in_index =
     (looking [kw_downto, kw_to, kw_range] [tk_rightpar, tk_comma, tk_rightarrow] 0)\<lparr>abort := tk_semicolon\<rparr>"

definition parse_index_specification :: "index_specification parse" where
  "parse_index_specification =
     pbind (p_look_for range_in_index) (\<lambda>is_range.
       if is_range then pbind a_discrete_range (\<lambda>r. pret (Index_discrete r))
       else pbind an_expression (\<lambda>e. pret (Index_expr e)))"

definition parse_block_specification :: "(name option \<times> index_specification) parse" where
  "parse_block_specification =
     pbind a_simple_name (\<lambda>n.
     pbind p_current_token (\<lambda>k.
       if k = tk_leftpar then
         pbind (p_consume tk_leftpar) (\<lambda>_.
         pbind parse_index_specification (\<lambda>i.
         pbind (p_consume tk_rightpar) (\<lambda>_. pret (n, i))))
       else pret (n, Index_none)))"

fun used_names :: "name context_item \<Rightarrow> name list" where
  "used_names (Use_clause ns) = ns"
| "used_names (Library_clause ts) = []"

definition block_uses :: "name list list parse" where
  "block_uses =
     p_loop (\<lambda>uses.
       pbind p_current_token (\<lambda>k.
         if k = kw_use then
           pbind (parse_use_clause a_type_mark) (\<lambda>u. pret (Inl (push_some uses (map_option used_names u))))
         else pret (Inr uses))) []"

text \<open>
  A block configuration holds configurations; \<open>c\<close> parses the block configurations inside. The
  component's block is one too.
\<close>

definition parse_component_configuration ::
    "configuration_item option parse \<Rightarrow> configuration_item option parse" where
  "parse_component_configuration c =
     pbind (p_eat kw_for) (\<lambda>for_at.
     pbind parse_component_specification (\<lambda>spec.
     pbind p_current_token (\<lambda>k.
     pbind (if k \<in> {kw_use, kw_generic, kw_port} then
              pbind parse_binding_indication (\<lambda>b. pbind (p_consume tk_semicolon) (\<lambda>_. pret b))
            else pret None) (\<lambda>binding.
     pbind p_current_token (\<lambda>k.
     pbind (if k = kw_for then c else pret None) (\<lambda>block.
     pbind (p_eat kw_end) (\<lambda>end_at.
     pbind (p_consume kw_for) (\<lambda>_.
     pbind (p_consume tk_semicolon) (\<lambda>_.
       pret (map_option (\<lambda>s. Component_configuration s binding block for_at end_at) spec))))))))))"

definition parse_configuration_item ::
    "configuration_item option parse \<Rightarrow> configuration_item option parse" where
  "parse_configuration_item c =
     pbind (p_peek 2) (\<lambda>second.
       if second = tk_colon \<or> second = tk_comma then parse_component_configuration c else c)"

definition block_items :: "configuration_item option parse \<Rightarrow> configuration_item list parse" where
  "block_items c =
     p_loop (\<lambda>items.
       pbind p_current_token (\<lambda>k.
         if k = kw_for then
           pbind (parse_configuration_item c) (\<lambda>item. pret (Inl (push_some items item)))
         else pret (Inr items))) []"

definition block_configuration_with ::
    "configuration_item option parse \<Rightarrow> configuration_item option parse" where
  "block_configuration_with c =
     pbind (p_eat kw_for) (\<lambda>for_at.
     pbind parse_block_specification (\<lambda>(label, index).
     pbind block_uses (\<lambda>uses.
     pbind (block_items c) (\<lambda>items.
     pbind (p_eat kw_end) (\<lambda>end_at.
     pbind (p_consume kw_for) (\<lambda>_.
     pbind (p_consume tk_semicolon) (\<lambda>_.
       pret (map_option (\<lambda>l. Block_configuration l index uses items for_at end_at) label))))))))"

lemma parse_configuration_item_mono [partial_function_mono]:
  assumes "\<And>p. mono_option (\<lambda>f. c f p)"
  shows "mono_option (\<lambda>f. parse_configuration_item (c f) p)"
  unfolding parse_configuration_item_def parse_component_configuration_def
  by (intro partial_function_mono option.const_mono assms)

lemma block_configuration_with_mono [partial_function_mono]:
  assumes "\<And>p. mono_option (\<lambda>f. c f p)"
  shows "mono_option (\<lambda>f. block_configuration_with (c f) p)"
  unfolding block_configuration_with_def block_items_def
  by (intro partial_function_mono option.const_mono assms)

partial_function (option) parse_block_configuration ::
    "parser \<Rightarrow> (parse_error, configuration_item option \<times> parser) outcome" where
  "parse_block_configuration p0 = block_configuration_with parse_block_configuration p0"

declare parse_block_configuration.simps [code]

definition configuration_declarations :: "declarative_item list parse" where
  "configuration_declarations = parse_many declarative_part_for (parse_declarative_item P_configuration)"

text \<open>The code writes the identifier to the member \<open>package_body\<close> of the union.\<close>

definition parse_configuration_declaration :: "design_unit option parse" where
  "parse_configuration_declaration =
     pbind (p_eat kw_configuration) (\<lambda>first.
     pbind (parse_identifier Expected_configuration_name) (\<lambda>(t, v).
     pbind (p_consume kw_of) (\<lambda>_.
     pbind a_simple_name (\<lambda>entity.
     pbind (p_eat kw_is) (\<lambda>is_at.
     pbind configuration_declarations (\<lambda>decls.
     pbind parse_block_configuration (\<lambda>cfg.
     pbind (p_eat kw_end) (\<lambda>end_at.
     pbind (say_here_in_vhdl87 kw_configuration End_config_keyword_vhdl87) (\<lambda>_.
     pbind (p_optional kw_configuration) (\<lambda>_.
     pbind (parse_optional_closing_label t) (\<lambda>_.
     pbind (p_eat tk_semicolon) (\<lambda>last.
       pret (if v then map_option (\<lambda>e.
               Design_unit (Unit_configuration t e decls cfg is_at end_at) first last) entity
             else None)))))))))))))"

section \<open>Packages\<close>

definition package_declarations :: "declarative_part \<Rightarrow> declarative_item list parse" where
  "package_declarations part = parse_many declarative_part_end (parse_declarative_item part)"

text \<open>Without a name the semicolon is left to the caller.\<close>

definition parse_package_declaration :: "design_unit option parse" where
  "parse_package_declaration =
     pbind (p_eat kw_package) (\<lambda>first.
     pbind (parse_identifier Expected_package_name) (\<lambda>(t, v).
     pbind (p_eat kw_is) (\<lambda>is_at.
     pbind (package_declarations P_package) (\<lambda>decls.
     pbind (p_eat kw_end) (\<lambda>end_at.
     pbind (say_here_in_vhdl87 kw_package End_package_keyword_vhdl87) (\<lambda>_.
     pbind (p_optional kw_package) (\<lambda>_.
     pbind (parse_optional_closing_label t) (\<lambda>_.
       if \<not> v then pret None
       else
         pbind (p_eat tk_semicolon) (\<lambda>last.
           pret (Some (Design_unit (Unit_package t decls is_at end_at) first last)))))))))))"

definition parse_package_body :: "design_unit option parse" where
  "parse_package_body =
     pbind (p_eat kw_package) (\<lambda>first.
     pbind (p_consume kw_body) (\<lambda>_.
     pbind (parse_identifier Expected_package_name) (\<lambda>(t, v).
     pbind (p_eat kw_is) (\<lambda>is_at.
     pbind (package_declarations P_package_body) (\<lambda>decls.
     pbind (p_eat kw_end) (\<lambda>end_at.
     pbind (say_here_in_vhdl87 kw_package End_package_keyword_vhdl87) (\<lambda>_.
     pbind (p_optional kw_package) (\<lambda>has_package.
     pbind (if has_package then p_consume kw_body else pret ()) (\<lambda>_.
     pbind (parse_optional_closing_label t) (\<lambda>_.
     pbind (p_eat tk_semicolon) (\<lambda>last.
       pret (if v then Some (Design_unit (Unit_package_body t decls is_at end_at) first last)
             else None))))))))))))"

section \<open>The parser\<close>

definition the_grammar :: "(name, design_unit) grammar" where
  "the_grammar =
     \<lparr>g_name = a_type_mark, g_entity = parse_entity_declaration, g_architecture = parse_architecture_body,
      g_package_body = parse_package_body, g_package = parse_package_declaration,
      g_configuration = parse_configuration_declaration\<rparr>"

definition parse_text ::
    "string \<Rightarrow> char \<Rightarrow> stringtable \<Rightarrow> string \<Rightarrow> version \<Rightarrow> kind_t
     \<Rightarrow> (parse_error, (name context_item list \<times> design_unit) parsed) outcome" where
  \<comment> \<open>\<open>parser p{..}; p(file);\<close>\<close>
  "parse_text s e st fn v tok0 =
     obind (parser_new s e st fn v tok0) (parser_run the_grammar)"

end
