(* ===== verification/Concurrent_Facts.thy ===== *)
theory Concurrent_Facts
  imports Parser_Units
begin

text \<open>
  A concurrent statement uses up the token it begins with, except a generate statement: its keyword is
  looked for where it would stand behind a label. The statements of an entity always come to an end; in
  an architecture there is one state, \<open>crossed\<close>, from which the parser calls itself for ever.
\<close>

section \<open>Statements without statements inside\<close>

lemma items_bind [runs_intros]:
  "(\<And>ds. runs None n (f ds) k) \<Longrightarrow> runs K n (pbind process_declarations f) k"
  "(\<And>ds. runs None n (f ds) k) \<Longrightarrow> runs K n (pbind parse_block_declarative_part f) k"
  unfolding process_declarations_def parse_block_declarative_part_def
  by (rule parse_many_fair_bind [OF item_fair], simp, simp)+

lemma process_sensitivity_runs: "runs K n parse_process_sensitivity n"
  unfolding parse_process_sensitivity_def by (intro runs_intros runs_pbind [OF sensitivity_runs]) simp_all

lemmas process_sensitivity_bind [runs_intros] = process_sensitivity_runs [THEN runs_pbind]

lemma process_runs:
  "runs_labelled n parse_process_statement (n - 1)"
  "c \<in> {kw_process, kw_postponed} \<Longrightarrow> runs (Some c) n parse_process_statement (n - 1)"
proof -
  show "runs_labelled n parse_process_statement (n - 1)"
    unfolding parse_process_statement_def
    by (intro labelled_intros, intro runs_intros) simp_all
  show "runs (Some c) n parse_process_statement (n - 1)" if "c \<in> {kw_process, kw_postponed}"
    unfolding parse_process_statement_def
    by (intro optional_label_known runs_intros parse_sequential_statement_ok) (use that in auto)
qed

lemma assertion_statement_runs:
  "runs_labelled n parse_concurrent_assertion_statement (n - 1)"
  "c \<in> {kw_assert, kw_postponed} \<Longrightarrow> runs (Some c) n parse_concurrent_assertion_statement (n - 1)"
proof -
  have a: "runs K n parse_assertion n" for K n
    unfolding parse_assertion_def by (intro runs_intros) simp_all
  show "runs_labelled n parse_concurrent_assertion_statement (n - 1)"
    unfolding parse_concurrent_assertion_statement_def
    by (intro labelled_intros runs_intros runs_pbind [OF a]) simp_all
  show "runs (Some c) n parse_concurrent_assertion_statement (n - 1)" if "c \<in> {kw_assert, kw_postponed}"
    unfolding parse_concurrent_assertion_statement_def
    by (intro optional_label_known runs_intros runs_pbind [OF a] runs_pbind [where n' = "n - 1"])
      (use that in \<open>auto simp del: One_nat_def intro!: runs_intros a assertion_runs\<close>)
qed

lemma call_runs_used:
  "runs_labelled n parse_concurrent_procedure_call_statement (n - 1)"
  "runs (Some tk_identifier) n parse_concurrent_procedure_call_statement (n - 1)"
proof -
  show "runs_labelled n parse_concurrent_procedure_call_statement (n - 1)"
    unfolding parse_concurrent_procedure_call_statement_def
    by (intro labelled_intros, intro runs_intros) simp_all
  show "runs (Some tk_identifier) n parse_concurrent_procedure_call_statement (n - 1)"
    unfolding parse_concurrent_procedure_call_statement_def
    by (intro optional_label_known runs_optional name_used_bind runs_intros) auto
qed

section \<open>Signal assignments and instantiations\<close>

lemma option_runs: "runs K n parse_option n"
  unfolding parse_option_def by (intro runs_intros runs_pbind [OF delay_runs]) simp_all

lemma waveforms_run:
  "runs K n parse_conditional_waveforms n" "runs K n parse_selected_waveforms n"
proof -
  have c: "runs K n parse_conditional_waveform n" for K n
    unfolding parse_conditional_waveform_def by (intro runs_intros runs_pbind [OF waveform_runs]) simp_all
  show "runs K n parse_conditional_waveforms n"
    unfolding parse_conditional_waveforms_def
    by (intro separated_list_runs runs_pbind [OF c] runs_pret) simp_all
  have s: "runs K n parse_selected_waveform n" for K n
    unfolding parse_selected_waveform_def by (intro runs_intros runs_pbind [OF waveform_runs]) simp_all
  show "runs K n parse_selected_waveforms n"
    unfolding parse_selected_waveforms_def by (intro separated_list_runs s) simp_all
qed

lemmas waveforms_bind [runs_intros] =
  option_runs [THEN runs_pbind] waveforms_run(1) [THEN runs_pbind] waveforms_run(2) [THEN runs_pbind]

lemma target_used:
  "c \<in> {tk_leftpar, tk_identifier} \<Longrightarrow> runs (Some c) n (parse_target None) (n - 1)"
  unfolding parse_target_def option.case
  by (intro runs_current_token runs_if)
    (auto simp del: One_nat_def intro: runs_pbind [OF paren_used] runs_pbind [OF name_used] runs_pret)

lemmas target_bind [runs_intros] = target_runs [THEN runs_pbind]

lemma assignments_run:
  "runs K n parse_concurrent_conditional_signal_assignment_statement n"
  "c \<in> {tk_leftpar, tk_identifier} \<Longrightarrow>
    runs (Some c) n parse_concurrent_conditional_signal_assignment_statement (n - 1)"
  "runs K n (parse_concurrent_selected_signal_assignment_statement l b) (left_behind K kw_with n)"
  unfolding parse_concurrent_conditional_signal_assignment_statement_def
    parse_concurrent_selected_signal_assignment_statement_def
  by (intro runs_intros; simp) (rule runs_pbind [OF target_used], simp, intro runs_intros; simp | intro runs_intros; simp)+

lemma assignment_statement_runs:
  "runs_labelled n parse_concurrent_signal_assignment_statement (n - 1)"
  "c \<in> {kw_with, tk_leftpar, tk_identifier} \<Longrightarrow>
    runs (Some c) n parse_concurrent_signal_assignment_statement (n - 1)"
proof -
  have tail: "runs K m (pbind p_current_token (\<lambda>k.
       if k = kw_with then parse_concurrent_selected_signal_assignment_statement l b
       else parse_concurrent_conditional_signal_assignment_statement)) m" for K m l b
    by (intro runs_intros assignments_run runs_mono [OF assignments_run(3) order_refl]) simp_all
  show "runs_labelled n parse_concurrent_signal_assignment_statement (n - 1)"
    unfolding parse_concurrent_signal_assignment_statement_def
    by (intro labelled_intros, intro runs_optional runs_mono [OF tail order_refl]) simp_all
  show "runs (Some c) n parse_concurrent_signal_assignment_statement (n - 1)"
    if c: "c \<in> {kw_with, tk_leftpar, tk_identifier}"
  proof -
    have first: "runs (Some c) n (pbind p_current_token (\<lambda>k.
        if k = kw_with then parse_concurrent_selected_signal_assignment_statement l b
        else parse_concurrent_conditional_signal_assignment_statement)) (n - 1)" for l b
      by (intro runs_current_token runs_if runs_mono [OF assignments_run(3) order_refl])
        (use c assignments_run(2) in auto)
    show ?thesis
      unfolding parse_concurrent_signal_assignment_statement_def
      by (intro optional_label_known runs_optional)
        (use c first in \<open>auto simp del: One_nat_def intro: runs_mono [OF tail order_refl]\<close>)
  qed
qed

lemma instantiated_unit_runs:
  "runs K n parse_instantiated_unit n"
  "K = Some c \<Longrightarrow> c \<in> {kw_component, kw_entity, kw_configuration} \<Longrightarrow> runs K n parse_instantiated_unit (n - 1)"
proof -
  have n: "runs K m (call_name parse_tree opts) m" for K m opts
    using call_runs(3) [OF nt_parse_tree order_refl] by blast
  show "runs K n parse_instantiated_unit n"
    unfolding parse_instantiated_unit_def by (intro runs_intros runs_pbind [OF n]) simp_all
  show "runs K n parse_instantiated_unit (n - 1)" if "K = Some c" "c \<in> {kw_component, kw_entity, kw_configuration}"
    unfolding parse_instantiated_unit_def by (intro runs_intros runs_pbind [OF n]) (use that in auto)
qed

lemma instantiation_runs:
  "runs (Some tk_identifier) n parse_component_instantiation_statement (n - 1)"
  "c \<in> {kw_component, kw_entity, kw_configuration} \<Longrightarrow>
    runs (Some c) n parse_component_instantiation_statement (n - 1)"
proof -
  note u = runs_pbind [OF instantiated_unit_runs(1)]
  show "runs (Some tk_identifier) n parse_component_instantiation_statement (n - 1)"
    unfolding parse_component_instantiation_statement_def parse_non_optional_label_def
    by (intro runs_intros u clauses_run) simp_all
  show "runs (Some c) n parse_component_instantiation_statement (n - 1)"
    if c: "c \<in> {kw_component, kw_entity, kw_configuration}"
    unfolding parse_component_instantiation_statement_def parse_non_optional_label_def
    by (intro runs_intros u runs_pbind [OF instantiated_unit_runs(2)] clauses_run) (use c in auto)
qed

section \<open>Behind the label\<close>

text \<open>\<open>behind_label\<close> finds the label that is there, or the current token.\<close>

lemma peek_0: "p_peek 0 p = pret (p_kind p) p"
  by (simp add: p_peek_def pbind_def on_queue_def peek_def pret_def obind_def)

lemma p_peek_same: "p_peek i p = Some (Inr (k, p')) \<Longrightarrow> \<exists>q. p' = p\<lparr>pq := q\<rparr> \<and> same_tokens (pq p) q"
  using peek_same by (fastforce simp: p_peek_def pbind_def obind_Inr_iff on_queue_Inr)

lemma p_peek_labelled: "p_peek i p = Some (Inr (k, p')) \<Longrightarrow> labelled p \<Longrightarrow> labelled p'"
  using p_peek_same labelled_same by blast

lemma behind_label_value:
  assumes "behind_label p = Some (Inr ((has_label, first, secnd), p'))"
  shows "if has_label then p_kind p = tk_identifier \<and> labelled p' else first = p_kind p"
proof (cases "p_kind p = tk_identifier")
  case False
  then show ?thesis using assms by (auto simp: behind_label_def pbind_Inr peek_0 pret_def)
next
  case True
  obtain k1 p1 p2 where 1: "p_peek 1 p = Some (Inr (k1, p1))" and h: "has_label = (k1 = tk_colon)"
    and 2: "p_peek (if has_label then 2 else 0) p1 = Some (Inr (first, p2))"
    and 3: "p_peek (if has_label then 3 else 1) p2 = Some (Inr (secnd, p'))"
    using assms True by (auto simp: behind_label_def pbind_Inr peek_0 pret_def)
  obtain q where q: "p1 = p\<lparr>pq := q\<rparr>" "same_tokens (pq p) q" using p_peek_same [OF 1] by blast
  show ?thesis
  proof (cases has_label)
    case True
    have "labelled p"
      using 1 h \<open>p_kind p = tk_identifier\<close> True
      by (auto simp: labelled_def p_peek_def pbind_def obind_Inr_iff on_queue_Inr)
    moreover have "labelled p1" using \<open>labelled p\<close> labelled_same q by blast
    ultimately show ?thesis using 2 3 p_peek_labelled True \<open>p_kind p = tk_identifier\<close> by meson
  next
    case False
    then show ?thesis using 2 q by (auto simp: peek_0 pret_def same_tokens_def)
  qed
qed

lemma patient_behind_label: "patient behind_label"
  unfolding behind_label_def by (intro patient_bind patient_intros)

text \<open>\<open>S\<close>, and the label in front if there is one; looking for \<open><=\<close> changes neither.\<close>

definition with_label :: "(parser \<Rightarrow> bool) \<Rightarrow> bool \<Rightarrow> parser \<Rightarrow> bool" where
  "with_label S has_label p \<longleftrightarrow> S p \<and> (has_label \<longrightarrow> labelled p)"

lemma goes_on_with_label: "goes_on S m c n \<Longrightarrow> goes_on (with_label S has_label) m c n"
  by (simp add: goes_on_def with_label_def)

lemma goes_on_runs: "runs (Some c) n m (n - 1) \<Longrightarrow> goes_on S m c n"
  unfolding goes_on_def runs_def by blast

lemma goes_on_runs_on: "runs_on S 0 (Some c) n m (n - 1) \<Longrightarrow> goes_on S m c n"
  unfolding goes_on_def runs_on_def by blast

lemma goes_on_patiently: "patient m \<Longrightarrow> goes_on S m c n"
  using patient_still [of m c n] unfolding goes_on_def stands_still_def by blast

lemma goes_on_if: "(b \<Longrightarrow> goes_on S m c n) \<Longrightarrow> (\<not> b \<Longrightarrow> goes_on S m' c n) \<Longrightarrow> goes_on S (if b then m else m') c n"
  by simp

lemma goes_on_simply:
  assumes "runs_labelled n m (n - 1)" and "\<not> has_label \<Longrightarrow> runs (Some c) n m (n - 1)"
  shows "goes_on (with_label S has_label) m c n"
proof (cases has_label)
  case True
  have "ready_for None n p" if "ready_for (Some c) n p" for p using that by (simp add: ready_for_def)
  then show ?thesis using assms(1) True unfolding goes_on_def runs_labelled_def with_label_def by blast
qed (use goes_on_runs assms(2) in blast)

lemma goes_on_step:
  assumes "\<And>p. \<lbrakk>ready_for (Some c) n p; S p\<rbrakk> \<Longrightarrow> returns (m p)"
    and "\<And>p x p'. \<lbrakk>ready_for (Some c) n p; S p; m p = Some (Inr (x, p'))\<rbrakk>
      \<Longrightarrow> ready_for (Some c) n p' \<and> kept p p' \<and> watchdog p \<le> watchdog p' \<and> (\<exists>T. T p' \<and> goes_on T (f x) c n)"
  shows "goes_on S (pbind m f) c n"
  unfolding goes_on_def
proof (intro allI impI conjI)
  fix p assume p: "ready_for (Some c) n p \<and> S p"
  show "returns (pbind m f p)"
    unfolding pbind_def
    by (rule returns_obind) (use assms p in \<open>fastforce simp: goes_on_def\<close>)+
  fix y p' assume "pbind m f p = Some (Inr (y, p'))"
  then obtain x p1 where 1: "m p = Some (Inr (x, p1))" and 2: "f x p1 = Some (Inr (y, p'))"
    by (auto simp: pbind_Inr)
  note p1 = assms(2) [OF _ _ 1]
  then have "kept p1 p' \<and> (ready_for None (n - 1) p' \<or> ready_for None n p' \<and> watchdog p1 \<le> watchdog p')"
    using p 2 unfolding goes_on_def by blast
  then show "kept p p'" "ready_for None (n - 1) p' \<or> ready_for None n p' \<and> watchdog p \<le> watchdog p'"
    using p p1 kept_trans order_trans by blast+
qed

lemma goes_on_patient:
  assumes "lasting S" and "patient m" and "\<And>x. goes_on S (f x) c n"
  shows "goes_on S (pbind m f) c n"
proof (rule goes_on_step)
  fix p assume "ready_for (Some c) n p"
  then show "returns (m p)" using patientD(1) [OF assms(2)] by blast
next
  fix p x p' assume p: "ready_for (Some c) n p" "S p" and "m p = Some (Inr (x, p'))"
  then show "ready_for (Some c) n p' \<and> kept p p' \<and> watchdog p \<le> watchdog p' \<and> (\<exists>T. T p' \<and> goes_on T (f x) c n)"
    using patientD(2) [OF assms(2)] assms(1,3) unfolding lasting_def by metis
qed

lemma goes_on_behind_label:
  assumes S: "lasting S"
    and f: "\<And>h d e. (h \<Longrightarrow> c = tk_identifier) \<Longrightarrow> (\<not> h \<Longrightarrow> d = c) \<Longrightarrow> goes_on (with_label S h) (f (h, d, e)) c n"
  shows "goes_on S (pbind behind_label f) c n"
proof (rule goes_on_step)
  fix p assume "ready_for (Some c) n p"
  then show "returns (behind_label p)" using patientD(1) [OF patient_behind_label] by blast
next
  fix p x p' assume p: "ready_for (Some c) n p" "S p" and b: "behind_label p = Some (Inr (x, p'))"
  obtain h d e where x: "x = (h, d, e)" by (cases x)
  have k: "p_kind p = c" using p by (simp add: ready_for_def)
  note l = behind_label_value [OF b [unfolded x]]
  note r = patientD(2) [OF patient_behind_label p(1) b]
  have "goes_on (with_label S h) (f (h, d, e)) c n" by (rule f) (use l k in simp_all)
  moreover have "with_label S h p'" using l r p(2) S unfolding with_label_def lasting_def by metis
  ultimately show "ready_for (Some c) n p' \<and> kept p p' \<and> watchdog p \<le> watchdog p' \<and> (\<exists>T. T p' \<and> goes_on T (f x) c n)"
    using r x by blast
qed

lemma goes_on_location: "(\<And>l. goes_on S (f l) c n) \<Longrightarrow> goes_on S (pbind this_location f) c n"
  by (rule goes_on_step) (auto simp: this_location_def intro: exI [of _ S])

lemma goes_on_look_for:
  assumes S: "lasting S" and f: "\<And>b. goes_on (with_label S h) (f b) c n"
  shows "goes_on (with_label S h) (pbind (p_look_for param) f) c n"
proof (rule goes_on_step)
  fix p assume "ready_for (Some c) n p"
  then have "good_queue (pq p)" by (simp add: ready_for_def p_good_def)
  then show "returns (p_look_for param p)"
    unfolding p_look_for_def by (intro returns_on_queue) (simp add: look_for_def look_for_loop_returns)
next
  fix p b p' assume p: "ready_for (Some c) n p" "with_label S h p" and b: "p_look_for param p = Some (Inr (b, p'))"
  obtain q where q: "look_for_loop param 0 0 (pq p) = Some (Inr (b, q))" "p' = p\<lparr>pq := q\<rparr>"
    using b by (auto simp: p_look_for_def on_queue_Inr look_for_def)
  have "good_queue (pq p)" using p(1) by (simp add: ready_for_def p_good_def)
  note l = look_for_loop_onward [OF this q(1)]
  have k: "ready_for (Some c) n p'" "kept p p'" "watchdog p \<le> watchdog p'"
    using p(1) l unfolding q(2)
    by (auto simp: ready_for_def p_good_def p_left_def kept_def onward_def same_tokens_def)
  moreover have "with_label S h p'"
    using p(2) k(2) S l labelled_same unfolding with_label_def lasting_def q(2) by blast
  ultimately show "ready_for (Some c) n p' \<and> kept p p' \<and> watchdog p \<le> watchdog p' \<and> (\<exists>T. T p' \<and> goes_on T (f b) c n)"
    using f by blast
qed

text \<open>The locations are added behind the statement.\<close>

lemma goes_on_placed: "goes_on S m c n \<Longrightarrow> goes_on S (pbind m (placed at)) c n"
proof -
  assume m: "goes_on S m c n"
  have placed: "patient (placed at x)" for x
    unfolding placed_def by (auto split: option.split intro!: patient_intros patient_bind)
  show ?thesis
    unfolding goes_on_def
  proof (intro allI impI conjI)
    fix p assume p: "ready_for (Some c) n p \<and> S p"
    have later: "ready_for None n p1 \<and> kept p p1" if "m p = Some (Inr (x, p1))" for x p1
      using m that p diff_le_self [of n 1] unfolding goes_on_def ready_for_def p_left_def by (meson order_trans)
    show "returns (pbind m (placed at) p)"
      unfolding pbind_def
      by (rule returns_obind) (use m p later patientD(1) [OF placed] in \<open>auto simp: goes_on_def\<close>)
    fix y p' assume "pbind m (placed at) p = Some (Inr (y, p'))"
    then obtain x p1 where 1: "m p = Some (Inr (x, p1))" and 2: "placed at x p1 = Some (Inr (y, p'))"
      by (auto simp: pbind_Inr)
    have "ready_for None (n - 1) p1 \<or> ready_for None n p1 \<and> watchdog p \<le> watchdog p1"
      using m 1 p unfolding goes_on_def by blast
    then show "ready_for None (n - 1) p' \<or> ready_for None n p' \<and> watchdog p \<le> watchdog p'"
      using patientD(2) [OF placed _ 2] order_trans by blast
    show "kept p p'" using later [OF 1] patientD(2) [OF placed _ 2] kept_trans by blast
  qed
qed

section \<open>The statements of an entity\<close>

lemma goes_on_never: "goes_on S never_here c n"
  by (simp add: goes_on_def never_here_def returns_def)

lemma entity_statement_goes_on:
  "element_goes_on (\<lambda>_. True) entity_statement_part parse_entity_statement n"
  unfolding element_goes_on_def
proof (intro allI impI)
  fix c m assume "is_begin_of_element_in_state c entity_statement_part"
  then have c: "c \<in> {tk_identifier, kw_process, kw_assert, kw_postponed}"
    by (auto simp: is_begin_of_element_in_state_def is_begin_element_of_entity_statement_part_def split: if_splits)
  show "goes_on (\<lambda>_. True) parse_entity_statement c m"
    unfolding parse_entity_statement_def
  proof (rule goes_on_behind_label, simp, unfold prod.case, intro goes_on_location goes_on_placed, goal_cases)
    case (1 h d e)
    then show ?case
      using c call_runs_used process_runs assertion_statement_runs
      by (auto intro!: goes_on_simply goes_on_never)
  qed
qed

section \<open>Generate statements and the statements of an architecture\<close>

text \<open>\<open>if\<close> where the third token is \<open>for\<close>, or the other way round.\<close>

definition crossed :: "queue \<Rightarrow> bool" where
  "crossed q \<longleftrightarrow>
     (case peek 2 q of
        Some (Inr (t, _)) \<Rightarrow> (current_kind q, kind t) \<in> {(kw_if, kw_for), (kw_for, kw_if)}
      | _ \<Rightarrow> False)"

definition safe :: "parser \<Rightarrow> bool" where
  "safe p \<longleftrightarrow> (\<forall>q. reached (pq p) q \<longrightarrow> \<not> crossed q)"

lemma safe_lasting: "lasting safe"
  by (auto simp: lasting_def safe_def kept_def onward_def intro: rtranclp_trans)

lemma safe_states: "safe (p\<lparr>parsing_states := A\<rparr>) = safe p"
  by (simp add: safe_def)

lemma goes_on_peek_2:
  assumes "\<And>k. (c, k) \<notin> {(kw_if, kw_for), (kw_for, kw_if)} \<Longrightarrow> goes_on safe (f k) c n"
  shows "goes_on safe (pbind (p_peek 2) f) c n"
proof (rule goes_on_step)
  fix p assume "ready_for (Some c) n p"
  then show "returns (p_peek 2 p)" using patientD(1) [OF patient_peek] by blast
next
  fix p k p' assume p: "ready_for (Some c) n p" "safe p" and k: "p_peek 2 p = Some (Inr (k, p'))"
  obtain t q where q: "peek 2 (pq p) = Some (Inr (t, q))" "k = kind t"
    using k by (auto simp: p_peek_def pbind_def obind_Inr_iff on_queue_Inr)
  have "\<not> crossed (pq p)" using p(2) by (simp add: safe_def)
  then have "(c, k) \<notin> {(kw_if, kw_for), (kw_for, kw_if)}" using q p(1) by (auto simp: crossed_def ready_for_def)
  then have "goes_on safe (f k) c n" by (rule assms)
  moreover have "safe p'"
    using patientD(2) [OF patient_peek p(1) k] p(2) safe_lasting unfolding lasting_def by blast
  ultimately show "ready_for (Some c) n p' \<and> kept p p' \<and> watchdog p \<le> watchdog p' \<and> (\<exists>T. T p' \<and> goes_on T (f k) c n)"
    using patientD(2) [OF patient_peek p(1) k] by blast
qed

text \<open>A chain of constructs that run, up to the statements inside and behind them.\<close>

lemma pbind_end: "pbind m pret = m"
  by (rule ext) (simp add: pbind_def obind_def pret_def split: option.split sum.split)

lemma runs_on_first:
  assumes "runs K n (pbind m pret) n'" and "\<And>x. runs_on safe 0 None n' (f x) k"
  shows "runs_on safe W K n (pbind m f) k"
proof (rule runs_on_bind [OF safe_lasting _ assms(2)], rule runs_on_runs)
  show "runs K n m n'" using assms(1) by (simp add: pbind_end)
qed

lemma inner_statements_on:
  assumes "element_goes_on safe concurrent_statements s n" and "\<And>x. runs_on safe 0 None n (f x) k"
  shows "runs_on safe W K n (pbind (parse_concurrent_statements s) f) k"
  unfolding parse_concurrent_statements_def
  by (rule runs_on_bind [OF safe_lasting runs_on_mono [OF parse_many_on [OF safe_lasting safe_states assms(1)]
        order_refl order_refl] assms(2)]) simp

lemma label_and_keyword:
  assumes "c \<in> {tk_identifier, kw}" and "kw \<notin> {tk_eof, tk_colon}"
  shows "runs (Some c) n (pbind (parse_non_optional_label msg) (\<lambda>(t, v).
    pbind (p_consume kw) (\<lambda>_. pret (t, v)))) (n - 1)"
  unfolding parse_non_optional_label_def by (intro runs_intros) (use assms in auto)

lemma generate_declarations_run: "runs K n generate_declarations n"
  unfolding generate_declarations_def by (intro runs_intros) simp_all

lemma inner_statements_if_on:
  assumes "element_goes_on safe concurrent_statements s n" and "\<And>x. runs_on safe 0 None n (f x) k"
  shows "runs_on safe W K n (pbind (if b then parse_concurrent_statements s else pret []) f) k"
proof (cases b)
  case False
  show ?thesis unfolding if_not_P [OF False] by (rule runs_on_first [where n' = n]) (use assms in \<open>auto intro: runs_intros\<close>)
qed (use inner_statements_on [OF assms] in simp)

lemma generate_body_on:
  assumes s: "element_goes_on safe concurrent_statements s n"
  shows "runs_on safe W K n (generate_body s t) n"
  unfolding generate_body_def
proof (rule runs_on_first [where n' = n])
  show "runs K n (pbind (p_eat kw_generate) pret) n" by (intro runs_intros) simp_all
next
  have first: "runs L n (pbind generate_declarations pret) n" for L
    by (rule runs_pbind [OF generate_declarations_run]) (rule runs_pret, simp)
  show "runs_on safe 0 None n (pbind generate_declarations (\<lambda>decls.
     pbind p_current_token (\<lambda>k.
     pbind (if k \<noteq> kw_end then parse_concurrent_statements s else pret []) (\<lambda>stmts.
     pbind (p_eat kw_end) (\<lambda>end_at.
     pbind (p_consume kw_generate) (\<lambda>_.
     pbind (close_statement (Some t)) (\<lambda>_.
       pret (at, decls, stmts, end_at)))))))) n" for at
    by (intro runs_on_first [OF first] runs_on_current_token [OF safe_lasting] inner_statements_if_on [OF s]
        runs_on_runs runs_intros) simp_all
qed

lemma label_and_keyword_on:
  assumes "c \<in> {tk_identifier, kw}" and "kw \<notin> {tk_eof, tk_colon}"
    and "\<And>t v. runs_on safe 0 None (n - 1) (f t v) k"
  shows "runs_on safe W (Some c) n (pbind (parse_non_optional_label msg) (\<lambda>(t, v).
    pbind (p_consume kw) (\<lambda>_. f t v))) k"
proof -
  have "runs_on safe W (Some c) n (pbind (pbind (parse_non_optional_label msg) (\<lambda>(t, v).
      pbind (p_consume kw) (\<lambda>_. pret (t, v)))) (\<lambda>(t, v). f t v)) k"
    by (rule runs_on_bind [OF safe_lasting runs_on_runs [OF label_and_keyword [OF assms(1,2)]]])
      (auto simp del: One_nat_def intro: assms(3))
  then show ?thesis by (simp add: pbind_assoc case_prod_unfold)
qed

lemma generate_statement_runs_on:
  assumes s: "element_goes_on safe concurrent_statements s (n - 1)"
  shows "c \<in> {tk_identifier, kw_if} \<Longrightarrow> runs_on safe W (Some c) n (parse_generate_if_statement s) (n - 1)"
    and "c \<in> {tk_identifier, kw_for} \<Longrightarrow> runs_on safe W (Some c) n (parse_generate_for_statement s) (n - 1)"
proof -
  have body: "runs_on safe 0 None (n - 1) (pbind (generate_body s t) (\<lambda>(at, decls, stmts, end_at).
      pret (f at decls stmts end_at))) (n - 1)" for t and f :: "_ \<Rightarrow> _ \<Rightarrow> _ \<Rightarrow> _ \<Rightarrow> 'a"
    by (rule runs_on_bind [OF safe_lasting generate_body_on [OF s]]) (auto intro: runs_on_runs runs_pret)
  have p: "runs K m (pbind parse_parameter_specification pret) m"
    and e: "runs K m (pbind an_expression pret) m" for K m
    by (rule runs_pbind [OF parameter_runs], rule runs_pret, simp) (intro runs_intros order_refl)
  show "runs_on safe W (Some c) n (parse_generate_if_statement s) (n - 1)" if "c \<in> {tk_identifier, kw_if}"
    unfolding parse_generate_if_statement_def
    by (rule label_and_keyword_on [OF that]) (use body in \<open>auto intro!: runs_on_first [OF e]\<close>)
  show "runs_on safe W (Some c) n (parse_generate_for_statement s) (n - 1)" if "c \<in> {tk_identifier, kw_for}"
    unfolding parse_generate_for_statement_def
    by (rule label_and_keyword_on [OF that]) (use body in \<open>auto intro!: runs_on_first [OF p]\<close>)
qed

lemma generate_goes_on:
  assumes s: "element_goes_on safe concurrent_statements s (n - 1)" and c: "c \<in> {tk_identifier, kw_if, kw_for}"
  shows "goes_on safe (parse_generate_statement s) c n"
  unfolding parse_generate_statement_def
proof (rule goes_on_peek_2)
  fix k assume k: "(c, k) \<notin> {(kw_if, kw_for), (kw_for, kw_if)}"
  have for_: "goes_on safe (pbind (p_peek 2) (\<lambda>k. if k = kw_for then parse_generate_for_statement s else pret None)) c n"
  proof (rule goes_on_peek_2)
    fix k assume "(c, k) \<notin> {(kw_if, kw_for), (kw_for, kw_if)}"
    then show "goes_on safe (if k = kw_for then parse_generate_for_statement s else pret None) c n"
    proof (cases "k = kw_for")
      case True
      then have "c \<in> {tk_identifier, kw_for}" using \<open>(c, k) \<notin> _\<close> c by auto
      then show ?thesis using goes_on_runs_on [OF generate_statement_runs_on(2) [OF s]] True by simp
    qed (simp add: goes_on_patiently patient_intros)
  qed
  show "goes_on safe (if k = kw_if then parse_generate_if_statement s else
      pbind (p_peek 2) (\<lambda>k. if k = kw_for then parse_generate_for_statement s else pret None)) c n"
  proof (cases "k = kw_if")
    case True
    then have "c \<in> {tk_identifier, kw_if}" using k c by auto
    then show ?thesis using goes_on_runs_on [OF generate_statement_runs_on(1) [OF s]] True by simp
  qed (use for_ in simp)
qed

lemma clause_and_map_runs:
  assumes "\<And>K. runs K n clause n" and "\<And>K. runs K n aspect n"
  shows "runs K n (clause_and_map kw clause aspect) n"
  unfolding clause_and_map_def
  by (intro runs_intros runs_pbind [OF assms(1)] runs_pbind [OF assms(2)]) simp_all

lemma block_statement_on:
  assumes s: "element_goes_on safe concurrent_statements s (n - 1)" and c: "c \<in> {tk_identifier, kw_block}"
  shows "runs_on safe W (Some c) n (parse_block_statement s) (n - 1)"
proof -
  have g: "runs K m (clause_and_map kw_generic parse_generic_clause parse_generic_map_aspect) m"
    and p: "runs K m (clause_and_map kw_port parse_port_clause parse_port_map_aspect) m" for K m
    by (intro clause_and_map_runs clauses_run)+
  have pieces: "runs K m (pbind (parse_block_guard) pret) m" "runs K m (pbind (p_optional kw_is) pret) m"
    "runs K m (pbind (if b then say_in v msg else pret ()) pret) m"
    "runs K m (pbind (clause_and_map kw_generic parse_generic_clause parse_generic_map_aspect) pret) m"
    "runs K m (pbind (clause_and_map kw_port parse_port_clause parse_port_map_aspect) pret) m"
    "runs K m (pbind parse_block_declarative_part pret) m" "runs K m (pbind (p_consume kw_begin) pret) m" for K m b v msg
    unfolding parse_block_guard_def
    by (intro runs_intros runs_pbind [OF g] runs_pbind [OF p]; simp; fail)+
  have tail: "runs_on safe V None m (pbind (p_consume kw_end) (\<lambda>_. pbind (p_consume kw_block) (\<lambda>_.
      pbind (close_statement l) (\<lambda>_. pret x)))) m" for V m l and x :: "'a"
    by (rule runs_on_runs) (intro runs_intros; simp)
  show ?thesis
    unfolding parse_block_statement_def
    by (rule label_and_keyword_on [OF c], simp)
      (use s in \<open>auto intro!: pieces [THEN runs_on_first] inner_statements_on tail simp del: One_nat_def\<close>)
qed

section \<open>The statement\<close>

lemma concurrent_statement_step:
  assumes s: "element_goes_on safe concurrent_statements s (n - 1)"
    and begins: "is_begin_of_element_in_state c concurrent_statements"
  shows "goes_on safe (concurrent_statement_with s) c n"
proof -
  have c: "c \<in> {tk_identifier, kw_process, kw_component, kw_entity, kw_configuration, kw_with, kw_assert,
      kw_postponed, kw_block, kw_if, kw_for, tk_leftpar}"
    using begins by (auto simp: is_begin_of_element_in_state_def is_begin_element_of_concurrent_statements_def
        split: if_splits)
  have branch: "goes_on (with_label safe h) m c n"
    if "\<not> h \<Longrightarrow> d = c" "runs_labelled n m (n - 1)" "d \<in> D" "\<And>c. c \<in> D \<Longrightarrow> runs (Some c) n m (n - 1)" for h d m D
    using that by (intro goes_on_simply) auto
  have block: "goes_on (with_label safe h) (parse_block_statement s) c n"
    if "\<not> h \<Longrightarrow> d = c" "h \<Longrightarrow> c = tk_identifier" "d = kw_block" for h d
    by (rule goes_on_with_label, rule goes_on_runs_on, rule block_statement_on [OF s]) (use that in auto)
  have gen: "goes_on (with_label safe h) (parse_generate_statement s) c n"
    if "\<not> h \<Longrightarrow> d = c" "h \<Longrightarrow> c = tk_identifier" "d \<in> {kw_if, kw_for}" for h d
    by (rule goes_on_with_label, rule generate_goes_on [OF s]) (use that in auto)
  show ?thesis
    unfolding concurrent_statement_with_def
  proof (rule goes_on_behind_label [OF safe_lasting], unfold prod.case,
      intro goes_on_location goes_on_look_for safe_lasting goes_on_placed, goal_cases)
    case (1 h d e at b)
    note call = branch [of h d _ "{tk_identifier}", OF 1(2) call_runs_used(1)]
      and process = branch [of h d _ "{kw_process, kw_postponed}", OF 1(2) process_runs(1)]
      and assertion = branch [of h d _ "{kw_assert, kw_postponed}", OF 1(2) assertion_statement_runs(1)]
      and assigns = branch [of h d _ "{kw_with, tk_leftpar, tk_identifier}", OF 1(2) assignment_statement_runs(1)]
      and inst = branch [of h d _ "{tk_identifier, kw_component, kw_entity, kw_configuration}",
          OF 1(2) runs_labelled_runs [OF instantiation_runs(1)]]
    show ?case
      by (intro goes_on_if goes_on_never call process assertion assigns inst block [OF 1(2,1)] gen [OF 1(2,1)])
        (use call_runs_used process_runs assertion_statement_runs assignment_statement_runs
          instantiation_runs in auto)
  qed
qed

end
