(* ===== verification/Unit_Facts.thy ===== *)
theory Unit_Facts
  imports Concurrent_Facts
begin

text \<open>
  The units of a design file and the parser as a whole. Entities, packages and configurations always
  come to an end; a design file does unless the parser meets a crossed generate statement.
\<close>

section \<open>Architectures\<close>

lemma concurrent_statements_on: "element_goes_on safe concurrent_statements parse_concurrent_statement n"
proof (induction n rule: less_induct)
  case (less n)
  have cong: "goes_on S m' c k \<Longrightarrow> (\<And>p. m p = m' p) \<Longrightarrow> goes_on S m c k" for S c k
    and m m' :: "concurrent_statement option parse"
    by (simp add: goes_on_def)
  show ?case
    unfolding element_goes_on_def
  proof (intro allI impI)
    fix c k assume c: "is_begin_of_element_in_state c concurrent_statements" and k: "k \<le> n"
    show "goes_on safe parse_concurrent_statement c k"
    proof (cases "k = 0")
      case True
      then show ?thesis using not_ready_0 [OF begin_not_eof [OF c]] by (simp add: goes_on_def)
    next
      case False
      then have "element_goes_on safe concurrent_statements parse_concurrent_statement (k - 1)"
        using k by (intro less.IH) simp
      then show ?thesis
        by (rule cong [OF concurrent_statement_step [OF _ c] parse_concurrent_statement.simps])
    qed
  qed
qed

lemma architecture_on:
  "K = Some kw_architecture \<Longrightarrow> runs_on safe W K n parse_architecture_body (n - 1)"
proof -
  assume K: "K = Some kw_architecture"
  have tail: "runs_on safe V None m (pbind (p_eat kw_end) (\<lambda>end_at.
     pbind (say_here_in_vhdl87 kw_architecture End_architecture_vhdl87) (\<lambda>_.
     pbind (p_optional kw_architecture) (\<lambda>_.
     pbind (parse_optional_closing_label t) (\<lambda>_.
     pbind (p_eat tk_semicolon) (\<lambda>last. pret (f end_at last))))))) m" for V m t and f :: "_ \<Rightarrow> _ \<Rightarrow> 'a"
    by (rule runs_on_runs) (intro runs_intros; simp)
  have pieces: "runs K m (pbind (parse_identifier Expected_architecture_name) pret) m"
    "runs K m (pbind (p_consume kw_of) pret) m" "runs K m (pbind a_simple_name pret) m"
    "runs K m (pbind (p_eat kw_is) pret) m" "runs K m (pbind parse_architecture_declarative_part pret) m"
    "runs K m (pbind (p_eat kw_begin) pret) m" for K m
    unfolding parse_architecture_declarative_part_def by (intro runs_intros; simp; fail)+
  have first: "runs (Some kw_architecture) n (pbind (p_eat kw_architecture) pret) (n - 1)"
    by (intro runs_intros) simp_all
  show ?thesis
    unfolding parse_architecture_body_def parse_architecture_statement_part_def K
    by (rule runs_on_first [OF first])
      (auto intro!: pieces [THEN runs_on_first] inner_statements_on concurrent_statements_on tail simp del: One_nat_def)
qed

section \<open>Entities and packages\<close>

lemma entity_statements_runs [runs_intros]:
  assumes "\<And>x. runs None n (f x) k"
  shows "runs K n (pbind (if b then parse_entity_statement_part else pret []) f) k"
proof (rule runs_pbind [OF _ assms])
  have "runs K n parse_entity_statement_part n"
    unfolding parse_entity_statement_part_def
    using parse_many_on [OF lasting_True _ entity_statement_goes_on] runs_on_True by blast
  then show "runs K n (if b then parse_entity_statement_part else pret []) n" by (simp add: runs_pret)
qed

lemma declarations_bind [runs_intros]:
  "(\<And>ds. runs None n (f ds) k) \<Longrightarrow> runs K n (pbind parse_entity_declarative_part f) k"
  "(\<And>ds. runs None n (f ds) k) \<Longrightarrow> runs K n (pbind configuration_declarations f) k"
  "(\<And>ds. runs None n (f ds) k) \<Longrightarrow> runs K n (pbind (package_declarations part) f) k"
  unfolding parse_entity_declarative_part_def configuration_declarations_def package_declarations_def
  by (rule parse_many_fair_bind [OF item_fair], simp, simp)+

lemma entity_runs: "K = Some kw_entity \<Longrightarrow> runs K n parse_entity_declaration (n - 1)"
  unfolding parse_entity_declaration_def
  by (intro runs_intros clauses_run) simp_all

lemma packages_run:
  "K = Some kw_package \<Longrightarrow> runs K n parse_package_declaration (n - 1)"
  "K = Some kw_package \<Longrightarrow> runs K n parse_package_body (n - 1)"
  unfolding parse_package_declaration_def parse_package_body_def
  by (intro runs_intros; simp)+

section \<open>Configurations\<close>

lemma runs_none_left: "c \<noteq> tk_eof \<Longrightarrow> runs (Some c) 0 m k"
  by (simp add: runs_def not_ready_0)

text \<open>Inside a configuration \<open>for\<close> is always there, so that it is used up.\<close>

definition uses_for :: "'a parse \<Rightarrow> nat \<Rightarrow> bool" where
  "uses_for c n \<longleftrightarrow> (\<forall>m \<le> n. runs (Some kw_for) m c (m - 1))"

lemma block_uses_run: "runs K n block_uses n"
  unfolding block_uses_def
proof (rule p_loop_runs, goal_cases)
  case (1 m s K)
  have nm: "calls_ok a_type_mark m" by (auto simp: calls_ok_def intro: tree_tails)
  have again: "0 < m \<Longrightarrow> runs None (m - 1) (p_loop (\<lambda>uses.
       pbind p_current_token (\<lambda>k.
         if k = kw_use then
           pbind (parse_use_clause a_type_mark) (\<lambda>u. pret (Inl (push_some uses (map_option used_names u))))
         else pret (Inr uses))) s') m" for s' by (rule 1(2)) simp
  show ?case
  proof (cases "m = 0")
    case True
    then show ?thesis by (intro runs_intros) (auto intro: runs_none_left runs_pret)
  next
    case False
    then show ?thesis
      by (intro runs_intros runs_pbind [OF parse_use_clause_runs [OF nm]]) (use again in \<open>auto intro: runs_pret\<close>)
  qed
qed

lemma component_configuration_runs:
  assumes "uses_for c (n - 1)"
  shows "runs (Some kw_for) n (parse_component_configuration c) (n - 1)"
proof -
  have c: "runs (Some kw_for) (n - 1) c (n - 1)"
    by (rule runs_mono [where k = "n - 1 - 1"]) (use assms in \<open>auto simp: uses_for_def\<close>)
  show ?thesis
    unfolding parse_component_configuration_def
    by (intro runs_intros) (use c in \<open>auto intro!: runs_pbind [OF c] runs_intros simp del: One_nat_def\<close>)
qed

lemma block_items_run:
  assumes "uses_for c n"
  shows "runs K n (block_items c) n"
  unfolding block_items_def
proof (rule p_loop_runs, goal_cases)
  case (1 m s K)
  have item: "runs (Some kw_for) m (parse_configuration_item c) (m - 1)"
    unfolding parse_configuration_item_def
    by (intro runs_intros component_configuration_runs) (use assms 1(1) in \<open>auto simp: uses_for_def\<close>)
  show ?case
  proof (cases "m = 0")
    case True
    then show ?thesis by (intro runs_intros) (auto intro: runs_none_left runs_pret)
  next
    case False
    then show ?thesis
      by (intro runs_intros runs_pbind [OF item])
        (use 1(2) in \<open>auto intro!: runs_pbind [OF item] runs_intros simp del: One_nat_def\<close>)
  qed
qed

lemma block_configuration_step:
  assumes "uses_for c (left_behind K kw_for n)"
  shows "runs K n (block_configuration_with c) (left_behind K kw_for n)"
proof -
  have i: "runs L m parse_index_specification m" for L m
    unfolding parse_index_specification_def by (intro runs_intros) simp_all
  have s: "runs L m parse_block_specification m" for L m
    unfolding parse_block_specification_def by (intro runs_intros runs_pbind [OF i]) simp_all
  show ?thesis
    unfolding block_configuration_with_def
    by (intro runs_intros runs_pbind [OF s] runs_pbind [OF block_uses_run] runs_pbind [OF block_items_run] assms)
      simp_all
qed

lemma block_configuration_uses_for: "uses_for parse_block_configuration n"
proof (induction n)
  case 0
  show ?case by (simp add: uses_for_def runs_none_left)
next
  case (Suc n)
  have "runs (Some kw_for) (Suc n) parse_block_configuration n"
    by (rule runs_cong [OF parse_block_configuration.simps])
      (use block_configuration_step [of parse_block_configuration "Some kw_for" "Suc n"] Suc in simp)
  then show ?case using Suc by (auto simp: uses_for_def le_Suc_eq)
qed

lemma block_configuration_runs: "runs K n parse_block_configuration n"
  by (rule runs_cong [OF parse_block_configuration.simps])
    (rule runs_mono [OF block_configuration_step [OF block_configuration_uses_for] order_refl], simp)

lemmas block_configuration_bind [runs_intros] = block_configuration_runs [THEN runs_pbind]

lemma configuration_runs: "K = Some kw_configuration \<Longrightarrow> runs K n parse_configuration_declaration (n - 1)"
  unfolding parse_configuration_declaration_def by (intro runs_intros; simp)

section \<open>The design file\<close>

lemma runs_on_unknown: "(\<And>c. runs_on S W (Some c) n m k) \<Longrightarrow> runs_on S W None n m k"
  unfolding runs_on_def ready_for_def by auto

lemma unit_on:
  "runs_on safe W (Some c) n (parse_unit the_grammar) (n - 1)"
  "runs_on safe W K n (parse_unit the_grammar) n"
proof -
  show known: "runs_on safe W (Some c) n (parse_unit the_grammar) (n - 1)" for W c
  proof -
    have package: "runs (Some kw_package) n (pbind (p_peek 1) (\<lambda>k1.
        if k1 = kw_body then parse_package_body else parse_package_declaration)) (n - 1)"
      by (intro runs_intros packages_run) simp_all
    show ?thesis
      unfolding parse_unit_def the_grammar_def grammar.simps
      by (intro runs_on_current_token [OF safe_lasting] runs_on_if)
        (auto intro: runs_on_runs entity_runs architecture_on package configuration_runs runs_intros simp del: One_nat_def)
  qed
  have "runs_on safe W (Some c) n (parse_unit the_grammar) n" for c
    by (rule runs_on_mono [OF known [of W]]) simp_all
  then show "runs_on safe W K n (parse_unit the_grammar) n"
    by (cases K) (auto intro: runs_on_unknown)
qed

lemma name_calls_ok: "calls_ok (g_name the_grammar) n"
  by (auto simp: calls_ok_def the_grammar_def intro: tree_tails)

lemma design_unit_on: "element_goes_on safe design_unit_in_design_file (parse_design_unit the_grammar) n"
  unfolding element_goes_on_def
proof (intro allI impI, rule goes_on_runs_on)
  fix c m assume "is_begin_of_element_in_state c design_unit_in_design_file"
  then have c: "c \<in> {kw_entity, kw_architecture, kw_package, kw_configuration, kw_library, kw_use}"
    by (auto simp: is_begin_of_element_in_state_def is_begin_element_of_design_unit_in_design_file_def split: if_splits)
  have last: "runs_on safe 0 L j (pret y) j" for L j and y :: "'a"
    by (rule runs_on_runs) (simp add: runs_pret)
  have clause: "runs (Some c) m (parse_context_clause (g_name the_grammar)) (m - 1)" if "c \<in> {kw_library, kw_use}"
    unfolding parse_context_clause_def
    by (rule runs_cong [OF context_items.simps])
      (use that in \<open>intro runs_intros runs_pbind [OF parse_library_clause_runs]
        runs_pbind [OF parse_use_clause_runs [OF name_calls_ok [of m]]] context_items_tail [OF name_calls_ok [of m]]; simp\<close>)
  show "runs_on safe 0 (Some c) m (parse_design_unit the_grammar) (m - 1)"
  proof (cases "c \<in> {kw_library, kw_use}")
    case True
    show ?thesis
      unfolding parse_design_unit_def
      by (rule runs_on_bind [OF safe_lasting runs_on_runs [OF clause [OF True]]],
          rule runs_on_bind [OF safe_lasting unit_on(2)], rule last)
  next
    case False
    have cong: "(\<And>p. g p = g' p) \<Longrightarrow> runs_on safe W K n (pbind g' f) k \<Longrightarrow> runs_on safe W K n (pbind g f) k"
      for W K n k f and g g' :: "name context_item list parse"
      by (simp add: runs_on_def pbind_def)
    show ?thesis
      unfolding parse_design_unit_def parse_context_clause_def
      by (rule cong [OF context_items.simps], simp only: pbind_assoc,
          intro runs_on_current_token [OF safe_lasting])
        (use c False in \<open>auto simp: pbind_assoc simp del: One_nat_def
          intro!: runs_on_current_token [OF safe_lasting] runs_on_bind [OF safe_lasting unit_on(1)] last\<close>)
  qed
qed

lemma design_file_on: "runs_on safe 0 K n (parse_design_file the_grammar) n"
proof -
  have many: "runs_on safe W L n (parse_many design_unit_in_design_file (parse_design_unit the_grammar)) n" for W L
    by (rule runs_on_mono [OF parse_many_on [OF safe_lasting safe_states design_unit_on] order_refl order_refl]) simp
  show ?thesis
    unfolding parse_design_file_def
    by (intro runs_on_current_token [OF safe_lasting] runs_on_if many runs_on_runs) (intro runs_intros, simp)
qed

lemma parser_run_safe: "p_good p \<Longrightarrow> safe p \<Longrightarrow> \<exists>r. parser_run the_grammar p = Some r"
  using design_file_on [of None "p_left p"] ready_for_here [of p]
  unfolding runs_on_def parser_run_def
  by (force simp: returns_def split: option.splits sum.splits parse_error.splits)

section \<open>Properties\<close>

text \<open>What the theorems say of a function that comes to an end, from \<open>runs\<close>.\<close>

lemma runs_ends:
  assumes "runs None (p_left p) m (p_left p)" and "p_good p"
  shows "\<exists>r. m p = Some r \<and> (\<forall>x p'. r = Inr (x, p') \<longrightarrow> p_left p' \<le> p_left p
    \<and> parsing_states p' = parsing_states p \<and> (\<exists>ds. dias (scanner (pq p')) = dias (scanner (pq p)) @ ds))"
proof -
  note ready = ready_for_here [OF assms(2)]
  obtain r where r: "m p = Some r" using runsD(1) [OF assms(1) ready] by (auto simp: returns_def)
  show ?thesis using r runsD(2) [OF assms(1) ready] by (auto simp: ready_for_def kept_def onward_def)
qed







end
