(* ===== verification/Expression_Grammar.thy ===== *)
theory Expression_Grammar
  imports Expression_Facts
begin

text \<open>
  The grammar of expressions as a relation, and that the parser implements it. A level of the grammar
  derives an expression from a list of tokens; the functions \<open>parse_expression\<close> to \<open>parse_primary\<close> return
  just this expression, whatever follows that does not continue it.
\<close>

section \<open>The grammar\<close>

datatype level = Primary | Factor | Term | Simple | Shift | Relation | Logical | Expression

text \<open>The operators between two operands of one level. \<open>nand\<close> and \<open>nor\<close> end the expression.\<close>

definition multiplying :: "kind_t list" where
  "multiplying = [tk_times, tk_div, kw_mod, kw_rem]"

definition adding :: "kind_t list" where
  "adding = [tk_concat, tk_plus, tk_minus]"

definition shifting :: "kind_t list" where
  "shifting = [kw_sll, kw_srl, kw_sla, kw_sra, kw_rol, kw_ror]"

definition relating :: "kind_t list" where
  "relating = [tk_eq, tk_ne, tk_lt, tk_gt, tk_lte, tk_gte]"

definition joining :: "kind_t list" where
  "joining = [kw_and, kw_or, kw_xor, kw_xnor]"

definition ending :: "kind_t list" where
  "ending = [kw_nand, kw_nor]"

lemmas operator_lists = multiplying_def adding_def shifting_def relating_def joining_def ending_def

definition operation_of :: "kind_t \<Rightarrow> operation" where
  "operation_of k = (case map_of operations k of None \<Rightarrow> op_error | Some operation \<Rightarrow> operation)"

definition binary :: "expression \<Rightarrow> kind_t \<Rightarrow> expression \<Rightarrow> expression" where
  "binary a k b = Expr_binary (Some a) (operation_of k) (Some b)"

definition literal_of :: "kind_t \<Rightarrow> literal_kind" where
  "literal_of k =
     (if k = tk_integer then lit_integer else if k = tk_real then lit_real
      else if k = tk_stringliteral then lit_string else lit_bitstring)"

definition attribute_of :: "name \<Rightarrow> token \<Rightarrow> expression option \<Rightarrow> name" where
  "attribute_of n t e = Name_attribute n None e (get_attr_kind t) (attribute_token t)"

inductive expression_at :: "level \<Rightarrow> expression \<Rightarrow> token list \<Rightarrow> bool"
  and name_at :: "name \<Rightarrow> token list \<Rightarrow> bool \<Rightarrow> bool"
  and arguments_at :: "expression list \<Rightarrow> token list \<Rightarrow> bool" where
  literal: "kind t \<in> {tk_integer, tk_real, tk_stringliteral, tk_bitstring} \<Longrightarrow>
    expression_at Primary (Expr_literal t (literal_of (kind t))) [t]"
| null: "kind t = kw_null \<Longrightarrow> expression_at Primary Expr_null [t]"
| character: "kind t = tk_character \<Longrightarrow> expression_at Primary (Expr_unresolved (Name_simple t)) [t]"
| named: "name_at n ts b \<Longrightarrow> expression_at Primary (Expr_unresolved n) ts"
| nested: "\<lbrakk>kind l = tk_leftpar; expression_at Expression e ts; kind r = tk_rightpar\<rbrakk> \<Longrightarrow>
    expression_at Primary (Expr_nested (Some e)) (l # ts @ [r])"
| primary: "expression_at Primary e ts \<Longrightarrow> expression_at Factor e ts"
| unary: "\<lbrakk>kind t \<in> {kw_abs, kw_not}; expression_at Primary e ts\<rbrakk> \<Longrightarrow>
    expression_at Factor (Expr_unary (Some e) (operation_of (kind t))) (t # ts)"
| power: "\<lbrakk>expression_at Primary a ts; kind t = tk_pow; expression_at Factor b us\<rbrakk> \<Longrightarrow>
    expression_at Factor (binary a tk_pow b) (ts @ t # us)"
| factor: "expression_at Factor e ts \<Longrightarrow> expression_at Term e ts"
| multiply: "\<lbrakk>expression_at Term a ts; kind t \<in> set multiplying; expression_at Factor b us\<rbrakk> \<Longrightarrow>
    expression_at Term (binary a (kind t) b) (ts @ t # us)"
| a_term: "expression_at Term e ts \<Longrightarrow> expression_at Simple e ts"
| sign: "\<lbrakk>sign_of (kind t) = Some operation; expression_at Term e ts\<rbrakk> \<Longrightarrow>
    expression_at Simple (Expr_unary (Some e) operation) (t # ts)"
| add: "\<lbrakk>expression_at Simple a ts; kind t \<in> set adding; expression_at Term b us\<rbrakk> \<Longrightarrow>
    expression_at Simple (binary a (kind t) b) (ts @ t # us)"
| simple: "expression_at Simple e ts \<Longrightarrow> expression_at Shift e ts"
| shift: "\<lbrakk>expression_at Shift a ts; kind t \<in> set shifting; expression_at Simple b us\<rbrakk> \<Longrightarrow>
    expression_at Shift (binary a (kind t) b) (ts @ t # us)"
| shifted: "expression_at Shift e ts \<Longrightarrow> expression_at Relation e ts"
| relate: "\<lbrakk>expression_at Shift a ts; kind t \<in> set relating; expression_at Shift b us\<rbrakk> \<Longrightarrow>
    expression_at Relation (binary a (kind t) b) (ts @ t # us)"
| relation: "expression_at Relation e ts \<Longrightarrow> expression_at Logical e ts"
| join: "\<lbrakk>expression_at Logical a ts; kind t \<in> set joining; expression_at Relation b us\<rbrakk> \<Longrightarrow>
    expression_at Logical (binary a (kind t) b) (ts @ t # us)"
| logical: "expression_at Logical e ts \<Longrightarrow> expression_at Expression e ts"
| end_with: "\<lbrakk>expression_at Logical a ts; kind t \<in> set ending; expression_at Relation b us\<rbrakk> \<Longrightarrow>
    expression_at Expression (binary a (kind t) b) (ts @ t # us)"
| ident: "kind t = tk_identifier \<Longrightarrow> name_at (Name_simple t) [t] True"
| selected: "\<lbrakk>name_at n ts b; kind d = tk_dot; kind t \<in> {tk_identifier, tk_character, tk_stringliteral, kw_all}\<rbrakk> \<Longrightarrow>
    name_at (Name_selected (Some n) t) (ts @ [d, t]) True"
| called: "\<lbrakk>name_at n ts True; kind l = tk_leftpar; arguments_at es us; kind r = tk_rightpar\<rbrakk> \<Longrightarrow>
    name_at (Name_ambiguous n es) (ts @ l # us @ [r]) True"
| attribute: "\<lbrakk>name_at n ts b; kind d = tk_tick; kind t = tk_identifier\<rbrakk> \<Longrightarrow>
    name_at (attribute_of n t None) (ts @ [d, t]) False"
| attribute_of: "\<lbrakk>name_at n ts b; kind d = tk_tick; kind t = tk_identifier;
    kind l = tk_leftpar; expression_at Expression e us; kind r = tk_rightpar\<rbrakk> \<Longrightarrow>
    name_at (attribute_of n t (Some e)) (ts @ d # t # l # us @ [r]) True"
| argument: "expression_at Expression e ts \<Longrightarrow> arguments_at [e] ts"
| arguments: "\<lbrakk>expression_at Expression e ts; kind c = tk_comma; arguments_at es us\<rbrakk> \<Longrightarrow>
    arguments_at (e # es) (ts @ c # us)"

section \<open>What the lookahead sees\<close>

text \<open>Inside a parenthesis an expression is passed over when a comma or an arrow is looked for.\<close>

definition passed_over :: "look_params \<Rightarrow> kind_t list \<Rightarrow> bool" where
  "passed_over p ks \<longleftrightarrow> (\<forall>nest ms. 0 < nest \<longrightarrow> look_list p nest (ks @ ms) = look_list p nest ms)"

definition dull :: "look_params \<Rightarrow> kind_t set" where
  "dull p = - ({tk_eof, abort p, tk_leftpar, tk_rightpar} \<union> set (look p) \<union> set (stop p))"

lemma passed_over_append: "passed_over p ks \<Longrightarrow> passed_over p ms \<Longrightarrow> passed_over p (ks @ ms)"
  by (simp add: passed_over_def)

lemma passed_over_Cons:
  "\<lbrakk>k \<in> dull p; nest_in p = tk_leftpar; nest_out p = tk_rightpar; passed_over p ks\<rbrakk> \<Longrightarrow> passed_over p (k # ks)"
  by (auto simp: passed_over_def dull_def Let_def)

lemma passed_over_Nil: "passed_over p []"
  by (simp add: passed_over_def)

definition plain_look :: "look_params \<Rightarrow> bool" where
  "plain_look p \<longleftrightarrow> p \<in> {comma_or_arrow, rightarrow_in_call, downto_upto_or_range_keyword}"

text \<open>Behind the parenthesis that opens, the depth of these two lookaheads is left.\<close>

lemma passed_over_nested:
  assumes "plain_look p" and "\<And>nest ms. 0 < nest \<Longrightarrow> look_list p (Suc nest) (ks @ ms) = look_list p (Suc nest) ms"
  shows "passed_over p (tk_leftpar # ks @ [tk_rightpar])"
proof -
  have p: "nest_in p = tk_leftpar" "nest_out p = tk_rightpar" "depth p = 1" "abort p = tk_semicolon"
    using assms(1) by (auto simp: plain_look_def comma_or_arrow_def rightarrow_in_call_def downto_upto_or_range_keyword_def looking_def)
  show ?thesis
    unfolding passed_over_def
  proof (intro allI impI)
    fix nest :: nat and ms assume nest: "0 < nest"
    have "look_list p nest ((tk_leftpar # ks @ [tk_rightpar]) @ ms)
        = look_list p (Suc nest) (ks @ tk_rightpar # ms)" using nest p by (simp add: Let_def)
    also have "\<dots> = look_list p (Suc nest) (tk_rightpar # ms)" using assms(2) nest by simp
    also have "\<dots> = look_list p nest ms" using nest p by (simp add: Let_def)
    finally show "look_list p nest ((tk_leftpar # ks @ [tk_rightpar]) @ ms) = look_list p nest ms" .
  qed
qed

lemma nested_passed_over: "plain_look p \<Longrightarrow> passed_over p ks \<Longrightarrow> passed_over p (tk_leftpar # ks @ [tk_rightpar])"
  by (rule passed_over_nested) (simp_all add: passed_over_def)

text \<open>The tokens of an expression that are not parentheses or commas.\<close>

definition expression_kinds :: "kind_t set" where
  "expression_kinds = set (multiplying @ adding @ shifting @ relating @ joining @ ending)
     \<union> {kw_abs, kw_not, tk_pow, tk_integer, tk_real, tk_stringliteral, tk_bitstring, kw_null, tk_character,
        tk_identifier, tk_dot, tk_tick, kw_all}"

lemma expression_kinds_dull: "plain_look p \<Longrightarrow> expression_kinds \<subseteq> dull p"
  by (auto simp: plain_look_def dull_def comma_or_arrow_def rightarrow_in_call_def downto_upto_or_range_keyword_def looking_def
      array_of_four_def expression_kinds_def operator_lists)

lemma plain_nests: "plain_look p \<Longrightarrow> nest_in p = tk_leftpar \<and> nest_out p = tk_rightpar"
  by (auto simp: plain_look_def comma_or_arrow_def rightarrow_in_call_def downto_upto_or_range_keyword_def looking_def)

lemma comma_deeper:
  assumes "plain_look p"
  shows "look_list p (Suc (Suc n)) (tk_comma # ks) = look_list p (Suc (Suc n)) ks"
proof -
  have "nest_in p = tk_leftpar" "nest_out p = tk_rightpar" "depth p = 1" "abort p = tk_semicolon"
    using assms by (auto simp: plain_look_def comma_or_arrow_def rightarrow_in_call_def downto_upto_or_range_keyword_def looking_def)
  then show ?thesis by (simp add: Let_def)
qed

lemma comma_in_call: "tk_comma \<in> dull rightarrow_in_call"
  by (auto simp: dull_def rightarrow_in_call_def looking_def array_of_four_def)

lemma call_is_plain: "plain_look rightarrow_in_call"
  by (simp add: plain_look_def)

lemma range_is_plain: "plain_look downto_upto_or_range_keyword"
  by (simp add: plain_look_def)

lemma not_in_range:
  "\<not> look_list downto_upto_or_range_keyword (Suc 0) (tk_comma # ms)"
  "\<not> look_list downto_upto_or_range_keyword (Suc 0) (tk_rightpar # ms)"
  by (simp_all add: downto_upto_or_range_keyword_def looking_def array_of_four_def)

lemma passed_over_kind:
  "\<lbrakk>plain_look p; k \<in> expression_kinds; passed_over p ks\<rbrakk> \<Longrightarrow> passed_over p (k # ks)"
  using passed_over_Cons plain_nests expression_kinds_dull by blast

lemma derived_passed_over:
  "expression_at lvl e ts \<Longrightarrow> \<forall>p. plain_look p \<longrightarrow> passed_over p (map kind ts)"
  "name_at n ts b \<Longrightarrow> \<forall>p. plain_look p \<longrightarrow> passed_over p (map kind ts)"
  "arguments_at es ts \<Longrightarrow> passed_over rightarrow_in_call (map kind ts)
    \<and> (\<forall>ms. \<not> look_list downto_upto_or_range_keyword 1 (map kind ts @ tk_rightpar # ms)) \<and> (\<forall>p. plain_look p \<longrightarrow>
    (\<forall>n ms. look_list p (Suc (Suc n)) (map kind ts @ ms) = look_list p (Suc (Suc n)) ms))"
proof (induction rule: expression_at_name_at_arguments_at.inducts)
  case (called n ts l es us r)
  have "passed_over p (tk_leftpar # map kind us @ [tk_rightpar])" if "plain_look p" for p
    by (rule passed_over_nested) (use that called(6) in \<open>auto simp: gr0_conv_Suc\<close>)
  then show ?case using called by (auto intro: passed_over_append)
next
  case (argument e ts)
  then show ?case using call_is_plain range_is_plain not_in_range by (simp add: passed_over_def)
next
  case (arguments e ts c es us)
  have "passed_over rightarrow_in_call (tk_comma # map kind us)"
    by (rule passed_over_Cons [OF comma_in_call]) (use plain_nests [OF call_is_plain] arguments in simp_all)
  then have "passed_over rightarrow_in_call (map kind ts @ tk_comma # map kind us)"
    using arguments call_is_plain by (intro passed_over_append) auto
  moreover have "look_list p (Suc (Suc n)) (map kind ts @ tk_comma # map kind us @ ms) = look_list p (Suc (Suc n)) ms"
    if "plain_look p" for p n ms
    using that arguments comma_deeper by (simp add: passed_over_def)
  moreover have "\<not> look_list downto_upto_or_range_keyword 1 (map kind ts @ tk_comma # ms)" for ms
    using arguments(4) range_is_plain not_in_range by (simp add: passed_over_def)
  ultimately show ?case using arguments(2) by simp
qed (auto simp: expression_kinds_def sign_of_def adding_def
  intro!: passed_over_append passed_over_kind passed_over_Nil nested_passed_over split: if_splits)

section \<open>How an expression begins and what continues it\<close>

text \<open>The kinds an expression of a level begins with, and the kinds that continue it behind its last
  token; what follows an expression must not.\<close>

definition first_of :: "level \<Rightarrow> kind_t set" where
  "first_of lvl =
     {tk_integer, tk_real, tk_stringliteral, tk_bitstring, kw_null, tk_character, tk_identifier, tk_leftpar}
     \<union> (if lvl = Primary then {} else {kw_abs, kw_not})
     \<union> (if lvl \<in> {Primary, Factor, Term} then {} else {tk_plus, tk_minus})"

abbreviation "after_primary \<equiv> {tk_identifier, tk_leftpar, tk_tick, tk_leftsquare, tk_dot}"
abbreviation "after_factor \<equiv> insert tk_pow after_primary"
abbreviation "after_term \<equiv> set multiplying \<union> after_factor"
abbreviation "after_simple \<equiv> set adding \<union> after_term"
abbreviation "after_shift \<equiv> set shifting \<union> after_simple"
abbreviation "after_relation \<equiv> set relating \<union> after_shift"
abbreviation "after_logical \<equiv> set joining \<union> set ending \<union> after_relation"

primrec continues :: "level \<Rightarrow> kind_t set" where
  "continues Primary = after_primary"
| "continues Factor = after_factor"
| "continues Term = after_term"
| "continues Simple = after_simple"
| "continues Shift = after_shift"
| "continues Relation = after_relation"
| "continues Logical = after_logical"
| "continues Expression = after_logical"

lemma derived_first:
  "expression_at lvl e ts \<Longrightarrow> ts \<noteq> [] \<and> kind (hd ts) \<in> first_of lvl"
  "name_at n ts b \<Longrightarrow> ts \<noteq> [] \<and> kind (hd ts) = tk_identifier"
  "arguments_at es us \<Longrightarrow> True"
  by (induction rule: expression_at_name_at_arguments_at.inducts) (auto simp: first_of_def sign_of_def split: if_splits)

section \<open>What the parser does\<close>

text \<open>The function of each level, and how many looks at the current token it ends with at most.\<close>

primrec parser_of :: "level \<Rightarrow> expression option parse" where
  "parser_of Primary = parse_primary parse_tree"
| "parser_of Factor = parse_factor parse_tree"
| "parser_of Term = parse_term parse_tree"
| "parser_of Simple = parse_simple_expression parse_tree"
| "parser_of Shift = parse_shift_expression parse_tree"
| "parser_of Relation = parse_relation parse_tree"
| "parser_of Logical = parse_boolean_expression parse_tree"
| "parser_of Expression = parse_boolean_expression parse_tree"

primrec looks_of :: "level \<Rightarrow> nat" where
  "looks_of Primary = 2"
| "looks_of Factor = 3"
| "looks_of Term = 4"
| "looks_of Simple = 5"
| "looks_of Shift = 6"
| "looks_of Relation = 7"
| "looks_of Logical = 8"
| "looks_of Expression = 8"

text \<open>And how far the watchdog may be when it is called.\<close>

definition room_of :: "level \<Rightarrow> nat" where
  "room_of lvl = (if lvl = Primary then 80 else if lvl \<in> {Factor, Term} then 70 else 60)"

lemmas room_simps [simp] = room_of_def

definition parsed :: "level \<Rightarrow> expression \<Rightarrow> token list \<Rightarrow> bool" where
  "parsed lvl e ts \<longleftrightarrow> (\<forall>rest1 w. rest1 \<noteq> [] \<longrightarrow> kind (hd rest1) \<notin> continues lvl \<longrightarrow> w \<le> room_of lvl \<longrightarrow>
     acts (parser_of lvl) (ts @ rest1) w (Some e) rest1 (looks_of lvl))"

lemma parsedI:
  assumes "\<And>rest1 w. \<lbrakk>rest1 \<noteq> []; kind (hd rest1) \<notin> continues lvl; w \<le> room_of lvl\<rbrakk> \<Longrightarrow>
    acts (parser_of lvl) (ts @ rest1) w (Some e) rest1 (looks_of lvl)"
  shows "parsed lvl e ts"
  using assms by (simp add: parsed_def)

lemma parsedD:
  assumes "parsed lvl e ts" and "rest1 \<noteq> []" and "kind (hd rest1) \<notin> continues lvl" and "w \<le> room_of lvl"
    and "acts (f (Some e)) rest1 (looks_of lvl) x us v"
  shows "acts (pbind (parser_of lvl) f) (ts @ rest1) w x us v"
  by (rule acts_pbind [where x = "Some e"]) (use assms in \<open>simp_all add: parsed_def\<close>)

text \<open>The calls that close the circle.\<close>

lemma acts_call_factor:
  "acts (pbind (parse_factor parse_tree) f) ts w x us v \<Longrightarrow> acts (pbind (call_factor parse_tree) f) ts w x us v"
  unfolding call_factor_def pbind_assoc
  by (rule acts_cong_bind [OF parse_tree.simps]) (simp add: parse_node_def pbind_assoc)

lemma acts_call_expression:
  "acts (pbind (parse_boolean_expression parse_tree) f) ts w x us v \<Longrightarrow> acts (pbind an_expression f) ts w x us v"
  unfolding call_expression_def pbind_assoc
  by (rule acts_cong_bind [OF parse_tree.simps]) (simp add: parse_node_def pbind_assoc)

lemma acts_call_name:
  "acts (pbind (parse_name parse_tree opts) f) ts w x us v
   \<Longrightarrow> acts (pbind (call_name parse_tree opts) f) ts w x us v"
  unfolding call_name_def pbind_assoc
  by (rule acts_cong_bind [OF parse_tree.simps]) (simp add: parse_node_def pbind_assoc)


section \<open>The loops\<close>

definition joining_loop :: "expression option \<Rightarrow> expression option parse" where
  "joining_loop =
     p_loop (\<lambda>result.
       pbind p_current_token (\<lambda>k.
         if k \<in> {kw_nand, kw_nor} then
           pbind (parse_rhs (parse_relation parse_tree) result) (\<lambda>e. pret (Inr e))
         else if k \<in> {kw_and, kw_or, kw_xor, kw_xnor} then
           pbind (parse_rhs (parse_relation parse_tree) result) (\<lambda>e. pret (Inl e))
         else pret (Inr result)))"

lemma operation_known:
  "k \<in> set (multiplying @ adding @ shifting @ relating @ joining @ ending) \<union> {kw_abs, kw_not, tk_pow}
   \<Longrightarrow> map_of operations k = Some (operation_of k)"
  by (auto simp: operator_lists operation_of_def operations_def)

lemma acts_rhs:
  assumes "map_of operations (kind t) = Some (operation_of (kind t))" and "w < 90"
    and "acts m (us @ rest1) 0 (Some b) rest1 W" and "us \<noteq> []"
    and "acts (f (Some (binary a (kind t) b))) rest1 W y vs v"
  shows "acts (pbind (parse_rhs m (Some a)) f) (t # us @ rest1) w y vs v"
  unfolding parse_rhs_def parse_operation_def
  by (intro acts_intros) (use assms in \<open>auto simp: binary_def pbind_assoc intro!: acts_intros acts_pbind [OF assms(3)]\<close>)

lemma loop_ends:
  "kind (hd ts) \<notin> set ks \<Longrightarrow> w < 90 \<Longrightarrow> acts (left_associative ks m e) ts w e ts (Suc w)"
  unfolding left_associative_def
  by (rule acts_loop) (intro acts_intros; simp add: acts_pret)

lemma loop_goes_on:
  assumes "map_of operations (kind t) = Some (operation_of (kind t))" and "kind t \<in> set ks" and "w < 80"
    and "acts m (us @ rest1) 0 (Some b) rest1 W" and "us \<noteq> []"
    and "acts (left_associative ks m (Some (binary a (kind t) b))) rest1 W y vs v"
  shows "acts (left_associative ks m (Some a)) (t # us @ rest1) w y vs v"
  unfolding left_associative_def
  by (rule acts_loop) (use assms in \<open>auto simp: left_associative_def intro!: acts_intros acts_rhs\<close>)

lemma joining_ends:
  "kind (hd ts) \<notin> set joining \<union> set ending \<Longrightarrow> w < 90 \<Longrightarrow> acts (joining_loop e) ts w e ts (Suc w)"
  unfolding joining_loop_def
  by (rule acts_loop) (intro acts_intros; simp add: acts_pret joining_def ending_def)

lemma joining_goes_on:
  assumes "kind t \<in> set joining \<union> set ending" and "w < 80"
    and "acts (parse_relation parse_tree) (us @ rest1) 0 (Some b) rest1 W" and "us \<noteq> []"
    and "kind t \<in> set ending \<Longrightarrow> acts (pret (Some (binary a (kind t) b))) rest1 W y vs v"
    and "kind t \<in> set joining \<Longrightarrow> acts (joining_loop (Some (binary a (kind t) b))) rest1 W y vs v"
  shows "acts (joining_loop (Some a)) (t # us @ rest1) w y vs v"
proof -
  have o: "map_of operations (kind t) = Some (operation_of (kind t))" using assms(1) by (intro operation_known) auto
  show ?thesis
    unfolding joining_loop_def
    by (rule acts_loop)
      (use assms o in \<open>auto simp: joining_loop_def joining_def ending_def intro!: acts_intros acts_rhs\<close>)
qed

section \<open>Primaries\<close>

lemma suffix_ends:
  assumes "ts \<noteq> []" and "kind (hd ts) \<notin> {tk_leftpar, tk_tick, tk_leftsquare, tk_dot}" and "w < 90"
  shows "acts (p_loop (name_suffix parse_tree opts) n) ts w n ts (Suc (Suc w))"
  by (rule acts_loop, unfold name_suffix_def) (intro acts_intros; use assms in \<open>simp add: acts_pret\<close>)

lemma literal_parsed:
  assumes "kind t \<in> {tk_integer, tk_real, tk_stringliteral, tk_bitstring}"
  shows "parsed Primary (Expr_literal t (literal_of (kind t))) [t]"
  by (rule parsedI, unfold parser_of.simps parse_primary_def parse_number_def this_literal_def)
    (intro acts_intros; use assms in \<open>auto simp: literal_of_def hd_conv_nth intro!: acts_pret\<close>)

lemma null_parsed: "kind t = kw_null \<Longrightarrow> parsed Primary Expr_null [t]"
  by (rule parsedI, unfold parser_of.simps parse_primary_def)
    (intro acts_intros; simp add: acts_pret)

lemma character_parsed: "kind t = tk_character \<Longrightarrow> parsed Primary (Expr_unresolved (Name_simple t)) [t]"
proof (rule parsedI, goal_cases)
  case (1 rest1 w)
  have "acts (pbind (p_loop (name_suffix parse_tree character_options) (Some (Name_simple t))) unresolved)
      rest1 0 (Some (Expr_unresolved (Name_simple t))) rest1 2"
    by (rule acts_pbind [OF suffix_ends]) (use 1 in \<open>auto simp: unresolved_def intro!: acts_pret\<close>)
  then have "acts (pbind (parse_name parse_tree character_options) unresolved) ([t] @ rest1) (Suc w)
      (Some (Expr_unresolved (Name_simple t))) rest1 2"
    unfolding parse_name_def parse_simple_name_def
    by (intro acts_intros; use 1 in simp)
  then show ?case
    unfolding parser_of.simps parse_primary_def
    by (intro acts_intros acts_call_name; use 1 in simp)
qed

lemma qifts_allowed [simp]: "allow_qifts default_options"
  by (simp add: default_options_def)

definition named :: "name \<Rightarrow> token list \<Rightarrow> bool \<Rightarrow> bool" where
  "named n ts b \<longleftrightarrow> (\<forall>rest1 w x us v. rest1 \<noteq> [] \<longrightarrow> (b \<or> kind (hd rest1) \<noteq> tk_leftpar) \<longrightarrow> w \<le> 85 \<longrightarrow>
     acts (p_loop (name_suffix parse_tree default_options) (Some n)) rest1 0 x us v \<longrightarrow>
     acts (parse_name parse_tree default_options) (ts @ rest1) w x us v)"

lemma name_parsed:
  assumes "named n ts b" and "ts \<noteq> []" and "kind (hd ts) = tk_identifier"
  shows "parsed Primary (Expr_unresolved n) ts"
proof (rule parsedI, goal_cases)
  case (1 rest1 w)
  have "acts (p_loop (name_suffix parse_tree default_options) (Some n)) rest1 0 (Some n) rest1 2"
    using suffix_ends [of rest1 0] 1 by (simp add: numeral_2_eq_2)
  then have n: "acts (parse_name parse_tree default_options) (ts @ rest1) (Suc w) (Some n) rest1 2"
    using assms(1) 1 by (auto simp: named_def)
  have "acts (pbind (parse_name parse_tree default_options) unresolved) (ts @ rest1) (Suc w)
      (Some (Expr_unresolved n)) rest1 2"
    by (rule acts_pbind [OF n]) (simp add: unresolved_def acts_pret)
  then show ?case
    unfolding parser_of.simps parse_primary_def
    by (intro acts_intros acts_call_name; use 1 assms in simp)
qed

lemma nested_parsed:
  assumes "kind l = tk_leftpar" and "parsed Expression e ts" and "kind r = tk_rightpar"
    and "passed_over comma_or_arrow (map kind ts)" and "ts \<noteq> []"
  shows "parsed Primary (Expr_nested (Some e)) (l # ts @ [r])"
proof (rule parsedI, goal_cases)
  case (1 rest1 w)
  have "look_list comma_or_arrow 0 (map kind ((l # ts @ [r]) @ rest1))
      = look_list comma_or_arrow 1 (map kind ts @ tk_rightpar # map kind rest1)"
    using assms(1,3) by (simp add: comma_or_arrow_def looking_def array_of_four_def)
  also have "\<dots> = look_list comma_or_arrow 1 (tk_rightpar # map kind rest1)"
    using assms(4) by (simp add: passed_over_def)
  also have "\<dots> = False" by (simp add: comma_or_arrow_def looking_def array_of_four_def)
  finally have l: "\<not> look_list comma_or_arrow 0 (map kind ((l # ts @ [r]) @ rest1))" by simp
  have "acts (pbind (parser_of Expression) (\<lambda>e. pbind (p_consume tk_rightpar) (\<lambda>_.
      pret (map_option (\<lambda>e. Expr_nested (Some e)) e)))) (ts @ r # rest1) 0 (Some (Expr_nested (Some e))) rest1 2"
    by (rule parsedD [OF assms(2)]; (intro acts_intros)?)
      (use assms 1 in \<open>auto simp: operator_lists intro!: acts_pret\<close>)
  then show ?case
    unfolding parser_of.simps parse_primary_def parse_nested_def
    using l by (intro acts_intros acts_call_expression; use 1 assms in simp)
qed

section \<open>Names\<close>

lemma namedI:
  assumes "\<And>rest1 w x us (v :: nat). \<lbrakk>rest1 \<noteq> []; b \<or> kind (hd rest1) \<noteq> tk_leftpar; w \<le> 85;
      acts (p_loop (name_suffix parse_tree default_options) (Some n)) rest1 0 x us v\<rbrakk> \<Longrightarrow>
    acts (parse_name parse_tree default_options) (ts @ rest1) w x us v"
  shows "named n ts b"
  using assms by (simp add: named_def)

lemma namedD:
  "\<lbrakk>named n ts b; rest1 \<noteq> []; b \<or> kind (hd rest1) \<noteq> tk_leftpar; w \<le> 85;
    acts (p_loop (name_suffix parse_tree default_options) (Some n)) rest1 0 x us v\<rbrakk>
   \<Longrightarrow> acts (parse_name parse_tree default_options) (ts @ rest1) w x us v"
  unfolding named_def by blast

lemma identifier_named: "kind t = tk_identifier \<Longrightarrow> named (Name_simple t) [t] True"
  by (rule namedI, unfold parse_name_def parse_simple_name_def) (intro acts_intros; simp)

text \<open>A suffix goes round the loop once more.\<close>

lemma suffix_named:
  assumes "named n ts b" and "suffix \<noteq> []" and "b \<or> kind (hd suffix) \<noteq> tk_leftpar"
    and "\<And>rest1 x us v. \<lbrakk>rest1 \<noteq> []; b' \<or> kind (hd rest1) \<noteq> tk_leftpar;
      acts (p_loop (name_suffix parse_tree default_options) (Some n')) rest1 0 x us v\<rbrakk> \<Longrightarrow>
      acts (pbind (name_suffix parse_tree default_options (Some n))
        (\<lambda>r. case r of Inl s \<Rightarrow> p_loop (name_suffix parse_tree default_options) s | Inr x \<Rightarrow> pret x)) (suffix @ rest1) 0 x us v"
  shows "named n' (ts @ suffix) b'"
proof (rule namedI)
  fix rest1 x us and v w :: nat
  assume r: "rest1 \<noteq> []" "b' \<or> kind (hd rest1) \<noteq> tk_leftpar" "w \<le> 85"
    and a: "acts (p_loop (name_suffix parse_tree default_options) (Some n')) rest1 0 x us v"
  have "acts (p_loop (name_suffix parse_tree default_options) (Some n)) (suffix @ rest1) 0 x us v"
    by (rule acts_loop) (rule assms(4) [OF r(1,2) a])
  then show "acts (parse_name parse_tree default_options) ((ts @ suffix) @ rest1) w x us v"
    using namedD [OF assms(1), of "suffix @ rest1"] assms(2,3) r(3) by simp
qed

lemma selected_named:
  assumes "named n ts b" and "kind d = tk_dot" and "kind t \<in> {tk_identifier, tk_character, tk_stringliteral, kw_all}"
  shows "named (Name_selected (Some n) t) (ts @ [d, t]) True"
  by (rule suffix_named [OF assms(1)], simp, simp add: assms(2), unfold name_suffix_def [of _ _ "Some n"] parse_selected_name_def)
    (use assms(2,3) in \<open>auto intro!: acts_intros\<close>)

lemma attribute_named:
  assumes "named n ts b" and "kind d = tk_tick" and "kind t = tk_identifier"
  shows "named (attribute_of n t None) (ts @ [d, t]) False"
  by (rule suffix_named [OF assms(1)], simp, simp add: assms(2), unfold name_suffix_def [of _ _ "Some n"] parse_attribute_name_def)
    (use assms(2,3) in \<open>auto simp: attribute_of_def intro!: acts_intros\<close>)


text \<open>The loop of \<open>parse_parenthesis_name\<close> over the arguments.\<close>

definition argument_loop :: "expression list \<Rightarrow> expression list parse" where
  "argument_loop =
     p_loop (\<lambda>xs. pbind an_expression (\<lambda>x. pbind (p_optional tk_comma) (\<lambda>again.
       pret (if again then Inl (push_some xs x) else Inr (push_some xs x)))))"

lemma argument_loop_step:
  assumes "acts (pbind (parser_of Expression) (\<lambda>x. pbind (p_optional tk_comma) (\<lambda>again.
      if again then argument_loop (push_some xs x) else pret (push_some xs x)))) ts w ys us v"
  shows "acts (argument_loop xs) ts w ys us v"
proof -
  have "acts (pbind an_expression (\<lambda>x. pbind (p_optional tk_comma) (\<lambda>again.
      if again then argument_loop (push_some xs x) else pret (push_some xs x)))) ts w ys us v"
    by (rule acts_call_expression) (use assms in simp)
  then show ?thesis
    unfolding argument_loop_def
    by (intro acts_loop) (simp add: pbind_assoc if_distrib [of "\<lambda>r. case r of Inl s \<Rightarrow> _ s | Inr x \<Rightarrow> _ x"] cong: if_cong)
qed

definition arguments_parsed :: "expression list \<Rightarrow> token list \<Rightarrow> bool" where
  "arguments_parsed es ts \<longleftrightarrow> (\<forall>(rest1 :: token list) xs w. rest1 \<noteq> [] \<longrightarrow> kind (hd rest1) = tk_rightpar \<longrightarrow> w \<le> 60 \<longrightarrow>
     acts (argument_loop xs) (ts @ rest1) w (xs @ es) rest1 8)"

lemma argument_parsed:
  assumes "parsed Expression e ts"
  shows "arguments_parsed [e] ts"
  unfolding arguments_parsed_def
proof (intro allI impI, rule argument_loop_step)
  fix rest1 :: "token list" and xs and w :: nat
  assume r: "rest1 \<noteq> []" "kind (hd rest1) = tk_rightpar" "w \<le> 60"
  show "acts (pbind (parser_of Expression) (\<lambda>x. pbind (p_optional tk_comma) (\<lambda>again.
      if again then argument_loop (push_some xs x) else pret (push_some xs x)))) (ts @ rest1) w (xs @ [e]) rest1 8"
    by (rule parsedD [OF assms r(1)]; (intro acts_intros)?)
      (use r in \<open>auto simp: operator_lists push_some_def intro!: acts_pret\<close>)
qed

lemma arguments_parsed_more:
  assumes "parsed Expression e ts" and "kind c = tk_comma" and "arguments_parsed es us" and "us \<noteq> []"
  shows "arguments_parsed (e # es) (ts @ c # us)"
  unfolding arguments_parsed_def
proof (intro allI impI, rule argument_loop_step)
  fix rest1 :: "token list" and xs and w :: nat
  assume r: "rest1 \<noteq> []" "kind (hd rest1) = tk_rightpar" "w \<le> 60"
  have "acts (argument_loop (xs @ [e])) (us @ rest1) 0 (xs @ e # es) rest1 8"
    using assms(3) r unfolding arguments_parsed_def by (metis append.assoc append_Cons append_Nil le0)
  then have "acts (pbind (parser_of Expression) (\<lambda>x. pbind (p_optional tk_comma) (\<lambda>again.
      if again then argument_loop (push_some xs x) else pret (push_some xs x)))) (ts @ c # us @ rest1) w (xs @ e # es) rest1 8"
    by (intro parsedD [OF assms(1)]; (intro acts_intros)?)
      (use assms r in \<open>auto simp: operator_lists push_some_def\<close>)
  then show "acts (pbind (parser_of Expression) (\<lambda>x. pbind (p_optional tk_comma) (\<lambda>again.
      if again then argument_loop (push_some xs x) else pret (push_some xs x)))) ((ts @ c # us) @ rest1) w (xs @ e # es) rest1 8"
    by simp
qed

lemma called_named:
  assumes "named n ts True" and "kind l = tk_leftpar" and "arguments_parsed es us" and "kind r = tk_rightpar"
    and "us \<noteq> []" and "passed_over rightarrow_in_call (map kind us)"
    and "\<forall>ms. \<not> look_list downto_upto_or_range_keyword 1 (map kind us @ tk_rightpar # ms)"
  shows "named (Name_ambiguous n es) (ts @ l # us @ [r]) True"
proof (rule suffix_named [OF assms(1)])
  fix rest1 :: "token list" and x us' and v :: nat
  assume r: "rest1 \<noteq> []" and later: "acts (p_loop (name_suffix parse_tree default_options) (Some (Name_ambiguous n es))) rest1 0 x us' v"
  have 1: "look_list downto_upto_or_range_keyword 0 (tk_leftpar # map kind us @ tk_rightpar # map kind rest1) = False"
    using assms(7) by (simp add: downto_upto_or_range_keyword_def looking_def array_of_four_def)
  have 2: "look_list rightarrow_in_call 0 (tk_leftpar # map kind us @ tk_rightpar # map kind rest1) = False"
    using assms(6)
    by (simp add: passed_over_def rightarrow_in_call_def looking_def array_of_four_def)
  have args: "acts (pbind (argument_loop []) (\<lambda>es. pbind (p_consume tk_rightpar) (\<lambda>_. f es)))
      (us @ r # rest1) 0 x us' v"
    if "acts (f es) rest1 0 x us' v" for f
  proof (rule acts_pbind [where x = es and us = "r # rest1" and v = 8])
    show "acts (argument_loop []) (us @ r # rest1) 0 es (r # rest1) 8"
      using assms(3,4) unfolding arguments_parsed_def by (metis append_Nil le0 list.distinct(1) list.sel(1))
  qed (intro acts_intros; use that r assms(4) in simp)
  show "acts (pbind (name_suffix parse_tree default_options (Some n))
      (\<lambda>r. case r of Inl s \<Rightarrow> p_loop (name_suffix parse_tree default_options) s | Inr x \<Rightarrow> pret x))
      ((l # us @ [r]) @ rest1) 0 x us' v"
    unfolding name_suffix_def [of _ _ "Some n"] parse_parenthesis_name_def separated_list_def argument_loop_def [symmetric]
    using 1 2 assms(2,4) r
    by (intro acts_intros) (auto simp: pbind_assoc simp del: look_list.simps intro!: args later)
qed (use assms in simp_all)

lemma attribute_of_named:
  assumes "named n ts b" and "kind d = tk_tick" and "kind t = tk_identifier" and "kind l = tk_leftpar"
    and "parsed Expression e us" and "kind r = tk_rightpar" and "us \<noteq> []"
  shows "named (attribute_of n t (Some e)) (ts @ d # t # l # us @ [r]) True"
proof (rule suffix_named [OF assms(1)])
  fix rest1 :: "token list" and x us' and v :: nat
  assume r: "rest1 \<noteq> []" and later: "acts (p_loop (name_suffix parse_tree default_options) (Some (attribute_of n t (Some e)))) rest1 0 x us' v"
  have arg: "acts (pbind an_expression (\<lambda>e. pbind (p_consume tk_rightpar) (\<lambda>_. f e))) (us @ r # rest1) 0 x us' v"
    if "acts (f (Some e)) rest1 0 x us' v" for f
  proof (rule acts_call_expression)
    have "acts (pbind (parser_of Expression) (\<lambda>e. pbind (p_consume tk_rightpar) (\<lambda>_. f e))) (us @ r # rest1) 0 x us' v"
      by (rule parsedD [OF assms(5)]; (intro acts_intros)?) (use that r assms(6) in \<open>auto simp: operator_lists\<close>)
    then show "acts (pbind (parse_boolean_expression parse_tree) (\<lambda>e. pbind (p_consume tk_rightpar) (\<lambda>_. f e)))
      (us @ r # rest1) 0 x us' v" by simp
  qed
  show "acts (pbind (name_suffix parse_tree default_options (Some n))
      (\<lambda>r. case r of Inl s \<Rightarrow> p_loop (name_suffix parse_tree default_options) s | Inr x \<Rightarrow> pret x))
      ((d # t # l # us @ [r]) @ rest1) 0 x us' v"
    unfolding name_suffix_def [of _ _ "Some n"] parse_attribute_name_def
    using assms(2-4) r later
    by (intro acts_intros) (auto simp: pbind_assoc attribute_of_def intro!: acts_intros arg)
qed (use assms in simp_all)

section \<open>The levels\<close>

lemma acts_factor_called:
  "acts (parse_factor parse_tree) ts w e us v \<Longrightarrow> acts (call_factor parse_tree) ts w e us v"
  unfolding call_factor_def
  by (rule acts_cong_bind [OF parse_tree.simps])
    (auto simp: parse_node_def pbind_assoc intro!: acts_pbind acts_pret)

lemma acts_rhs_last:
  assumes "map_of operations (kind t) = Some (operation_of (kind t))" and "w < 90"
    and "acts m (us @ rest1) 0 (Some b) rest1 W" and "us \<noteq> []"
  shows "acts (parse_rhs m (Some a)) (t # us @ rest1) w (Some (binary a (kind t) b)) rest1 W"
  unfolding parse_rhs_def parse_operation_def
  by (intro acts_intros) (use assms in \<open>auto simp: binary_def pbind_assoc intro!: acts_intros acts_pbind [OF assms(3)]\<close>)

lemma primary_factor:
  assumes "parsed Primary e ts" and "ts \<noteq> []" and "kind (hd ts) \<in> first_of Primary"
  shows "parsed Factor e ts"
proof (rule parsedI, goal_cases)
  case (1 rest1 w)
  have "acts (pbind (parser_of Primary) (\<lambda>result. pbind p_current_token (\<lambda>k.
      if k = tk_pow then parse_rhs (call_factor parse_tree) result else pret result)))
      (ts @ rest1) (Suc w) (Some e) rest1 3"
    by (rule parsedD [OF assms(1)]; (intro acts_intros)?) (use 1 in \<open>auto intro!: acts_pret\<close>)
  then show ?case
    unfolding parser_of.simps looks_of.simps parse_factor_def
    by (intro acts_intros) (use 1 assms in \<open>auto simp: first_of_def\<close>)
qed

lemma unary_factor:
  assumes "kind t \<in> {kw_abs, kw_not}" and "parsed Primary e ts" and "ts \<noteq> []"
  shows "parsed Factor (Expr_unary (Some e) (operation_of (kind t))) (t # ts)"
proof (rule parsedI, goal_cases)
  case (1 rest1 w)
  have "acts (pbind (parser_of Primary) (\<lambda>e. pret (Some (Expr_unary e (operation_of (kind t))))))
      (ts @ rest1) 0 (Some (Expr_unary (Some e) (operation_of (kind t)))) rest1 3"
    by (rule parsedD [OF assms(2)]) (use 1 in \<open>auto intro!: acts_pret\<close>)
  moreover have "map_of operations (kind t) = Some (operation_of (kind t))"
    using assms(1) by (intro operation_known) auto
  ultimately show ?case
    unfolding parser_of.simps looks_of.simps parse_factor_def parse_operation_def
    by (intro acts_intros) (use 1 assms in \<open>auto intro!: acts_intros\<close>)
qed

lemma power_factor:
  assumes "parsed Primary a ts" and "ts \<noteq> []" and "kind (hd ts) \<in> first_of Primary"
    and "kind t = tk_pow" and "parsed Factor b us" and "us \<noteq> []"
  shows "parsed Factor (binary a tk_pow b) (ts @ t # us)"
proof (rule parsedI, goal_cases)
  case (1 rest1 w)
  have b: "acts (call_factor parse_tree) (us @ rest1) 0 (Some b) rest1 3"
    by (rule acts_factor_called) (use assms(5) 1 in \<open>simp add: parsed_def\<close>)
  have rhs: "acts (parse_rhs (call_factor parse_tree) (Some a)) (t # us @ rest1) 3 (Some (binary a tk_pow b)) rest1 3"
    unfolding assms(4) [symmetric]
    by (rule acts_rhs_last [OF operation_known]) (use assms b in simp_all)
  have "acts (pbind (parser_of Primary) (\<lambda>result. pbind p_current_token (\<lambda>k.
      if k = tk_pow then parse_rhs (call_factor parse_tree) result else pret result)))
      (ts @ t # us @ rest1) (Suc w) (Some (binary a tk_pow b)) rest1 3"
    by (rule parsedD [OF assms(1)]; (intro acts_intros)?) (use 1 assms rhs in \<open>auto simp: numeral_3_eq_3\<close>)
  then show ?case
    unfolding parser_of.simps looks_of.simps parse_factor_def
    by (intro acts_intros) (use 1 assms in \<open>auto simp: first_of_def\<close>)
qed

text \<open>Where a level is a loop over the level below, behind an operand the loop goes on with it.\<close>

definition spine ::
    "level \<Rightarrow> level \<Rightarrow> (expression option \<Rightarrow> expression option parse) \<Rightarrow> expression \<Rightarrow> token list \<Rightarrow> bool" where
  "spine lvl lower loop_of e ts \<longleftrightarrow> (\<forall>rest1 w x us v.
     rest1 \<noteq> [] \<longrightarrow> kind (hd rest1) \<notin> continues lower \<longrightarrow> w \<le> room_of lvl \<longrightarrow>
     acts (loop_of (Some e)) rest1 (looks_of lower) x us v \<longrightarrow> acts (parser_of lvl) (ts @ rest1) w x us v)"

lemma spineD:
  "\<lbrakk>spine lvl lower g e ts; rest1 \<noteq> []; kind (hd rest1) \<notin> continues lower; w \<le> room_of lvl;
    acts (g (Some e)) rest1 (looks_of lower) x us v\<rbrakk> \<Longrightarrow> acts (parser_of lvl) (ts @ rest1) w x us v"
  unfolding spine_def by blast

lemma spine_start:
  assumes "parsed lower e ts" and "parser_of lvl = pbind (parser_of lower) g" and "room_of lvl \<le> room_of lower"
  shows "spine lvl lower g e ts"
  unfolding spine_def assms(2)
  by (intro allI impI, rule parsedD [OF assms(1)]) (use assms(3) in simp_all)

lemma spine_parsed:
  assumes "spine lvl lower g e ts" and "continues lower \<subseteq> continues lvl"
    and "\<And>rest1. \<lbrakk>rest1 \<noteq> []; kind (hd rest1) \<notin> continues lvl\<rbrakk> \<Longrightarrow>
      acts (g (Some e)) rest1 (looks_of lower) (Some e) rest1 (looks_of lvl)"
  shows "parsed lvl e ts"
  by (rule parsedI, rule spineD [OF assms(1)]) (use assms(2,3) in auto)

lemma spine_goes_on:
  assumes "spine lvl lower g a ts" and "kind t \<notin> continues lower"
    and "\<And>rest1 x us' v. \<lbrakk>rest1 \<noteq> []; kind (hd rest1) \<notin> continues lower;
      acts (g (Some (binary a (kind t) b))) rest1 (looks_of lower) x us' v\<rbrakk> \<Longrightarrow>
      acts (g (Some a)) (t # us @ rest1) (looks_of lower) x us' v"
  shows "spine lvl lower g (binary a (kind t) b) (ts @ t # us)"
  unfolding spine_def
proof (intro allI impI)
  fix rest1 w x us' v
  assume "rest1 \<noteq> []" "kind (hd rest1) \<notin> continues lower" "w \<le> room_of lvl"
    and "acts (g (Some (binary a (kind t) b))) rest1 (looks_of lower) x us' v"
  then have "acts (parser_of lvl) (ts @ t # us @ rest1) w x us' v"
    by (intro spineD [OF assms(1)] assms(3)) (use assms(2) in simp_all)
  then show "acts (parser_of lvl) ((ts @ t # us) @ rest1) w x us' v" by simp
qed

abbreviation "term_loop \<equiv> left_associative multiplying (call_factor parse_tree)"
abbreviation "simple_loop \<equiv> left_associative adding (parse_term parse_tree)"
abbreviation "shift_loop \<equiv> left_associative shifting (parse_simple_expression parse_tree)"

lemma term_spine: "parsed Factor e ts \<Longrightarrow> spine Term Factor term_loop e ts"
  unfolding spine_def
proof (intro allI impI)
  fix rest1 w x us v
  assume p: "parsed Factor e ts" and "rest1 \<noteq> []" "kind (hd rest1) \<notin> continues Factor" "w \<le> room_of Term"
    and "acts (term_loop (Some e)) rest1 (looks_of Factor) x us v"
  then have "acts (pbind (parser_of Factor) term_loop) (ts @ rest1) w x us v"
    by (intro parsedD [OF p]) simp_all
  then show "acts (parser_of Term) (ts @ rest1) w x us v"
    unfolding parser_of.simps parse_term_def multiplying_def [symmetric] by (rule acts_call_factor)
qed
lemma loop_spine:
  assumes "spine lvl lower (left_associative ks m) a ts" and "kind t \<in> set ks"
    and ks: "set ks \<inter> continues lower = {}" "set ks \<subseteq> dom (map_of operations)"
    and m: "\<And>ts x us v. acts (parser_of lower) ts 0 x us v \<Longrightarrow> acts m ts 0 x us v"
    and "parsed lower b us" and "us \<noteq> []"
  shows "spine lvl lower (left_associative ks m) (binary a (kind t) b) (ts @ t # us)"
proof (rule spine_goes_on [OF assms(1)])
  show "kind t \<notin> continues lower" using assms(2) ks by blast
  fix rest1 x us' v
  assume r: "rest1 \<noteq> []" "kind (hd rest1) \<notin> continues lower"
    and a: "acts (left_associative ks m (Some (binary a (kind t) b))) rest1 (looks_of lower) x us' v"
  have "acts m (us @ rest1) 0 (Some b) rest1 (looks_of lower)"
    by (rule m) (use assms(6) r in \<open>simp add: parsed_def\<close>)
  moreover have "map_of operations (kind t) = Some (operation_of (kind t))"
    using assms(2) ks(2) by (auto simp: operation_of_def)
  moreover have "looks_of lower < 80" by (cases lower) simp_all
  ultimately show "acts (left_associative ks m (Some a)) (t # us @ rest1) (looks_of lower) x us' v"
    using assms(2,7) a by (intro loop_goes_on)
qed

lemma operators_fit:
  "set multiplying \<inter> continues Factor = {}" "set adding \<inter> continues Term = {}" "set shifting \<inter> continues Simple = {}"
  "set multiplying \<subseteq> dom (map_of operations)" "set adding \<subseteq> dom (map_of operations)"
  "set shifting \<subseteq> dom (map_of operations)"
  by (auto simp: operator_lists operations_def)

lemma multiply_spine:
  "\<lbrakk>spine Term Factor term_loop a ts; kind t \<in> set multiplying; parsed Factor b us; us \<noteq> []\<rbrakk>
   \<Longrightarrow> spine Term Factor term_loop (binary a (kind t) b) (ts @ t # us)"
  by (rule loop_spine [OF _ _ operators_fit(1,4)]) (simp_all add: acts_factor_called)

lemmas add_spine = loop_spine [OF _ _ operators_fit(2,5)]
lemmas shift_spine = loop_spine [OF _ _ operators_fit(3,6)]

lemma simple_spine:
  assumes "parsed Term e ts" and "ts \<noteq> []" and "kind (hd ts) \<in> first_of Term"
  shows "spine Simple Term simple_loop e ts"
  unfolding spine_def
proof (intro allI impI)
  fix rest1 w x us v
  assume r: "rest1 \<noteq> []" "kind (hd rest1) \<notin> continues Term" "w \<le> room_of Simple"
    and a: "acts (simple_loop (Some e)) rest1 (looks_of Term) x us v"
  have k: "kind (hd ts) \<notin> {tk_plus, tk_minus}" using assms(3) by (auto simp: first_of_def)
  have "acts (pbind (parser_of Term) (\<lambda>result. simple_loop (signed None result))) (ts @ rest1) (Suc w) x us v"
    by (rule parsedD [OF assms(1)]) (use r a in \<open>simp_all add: signed_def\<close>)
  then show "acts (parser_of Simple) (ts @ rest1) w x us v"
    unfolding parser_of.simps parse_simple_expression_def adding_def [symmetric]
    by (intro acts_intros) (use r k assms(2) in \<open>simp_all add: sign_of_def\<close>)
qed

lemma sign_spine:
  assumes "sign_of (kind t) = Some operation" and "parsed Term e ts"
  shows "spine Simple Term simple_loop (Expr_unary (Some e) operation) (t # ts)"
  unfolding spine_def
proof (intro allI impI)
  fix rest1 w x us v
  assume r: "rest1 \<noteq> []" "kind (hd rest1) \<notin> continues Term" "w \<le> room_of Simple"
    and a: "acts (simple_loop (Some (Expr_unary (Some e) operation))) rest1 (looks_of Term) x us v"
  have k: "kind t = tk_plus \<or> kind t = tk_minus" using assms(1) by (auto simp: sign_of_def split: if_splits)
  have "acts (pbind (parser_of Term) (\<lambda>result. simple_loop (signed (sign_of (kind t)) result))) (ts @ rest1) 0 x us v"
    by (rule parsedD [OF assms(2)]) (use r a assms(1) in \<open>simp_all add: signed_def\<close>)
  then show "acts (parser_of Simple) ((t # ts) @ rest1) w x us v"
    unfolding parser_of.simps parse_simple_expression_def adding_def [symmetric]
    by (intro acts_intros) (use r k in auto)
qed

lemma relation_parsed:
  assumes "parsed Shift a ts"
  shows "parsed Relation a ts"
    and "\<lbrakk>kind t \<in> set relating; parsed Shift b us; us \<noteq> []\<rbrakk> \<Longrightarrow> parsed Relation (binary a (kind t) b) (ts @ t # us)"
proof -
  let ?f = "\<lambda>result. pbind p_current_token (\<lambda>k.
      if k \<in> set relating then parse_rhs (parse_shift_expression parse_tree) result else pret result)"
  have e: "parser_of Relation = pbind (parser_of Shift) ?f"
    by (simp add: parse_relation_def relating_def)
  show "parsed Relation a ts"
    unfolding parsed_def e
    by (intro allI impI, rule parsedD [OF assms]; (intro acts_intros)?)
      (auto intro!: acts_pret)
  show "parsed Relation (binary a (kind t) b) (ts @ t # us)"
    if t: "kind t \<in> set relating" and b: "parsed Shift b us" "us \<noteq> []"
  proof (rule parsedI)
    fix rest1 :: "token list" and w assume r: "rest1 \<noteq> []" "kind (hd rest1) \<notin> continues Relation" "w \<le> room_of Relation"
    have "acts (parse_shift_expression parse_tree) (us @ rest1) 0 (Some b) rest1 (looks_of Shift)"
      using b(1) r by (simp add: parsed_def)
    then have rhs: "acts (parse_rhs (parse_shift_expression parse_tree) (Some a)) (t # us @ rest1) 7
        (Some (binary a (kind t) b)) rest1 (looks_of Shift)"
      by (intro acts_rhs_last operation_known) (use t b in auto)
    have "acts (pbind (parser_of Shift) ?f) (ts @ t # us @ rest1) w (Some (binary a (kind t) b)) rest1 (looks_of Relation)"
      by (rule parsedD [OF assms]; (intro acts_intros)?)
        (use r t rhs in \<open>auto simp: operator_lists intro: acts_mono\<close>)
    then show "acts (parser_of Relation) ((ts @ t # us) @ rest1) w (Some (binary a (kind t) b)) rest1 (looks_of Relation)"
      unfolding e by simp
  qed
qed

lemma boolean_expression_eq: "parse_boolean_expression parse_tree = pbind (parse_relation parse_tree) joining_loop"
  by (simp add: parse_boolean_expression_def joining_loop_def)

lemma join_step:
  assumes "kind t \<in> set joining \<union> set ending" and "parsed Relation b us" and "us \<noteq> []"
    and "rest1 \<noteq> []" and "kind (hd rest1) \<notin> continues Relation"
    and "kind t \<in> set ending \<Longrightarrow> acts (pret (Some (binary a (kind t) b))) rest1 7 x vs v"
    and "kind t \<in> set joining \<Longrightarrow> acts (joining_loop (Some (binary a (kind t) b))) rest1 7 x vs v"
  shows "acts (joining_loop (Some a)) (t # us @ rest1) 7 x vs v"
proof (rule joining_goes_on)
  show "acts (parse_relation parse_tree) (us @ rest1) 0 (Some b) rest1 7"
    using assms(2,4,5) by (simp add: parsed_def)
qed (use assms in simp_all)

lemma join_spine:
  assumes "spine Logical Relation joining_loop a ts" and "kind t \<in> set joining" and "parsed Relation b us" and "us \<noteq> []"
  shows "spine Logical Relation joining_loop (binary a (kind t) b) (ts @ t # us)"
proof (rule spine_goes_on [OF assms(1)])
  show "kind t \<notin> continues Relation" using assms(2) by (auto simp: operator_lists)
  have n: "kind t \<notin> set ending" using assms(2) by (auto simp: operator_lists)
  show "acts (joining_loop (Some a)) (t # us @ rest1) (looks_of Relation) x us' v"
    if "rest1 \<noteq> []" "kind (hd rest1) \<notin> continues Relation"
      "acts (joining_loop (Some (binary a (kind t) b))) rest1 (looks_of Relation) x us' v" for rest1 x us' v
    using that(3) assms(2) n by (simp only: looks_of.simps) (rule join_step [OF _ assms(3,4) that(1,2)]; simp)
qed

lemma joined_parsed:
  assumes "spine Logical Relation joining_loop a ts"
  shows "parsed Expression a ts"
    and "\<lbrakk>kind t \<in> set ending; parsed Relation b us; us \<noteq> []\<rbrakk> \<Longrightarrow> parsed Expression (binary a (kind t) b) (ts @ t # us)"
proof -
  have e: "parser_of Expression = parser_of Logical" by simp
  show "parsed Expression a ts"
  proof (rule parsedI, unfold e, rule spineD [OF assms])
    show "acts (joining_loop (Some a)) rest1 (looks_of Relation) (Some a) rest1 (looks_of Expression)"
      if "kind (hd rest1) \<notin> continues Expression" for rest1
      using joining_ends [of rest1 7 "Some a"] that by (simp add: numeral_eq_Suc)
  qed auto
  show "parsed Expression (binary a (kind t) b) (ts @ t # us)"
    if t: "kind t \<in> set ending" and b: "parsed Relation b us" "us \<noteq> []"
  proof (rule parsedI, unfold e)
    fix rest1 :: "token list" and w
    assume r: "rest1 \<noteq> []" "kind (hd rest1) \<notin> continues Expression" "w \<le> room_of Expression"
    have "kind t \<notin> set joining" using t by (auto simp: operator_lists)
    then have "acts (joining_loop (Some a)) (t # us @ rest1) 7 (Some (binary a (kind t) b)) rest1 8"
      using r by (intro join_step [OF _ b]) (use t in \<open>auto intro: acts_pret\<close>)
    then have "acts (parser_of Logical) (ts @ t # us @ rest1) w (Some (binary a (kind t) b)) rest1 8"
      by (intro spineD [OF assms]) (use r t in \<open>auto simp: operator_lists\<close>)
    then show "acts (parser_of Logical) ((ts @ t # us) @ rest1) w (Some (binary a (kind t) b)) rest1 (looks_of Expression)"
      by simp
  qed
qed

section \<open>The parser implements the grammar\<close>

definition implements :: "level \<Rightarrow> expression \<Rightarrow> token list \<Rightarrow> bool" where
  "implements lvl e ts \<longleftrightarrow>
     (case lvl of
        Term \<Rightarrow> spine Term Factor term_loop e ts
      | Simple \<Rightarrow> spine Simple Term simple_loop e ts
      | Shift \<Rightarrow> spine Shift Simple shift_loop e ts
      | Logical \<Rightarrow> spine Logical Relation joining_loop e ts
      | _ \<Rightarrow> parsed lvl e ts)"

lemma loop_parsed:
  "spine Term Factor term_loop e ts \<Longrightarrow> parsed Term e ts"
  "spine Simple Term simple_loop e ts \<Longrightarrow> parsed Simple e ts"
  "spine Shift Simple shift_loop e ts \<Longrightarrow> parsed Shift e ts"
proof -
  show "spine Term Factor term_loop e ts \<Longrightarrow> parsed Term e ts"
    by (erule spine_parsed) (use loop_ends [where w = 3] in \<open>auto simp: eval_nat_numeral\<close>)
  show "spine Simple Term simple_loop e ts \<Longrightarrow> parsed Simple e ts"
    by (erule spine_parsed) (use loop_ends [where w = 4] in \<open>auto simp: eval_nat_numeral\<close>)
  show "spine Shift Simple shift_loop e ts \<Longrightarrow> parsed Shift e ts"
    by (erule spine_parsed) (use loop_ends [where w = 5] in \<open>auto simp: eval_nat_numeral\<close>)
qed


lemma shift_start: "parsed Simple e ts \<Longrightarrow> spine Shift Simple shift_loop e ts"
  by (rule spine_start) (simp_all add: parse_shift_expression_def shifting_def)

lemma logical_start: "parsed Relation e ts \<Longrightarrow> spine Logical Relation joining_loop e ts"
  by (rule spine_start) (simp_all add: boolean_expression_eq)

lemma derivation_implemented:
  "expression_at lvl e ts \<Longrightarrow> implements lvl e ts"
  "name_at n ts b \<Longrightarrow> named n ts b"
  "arguments_at es ts \<Longrightarrow> arguments_parsed es ts \<and> ts \<noteq> []"
proof (induction rule: expression_at_name_at_arguments_at.inducts)
  case (nested l e ts r)
  have "passed_over comma_or_arrow (map kind ts)"
    using derived_passed_over(1) [OF nested(2)] by (simp add: plain_look_def)
  then show ?case using nested nested_parsed derived_first(1) [OF nested(2)] by (simp add: implements_def)
next
  case (called n ts l es us r)
  then show ?case using called_named derived_passed_over(3) [OF called(3)] by simp
qed (auto simp: implements_def dest: derived_first loop_parsed
  intro: literal_parsed null_parsed character_parsed name_parsed primary_factor unary_factor power_factor
    term_spine multiply_spine simple_spine sign_spine add_spine shift_start logical_start shift_spine relation_parsed
    join_spine joined_parsed identifier_named selected_named attribute_named attribute_of_named
    argument_parsed arguments_parsed_more)

section \<open>Properties\<close>

text \<open>C4. The parser implements the expression grammar: where the tokens ahead begin with ones that the
  grammar derives an expression from, and the token behind them does not continue it, \<open>parse_expression\<close>
  returns just this expression - its precedences, its left associative operators, its signs, names, calls
  and attributes - and stands behind it.\<close>

theorem expressions_parsed:
  assumes "expression_at Expression e ts" and "stands_for (pq p) (ts @ rest1)" and "rest1 \<noteq> []"
    and "kind (hd rest1) \<notin> continues Expression" and "watchdog p \<le> 50"
  shows "\<exists>p'. an_expression p = Some (Inr (Some e, p')) \<and> stands_for (pq p') rest1
    \<and> parsing_states p' = parsing_states p"
proof -
  have "parsed Expression e ts" using derivation_implemented(1) [OF assms(1)] by (simp add: implements_def)
  then have "acts (parse_boolean_expression parse_tree) (ts @ rest1) (watchdog p) (Some e) rest1 8"
    using assms(3-5) by (simp add: parsed_def)
  then have "acts an_expression (ts @ rest1) (watchdog p) (Some e) rest1 8"
    unfolding call_expression_def
    by (intro acts_cong_bind [OF parse_tree.simps]) (auto simp: parse_node_def pbind_assoc intro!: acts_pbind acts_pret)
  moreover have "stands_at (ts @ rest1) (watchdog p) p" using assms(2) by (simp add: stands_at_def)
  ultimately show ?thesis unfolding acts_def by (auto simp: stands_at_def)
qed

theorem expressions_parsed_witness:
  "\<exists>a b c p'. an_expression (parser_on ''a+bb*ccc;'')
     = Some (Inr (Some (binary (Expr_unresolved (Name_simple a)) tk_plus
         (binary (Expr_unresolved (Name_simple b)) tk_times (Expr_unresolved (Name_simple c)))), p'))
   \<and> val a = ''a'' \<and> val b = ''bb'' \<and> val c = ''ccc'' \<and> p_kind p' = tk_semicolon"
proof -
  have "kinds_of (take_next lex 7 (sample_lexer ''a+bb*ccc;'' NUL tk_eof))
      = [(tk_identifier, ''a''), (tk_plus, ''+''), (tk_identifier, ''bb''), (tk_times, ''*''),
         (tk_identifier, ''ccc''), (tk_semicolon, '';''), (tk_eof, [])]"
    by code_simp
  from sample_tokens [OF this] obtain a t b u c s e
    where p: "stands_at ([a, t, b, u, c] @ [s, e]) 0 (parser_on ''a+bb*ccc;'')"
      and k: "kind a = tk_identifier" "kind t = tk_plus" "kind b = tk_identifier" "kind u = tk_times"
        "kind c = tk_identifier" "kind s = tk_semicolon" "val a = ''a''" "val b = ''bb''" "val c = ''ccc''"
    by (auto simp: map_eq_Cons_conv)
  have factor: "expression_at Factor (Expr_unresolved (Name_simple x)) [x]" if "kind x = tk_identifier" for x
    by (rule primary, rule expression_at_name_at_arguments_at.named, rule ident, rule that)
  note one = expression_at_name_at_arguments_at.factor [OF factor]
  have "expression_at Term (binary (Expr_unresolved (Name_simple b)) (kind u) (Expr_unresolved (Name_simple c))) ([b] @ u # [c])"
    by (rule multiply [OF one _ factor]) (simp_all add: k multiplying_def)
  from add [OF a_term [OF one [of a]] _ this, of t]
  have "expression_at Simple (binary (Expr_unresolved (Name_simple a)) (kind t)
      (binary (Expr_unresolved (Name_simple b)) (kind u) (Expr_unresolved (Name_simple c)))) [a, t, b, u, c]"
    by (simp add: k adding_def)
  then have "expression_at Expression (binary (Expr_unresolved (Name_simple a)) (kind t)
      (binary (Expr_unresolved (Name_simple b)) (kind u) (Expr_unresolved (Name_simple c)))) [a, t, b, u, c]"
    by (rule logical [OF relation [OF shifted [OF expression_at_name_at_arguments_at.simple]]])
  then obtain p' where p': "an_expression (parser_on ''a+bb*ccc;'') = Some (Inr (Some (binary
        (Expr_unresolved (Name_simple a)) (kind t)
        (binary (Expr_unresolved (Name_simple b)) (kind u) (Expr_unresolved (Name_simple c)))), p'))"
    and s: "stands_for (pq p') [s, e]"
    using expressions_parsed [of _ "[a, t, b, u, c]" "parser_on ''a+bb*ccc;''" "[s, e]"] p k
    by (force simp: stands_at_def operator_lists)
  have "p_kind p' = tk_semicolon" using stands_for_simps(1) [OF s] k by simp
  then show ?thesis using p' k by (intro exI [of _ a] exI [of _ b] exI [of _ c] exI [of _ p']) simp
qed

end
