(* ===== verification/Generate_Hang.thy ===== *)
theory Generate_Hang
  imports Unit_Facts Expression_Grammar
begin

text \<open>
  A generate statement without a label. The parser looks for its keyword behind a label that is not
  there; at \<open>for x if\<close> it calls the function for \<open>if\<close>, which uses up nothing and parses the statements
  inside at the same token, for ever. From this the parser's one way not to come to an end follows, and
  that it is one.
\<close>

section \<open>Functions that do not return\<close>

definition hangs :: "'a parse \<Rightarrow> token list \<Rightarrow> nat \<Rightarrow> bool" where
  "hangs m ts w \<longleftrightarrow> (\<forall>p. stands_at ts w p \<longrightarrow> m p = None)"

named_theorems hangs_intros "one rule for each construct in front of what hangs"

lemma hangs_first: "hangs m ts w \<Longrightarrow> hangs (pbind m f) ts w"
  by (simp add: hangs_def pbind_def)

lemma hangs_then: "acts m ts w x us v \<Longrightarrow> hangs (f x) us v \<Longrightarrow> hangs (pbind m f) ts w"
  by (fastforce simp: hangs_def acts_def pbind_def)

lemma hangs_cong: "(\<And>p. m p = m' p) \<Longrightarrow> hangs m' ts w \<Longrightarrow> hangs m ts w"
  by (simp add: hangs_def)

lemma hangs_mono: "hangs m ts w \<Longrightarrow> v \<le> w \<Longrightarrow> hangs m ts v"
  by (auto simp: hangs_def stands_at_def)

lemma hangs_if [hangs_intros]:
  "(b \<Longrightarrow> hangs m ts w) \<Longrightarrow> (\<not> b \<Longrightarrow> hangs m' ts w) \<Longrightarrow> hangs (if b then m else m') ts w"
  by simp

lemma hangs_bind [hangs_intros]:
  "hangs (pbind m (\<lambda>x. pbind (g x) f)) ts w \<Longrightarrow> hangs (pbind (pbind m g) f) ts w"
  "hangs (f x) ts w \<Longrightarrow> hangs (pbind (pret x) f) ts w"
  by (simp_all add: pbind_assoc)

lemma hangs_location [hangs_intros]: "(\<And>l. hangs (f l) ts w) \<Longrightarrow> hangs (pbind this_location f) ts w"
  by (simp add: hangs_def this_location_def pbind_def pret_def)

lemma hangs_current_token [hangs_intros]:
  "w < 100 \<Longrightarrow> hangs (f (kind (hd ts))) ts (Suc w) \<Longrightarrow> hangs (pbind p_current_token f) ts w"
  by (rule hangs_then [OF acts_p_current_token])

lemma hangs_this_token [hangs_intros]: "hangs (f (hd ts)) ts w \<Longrightarrow> hangs (pbind this_token f) ts w"
  by (simp add: hangs_def this_token_def pbind_def pret_def stands_at_hd)

lemma hangs_say [hangs_intros]: "hangs (f ()) ts w \<Longrightarrow> hangs (pbind (say msg args) f) ts w"
  by (auto simp: hangs_def say_def pbind_def pret_def)

lemma acts_p_peek: "i < length ts \<Longrightarrow> acts (p_peek i) ts w (kind (ts ! i)) ts w"
  using acts_peek [where f = pret, OF _ acts_pret] by (simp add: pbind_end)

lemma hangs_peek [hangs_intros]:
  "i < length ts \<Longrightarrow> hangs (f (kind (ts ! i))) ts w \<Longrightarrow> hangs (pbind (p_peek i) f) ts w"
  by (rule hangs_then [OF acts_p_peek])

section \<open>An expression that is not there\<close>
lemma loop_leaves:
  "\<lbrakk>kind (hd ts) \<notin> set ks; w < 90; w < v\<rbrakk> \<Longrightarrow> acts (left_associative ks m e) ts w e ts v"
  by (rule acts_mono [OF loop_ends]) (auto simp: Suc_le_eq)

lemma joining_leaves:
  "\<lbrakk>kind (hd ts) \<notin> set joining \<union> set ending; w < 90; w < v\<rbrakk> \<Longrightarrow> acts (joining_loop e) ts w e ts v"
  by (rule acts_mono [OF joining_ends]) (auto simp: Suc_le_eq)

text \<open>At \<open>for\<close> the parser complains of the missing expression and returns a \<open>null\<close> in its place.\<close>

lemma no_expression_at_for:
  assumes "kind (hd ts) = kw_for" and "w \<le> 50"
  shows "acts an_expression ts w (Some Expr_null) ts (w + 9)"
proof -
  have primary: "acts (parse_primary parse_tree) ts v (Some Expr_null) ts (v + 1)" if "v \<le> 60" for v
    unfolding parse_primary_def by (intro acts_intros) (use that assms(1) in \<open>simp_all add: acts_pret\<close>)
  have factor: "acts (parse_factor parse_tree) ts v (Some Expr_null) ts (v + 3)" if "v \<le> 58" for v
    unfolding parse_factor_def
    by (intro acts_intros acts_pbind [OF primary]) (use that assms(1) in \<open>simp_all add: acts_pret\<close>)
  have t: "acts (parse_term parse_tree) ts v (Some Expr_null) ts (v + 4)" if "v \<le> 57" for v
    unfolding parse_term_def
    by (rule acts_pbind [OF acts_factor_called [OF factor]], use that in simp)
      (rule loop_leaves; use that assms(1) in simp)
  have simple: "acts (parse_simple_expression parse_tree) ts v (Some Expr_null) ts (v + 6)" if "v \<le> 56" for v
    unfolding parse_simple_expression_def
    by (intro acts_intros acts_pbind [OF t])
      (use that assms(1) in \<open>auto simp: signed_def sign_of_def intro!: loop_leaves\<close>)
  have shift: "acts (parse_shift_expression parse_tree) ts v (Some Expr_null) ts (v + 7)" if "v \<le> 55" for v
    unfolding parse_shift_expression_def
    by (rule acts_pbind [OF simple], use that in simp) (rule loop_leaves; use that assms(1) in simp)
  have relation: "acts (parse_relation parse_tree) ts v (Some Expr_null) ts (v + 8)" if "v \<le> 54" for v
    unfolding parse_relation_def
    by (intro acts_intros acts_pbind [OF shift]) (use that assms(1) in \<open>simp_all add: acts_pret\<close>)
  have "acts (parse_boolean_expression parse_tree) ts w (Some Expr_null) ts (w + 9)"
    unfolding boolean_expression_eq
    by (rule acts_pbind [OF relation], use assms(2) in simp)
      (rule joining_leaves; use assms in \<open>simp add: operator_lists\<close>)
  then show ?thesis
    unfolding call_expression_def
    by (intro acts_cong_bind [OF parse_tree.simps]) (auto simp: parse_node_def pbind_assoc intro!: acts_pbind acts_pret)
qed

section \<open>The statement that hangs\<close>

text \<open>The tokens: \<open>for\<close>, whatever follows, and \<open>if\<close>.\<close>

definition crossing :: "token list \<Rightarrow> bool" where
  "crossing ts \<longleftrightarrow> 2 < length ts \<and> kind (hd ts) = kw_for \<and> kind (ts ! 2) = kw_if"

lemma consume_other:
  "kind (hd ts) \<noteq> c \<Longrightarrow> acts (p_consume c) ts w () ts 0"
  using acts_consume_other [where f = pret, OF _ acts_pret] by (simp add: pbind_end)

lemma hangs_eat_other:
  assumes "kind (hd ts) \<noteq> c" and "\<And>l. hangs (f l) ts 0"
  shows "hangs (pbind (p_eat c) f) ts w"
proof -
  have "pbind (p_eat c) f p = None" if "stands_at ts w p" for p
  proof -
    let ?p = "p\<lparr>watchdog := 0\<rparr>"
    have "stands_at ts 0 ?p" using that by (simp add: stands_at_def)
    moreover have "kind (current_token (pq p)) \<noteq> c" using stands_at_hd [OF that] assms(1) by simp
    ultimately show ?thesis
      using assms(2) by (simp add: p_eat_def pbind_def hangs_def p_expecting_def p_expecting_msg_def this_location_def pret_def
          this_token_def say_def)
  qed
  then show ?thesis by (simp add: hangs_def)
qed

lemma hangs_many:
  assumes "\<And>w. w \<le> 50 \<Longrightarrow> hangs s ts w" and "crossing ts"
  shows "hangs (parse_concurrent_statements s) ts 20"
proof -
  have k: "kind (hd ts) = kw_for" using assms(2) by (simp add: crossing_def)
  have s: "hangs (pbind s f) ts 22" for f :: "_ \<Rightarrow> concurrent_statement list parse"
    by (rule hangs_first) (simp add: assms(1))
  have "hangs (parse_many_loop concurrent_statements s xs) ts 20" for xs
    by (rule hangs_cong [OF parse_many_loop.simps], intro hangs_intros)
      (simp_all add: k s is_end_of_state_def is_end_of_concurrent_statements_def hangs_current_token
        is_begin_of_element_in_state_def is_begin_element_of_concurrent_statements_def)
  then show ?thesis
    unfolding parse_concurrent_statements_def hangs_def parse_many_def Let_def pbind_def
    by (simp add: stands_at_def)
qed


lemma hangs_consume_other: "kind (hd ts) \<noteq> c \<Longrightarrow> hangs (f ()) ts 0 \<Longrightarrow> hangs (pbind (p_consume c) f) ts w"
  by (rule hangs_then [OF consume_other])

lemma hangs_optional_other: "kind (hd ts) \<noteq> c \<Longrightarrow> hangs (f False) ts w \<Longrightarrow> hangs (pbind (p_optional c) f) ts w"
  using acts_optional [where f = pret and x = False, of ts c ts w w]
  by (intro hangs_then [where m = "p_optional c"]) (auto simp: pbind_end intro: acts_pret)

lemma hangs_generate:
  assumes s: "\<And>w. w \<le> 50 \<Longrightarrow> hangs s ts w" and c: "crossing ts"
  shows "hangs (parse_generate_statement s) ts w"
proof -
  have k: "kind (hd ts) = kw_for" "2 < length ts" "kind (ts ! 2) = kw_if" using c by (auto simp: crossing_def)
  have decls: "acts generate_declarations ts 0 [] ts 1"
    unfolding generate_declarations_def by (intro acts_intros) (simp_all add: k generate_declaration_def acts_pret)
  have many: "hangs (pbind (parse_concurrent_statements s) g) ts 2" for g :: "_ \<Rightarrow> 'b parse"
    by (rule hangs_first) (rule hangs_mono [OF hangs_many [OF s c]], simp_all)
  have body: "hangs (pbind (generate_body s t) f) ts 9" for t and f :: "_ \<Rightarrow> 'a parse"
    unfolding generate_body_def pbind_assoc
    by (rule hangs_eat_other, simp add: k, rule hangs_then [OF decls], intro hangs_intros)
      (use many in \<open>simp_all add: k numeral_2_eq_2\<close>)
  show ?thesis
    unfolding parse_generate_statement_def parse_generate_if_statement_def parse_non_optional_label_def
    by (intro hangs_intros)
      (use k body in \<open>auto simp: pbind_assoc intro!: hangs_intros hangs_optional_other hangs_consume_other
        hangs_then [OF no_expression_at_for]\<close>)
qed

lemma hangs_look_for [hangs_intros]:
  assumes "\<And>b. hangs (f b) ts w"
  shows "hangs (pbind (p_look_for param) f) ts w"
proof -
  have "acts (p_look_for param) ts w (look_list param 0 (map kind ts)) ts w"
    using acts_look_for [where f = pret, OF acts_pret] by (simp add: pbind_end)
  then show ?thesis by (rule hangs_then) (rule assms)
qed

lemma hangs_statement:
  assumes s: "\<And>w. w \<le> 50 \<Longrightarrow> hangs s ts w" and c: "crossing ts"
  shows "hangs (concurrent_statement_with s) ts w"
proof -
  have k: "kind (ts ! 0) = kw_for" "2 < length ts" using c by (cases ts; auto simp: crossing_def)+
  have g: "hangs (pbind (parse_generate_statement s) f) ts w" for f :: "_ \<Rightarrow> 'a parse"
    by (rule hangs_first [OF hangs_generate [OF s c]])
  show ?thesis
    unfolding concurrent_statement_with_def behind_label_def pbind_assoc
    by (intro hangs_intros) (use k g in \<open>auto intro!: hangs_intros\<close>)
qed

lemma crossed_statement_hangs:
  assumes "parse_concurrent_statement p = Some r" and c: "crossing ts"
  shows "\<not> stands_at ts 50 p"
proof -
  have "\<not> stands_at ts 50 p" if "parse_concurrent_statement p = Some r" for p r
    using that
  proof (rule parse_concurrent_statement.raw_induct [rotated], goal_cases)
    case (1 s p r)
    have "hangs s ts w" if "w \<le> 50" for w
    proof -
      have "s p = None" if "stands_at ts 50 p" for p
        using 1(1) that by (cases "s p") auto
      then show ?thesis using \<open>w \<le> 50\<close> by (auto simp: hangs_def stands_at_def)
    qed
    from hangs_statement [OF this c, of 50] show ?case using 1(2) by (auto simp: hangs_def)
  qed
  then show ?thesis using assms(1) by blast
qed


section \<open>An architecture that hangs\<close>

lemma hangs_eat:
  assumes "kind (hd ts) = c" and "\<And>l. hangs (f l) (advance_tokens ts) 0"
  shows "hangs (pbind (p_eat c) f) ts w"
proof -
  have "pbind (p_eat c) f p = None" if "stands_at ts w p" for p
  proof -
    let ?p = "p\<lparr>watchdog := 0\<rparr>"
    have "stands_at ts 0 ?p" using that by (simp add: stands_at_def)
    then obtain p' where "p_scan ?p = Some (Inr ((), p'))" "stands_at (advance_tokens ts) 0 p'"
      using actsD [OF acts_p_scan] by metis
    moreover have "kind (current_token (pq p)) = c" using stands_at_hd [OF that] assms(1) by simp
    ultimately show ?thesis
      using assms(2) by (simp add: p_eat_def pbind_def hangs_def p_expecting_def p_expecting_msg_def
          previous_location_def pret_def this_token_def)
  qed
  then show ?thesis by (simp add: hangs_def)
qed

lemma acts_many_ends:
  assumes "is_end_of_state (kind (hd ts)) st = pret True" and "w < 100"
  shows "acts (parse_many st fn) ts w [] ts (Suc w)"
proof -
  have "acts (parse_many_loop st fn []) ts w [] ts (Suc w)"
    by (rule acts_cong [OF parse_many_loop.simps], intro acts_intros) (use assms in \<open>simp_all add: acts_pret\<close>)
  note loop = this
  show ?thesis
    unfolding acts_def
  proof (intro allI impI)
    fix p assume p: "stands_at ts w p"
    let ?p = "p\<lparr>parsing_states := insert st (parsing_states p)\<rparr>"
    obtain p' where "parse_many_loop st fn [] ?p = Some (Inr ([], p'))" "stands_at ts (Suc w) p'"
      "pversion p' = pversion ?p" by (rule actsD [OF loop, of ?p]) (use p in \<open>auto simp: stands_at_def\<close>)
    then show "\<exists>p'. parse_many st fn p = Some (Inr ([], p')) \<and> stands_at ts (Suc w) p'
        \<and> parsing_states p' = parsing_states p \<and> pversion p' = pversion p"
      by (auto simp: parse_many_def Let_def pbind_def pret_def stands_at_def)
  qed
qed

lemma no_name_acts:
  assumes "kind (hd ts) = kw_begin"
  shows "acts a_simple_name ts 0 None ts 1"
proof -
  have "acts (parse_name parse_tree simple_name_options) ts 0 None ts 1"
    unfolding parse_name_def by (intro acts_intros; use assms in \<open>simp add: acts_pret\<close>)
  then show ?thesis
    unfolding call_name_def
    by (intro acts_cong_bind [OF parse_tree.simps]) (auto simp: parse_node_def pbind_assoc intro!: acts_pbind acts_pret)
qed

text \<open>\<open>architecture\<close> a \<open>begin\<close> and a crossing; that \<open>of\<close>, the entity and \<open>is\<close> are missing is only reported.\<close>

lemma hanging_architecture:
  assumes "map kind [t0, t1, t2] = [kw_architecture, tk_identifier, kw_begin]" and "crossing ts"
  shows "hangs parse_architecture_body ([t0, t1, t2] @ ts) w"
proof -
  have ts: "ts \<noteq> []" using assms(2) by (auto simp: crossing_def)
  have stmts: "hangs (pbind parse_architecture_statement_part f) ts 0" for f :: "_ \<Rightarrow> 'a parse"
    unfolding parse_architecture_statement_part_def
  proof (rule hangs_first, rule hangs_mono [OF hangs_many [OF _ assms(2)]])
    show "hangs parse_concurrent_statement ts w" if "w \<le> 50" for w
      unfolding hangs_def
    proof (intro allI impI)
      fix p assume "stands_at ts w p"
      then have "stands_at ts 50 p" using that by (simp add: stands_at_def)
      then show "parse_concurrent_statement p = None"
        using crossed_statement_hangs [OF _ assms(2)] by (cases "parse_concurrent_statement p") auto
    qed
  qed simp
  have decls: "acts parse_architecture_declarative_part (t2 # ts) 0 [] (t2 # ts) 1"
    unfolding parse_architecture_declarative_part_def parse_block_declarative_part_def
    using acts_many_ends [of "t2 # ts" declarative_part_begin 0] assms(1)
    by (simp add: is_end_of_state_def is_end_of_declarative_part_begin_def)
  have name: "acts a_simple_name (t2 # ts) 0 None (t2 # ts) 1"
    by (rule no_name_acts) (use assms(1) in simp)
  have ident: "acts (parse_identifier Expected_architecture_name) (t1 # t2 # ts) 0 (t1, True) (t2 # ts) 0"
    using acts_identifier [of "t1 # t2 # ts"] assms(1) by simp
  show ?thesis
    unfolding parse_architecture_body_def
    by (rule hangs_eat, use assms(1) in simp, simp, rule hangs_then [OF ident], simp, rule hangs_consume_other,
        use assms(1) in simp, rule hangs_then [OF name], rule hangs_eat_other, use assms(1) in simp,
        rule hangs_then [OF decls], rule hangs_eat, use assms(1) in simp, use ts stmts in simp)
qed

lemma hanging_file:
  assumes "map kind [t0, t1, t2] = [kw_architecture, tk_identifier, kw_begin]" and "crossing ts"
  shows "hangs (parse_design_file the_grammar) ([t0, t1, t2] @ ts) 0"
proof -
  let ?ts = "[t0, t1, t2] @ ts"
  have k: "kind (hd ?ts) = kw_architecture" using assms(1) by simp
  have contexts: "acts (parse_context_clause (g_name the_grammar)) ?ts 3 [] ?ts 5"
    unfolding parse_context_clause_def
    by (rule acts_cong [OF context_items.simps], intro acts_intros) (use k in \<open>simp_all add: acts_pret\<close>)
  have "hangs (parse_unit the_grammar) ?ts 5"
    unfolding parse_unit_def the_grammar_def grammar.simps
    by (intro hangs_intros) (use k hanging_architecture [OF assms] in simp_all)
  then have unit: "hangs (parse_design_unit the_grammar) ?ts 3"
    unfolding parse_design_unit_def by (rule hangs_then [OF contexts hangs_first])
  have loop: "hangs (parse_many_loop design_unit_in_design_file (parse_design_unit the_grammar) []) ?ts 1"
    by (rule hangs_cong [OF parse_many_loop.simps], intro hangs_intros)
      (use k in \<open>simp_all add: is_begin_of_element_in_state_def is_begin_element_of_design_unit_in_design_file_def
        hangs_current_token hangs_first unit [simplified] numeral_3_eq_3 [symmetric]\<close>)
  then have "hangs (parse_many design_unit_in_design_file (parse_design_unit the_grammar)) ?ts 1"
    by (simp add: hangs_def parse_many_def Let_def pbind_def stands_at_def)
  then show ?thesis
    unfolding parse_design_file_def by (intro hangs_intros) (use k in simp_all)
qed

section \<open>Properties\<close>

text \<open>C40. The generate statement without a label: where the current token is \<open>for\<close> and the third one is
  \<open>if\<close>, \<open>parse_concurrent_statement\<close> does not return. It takes the \<open>if\<close> for the keyword behind a label,
  \<open>parse_generate_if_statement\<close> uses up nothing, each \<open>consume\<close> that fails sets the watchdog back, and the
  statements inside begin at the same token.\<close>

theorem unlabelled_generate_hangs:
  assumes "stands_for (pq p) ts" and "2 < length ts" and "kind (hd ts) = kw_for" and "kind (ts ! 2) = kw_if"
    and "watchdog p \<le> 50"
  shows "parse_concurrent_statement p = None"
  using crossed_statement_hangs [of p _ ts] assms
  by (cases "parse_concurrent_statement p") (auto simp: crossing_def stands_at_def)

theorem unlabelled_generate_hangs_witness: "parse_concurrent_statement (parser_on ''for a if'') = None"
proof -
  have "kinds_of (take_next lex 4 (sample_lexer ''for a if'' NUL tk_eof))
      = [(kw_for, ''for''), (tk_identifier, ''a''), (kw_if, ''if''), (tk_eof, [])]"
    by code_simp
  from sample_tokens [OF this] obtain t0 t1 t2 t3
    where p: "stands_at [t0, t1, t2, t3] 0 (parser_on ''for a if'')"
      and k: "kind t0 = kw_for" "kind t2 = kw_if"
    by (auto simp: map_eq_Cons_conv)
  show ?thesis
    by (rule unlabelled_generate_hangs [of _ "[t0, t1, t2, t3]"]) (use p k in \<open>simp_all add: stands_at_def\<close>)
qed

text \<open>
  A file that does not come back: an architecture with a generate statement that has no label. Its tokens
  are computed once, for the lexer that the constructor of the parser makes.
\<close>

definition hanging_text :: string where
  "hanging_text = ''architecture a begin for;if''"

definition lexer_of_file :: "string \<Rightarrow> string \<Rightarrow> lexer" where
  "lexer_of_file fn s =
     (case intern fn (stringtable_new length) of
        Inr (f, st) \<Rightarrow> (sample_lexer s NUL tk_eof)\<lparr>strings := st, yylloc := location_initialize f 1 1\<rparr>
      | Inl _ \<Rightarrow> sample_lexer s NUL tk_eof)"

lemma lexer_of_file:
  assumes "\<not> isl (intern fn (stringtable_new length))"
  shows "lexer_new s NUL (stringtable_new length) (Some []) fn vhdl93 tk_eof = Inr (lexer_of_file fn s)"
  using assms by (auto simp: lexer_new_def lexer_of_file_def sample_lexer_def isl_def split: sum.splits)

lemma new_parser_stands:
  assumes "lexer_new src e st (Some []) fn vhdl93 k = Inr lx" and "end_ok (cs lx)"
    and "take_next lex n lx = Some (Inr (ts, lx'))" and "ts \<noteq> []" and "is_eof (last ts)"
  shows "\<exists>p. parser_new src e st fn v k = Some (Inr p) \<and> stands_at ts 0 p
    \<and> (no_stuck_text (buf (cs lx)) \<longrightarrow> p_good p)"
proof -
  have ok: "queue_ok (queue_new lx)" by (simp add: queue_new_def queue_ok_def MAX_LOOKBACK_def)
  then have "stands_for (queue_new lx) (current_token (queue_new lx) # ts)"
    by (rule stands_for_new) (use assms in \<open>simp_all add: queue_new_def\<close>)
  moreover have "advance_tokens (t # ts) = ts" for t using assms(4) by simp
  ultimately obtain t q where q: "scan (queue_new lx) = Some (Inr (t, q))" "stands_for q ts"
    using stands_for_scan by metis
  have "good_queue q" if "no_stuck_text (buf (cs lx))"
  proof -
    have "good_queue (queue_new lx)"
      using ok that assms(2) by (simp add: good_queue_def good_text_def queue_new_def)
    then show ?thesis using scan_good(2) q(1) by blast
  qed
  then show ?thesis using q assms(1) by (simp add: parser_new_def p_scan_def pbind_def on_queue_def pret_def stands_at_def p_good_def)
qed

lemma hanging_kinds:
  "kinds_of (take_next lex 7 (lexer_of_file ''.vhd'' hanging_text))
     = [(kw_architecture, ''architecture''), (tk_identifier, ''a''), (kw_begin, ''begin''),
        (kw_for, ''for''), (tk_semicolon, '';''), (kw_if, ''if''), (tk_eof, [])]"
  by code_simp

lemma hanging_parser:
  "\<exists>p. parser_new hanging_text NUL (stringtable_new length) ''.vhd'' vhdl93 tk_eof = Some (Inr p)
     \<and> p_good p \<and> parser_run the_grammar p = None"
proof -
  let ?lx = "lexer_of_file ''.vhd'' hanging_text"
  obtain ts lx' where t: "take_next lex 7 ?lx = Some (Inr (ts, lx'))"
    and m: "map (\<lambda>t. (kind t, val t)) ts = [(kw_architecture, ''architecture''), (tk_identifier, ''a''), (kw_begin, ''begin''),
         (kw_for, ''for''), (tk_semicolon, '';''), (kw_if, ''if''), (tk_eof, [])]"
    using kinds_of_Some [OF hanging_kinds list.distinct(2)] by - (elim exE conjE, rule that)
  obtain t0 t1 t2 t3 t4 t5 t6 where ts: "ts = [t0, t1, t2] @ [t3, t4, t5, t6]"
    and k: "map kind [t0, t1, t2] = [kw_architecture, tk_identifier, kw_begin]" "kind t3 = kw_for" "kind t5 = kw_if"
      "is_eof t6"
    using m by (auto simp: map_eq_Cons_conv)
  have new: "lexer_new hanging_text NUL (stringtable_new length) (Some []) ''.vhd'' vhdl93 tk_eof = Inr ?lx"
    by (rule lexer_of_file) code_simp
  have c: "cs ?lx = stream_new hanging_text NUL"
    by (simp add: lexer_of_file_def sample_lexer_def split: sum.split)
  have ok: "end_ok (cs ?lx)" "no_stuck_text (buf (cs ?lx))"
    unfolding c by (simp_all add: sample_simps hanging_text_def)
  have "ts \<noteq> []" "is_eof (last ts)" using ts k(4) by simp_all
  from new_parser_stands [OF new ok(1) t this, of vhdl93] ok(2)
  obtain p where p: "parser_new hanging_text NUL (stringtable_new length) ''.vhd'' vhdl93 tk_eof = Some (Inr p)"
      "stands_at ts 0 p" "p_good p"
    by blast
  have "crossing [t3, t4, t5, t6]" using k by (simp add: crossing_def)
  from hanging_file [OF k(1) this] have "parser_run the_grammar p = None"
    using p(2) by (simp add: parser_run_def hangs_def ts)
  then show ?thesis using p by blast
qed



end
