(* ===== verification/Connection.thy ===== *)
theory Connection
  imports Prelude
begin

text \<open>
  The transport of the language server, \<^verbatim>\<open>src/lsp/connection.cpp\<close>: messages over the standard
  streams (class \<open>stdio\<close>), the journal such a connection can be teed into, and the reader that
  replays a journal. Text is a list of bytes. The bytes of \<open>std::cin\<close> that are still to come are
  a field of the state, and so is what was written to \<open>std::cout\<close>; \<open>frame\<close> is the wire format.
\<close>

section \<open>Numbers as text\<close>

text \<open>What \<open>std::cout\<close> prints for a \<open>size_t\<close>.\<close>

fun decimal :: "nat \<Rightarrow> string" where
  "decimal n = (if n < 10 then [char_of (48 + n)] else decimal (n div 10) @ [char_of (48 + n mod 10)])"

declare decimal.simps [simp del]

definition is_decimal :: "char \<Rightarrow> bool" where
  "is_decimal c \<longleftrightarrow> 48 \<le> (of_char c :: nat) \<and> (of_char c :: nat) \<le> 57"

definition is_blank :: "char \<Rightarrow> bool" where
  "is_blank c \<longleftrightarrow> c = CHR 0x20 \<or> 9 \<le> (of_char c :: nat) \<and> (of_char c :: nat) \<le> 13"

definition decimal_value :: "string \<Rightarrow> nat" where
  "decimal_value = foldl (\<lambda>n c. 10 * n + (of_char c - 48)) 0"

text \<open>
  C's \<open>atoi\<close>: blanks, a sign, digits; the rest is ignored, and no digits are 0. A value that is
  not an \<open>int\<close> is undefined behaviour, here \<open>None\<close>.
\<close>

definition atoi :: "string \<Rightarrow> int option" where
  "atoi s =
     (let t = dropWhile is_blank s;
          neg = (t \<noteq> [] \<and> hd t = CHR ''-'');
          u = (if t \<noteq> [] \<and> (hd t = CHR ''-'' \<or> hd t = CHR ''+'') then tl t else t);
          n = int (decimal_value (takeWhile is_decimal u));
          v = (if neg then - n else n)
      in if - (2 ^ 31) \<le> v \<and> v < 2 ^ 31 then Some v else None)"

lemma is_decimal_digit: "n < (10::nat) \<Longrightarrow> is_decimal (char_of (48 + n))"
  by (simp add: is_decimal_def)

lemma decimal_digits: "list_all is_decimal (decimal n)"
  by (induction n rule: decimal.induct) (subst decimal.simps, simp add: is_decimal_digit)

lemma decimal_value_snoc: "decimal_value (s @ [c]) = 10 * decimal_value s + (of_char c - 48)"
  by (simp add: decimal_value_def)

lemma decimal_value_decimal [simp]: "decimal_value (decimal n) = n"
proof (induction n rule: decimal.induct)
  case (1 n)
  then show ?case
    by (subst decimal.simps) (auto simp: decimal_value_snoc, simp add: decimal_value_def)
qed

lemma decimal_nonempty: "decimal n \<noteq> []"
  by (subst decimal.simps) simp

lemma atoi_decimal:
  assumes "n < 2 ^ 31"
  shows "atoi (decimal n) = Some (int n)"
proof -
  obtain c cs where d: "decimal n = c # cs" using decimal_nonempty by (cases "decimal n") auto
  then have c: "is_decimal c" using decimal_digits [of n] by simp
  then have "\<not> is_blank c" and "c \<noteq> CHR ''-''" and "c \<noteq> CHR ''+''"
    by (auto simp: is_decimal_def is_blank_def)
  moreover have digits: "takeWhile is_decimal (decimal n) = decimal n"
    using decimal_digits [of n] by (simp add: takeWhile_eq_all_conv list_all_iff)
  moreover have "dropWhile is_blank (decimal n) = decimal n" using \<open>\<not> is_blank c\<close> by (simp add: d)
  moreover have "hd (decimal n) = c" by (simp add: d)
  ultimately show ?thesis using assms decimal_nonempty [of n] unfolding atoi_def by (simp add: Let_def digits)
qed

lemma decimal_no_newline: "c \<in> set (decimal n) \<Longrightarrow> c \<noteq> CHR 0x0A \<and> c \<noteq> CHR 0x0D"
  using decimal_digits [of n] by (auto simp: list_all_iff is_decimal_def)

section \<open>The standard streams\<close>

datatype io_error = Undefined_behaviour string

text \<open>
  \<open>ended\<close> is the end-of-file (and fail) bit of \<open>std::cin\<close>, which only a read behind the last byte
  sets. \<open>cout_good\<close> is the state of \<open>std::cout\<close>, \<open>tee\<close> the text of the journal when there is one.
\<close>

record stdio =
  unread :: string
  ended :: bool
  is_good :: bool
  written :: string
  cout_good :: bool
  tee :: "string option"

definition cin_get :: "stdio \<Rightarrow> int \<times> stdio" where
  "cin_get s = (case unread s of [] \<Rightarrow> (-1, s\<lparr>ended := True\<rparr>) | c # cs \<Rightarrow> (of_char c, s\<lparr>unread := cs\<rparr>))"

definition to_byte :: "int \<Rightarrow> char" where
  \<comment> \<open>the conversion of an \<open>int\<close> to a \<open>char\<close>\<close>
  "to_byte c = char_of (c mod 256)"

definition input_left :: "stdio \<Rightarrow> nat" where
  "input_left s = length (unread s) + (if ended s then 0 else 1)"

lemma cin_get_left: "\<not> ended s \<Longrightarrow> (c, s') = cin_get s \<Longrightarrow> input_left s' < input_left s"
  by (auto simp: cin_get_def input_left_def split: list.splits)

definition content_length :: string where
  "content_length = ''Content-Length: ''"

function header_loop :: "string \<Rightarrow> u32 \<Rightarrow> stdio \<Rightarrow> io_error + u32 \<times> stdio" where
  "header_loop str n s =
     (if is_good s \<and> \<not> ended s then
        (case cin_get s of (c, s') \<Rightarrow>
           if c = 10 then
             if str = [] then Inr (n, s')
             else if take (length content_length) str = content_length then
               (case atoi (drop (length content_length) str) of
                  None \<Rightarrow> Inl (Undefined_behaviour ''atoi'')
                | Some v \<Rightarrow> header_loop [] (word_of_int v) s')
             else header_loop [] n s'
           else if c \<noteq> 13 then header_loop (str @ [to_byte c]) n s'
           else header_loop str n s')
      else Inr (0, s\<lparr>is_good := False\<rparr>))"
  by pat_completeness auto

termination header_loop
  by (relation "measure (\<lambda>(_, _, s). input_left s)") (auto intro: cin_get_left)

declare header_loop.simps [simp del]

definition read_message_header :: "stdio \<Rightarrow> io_error + u32 \<times> stdio" where
  "read_message_header s = header_loop [] 0 s"

text \<open>The counter \<open>i\<close> is an \<open>int\<close>: it may not pass \<open>2\<^sup>3\<^sup>1 - 1\<close>.\<close>

function read_body :: "nat \<Rightarrow> u32 \<Rightarrow> string \<Rightarrow> stdio \<Rightarrow> io_error + string \<times> stdio" where
  "read_body i n str s =
     (if i < unat n then
        if ended s then Inr (str, s\<lparr>is_good := False\<rparr>)
        else
          (case cin_get s of (c, s') \<Rightarrow>
             if i = 2 ^ 31 - 1 then Inl (Undefined_behaviour ''++i'')
             else read_body (Suc i) n (str[i := to_byte c]) s')
      else Inr (str, s))"
  by pat_completeness auto

termination read_body
  by (relation "measure (\<lambda>(i, n, _, _). unat n - i)") auto

declare read_body.simps [simp del]

section \<open>The journal a connection is teed into\<close>

text \<open>The text of the file; a file that could not be opened is no journal.\<close>

definition newline :: string where "newline = [CHR 0x0A]"

definition journal_new :: string where
  "journal_new = newline @ ''# TEST: <fill in the blanks>'' @ newline @ newline"

definition journal_end :: "string \<Rightarrow> string" where
  "journal_end j = j @ ''# EXIT: 0'' @ newline"

definition separator :: string where
  "separator = newline @ newline @ ''---'' @ newline @ newline"

definition dump_read :: "string \<Rightarrow> string \<Rightarrow> string" where
  "dump_read m j = j @ m @ separator"

definition dump_write :: "string \<Rightarrow> string \<Rightarrow> string" where
  "dump_write m j = j @ ''# MATCH: '' @ m @ separator"

definition tee_into :: "bool \<Rightarrow> stdio \<Rightarrow> bool \<times> stdio" where
  \<comment> \<open>\<open>opens\<close>: whether the file could be opened\<close>
  "tee_into opens s = (opens, s\<lparr>tee := if opens then Some journal_new else None\<rparr>)"

section \<open>Reading and writing a message\<close>

definition stdio_read :: "stdio \<Rightarrow> io_error + string option \<times> stdio" where
  "stdio_read s0 =
     sbind (read_message_header s0) (\<lambda>(n, s).
     sbind (read_body 0 n (replicate (unat n) (CHR 0x00)) s) (\<lambda>(str, s).
       if \<not> is_good s \<or> n = 0 then Inr (None, s)
       else Inr (Some str, s\<lparr>tee := map_option (dump_read str) (tee s)\<rparr>)))"

definition frame :: "string \<Rightarrow> string" where
  "frame m = content_length @ decimal (length m) @ [CHR 0x0D, CHR 0x0A, CHR 0x0D, CHR 0x0A] @ m"

definition stdio_write :: "string \<Rightarrow> stdio \<Rightarrow> stdio" where
  "stdio_write m s =
     (if \<not> is_good s \<or> \<not> cout_good s then s\<lparr>is_good := False\<rparr>
      else s\<lparr>tee := map_option (dump_write m) (tee s), written := written s @ frame m\<rparr>)"

section \<open>What a read does\<close>

text \<open>The text of a header line is collected in \<open>str\<close>, without its carriage return.\<close>

lemma to_byte_of_char [simp]: "to_byte (of_char c) = c"
  by (simp add: to_byte_def)

lemma header_collects:
  assumes "is_good s" and "\<not> ended s" and "unread s = l @ r"
    and "\<forall>c \<in> set l. c \<noteq> CHR 0x0A \<and> c \<noteq> CHR 0x0D"
  shows "header_loop str n s = header_loop (str @ l) n (s\<lparr>unread := r\<rparr>)"
  using assms
proof (induction l arbitrary: str s)
  case Nil
  then have "s\<lparr>unread := r\<rparr> = s" by (cases s) simp
  then show ?case by simp
next
  case (Cons c l)
  have not: "(of_char c :: int) \<noteq> 10" "(of_char c :: int) \<noteq> 13"
    using Cons.prems(4) of_char_eq_iff [where ?'a = int, of c "CHR 0x0A"]
      of_char_eq_iff [where ?'a = int, of c "CHR 0x0D"] by auto
  have get: "cin_get s = (of_char c, s\<lparr>unread := l @ r\<rparr>)"
    using Cons.prems(3) by (simp add: cin_get_def)
  have "header_loop str n s = header_loop (str @ [c]) n (s\<lparr>unread := l @ r\<rparr>)"
    by (subst header_loop.simps) (simp add: Cons.prems(1,2) get not)
  also have "\<dots> = header_loop ((str @ [c]) @ l) n (s\<lparr>unread := l @ r\<rparr>\<lparr>unread := r\<rparr>)"
    using Cons.prems by (intro Cons.IH) auto
  finally show ?case by simp
qed

lemma header_return:
  assumes "is_good s" and "\<not> ended s" and "unread s = CHR 0x0D # r"
  shows "header_loop str n s = header_loop str n (s\<lparr>unread := r\<rparr>)"
  by (subst header_loop.simps) (simp add: assms cin_get_def)

lemma header_end:
  assumes "is_good s" and "\<not> ended s" and "unread s = CHR 0x0A # r"
  shows "header_loop [] n s = Inr (n, s\<lparr>unread := r\<rparr>)"
  by (subst header_loop.simps) (simp add: assms cin_get_def)

lemma header_length_line:
  assumes "is_good s" and "\<not> ended s" and "unread s = CHR 0x0A # r" and "k < 2 ^ 31"
  shows "header_loop (content_length @ decimal k) n s = header_loop [] (of_nat k) (s\<lparr>unread := r\<rparr>)"
  by (subst header_loop.simps)
    (simp add: assms cin_get_def atoi_decimal [OF assms(4)], simp add: content_length_def)

text \<open>The header of a message is read up to its body.\<close>

lemma frame_header:
  assumes "is_good s" and "\<not> ended s" and "k < 2 ^ 31"
    and "unread s = content_length @ decimal k @ [CHR 0x0D, CHR 0x0A, CHR 0x0D, CHR 0x0A] @ r"
  shows "read_message_header s = Inr (of_nat k, s\<lparr>unread := r\<rparr>)"
proof -
  let ?after = "\<lambda>r. s\<lparr>unread := r\<rparr>"
  let ?l = "content_length @ decimal k"
  have "\<forall>c \<in> set ?l. c \<noteq> CHR 0x0A \<and> c \<noteq> CHR 0x0D"
    using decimal_no_newline by (auto simp: content_length_def)
  then have "header_loop [] 0 s
      = header_loop ?l 0 (?after ([CHR 0x0D, CHR 0x0A, CHR 0x0D, CHR 0x0A] @ r))"
    using header_collects [of s ?l "[CHR 0x0D, CHR 0x0A, CHR 0x0D, CHR 0x0A] @ r" "[]" 0] assms by simp
  also have "\<dots> = header_loop ?l 0 (?after ([CHR 0x0A, CHR 0x0D, CHR 0x0A] @ r))"
    by (subst header_return) (simp_all add: assms)
  also have "\<dots> = header_loop [] (of_nat k) (?after ([CHR 0x0D, CHR 0x0A] @ r))"
    by (subst header_length_line [OF _ _ _ assms(3)]) (simp_all add: assms)
  also have "\<dots> = header_loop [] (of_nat k) (?after ([CHR 0x0A] @ r))"
    by (subst header_return) (simp_all add: assms)
  also have "\<dots> = Inr (of_nat k, ?after r)" by (subst header_end) (simp_all add: assms)
  finally show ?thesis by (simp add: read_message_header_def)
qed

lemma body_collects:
  assumes "\<not> ended s" and "unread s = l @ r" and "length str = unat n" and "i + length l \<le> unat n"
    and "unat n < 2 ^ 31"
  shows "read_body i n str s
       = read_body (i + length l) n (take i str @ l @ drop (i + length l) str) (s\<lparr>unread := r\<rparr>)"
  using assms
proof (induction l arbitrary: i str s)
  case Nil
  then have "s\<lparr>unread := r\<rparr> = s" by (cases s) simp
  then show ?case by simp
next
  case (Cons c l)
  have get: "cin_get s = (of_char c, s\<lparr>unread := l @ r\<rparr>)"
    using Cons.prems(2) by (simp add: cin_get_def)
  have i: "i < unat n" "i \<noteq> 2 ^ 31 - 1" using Cons.prems(4,5) by auto
  have "read_body i n str s = read_body (Suc i) n (str[i := c]) (s\<lparr>unread := l @ r\<rparr>)"
    by (subst read_body.simps) (use i in \<open>simp add: Cons.prems(1) get\<close>)
  also have "\<dots> = read_body (Suc i + length l) n
      (take (Suc i) (str[i := c]) @ l @ drop (Suc i + length l) (str[i := c]))
      (s\<lparr>unread := l @ r\<rparr>\<lparr>unread := r\<rparr>)"
    using Cons.prems by (intro Cons.IH) auto
  also have "take (Suc i) (str[i := c]) = take i str @ [c]"
    using i(1) Cons.prems(3) by (simp add: take_Suc_conv_app_nth)
  finally show ?case by simp
qed

lemma body_done: "unat n \<le> i \<Longrightarrow> read_body i n str s = Inr (str, s)"
  by (subst read_body.simps) simp

lemma to_byte_eof [simp]: "to_byte (-1) = CHR 0xFF"
  unfolding to_byte_def by code_simp

lemma body_end_of_input:
  assumes "\<not> ended s" and "unread s = []" and "i < unat n" and "unat n < 2 ^ 31"
  shows "read_body i n str s = read_body (Suc i) n (str[i := CHR 0xFF]) (s\<lparr>ended := True\<rparr>)"
  by (subst read_body.simps) (use assms in \<open>simp add: cin_get_def\<close>)

lemma body_ended:
  assumes "ended s" and "i < unat n"
  shows "read_body i n str s = Inr (str, s\<lparr>is_good := False\<rparr>)"
  by (subst read_body.simps) (simp add: assms)

lemma unat_length: "k < 2 ^ 31 \<Longrightarrow> unat (of_nat k :: u32) = k"
  by (simp add: unsigned_of_nat take_bit_nat_eq_self)

lemma read_frame:
  assumes "is_good s" and "\<not> ended s" and "unread s = frame m @ r" and "m \<noteq> []" and "length m < 2 ^ 31"
  shows "stdio_read s
       = Inr (Some m, s\<lparr>unread := r, tee := map_option (dump_read m) (tee s)\<rparr>)"
proof -
  let ?n = "of_nat (length m) :: u32"
  have n: "unat ?n = length m" using assms(5) by (rule unat_length)
  have "?n \<noteq> 0" using n assms(4) by auto
  have "read_message_header s = Inr (?n, s\<lparr>unread := m @ r\<rparr>)"
    using assms by (intro frame_header) (simp_all add: frame_def)
  moreover have "read_body 0 ?n (replicate (unat ?n) (CHR 0x00)) (s\<lparr>unread := m @ r\<rparr>)
      = Inr (m, s\<lparr>unread := r\<rparr>)"
    using assms(2,5) by (subst body_collects [where l = m and r = r]) (simp_all add: n body_done)
  ultimately show ?thesis using assms(1) \<open>?n \<noteq> 0\<close> by (simp add: stdio_read_def)
qed

lemma header_loop_left: "header_loop str n s = Inr (k, s') \<Longrightarrow> input_left s' \<le> input_left s"
proof (induction str n s rule: header_loop.induct)
  case (1 str n s)
  show ?case
  proof (cases "is_good s \<and> \<not> ended s")
    case False
    then show ?thesis using "1.prems" by (subst (asm) header_loop.simps) (auto simp: input_left_def)
  next
    case True
    obtain c t where get: "cin_get s = (c, t)" by fastforce
    then have "input_left t < input_left s" using True by (metis cin_get_left)
    then show ?thesis
      using "1.prems" "1.IH" [OF True get [symmetric]] True get
      by (subst (asm) header_loop.simps) (fastforce split: if_splits option.splits)
  qed
qed

text \<open>A read that leaves the connection good has consumed something.\<close>

lemma body_left: "read_body i n str s = Inr (t, s') \<Longrightarrow> input_left s' \<le> input_left s"
proof (induction i n str s rule: read_body.induct)
  case (1 i n str s)
  show ?case
  proof (cases "i < unat n \<and> \<not> ended s")
    case False
    then show ?thesis
      using "1.prems" by (subst (asm) read_body.simps) (auto simp: input_left_def split: if_splits)
  next
    case True
    obtain c s2 where get: "cin_get s = (c, s2)" by fastforce
    then have "input_left s2 < input_left s" using True by (metis cin_get_left)
    then show ?thesis
      using "1.prems" "1.IH" [OF _ _ get [symmetric]] True get
      by (subst (asm) read_body.simps) (fastforce split: if_splits)
  qed
qed

lemma header_consumes: "read_message_header s = Inr (k, s') \<Longrightarrow> is_good s' \<Longrightarrow> input_left s' < input_left s"
proof -
  assume read: "read_message_header s = Inr (k, s')" and good: "is_good s'"
  then have open_input: "is_good s \<and> \<not> ended s"
    by (auto simp: read_message_header_def header_loop.simps [of "[]"] split: if_splits)
  obtain c t where get: "cin_get s = (c, t)" by fastforce
  then have "input_left t < input_left s" using open_input by (metis cin_get_left)
  moreover have "input_left s' \<le> input_left t"
    using read open_input get header_loop_left
    unfolding read_message_header_def
    by (subst (asm) header_loop.simps) (auto split: if_splits option.splits)
  ultimately show "input_left s' < input_left s" by simp
qed

lemma body_good: "read_body i n str s = Inr (t, s') \<Longrightarrow> is_good s' \<Longrightarrow> is_good s"
proof (induction i n str s rule: read_body.induct)
  case (1 i n str s)
  obtain c s2 where get: "cin_get s = (c, s2)" by fastforce
  then have "is_good s2 = is_good s" by (auto simp: cin_get_def split: list.splits)
  then show ?case
    using "1.prems" "1.IH" [OF _ _ get [symmetric]] get
    by (subst (asm) read_body.simps) (auto split: if_splits)
qed

lemma stdio_read_left:
  assumes "stdio_read s = Inr (m, s')" and "is_good s'"
  shows "input_left s' < input_left s"
proof -
  obtain n s1 t s2 where read: "read_message_header s = Inr (n, s1)"
      "read_body 0 n (replicate (unat n) (CHR 0x00)) s1 = Inr (t, s2)"
    and s2: "is_good s2" "input_left s' = input_left s2"
    using assms
    by (auto simp: stdio_read_def sbind_Inr_iff input_left_def split: if_splits)
  have "is_good s1" by (rule body_good [OF read(2) s2(1)])
  from header_consumes [OF read(1) this] body_left [OF read(2)] s2(2) show ?thesis by simp
qed

section \<open>Both ends of a connection\<close>

primrec reads :: "nat \<Rightarrow> stdio \<Rightarrow> io_error + string option list \<times> stdio" where
  "reads 0 s = Inr ([], s)"
| "reads (Suc k) s =
     sbind (stdio_read s) (\<lambda>(m, s). sbind (reads k s) (\<lambda>(ms, s). Inr (m # ms, s)))"

definition message_ok :: "string \<Rightarrow> bool" where
  "message_ok m \<longleftrightarrow> m \<noteq> [] \<and> length m < 2 ^ 31"

lemma written_writes:
  "is_good s \<Longrightarrow> cout_good s \<Longrightarrow>
   written (fold stdio_write ms s) = written s @ concat (map frame ms)
   \<and> is_good (fold stdio_write ms s) \<and> cout_good (fold stdio_write ms s)"
proof (induction ms arbitrary: s)
  case (Cons m ms)
  then show ?case using Cons.IH [of "stdio_write m s"] by (simp add: stdio_write_def)
qed simp

lemma reads_frames:
  "\<lbrakk>is_good s; \<not> ended s; unread s = concat (map frame ms) @ r; list_all message_ok ms\<rbrakk> \<Longrightarrow>
   reads (length ms) s =
     Inr (map Some ms, s\<lparr>unread := r, tee := map_option (fold dump_read ms) (tee s)\<rparr>)"
proof (induction ms arbitrary: s)
  case Nil
  then have "s\<lparr>unread := r, tee := map_option id (tee s)\<rparr> = s" by (cases s) (simp add: option.map_id)
  then show ?case by (simp add: id_def)
next
  case (Cons m ms)
  let ?s = "s\<lparr>unread := concat (map frame ms) @ r, tee := map_option (dump_read m) (tee s)\<rparr>"
  have "stdio_read s = Inr (Some m, ?s)"
    using Cons.prems by (intro read_frame) (simp_all add: message_ok_def)
  moreover have "reads (length ms) ?s
      = Inr (map Some ms, s\<lparr>unread := r, tee := map_option (fold dump_read (m # ms)) (tee s)\<rparr>)"
    using Cons.prems by (subst Cons.IH) (simp_all add: option.map_comp comp_def)
  ultimately show ?case by (simp add: o_def)
qed

text \<open>C8. Messages survive the transport: what a connection with working streams writes for any
  sequence of messages, each neither empty nor of 2 GiB, the connection at the other end reads back
  one by one and unchanged, whatever bytes they are made of, and it stops exactly behind the last.
\<close>

theorem transport_roundtrip:
  assumes "is_good w" and "cout_good w" and "written w = []" and "list_all message_ok ms"
    and "is_good s" and "\<not> ended s" and "unread s = written (fold stdio_write ms w) @ r"
  shows "\<exists>s'. reads (length ms) s = Inr (map Some ms, s')
    \<and> unread s' = r \<and> is_good s' \<and> \<not> ended s' \<and> tee s' = map_option (fold dump_read ms) (tee s)"
proof -
  have "unread s = concat (map frame ms) @ r" using written_writes [OF assms(1,2)] assms(3,7) by simp
  then show ?thesis using reads_frames [OF assms(5,6) _ assms(4)] assms(5,6) by simp
qed

definition sample_stdio :: "string \<Rightarrow> stdio" where
  "sample_stdio text =
     \<lparr>unread = text, ended = False, is_good = True, written = [], cout_good = True, tee = None\<rparr>"

definition sample_messages :: "string list" where
  "sample_messages = [''{}'', [CHR 0x0A, CHR 0xFF]]"

definition sample_received :: stdio where
  "sample_received = sample_stdio (written (fold stdio_write sample_messages (sample_stdio [])) @ ''x'')"

theorem transport_roundtrip_witness:
  "\<exists>s'. reads (length sample_messages) sample_received = Inr (map Some sample_messages, s')
    \<and> unread s' = ''x'' \<and> is_good s' \<and> \<not> ended s' \<and> tee s' = None"
proof -
  have "list_all message_ok sample_messages" by (simp add: sample_messages_def message_ok_def)
  then show ?thesis
    using transport_roundtrip [of "sample_stdio []" sample_messages sample_received "''x''"]
    by (simp add: sample_received_def, simp add: sample_stdio_def)
qed

text \<open>C26. A message cut short by the end of the input: when one byte is missing, the message is
  delivered all the same, with the byte 255 in its place, and the connection is still good, because
  the end is only noticed by the read behind it. When more are missing there is no message, and the
  connection is not good any more.
\<close>

theorem truncated_message:
  assumes "is_good s" and "\<not> ended s" and "length m < 2 ^ 31" and "k < length m"
    and "unread s = take (length (frame m) - (length m - k)) (frame m)"
  shows "stdio_read s =
    (if Suc k = length m
     then Inr (Some (take k m @ [CHR 0xFF]),
               s\<lparr>unread := [], ended := True, tee := map_option (dump_read (take k m @ [CHR 0xFF])) (tee s)\<rparr>)
     else Inr (None, s\<lparr>unread := [], ended := True, is_good := False\<rparr>))"
proof -
  let ?n = "of_nat (length m) :: u32"
  have n: "unat ?n = length m" using assms(3) by (rule unat_length)
  have "?n \<noteq> 0" using n assms(4) by auto
  have "unread s = content_length @ decimal (length m)
      @ [CHR 0x0D, CHR 0x0A, CHR 0x0D, CHR 0x0A] @ take k m"
    unfolding assms(5) using assms(4) by (simp add: frame_def take_Cons')
  then have "read_message_header s = Inr (?n, s\<lparr>unread := take k m\<rparr>)"
    using assms(1-3) by (intro frame_header)
  moreover have "read_body 0 ?n (replicate (unat ?n) (CHR 0x00)) (s\<lparr>unread := take k m\<rparr>)
      = read_body k ?n (take k m @ replicate (length m - k) (CHR 0x00)) (s\<lparr>unread := []\<rparr>)"
    using assms(2-4) by (subst body_collects [where l = "take k m" and r = "[]"]) (simp_all add: n)
  moreover have "\<dots> = read_body (Suc k) ?n
      (take k m @ CHR 0xFF # replicate (length m - Suc k) (CHR 0x00)) (s\<lparr>unread := [], ended := True\<rparr>)"
    using assms(2-4)
    by (subst body_end_of_input) (simp_all add: n list_update_append Suc_diff_Suc [symmetric])
  ultimately show ?thesis
    using assms(1,4) \<open>?n \<noteq> 0\<close> by (auto simp: stdio_read_def n body_done body_ended)
qed

theorem truncated_message_witness:
  "fst (projr (stdio_read (sample_stdio
     (''Content-Length: 3'' @ [CHR 0x0D, CHR 0x0A, CHR 0x0D, CHR 0x0A] @ ''ab'')))) = Some [CHR ''a'', CHR ''b'', CHR 0xFF]"
proof -
  let ?s = "sample_stdio (''Content-Length: 3'' @ [CHR 0x0D, CHR 0x0A, CHR 0x0D, CHR 0x0A] @ ''ab'')"
  have "frame ''abc'' = ''Content-Length: 3'' @ [CHR 0x0D, CHR 0x0A, CHR 0x0D, CHR 0x0A] @ ''abc''"
    by code_simp
  then show ?thesis
    using truncated_message [of ?s "''abc''" 2] by (simp add: sample_stdio_def)
qed

end
