(* ===== verification/Journal.thy ===== *)
theory Journal
  imports Connection
begin

text \<open>
  Replaying a journal, \<^verbatim>\<open>src/lsp/connection.cpp\<close>: \<open>journal_reader\<close> splits a file into transactions,
  and the connection \<open>replay\<close> hands their requests to the server and compares what it answers.
  The server's answers come from other threads: \<open>late\<close> is the list of what arrives during each wait.
\<close>

section \<open>The reader\<close>

text \<open>The lines \<open>std::getline\<close> finds in a file.\<close>

fun lines_of :: "string \<Rightarrow> string list" where
  "lines_of [] = []"
| "lines_of (c # cs) =
     (if c = CHR 0x0A then [] # lines_of cs
      else case lines_of cs of [] \<Rightarrow> [[c]] | l # ls \<Rightarrow> (c # l) # ls)"

record transactions =
  valid :: bool
  requests :: "(nat \<times> string) list"
  responses :: "(nat \<times> bool \<times> string) list"

text \<open>\<open>failed\<close> is the fail bit of the stream: the file is not open, or was read past its end.\<close>

record journal_reader =
  lines_left :: "string list"
  failed :: bool
  line_number :: nat

definition journal_open :: "string \<Rightarrow> journal_reader" where
  "journal_open text = \<lparr>lines_left = lines_of text, failed = False, line_number = 0\<rparr>"

datatype line_state = Idle | Midline

definition match_prefix :: string where
  "match_prefix = ''# MATCH: ''"

definition add_line :: "string \<Rightarrow> nat \<Rightarrow> transactions \<Rightarrow> transactions" where
  "add_line agg start t =
     (if take (length match_prefix) agg = match_prefix
      then t\<lparr>responses := responses t @ [(start, False, drop (length match_prefix) agg)]\<rparr>
      else t\<lparr>requests := requests t @ [(start, agg)]\<rparr>)"

text \<open>The state \<open>eof\<close> of the code is the empty list of lines.\<close>

fun journal_loop ::
    "line_state \<Rightarrow> string \<Rightarrow> nat \<Rightarrow> transactions \<Rightarrow> nat \<Rightarrow> string list \<Rightarrow> transactions \<times> journal_reader" where
  "journal_loop st agg start t n [] =
     ((if agg \<noteq> [] then add_line agg start t else t)\<lparr>valid := True\<rparr>,
      \<lparr>lines_left = [], failed = True, line_number = n\<rparr>)"
| "journal_loop st agg start t n (l # ls) =
     (let n = Suc n;
          stop = (\<lambda>t. (t\<lparr>valid := True\<rparr>, \<lparr>lines_left = ls, failed = False, line_number = n\<rparr>))
      in case st of
        Idle \<Rightarrow>
          if l = ''---'' \<and> (requests t \<noteq> [] \<or> responses t \<noteq> []) then stop t
          else if l = ''---'' \<or> l = [] then journal_loop Idle agg start t n ls
          else journal_loop Midline (agg @ l) n t n ls
      | Midline \<Rightarrow>
          (let full = ((l = [] \<or> l = ''---'') \<and> agg \<noteq> []);
               t = (if full then add_line agg start t else t);
               agg = (if full then [] else agg)
           in if l = ''---'' then stop t
              else if l = [] then journal_loop Idle agg start t n ls
              else journal_loop Midline (agg @ l) start t n ls))"

definition no_transactions :: transactions where
  "no_transactions = \<lparr>valid = False, requests = [], responses = []\<rparr>"

definition journal_next :: "journal_reader \<Rightarrow> transactions \<times> journal_reader" where
  "journal_next r =
     (if failed r then (no_transactions, r)
      else journal_loop Idle [] 0 no_transactions (line_number r) (lines_left r))"

definition lines_to_read :: "journal_reader \<Rightarrow> nat" where
  "lines_to_read r = length (lines_left r) + (if failed r then 0 else 1)"

lemma lines_to_read_simps [simp]:
  "lines_to_read \<lparr>lines_left = ls, failed = f, line_number = n\<rparr> = length ls + (if f then 0 else 1)"
  by (simp add: lines_to_read_def)

lemma journal_loop_left:
  "lines_to_read (snd (journal_loop st agg start t n ls)) \<le> length ls"
proof (induction ls arbitrary: st agg start t n)
  case (Cons l ls)
  then show ?case by (cases st) (simp_all add: Let_def le_SucI)
qed simp

text \<open>Every valid list of transactions comes from lines that are not read again.\<close>

lemma journal_next_left:
  assumes "(t, r') = journal_next r" and "valid t"
  shows "lines_to_read r' < lines_to_read r"
proof -
  have open_file: "\<not> failed r" using assms by (auto simp: journal_next_def no_transactions_def)
  have "r' = snd (journal_next r)" unfolding assms(1) [symmetric] by simp
  also have "journal_next r = journal_loop Idle [] 0 no_transactions (line_number r) (lines_left r)"
    using open_file by (simp add: journal_next_def)
  finally have "lines_to_read r' \<le> length (lines_left r)" by (simp add: journal_loop_left)
  also have "\<dots> < lines_to_read r" using open_file by (simp add: lines_to_read_def)
  finally show ?thesis .
qed

function all_transactions :: "journal_reader \<Rightarrow> transactions list" where
  "all_transactions r =
     (case journal_next r of (t, r') \<Rightarrow> if valid t then t # all_transactions r' else [])"
  by pat_completeness auto

termination all_transactions
  by (relation "measure lines_to_read") (auto intro: journal_next_left)

declare all_transactions.simps [simp del]

section \<open>Reading back what a connection wrote\<close>

datatype event = Read string | Write string

fun dump :: "event \<Rightarrow> string \<Rightarrow> string" where
  "dump (Read m) = dump_read m"
| "dump (Write m) = dump_write m"

definition transcript :: "event list \<Rightarrow> string" where
  "transcript evs = journal_end (fold dump evs journal_new)"

text \<open>One line that is not taken for something else.\<close>

fun event_ok :: "event \<Rightarrow> bool" where
  "event_ok (Read m) \<longleftrightarrow> CHR 0x0A \<notin> set m \<and> m \<noteq> [] \<and> m \<noteq> ''---''
     \<and> take (length match_prefix) m \<noteq> match_prefix"
| "event_ok (Write m) \<longleftrightarrow> CHR 0x0A \<notin> set m"

fun event_line :: "event \<Rightarrow> string" where
  "event_line (Read m) = m"
| "event_line (Write m) = match_prefix @ m"

lemma lines_of_line [simp]: "CHR 0x0A \<notin> set l \<Longrightarrow> lines_of (l @ CHR 0x0A # r) = l # lines_of r"
  by (induction l) auto

lemma dump_line: "dump e j = j @ event_line e @ separator"
  by (cases e) (simp_all add: dump_read_def dump_write_def match_prefix_def)

lemma fold_dump: "fold dump evs j = j @ concat (map (\<lambda>e. event_line e @ separator) evs)"
  by (induction evs arbitrary: j) (simp_all add: dump_line)

lemma event_line_no_newline: "event_ok e \<Longrightarrow> CHR 0x0A \<notin> set (event_line e)"
  by (cases e) (simp_all add: match_prefix_def)

lemma lines_of_events:
  "list_all event_ok evs \<Longrightarrow>
   lines_of (concat (map (\<lambda>e. event_line e @ separator) evs) @ r)
     = concat (map (\<lambda>e. [event_line e, [], ''---'', []]) evs) @ lines_of r"
proof (induction evs)
  case (Cons e evs)
  then have "CHR 0x0A \<notin> set (event_line e)" by (simp add: event_line_no_newline)
  then show ?case
    using Cons by (simp add: separator_def newline_def lines_of_line [of "''---''", simplified])
qed simp

abbreviation test_line :: string where "test_line \<equiv> ''# TEST: <fill in the blanks>''"
abbreviation exit_line :: string where "exit_line \<equiv> ''# EXIT: 0''"

lemma lines_of_transcript:
  assumes "list_all event_ok evs"
  shows "lines_of (transcript evs)
       = [[], test_line, []] @ concat (map (\<lambda>e. [event_line e, [], ''---'', []]) evs) @ [exit_line]"
proof -
  have "lines_of (exit_line @ newline) = [exit_line]" by (simp add: newline_def)
  with lines_of_events [OF assms, of "exit_line @ newline"] show ?thesis
    by (simp add: transcript_def journal_end_def journal_new_def fold_dump newline_def)
qed

text \<open>The requests and the expected responses of a transaction, without their lines.\<close>

definition contents :: "transactions \<Rightarrow> string list \<times> string list" where
  "contents t = (map snd (requests t), map (snd \<circ> snd) (responses t))"

fun transaction_of :: "event \<Rightarrow> string list \<times> string list" where
  "transaction_of (Read m) = ([m], [])"
| "transaction_of (Write m) = ([], [m])"

lemma event_line_ok:
  "event_ok e \<Longrightarrow> event_line e \<noteq> [] \<and> event_line e \<noteq> ''---''"
  by (cases e) (auto simp: match_prefix_def)

lemma add_event:
  "event_ok e \<Longrightarrow>
   contents (add_line (event_line e) k t)
     = (fst (contents t) @ fst (transaction_of e), snd (contents t) @ snd (transaction_of e))"
  by (cases e) (auto simp: add_line_def contents_def match_prefix_def)

lemma add_line_some: "requests (add_line l k t) \<noteq> [] \<or> responses (add_line l k t) \<noteq> []"
  by (simp add: add_line_def)

lemma contents_valid [simp]: "contents (t\<lparr>valid := v\<rparr>) = contents t"
  by (simp add: contents_def)

text \<open>One event is one more line, and the separator ends the transaction.\<close>

lemma loop_event:
  assumes "event_ok e"
  shows "journal_loop Idle [] k t n ([event_line e, [], ''---'', []] @ ls)
       = ((add_line (event_line e) (Suc n) t)\<lparr>valid := True\<rparr>,
          \<lparr>lines_left = [] # ls, failed = False, line_number = n + 3\<rparr>)"
  using event_line_ok [OF assms] add_line_some [of "event_line e" "Suc n" t] by (auto simp: Let_def)

lemma loop_skips: "journal_loop Idle [] k t n ([] # ls) = journal_loop Idle [] k t (Suc n) ls"
  by (simp add: Let_def)

lemma contents_none [simp]: "contents no_transactions = ([], [])"
  by (simp add: contents_def no_transactions_def)

lemma next_event:
  assumes "event_ok e" and "\<not> failed r" and "lines_left r = [] # [event_line e, [], ''---'', []] @ ls"
  shows "\<exists>t n. journal_next r = (t, \<lparr>lines_left = [] # ls, failed = False, line_number = n\<rparr>)
    \<and> valid t \<and> contents t = transaction_of e"
  using assms by (simp add: journal_next_def loop_skips loop_event add_event del: append_Cons journal_loop.simps)

lemma next_exit:
  assumes "\<not> failed r" and "lines_left r = [[], exit_line]"
  shows "\<exists>t n. journal_next r = (t, \<lparr>lines_left = [], failed = True, line_number = n\<rparr>)
    \<and> valid t \<and> contents t = ([exit_line], [])"
  using assms by (simp add: journal_next_def add_line_def contents_def match_prefix_def no_transactions_def)

lemma next_failed: "failed r \<Longrightarrow> all_transactions r = []"
  by (subst all_transactions.simps) (simp add: journal_next_def no_transactions_def)

lemma rest_of_journal:
  assumes "list_all event_ok evs" and "\<not> failed r"
    and "lines_left r = [] # concat (map (\<lambda>e. [event_line e, [], ''---'', []]) evs) @ [exit_line]"
  shows "map contents (all_transactions r) = map transaction_of evs @ [([exit_line], [])]"
  using assms
proof (induction evs arbitrary: r)
  case Nil
  then obtain t n where "journal_next r = (t, \<lparr>lines_left = [], failed = True, line_number = n\<rparr>)"
    "valid t" "contents t = ([exit_line], [])" using next_exit [of r] by auto
  then show ?case by (subst all_transactions.simps) (simp add: next_failed)
next
  case (Cons e evs)
  let ?ls = "concat (map (\<lambda>e. [event_line e, [], ''---'', []]) evs) @ [exit_line]"
  obtain t n where "journal_next r = (t, \<lparr>lines_left = [] # ?ls, failed = False, line_number = n\<rparr>)"
    "valid t" "contents t = transaction_of e"
    using next_event [of e r ?ls] Cons.prems by auto
  then show ?case using Cons.IH Cons.prems(1) by (subst all_transactions.simps) simp
qed

lemma loop_test_line:
  "journal_loop Idle [] k t n ([] # test_line # [] # ls)
     = journal_loop Idle [] (Suc (Suc n)) (t\<lparr>requests := requests t @ [(Suc (Suc n), test_line)]\<rparr>)
         (Suc (Suc (Suc n))) ls"
  by (simp add: Let_def add_line_def match_prefix_def)

lemma first_exit:
  assumes "\<not> failed r" and "lines_left r = [[], test_line, [], exit_line]"
  shows "map contents (all_transactions r) = [([test_line, exit_line], [])]"
  using assms
  by (subst all_transactions.simps)
    (simp add: journal_next_def loop_test_line next_failed add_line_def contents_def match_prefix_def
      no_transactions_def)

lemma first_event:
  assumes "\<not> failed r" and "lines_left r = [] # test_line # [] # [event_line e, [], ''---'', []] @ ls"
    and "event_ok e"
  shows "\<exists>t n. journal_next r = (t, \<lparr>lines_left = [] # ls, failed = False, line_number = n\<rparr>)
    \<and> valid t \<and> contents t = (test_line # fst (transaction_of e), snd (transaction_of e))"
  using assms
  by (simp add: journal_next_def loop_test_line loop_event add_event del: append_Cons journal_loop.simps)
    (simp add: contents_def no_transactions_def)

text \<open>C18. A journal read back: for any sequence of messages on one line that do not look like the marks
  of the format, reading the file the connection was teed into gives one transaction for each
  message, a message that was read as a request and one that was written as an expected response.
  The comment the file opens with and the comment it closes with are not left out: the first is a
  request in front of the first message, and the last a transaction of its own, so both are handed to
  the server when the journal is replayed.
\<close>

theorem journal_roundtrip:
  assumes "list_all event_ok evs"
  shows "map contents (all_transactions (journal_open (transcript evs))) =
    (case evs of [] \<Rightarrow> [([test_line, exit_line], [])]
     | e # es \<Rightarrow> (test_line # fst (transaction_of e), snd (transaction_of e))
         # map transaction_of es @ [([exit_line], [])])"
proof (cases evs)
  case Nil
  then show ?thesis
    using first_exit [of "journal_open (transcript evs)"] lines_of_transcript [OF assms]
    by (simp add: journal_open_def)
next
  case (Cons e es)
  let ?ls = "concat (map (\<lambda>e. [event_line e, [], ''---'', []]) es) @ [exit_line]"
  obtain t n where "journal_next (journal_open (transcript evs))
      = (t, \<lparr>lines_left = [] # ?ls, failed = False, line_number = n\<rparr>)"
    and t: "valid t" "contents t = (test_line # fst (transaction_of e), snd (transaction_of e))"
    using first_event [of "journal_open (transcript evs)" e ?ls] lines_of_transcript [OF assms] assms Cons
    by (auto simp: journal_open_def)
  then have "map contents (all_transactions (journal_open (transcript evs)))
      = contents t # map contents (all_transactions \<lparr>lines_left = [] # ?ls, failed = False, line_number = n\<rparr>)"
    by (subst all_transactions.simps) simp
  also have "\<dots> = contents t # map transaction_of es @ [([exit_line], [])]"
    by (subst rest_of_journal) (use assms Cons in simp_all)
  finally show ?thesis using t(2) Cons by simp
qed

theorem journal_roundtrip_witness:
  "map contents (all_transactions (journal_open (transcript [Read ''{}'', Write ''[]'']))) =
     [([test_line, ''{}''], []), ([], [''[]'']), ([exit_line], [])]"
  using journal_roundtrip [of "[Read ''{}'', Write ''[]'']"] by (simp add: match_prefix_def)

section \<open>Replaying\<close>

text \<open>
  The macros \<open>${file:...}\<close> in the strings of the journal, but not in the keys of its objects:
  \<open>expand_string\<close> is the handler's \<open>String\<close>, the parser and the printer around it are RapidJSON.
\<close>

fun find_from :: "string \<Rightarrow> string \<Rightarrow> nat \<Rightarrow> nat option" where
  \<comment> \<open>\<open>find\<close>, the text from position \<open>i\<close> on as its second argument\<close>
  "find_from pat [] i = (if pat = [] then Some i else None)"
| "find_from pat (c # cs) i = (if take (length pat) (c # cs) = pat then Some i else find_from pat cs (Suc i))"

definition file_macro :: string where
  "file_macro = ''${file:''"

definition expand_string :: "string \<Rightarrow> string \<Rightarrow> string" where
  "expand_string cwd str =
     (case find_from file_macro str 0 of
        None \<Rightarrow> str
      | Some i \<Rightarrow>
          (case find_from ''}'' (drop i str) i of
             None \<Rightarrow> str
           | Some j \<Rightarrow>
               (let name = take (j - i - 7) (drop (i + 7) str);
                    by_name = ''file://'' @ cwd @ (if name \<noteq> [] then ''/'' @ name else [])
                in take i str @ by_name @ drop (j + 1) str)))"

record replay =
  reader :: journal_reader
  pending :: transactions
  unhandled :: "string list"
  response_queue :: "string list"
  late :: "string list list"
  requests_in_journal :: nat
  responses_in_journal :: nat
  requests_serviced :: nat
  responses_generated :: nat
  ooo_matches :: nat
  in_order_matches :: nat
  ignores :: nat
  timeouts :: nat
  stopped :: bool

definition replay_new :: "string \<Rightarrow> string list list \<Rightarrow> replay" where
  "replay_new text arrivals =
     (case journal_next (journal_open text) of (t, r) \<Rightarrow>
        \<lparr>reader = r, pending = t, unhandled = [], response_queue = [], late = arrivals,
         requests_in_journal = 0, responses_in_journal = 0, requests_serviced = 0,
         responses_generated = 0, ooo_matches = 0, in_order_matches = 0, ignores = 0, timeouts = 0,
         stopped = False\<rparr>)"

definition replay_write :: "string \<Rightarrow> replay \<Rightarrow> replay" where
  "replay_write m r =
     r\<lparr>responses_generated := Suc (responses_generated r), response_queue := response_queue r @ [m]\<rparr>"

text \<open>\<open>response_queue.pop\<close> with its limit of ten seconds.\<close>

definition pop :: "replay \<Rightarrow> string option \<times> replay" where
  "pop r =
     (case response_queue r of
        m # ms \<Rightarrow> (Some m, r\<lparr>response_queue := ms\<rparr>)
      | [] \<Rightarrow>
          (case late r of
             [] \<Rightarrow> (None, r)
           | [] # later \<Rightarrow> (None, r\<lparr>late := later\<rparr>)
           | (m # ms) # later \<Rightarrow>
               (Some m, r\<lparr>response_queue := ms, late := later,
                         responses_generated := responses_generated r + length (m # ms)\<rparr>)))"

definition to_pop :: "replay \<Rightarrow> nat" where
  "to_pop r = length (response_queue r) + sum_list (map length (late r))"

lemma to_pop_ignored [simp]: "to_pop (r\<lparr>unhandled := us, ignores := k\<rparr>) = to_pop r"
  by (simp add: to_pop_def)

lemma pop_less: "(Some m, r') = pop r \<Longrightarrow> to_pop r' < to_pop r"
  by (auto simp: pop_def to_pop_def split: list.splits)

function wait_for :: "string \<Rightarrow> replay \<Rightarrow> replay" where
  "wait_for expected r =
     (case pop r of
        (None, r) \<Rightarrow> r\<lparr>timeouts := Suc (timeouts r)\<rparr>
      | (Some m, r) \<Rightarrow>
          if m = expected then r\<lparr>in_order_matches := Suc (in_order_matches r)\<rparr>
          else wait_for expected (r\<lparr>unhandled := unhandled r @ [m], ignores := Suc (ignores r)\<rparr>))"
  by pat_completeness auto

termination wait_for
  by (relation "measure (\<lambda>(_, r). to_pop r)")
    (auto intro: pop_less)

declare wait_for.simps [simp del]

text \<open>\<open>expand\<close> is the pass of a JSON text through RapidJSON's reader and writer with \<open>expand_string\<close>.\<close>

primrec remove_first :: "string \<Rightarrow> string list \<Rightarrow> string list" where
  "remove_first x [] = []"
| "remove_first x (y # ys) = (if y = x then ys else y # remove_first x ys)"

definition expect :: "(string \<Rightarrow> string) \<Rightarrow> string \<Rightarrow> replay \<Rightarrow> replay" where
  "expect expand line r =
     (let expected = expand line;
          r = r\<lparr>responses_in_journal := Suc (responses_in_journal r)\<rparr>
      in if expected \<in> set (unhandled r)
         then r\<lparr>unhandled := remove_first expected (unhandled r), ooo_matches := Suc (ooo_matches r)\<rparr>
         else wait_for expected r)"

definition expect_all :: "(string \<Rightarrow> string) \<Rightarrow> replay \<Rightarrow> replay" where
  "expect_all expand r =
     (fold (\<lambda>(_, _, line). expect expand line) (responses (pending r)) r)\<lparr>pending := (pending r)\<lparr>responses := []\<rparr>\<rparr>"

lemma wait_for_reader [simp]: "reader (wait_for x r) = reader r"
  by (induction x r rule: wait_for.induct)
    (subst wait_for.simps, auto simp: pop_def split: list.splits option.splits prod.splits)

lemma expect_all_reader [simp]: "reader (expect_all expand r) = reader r"
proof -
  have "reader (fold (\<lambda>(_, _, line). expect expand line) ls r) = reader r" for ls
    by (induction ls arbitrary: r) (auto simp: expect_def Let_def)
  then show ?thesis by (simp add: expect_all_def)
qed

definition lines_and_pending :: "replay \<Rightarrow> nat" where
  "lines_and_pending r = lines_to_read (reader r) + (if valid (pending r) then 1 else 0)"

function next_request :: "(string \<Rightarrow> string) \<Rightarrow> replay \<Rightarrow> string option \<times> replay" where
  "next_request expand r =
     (if \<not> valid (pending r) then (None, r)
      else case requests (pending r) of
        (_, req) # reqs \<Rightarrow>
          (Some (expand req),
           r\<lparr>pending := (pending r)\<lparr>requests := reqs\<rparr>, requests_in_journal := Suc (requests_in_journal r)\<rparr>)
      | [] \<Rightarrow>
          (let r = expect_all expand r;
               (t, rd) = journal_next (reader r)
           in next_request expand (r\<lparr>pending := t, reader := rd\<rparr>)))"
  by pat_completeness auto

lemma next_lines:
  assumes "(t, rd) = journal_next rd0"
  shows "lines_to_read rd + (if valid t then 1 else 0) < lines_to_read rd0 + 1"
proof (cases "valid t")
  case True
  then show ?thesis using journal_next_left [OF assms] by simp
next
  case False
  have "lines_to_read (snd (journal_next rd0)) \<le> lines_to_read rd0"
    using journal_loop_left [of Idle "[]" 0 no_transactions "line_number rd0" "lines_left rd0"]
    by (auto simp: journal_next_def lines_to_read_def [of rd0])
  then show ?thesis using False by (simp flip: assms)
qed

termination next_request
  by (relation "measure (\<lambda>(_, r). lines_and_pending r)")
    (auto simp: lines_and_pending_def dest: next_lines)

declare next_request.simps [simp del]

definition replay_read :: "(string \<Rightarrow> string) \<Rightarrow> replay \<Rightarrow> string option \<times> replay" where
  "replay_read expand r =
     (case next_request expand r of
        (None, r) \<Rightarrow> (None, r\<lparr>stopped := True\<rparr>)
      | (Some m, r) \<Rightarrow> (Some m, r\<lparr>requests_serviced := Suc (requests_serviced r)\<rparr>))"

section \<open>The counters of a replay\<close>

text \<open>
  Every response the journal expects is counted once, and what was set aside is either still there or
  was matched later.
\<close>

definition counters_ok :: "replay \<Rightarrow> bool" where
  "counters_ok r \<longleftrightarrow>
     responses_in_journal r = in_order_matches r + ooo_matches r + timeouts r
     \<and> ignores r = length (unhandled r) + ooo_matches r"

lemma length_remove_first: "x \<in> set xs \<Longrightarrow> Suc (length (remove_first x xs)) = length xs"
  by (induction xs) auto

text \<open>During a wait one response is taken for granted that is counted when it ends.\<close>

lemma wait_for_counts:
  "responses_in_journal r = Suc (in_order_matches r + ooo_matches r + timeouts r) \<Longrightarrow>
   ignores r = length (unhandled r) + ooo_matches r \<Longrightarrow> counters_ok (wait_for x r)"
proof (induction x r rule: wait_for.induct)
  case (1 x r)
  then show ?case
    by (subst wait_for.simps)
      (auto simp: counters_ok_def pop_def split: list.splits option.splits prod.splits)
qed

lemma expect_counts: "counters_ok r \<Longrightarrow> counters_ok (expect expand line r)"
  using length_remove_first [of "expand line" "unhandled r"]
  by (auto simp: expect_def Let_def counters_ok_def intro!: wait_for_counts [unfolded counters_ok_def])

lemma counters_pending [simp]:
  "counters_ok (r\<lparr>pending := t\<rparr>) = counters_ok r"
  "counters_ok (r\<lparr>pending := t, reader := rd\<rparr>) = counters_ok r"
  "counters_ok (r\<lparr>pending := t, requests_in_journal := n\<rparr>) = counters_ok r"
  "counters_ok (r\<lparr>requests_serviced := n\<rparr>) = counters_ok r"
  "counters_ok (r\<lparr>stopped := b\<rparr>) = counters_ok r"
  by (simp_all add: counters_ok_def)

lemma expect_all_counts: "counters_ok r \<Longrightarrow> counters_ok (expect_all expand r)"
proof -
  have "counters_ok r \<Longrightarrow> counters_ok (fold (\<lambda>(_, _, line). expect expand line) ls r)" for ls
    by (induction ls arbitrary: r) (auto intro: expect_counts)
  then show "counters_ok r \<Longrightarrow> ?thesis" by (simp add: expect_all_def)
qed

lemma next_request_counts: "counters_ok r \<Longrightarrow> counters_ok (snd (next_request expand r))"
proof (induction expand r rule: next_request.induct)
  case (1 expand r)
  then show ?case
    by (subst next_request.simps)
      (auto simp: Let_def expect_all_counts split: list.splits prod.splits)
qed

datatype replay_call = Call_read | Call_write string

fun replay_does :: "(string \<Rightarrow> string) \<Rightarrow> replay_call \<Rightarrow> replay \<Rightarrow> replay" where
  "replay_does expand Call_read r = snd (replay_read expand r)"
| "replay_does expand (Call_write m) r = replay_write m r"

lemma replay_does_counts: "counters_ok r \<Longrightarrow> counters_ok (replay_does expand c r)"
  using next_request_counts [of r expand]
  by (cases c)
    (auto simp: replay_read_def replay_write_def counters_ok_def split: prod.splits option.splits)

text \<open>The status of a replay adds up, whatever the journal, the server and the moments its answers
  come at: every response of the journal that was looked for is counted once, as matched in order,
  matched out of order or timed out, and the answers that were set aside are the ones still kept
  and the ones matched out of order.
\<close>

theorem replay_status_adds_up:
  "counters_ok (fold (replay_does expand) calls (replay_new text arrivals))"
proof -
  have "counters_ok r \<Longrightarrow> counters_ok (fold (replay_does expand) calls r)" for r
    by (induction calls arbitrary: r) (simp_all add: replay_does_counts)
  then show ?thesis by (simp add: replay_new_def counters_ok_def split: prod.split)
qed

end
