(* ===== verification/Frontend.thy ===== *)
theory Frontend
  imports Connection
begin

text \<open>
  The JSON-RPC front end of the language server, \<^verbatim>\<open>src/lsp/frontend.cpp\<close>, with its client half,
  \<^verbatim>\<open>src/lsp/client.cpp\<close>, the server's life cycle, \<^verbatim>\<open>src/lsp/server.cpp\<close>, and the cancellation
  tokens of \<^verbatim>\<open>src/common/cancellation.cpp\<close>.

  RapidJSON is not modelled: the record \<open>rapidjson\<close> holds the three functions of it the code uses,
  and every definition takes it as an argument. What the server does with a message is a list of
  commands, the calls its handler makes; a handler may also hand a request to another thread, whose
  calls are steps of their own.
\<close>

section \<open>JSON\<close>

text \<open>A document. \<open>J_int\<close> is a number \<open>IsInt\<close> holds of.\<close>

datatype json =
  J_null | J_bool bool | J_int int | J_number string | J_string string
| J_array "json list" | J_object "(string \<times> json) list"

record rapidjson =
  rj_parse :: "string \<Rightarrow> json option"  \<comment> \<open>\<open>Document::Parse\<close>, \<open>None\<close> a parse error\<close>
  rj_print :: "json \<Rightarrow> string"  \<comment> \<open>\<open>Value::Accept\<close> on a \<open>Writer\<close>\<close>
  rj_quote :: "string \<Rightarrow> string"  \<comment> \<open>\<open>Writer::String\<close>\<close>

text \<open>What fails: a failed \<open>RAPIDJSON_ASSERT\<close>, a \<open>std::get\<close> of the wrong alternative, a \<open>throw\<close>, a
  null pointer that is followed, undefined behaviour; and the transport's.\<close>

datatype rpc_error =
  Json_assert string | Bad_variant | Bad_optional | Out_of_range | Null_pointer | Undefined string | Transport io_error

definition member :: "json \<Rightarrow> string \<Rightarrow> json option" where
  \<comment> \<open>\<open>HasMember\<close> and \<open>operator[]\<close> on an object\<close>
  "member d k = (case d of J_object kvs \<Rightarrow> map_of kvs k | _ \<Rightarrow> None)"

definition the_member :: "json \<Rightarrow> string \<Rightarrow> rpc_error + json" where
  \<comment> \<open>\<open>operator[]\<close> asserts that the value is an object and that the member exists\<close>
  "the_member d k = (case member d k of Some v \<Rightarrow> Inr v | None \<Rightarrow> Inl (Json_assert k))"

definition c_string :: "string \<Rightarrow> string" where
  \<comment> \<open>a \<open>std::string\<close> made from a \<open>const char*\<close>\<close>
  "c_string s = takeWhile (\<lambda>c. c \<noteq> CHR 0x00) s"

definition get_text :: "json \<Rightarrow> rpc_error + string" where
  "get_text v = (case v of J_string s \<Rightarrow> Inr (c_string s) | _ \<Rightarrow> Inl (Json_assert ''GetString''))"

definition get_int :: "json \<Rightarrow> rpc_error + int" where
  "get_int v = (case v of J_int i \<Rightarrow> Inr i | _ \<Rightarrow> Inl (Json_assert ''GetInt''))"

section \<open>Cancellation\<close>

text \<open>
  A source and a token are pointers to a shared \<open>cancellation_state\<close>. No function of the class makes
  such a state, so a new source has a null pointer; \<open>states\<close> are the states there are.
\<close>

type_synonym cancellation = "nat option"

definition cancellation_source :: cancellation where
  "cancellation_source = None"

definition token_of :: "cancellation \<Rightarrow> cancellation" where
  "token_of source = source"

definition request_cancellation :: "cancellation \<Rightarrow> (nat \<Rightarrow> bool) \<Rightarrow> rpc_error + (nat \<Rightarrow> bool)" where
  "request_cancellation source states =
     (case source of None \<Rightarrow> Inl Null_pointer | Some p \<Rightarrow> Inr (states(p := True)))"

definition source_is_cancelled :: "cancellation \<Rightarrow> (nat \<Rightarrow> bool) \<Rightarrow> rpc_error + bool" where
  "source_is_cancelled source states =
     (case source of None \<Rightarrow> Inl Null_pointer | Some p \<Rightarrow> Inr (states p))"

definition token_is_cancelled :: "cancellation \<Rightarrow> (nat \<Rightarrow> bool) \<Rightarrow> bool" where
  "token_is_cancelled token states = (case token of None \<Rightarrow> False | Some p \<Rightarrow> states p)"

section \<open>Messages\<close>

datatype rid = Id_int int | Id_string string

datatype result = R_int int | R_bool bool | R_string string | R_json string | R_null

record incoming_request =
  rq_id :: rid
  rq_method :: string
  rq_params :: "string option"
  rq_internal :: nat
  rq_replied :: bool
  rq_token :: cancellation

record outgoing_request =
  og_id :: rid
  og_method :: string
  og_params :: "string option"
  og_handler :: "nat option"  \<comment> \<open>\<open>on_response_\<close>: which callback, if any\<close>

datatype incoming_response =
  Success rid "result option" outgoing_request
| Failure rid int string "string option" outgoing_request

datatype response_body = Ok "result option" | Err int string "string option"

definition rpc_parse_error :: int where "rpc_parse_error = -32700"
definition server_not_initialized :: int where "server_not_initialized = -32002"
definition method_not_found :: int where "method_not_found = -32601"

text \<open>The text of a message. A parameter or result that is JSON is copied; its first character is read.\<close>

definition raw :: "string \<Rightarrow> rpc_error + string" where
  "raw s = (if s = [] then Inl Out_of_range else Inr s)"

definition json_entry :: "rapidjson \<Rightarrow> string \<Rightarrow> string \<Rightarrow> string" where
  "json_entry j k v = '','' @ rj_quote j k @ '':'' @ v"

definition int_text :: "int \<Rightarrow> string" where
  "int_text i = (if i < 0 then ''-'' else []) @ decimal (nat \<bar>i\<bar>)"

definition id_text :: "rapidjson \<Rightarrow> rid option \<Rightarrow> string" where
  "id_text j i =
     (case i of None \<Rightarrow> ''null'' | Some (Id_int n) \<Rightarrow> int_text n | Some (Id_string s) \<Rightarrow> rj_quote j s)"

definition head_text :: "rapidjson \<Rightarrow> string" where
  "head_text j = ''{'' @ rj_quote j ''jsonrpc'' @ '':'' @ rj_quote j ''2.0''"

definition params_text :: "rapidjson \<Rightarrow> string option \<Rightarrow> rpc_error + string" where
  "params_text j ps =
     (case ps of None \<Rightarrow> Inr [] | Some s \<Rightarrow> sbind (raw s) (\<lambda>s. Inr (json_entry j ''params'' s)))"

definition request_to_json :: "rapidjson \<Rightarrow> outgoing_request \<Rightarrow> rpc_error + string" where
  "request_to_json j r =
     sbind (params_text j (og_params r)) (\<lambda>ps.
       Inr (head_text j @ json_entry j ''id'' (id_text j (Some (og_id r))) @ ps
            @ json_entry j ''method'' (rj_quote j (og_method r)) @ ''}''))"

definition notification_to_json :: "rapidjson \<Rightarrow> string \<Rightarrow> string option \<Rightarrow> rpc_error + string" where
  "notification_to_json j m ps =
     sbind (params_text j ps) (\<lambda>ps. Inr (head_text j @ json_entry j ''method'' (rj_quote j m) @ ps @ ''}''))"

definition result_text :: "rapidjson \<Rightarrow> result \<Rightarrow> rpc_error + string" where
  "result_text j r =
     (case r of R_int i \<Rightarrow> Inr (int_text i) | R_string s \<Rightarrow> Inr (rj_quote j s)
      | R_bool b \<Rightarrow> Inr (if b then ''true'' else ''false'') | R_null \<Rightarrow> Inr ''null'' | R_json s \<Rightarrow> raw s)"

definition body_text :: "rapidjson \<Rightarrow> response_body \<Rightarrow> rpc_error + string" where
  "body_text j b =
     (case b of
        Ok None \<Rightarrow> Inr []
      | Ok (Some r) \<Rightarrow> sbind (result_text j r) (\<lambda>t. Inr (json_entry j ''result'' t))
      | Err code msg data \<Rightarrow>
          sbind (case data of None \<Rightarrow> Inr [] | Some d \<Rightarrow> sbind (raw d) (\<lambda>d. Inr (json_entry j ''data'' d))) (\<lambda>d.
            Inr (json_entry j ''error'' (''{'' @ rj_quote j ''code'' @ '':'' @ int_text code
                  @ json_entry j ''message'' (rj_quote j msg) @ d @ ''}''))))"

definition response_to_json :: "rapidjson \<Rightarrow> rid option \<Rightarrow> response_body \<Rightarrow> rpc_error + string" where
  "response_to_json j i b =
     sbind (body_text j b) (\<lambda>t. Inr (head_text j @ json_entry j ''id'' (id_text j i) @ t @ ''}''))"

section \<open>The state\<close>

text \<open>
  \<open>objects\<close> are the incoming requests made so far; a \<open>shared_ptr\<close> to one is its index. \<open>in_flight\<close> and
  \<open>out_flight\<close> are the two maps of the class. \<open>answered\<close> is not in the code: it lists the requests a
  response was made for, newest first, for the statements below.
\<close>

record frontend =
  conn :: stdio
  started :: bool
  shut_down :: bool
  running :: bool
  diagnoses :: bool  \<comment> \<open>whether \<open>on_diagnose_\<close> is set\<close>
  diagnosed :: "string list"
  objects :: "incoming_request list"
  in_flight :: "rid \<Rightarrow> (cancellation \<times> nat) option"
  next_internal :: nat
  out_flight :: "rid \<Rightarrow> outgoing_request option"
  next_outgoing :: nat
  states :: "nat \<Rightarrow> bool"
  answered :: "nat list"

definition frontend_new :: "stdio \<Rightarrow> bool \<Rightarrow> frontend" where
  "frontend_new s d =
     \<lparr>conn = s, started = False, shut_down = False, running = True, diagnoses = d, diagnosed = [],
      objects = [], in_flight = (\<lambda>_. None), next_internal = 0, out_flight = (\<lambda>_. None), next_outgoing = 0,
      states = (\<lambda>_. False), answered = []\<rparr>"

type_synonym fe = "rpc_error + bool \<times> frontend"

text \<open>
  \<open>frontend_diagnose\<close> prints into 256 bytes and keeps the zero byte at the end. A longer text is printed again
  with the argument list that the first attempt has used up, which is undefined.
\<close>

definition frontend_diagnose :: "string \<Rightarrow> frontend \<Rightarrow> rpc_error + frontend" where
  "frontend_diagnose text f =
     (if \<not> diagnoses f then Inr f
      else if length text + 1 \<le> 256 then Inr (f\<lparr>diagnosed := diagnosed f @ [text @ [CHR 0x00]]\<rparr>)
      else Inl (Undefined ''va_list''))"

definition complain :: "string \<Rightarrow> frontend \<Rightarrow> fe" where
  "complain text f = sbind (frontend_diagnose text f) (\<lambda>f. Inr (False, f))"

definition write_text :: "string \<Rightarrow> frontend \<Rightarrow> frontend" where
  "write_text t f = f\<lparr>conn := stdio_write t (conn f)\<rparr>"

text \<open>The three \<open>send\<close>s. A response may belong to a request (its index) or to none.\<close>

definition send_notification :: "rapidjson \<Rightarrow> string \<Rightarrow> string option \<Rightarrow> frontend \<Rightarrow> fe" where
  "send_notification j m ps f =
     sbind (notification_to_json j m ps) (\<lambda>t. Inr (True, write_text t f))"

definition send_request :: "rapidjson \<Rightarrow> outgoing_request \<Rightarrow> frontend \<Rightarrow> fe" where
  "send_request j r f =
     (let f = f\<lparr>out_flight := (out_flight f)(og_id r := Some r)\<rparr>
      in sbind (request_to_json j r) (\<lambda>t. Inr (True, write_text t f)))"

definition forget_request :: "nat \<Rightarrow> frontend \<Rightarrow> frontend" where
  \<comment> \<open>only the entry of this very request is erased\<close>
  "forget_request p f =
     (let r = objects f ! p in
      case in_flight f (rq_id r) of
        None \<Rightarrow> f
      | Some (_, q) \<Rightarrow>
          if rq_internal (objects f ! q) = rq_internal r
          then f\<lparr>in_flight := (in_flight f)(rq_id r := None)\<rparr> else f)"

definition mark_answered :: "nat \<Rightarrow> frontend \<Rightarrow> frontend" where
  "mark_answered p f =
     forget_request p
       (f\<lparr>objects := (objects f)[p := (objects f ! p)\<lparr>rq_replied := True\<rparr>], answered := p # answered f\<rparr>)"

definition send_response ::
    "rapidjson \<Rightarrow> rid option \<Rightarrow> response_body \<Rightarrow> nat option \<Rightarrow> frontend \<Rightarrow> fe" where
  "send_response j i body request f =
     (let send = (\<lambda>f. sbind (response_to_json j i body) (\<lambda>t. Inr (True, write_text t f)))
      in case request of
        None \<Rightarrow> send f
      | Some p \<Rightarrow>
          if p \<ge> length (objects f) then Inl Null_pointer
          else if rq_replied (objects f ! p) then complain ''Only one reply per request'' f
          else send (mark_answered p f))"

definition reply :: "rapidjson \<Rightarrow> nat \<Rightarrow> result option \<Rightarrow> frontend \<Rightarrow> fe" where
  "reply j p r f = send_response j (Some (rq_id (objects f ! p))) (Ok r) (Some p) f"

definition reply_error :: "rapidjson \<Rightarrow> nat \<Rightarrow> int \<Rightarrow> string \<Rightarrow> string option \<Rightarrow> frontend \<Rightarrow> fe" where
  "reply_error j p code m d f =
     send_response j (Some (rq_id (objects f ! p))) (Err code m d) (Some p) f"

definition is_cancelled :: "nat \<Rightarrow> frontend \<Rightarrow> bool" where
  "is_cancelled p f = token_is_cancelled (rq_token (objects f ! p)) (states f)"

text \<open>The client half: \<open>lsp::client\<close>.\<close>

definition client_request :: "rapidjson \<Rightarrow> string \<Rightarrow> string option \<Rightarrow> nat option \<Rightarrow> frontend \<Rightarrow> fe" where
  "client_request j m ps cb f =
     (let n = Suc (next_outgoing f)
      in send_request j \<lparr>og_id = Id_int (int n), og_method = m, og_params = ps, og_handler = cb\<rparr>
           (f\<lparr>next_outgoing := n\<rparr>))"

section \<open>The server's side\<close>

datatype command =
  C_reply nat "result option"
| C_error nat int string "string option"
| C_notify string "string option"
| C_request string "string option" "nat option"

fun run_command :: "rapidjson \<Rightarrow> command \<Rightarrow> frontend \<Rightarrow> fe" where
  "run_command j (C_reply p r) f = reply j p r f"
| "run_command j (C_error p code m d) f = reply_error j p code m d f"
| "run_command j (C_notify m ps) f = send_notification j m ps f"
| "run_command j (C_request m ps cb) f = client_request j m ps cb f"

primrec run_commands :: "rapidjson \<Rightarrow> command list \<Rightarrow> frontend \<Rightarrow> rpc_error + frontend" where
  "run_commands j [] f = Inr f"
| "run_commands j (c # cs) f = sbind (run_command j c f) (\<lambda>(_, f). run_commands j cs f)"

text \<open>The handlers that were bound, by method; and the callbacks given to \<open>request\<close>.\<close>

record handlers =
  on_notification :: "string \<Rightarrow> (string option \<Rightarrow> command list) option"
  on_request :: "string \<Rightarrow> (nat \<Rightarrow> incoming_request \<Rightarrow> command list) option"
  on_response :: "nat \<Rightarrow> incoming_response \<Rightarrow> command list"

section \<open>Handling a message\<close>

definition unregistered :: "rapidjson \<Rightarrow> rid \<Rightarrow> int \<Rightarrow> string \<Rightarrow> frontend \<Rightarrow> fe" where
  \<comment> \<open>the error response to a request there is no object of\<close>
  "unregistered j i code m f =
     sbind (send_response j (Some i) (Err code m None) None f) (\<lambda>(_, f). Inr (False, f))"

definition new_request :: "rid \<Rightarrow> string \<Rightarrow> string option \<Rightarrow> frontend \<Rightarrow> nat \<times> frontend" where
  "new_request i m ps f =
     (let n = Suc (next_internal f);
          p = length (objects f);
          r = \<lparr>rq_id = i, rq_method = m, rq_params = ps, rq_internal = n, rq_replied = False,
               rq_token = token_of cancellation_source\<rparr>
      in (p, f\<lparr>next_internal := n, objects := objects f @ [r],
              in_flight := (in_flight f)(i := Some (cancellation_source, p))\<rparr>))"

definition serve_request ::
    "rapidjson \<Rightarrow> handlers \<Rightarrow> rid \<Rightarrow> string \<Rightarrow> string option \<Rightarrow> frontend \<Rightarrow> fe" where
  "serve_request j h i m ps f =
     (case on_request h m of
        None \<Rightarrow>
          sbind (frontend_diagnose (''Request handler not found for '' @ c_string m) f) (\<lambda>f.
            unregistered j i method_not_found ''method not found'' f)
      | Some g \<Rightarrow>
          (case new_request i m ps f of (p, f) \<Rightarrow>
             sbind (run_commands j (g p (objects f ! p)) f) (\<lambda>f. Inr (True, f))))"

definition handle_request ::
    "rapidjson \<Rightarrow> handlers \<Rightarrow> rid \<Rightarrow> string \<Rightarrow> string option \<Rightarrow> frontend \<Rightarrow> fe" where
  "handle_request j h i m ps f =
     (if m \<noteq> ''initialize'' \<and> \<not> started f then
        sbind (frontend_diagnose (''Couldn't handle request '' @ [CHR 0x27] @ c_string m @ [CHR 0x27] @ '' before initialization'') f) (\<lambda>f.
          unregistered j i server_not_initialized ''server not yet initialized'' f)
      else if m = ''shutdown'' then serve_request j h i m ps (f\<lparr>started := True, shut_down := True\<rparr>)
      else serve_request j h i m ps (f\<lparr>started := True\<rparr>))"

text \<open>A response is looked up by the identifier of the request it answers.\<close>

definition answer_with ::
    "rapidjson \<Rightarrow> handlers \<Rightarrow> rid \<Rightarrow> (outgoing_request \<Rightarrow> incoming_response) \<Rightarrow> string \<Rightarrow> string
     \<Rightarrow> frontend \<Rightarrow> fe" where
  "answer_with j h i msg none_made no_handler f =
     (case out_flight f i of
        None \<Rightarrow> complain none_made f
      | Some r \<Rightarrow>
          (let f = f\<lparr>out_flight := (out_flight f)(i := None)\<rparr>
           in case og_handler r of
                None \<Rightarrow> sbind (frontend_diagnose no_handler f) (\<lambda>f. Inr (True, f))
              | Some cb \<Rightarrow>
                  sbind (run_commands j (on_response h cb (msg r)) f) (\<lambda>f. Inr (True, f))))"

definition handle_success ::
    "rapidjson \<Rightarrow> handlers \<Rightarrow> rid option \<Rightarrow> result option \<Rightarrow> frontend \<Rightarrow> fe" where
  "handle_success j h i r f =
     (case i of
        None \<Rightarrow> complain ''Received success response with unknown id'' f
      | Some i \<Rightarrow>
          answer_with j h i (Success i r) ''Received success response but no requests were made''
            ''Received success response but no handler was provided'' f)"

definition handle_failure ::
    "rapidjson \<Rightarrow> handlers \<Rightarrow> rid option \<Rightarrow> int \<Rightarrow> string \<Rightarrow> string option \<Rightarrow> frontend \<Rightarrow> fe" where
  "handle_failure j h i code m d f =
     (case i of
        None \<Rightarrow> complain ''Received error response with unknown id'' f
      | Some (Id_string s) \<Rightarrow> Inl Bad_variant
      | Some (Id_int n) \<Rightarrow>
          answer_with j h (Id_int n) (Failure (Id_int n) code m d)
            ''Received error response but no requests were made''
            ''Received error response but no handler was provided'' f)"

definition handle_cancel_request :: "rapidjson \<Rightarrow> string option \<Rightarrow> frontend \<Rightarrow> fe" where
  "handle_cancel_request j ps f =
     (case ps of
        None \<Rightarrow> Inl Bad_optional
      | Some text \<Rightarrow>
          (case rj_parse j text of
             None \<Rightarrow> complain ''Unable to parse cancel request'' f
           | Some (J_object kvs) \<Rightarrow>
               (let cancel = (\<lambda>i.
                  case in_flight f (Id_string i) of
                    None \<Rightarrow> Inr (True, f)
                  | Some (source, _) \<Rightarrow>
                      sbind (request_cancellation source (states f)) (\<lambda>st. Inr (True, f\<lparr>states := st\<rparr>)))
                in case map_of kvs ''id'' of
                     None \<Rightarrow> complain ''Cancel request missing id'' f
                   | Some (J_int n) \<Rightarrow> cancel (int_text n)
                   | Some (J_string s) \<Rightarrow> cancel (c_string s)
                   | Some _ \<Rightarrow> complain ''Cancel request malformed'' f)
           | Some _ \<Rightarrow> complain ''Invalid cancel request'' f))"

definition notify_server ::
    "rapidjson \<Rightarrow> handlers \<Rightarrow> string \<Rightarrow> string option \<Rightarrow> frontend \<Rightarrow> fe" where
  "notify_server j h m ps f =
     (if m = ''$/cancelRequest'' then handle_cancel_request j ps f
      else case on_notification h m of
             None \<Rightarrow> complain (''Ignoring unhandled notification '' @ c_string m) f
           | Some g \<Rightarrow> sbind (run_commands j (g ps) f) (\<lambda>f. Inr (True, f)))"

definition handle_notification ::
    "rapidjson \<Rightarrow> handlers \<Rightarrow> string \<Rightarrow> string option \<Rightarrow> frontend \<Rightarrow> fe" where
  "handle_notification j h m ps f =
     (if m \<noteq> ''exit'' \<and> \<not> started f then
        complain (''Ignoring notification '' @ [CHR 0x27] @ c_string m @ [CHR 0x27] @ '' before initialization'') f
      else if m = ''exit'' then notify_server j h m ps (f\<lparr>running := False\<rparr>)
      else notify_server j h m ps f)"

definition params_of :: "rapidjson \<Rightarrow> json \<Rightarrow> string option" where
  "params_of j d = map_option (\<lambda>v. c_string (rj_print j v)) (member d ''params'')"

definition result_of :: "rapidjson \<Rightarrow> json \<Rightarrow> result option" where
  "result_of j v =
     (case v of
        J_int i \<Rightarrow> Some (R_int i) | J_string s \<Rightarrow> Some (R_string (c_string s)) | J_null \<Rightarrow> Some R_null
      | J_bool b \<Rightarrow> Some (R_bool b) | J_object _ \<Rightarrow> Some (R_json (c_string (rj_print j v))) | _ \<Rightarrow> None)"

definition id_of :: "json \<Rightarrow> rid option" where
  "id_of v = (case v of J_int i \<Rightarrow> Some (Id_int i) | J_string s \<Rightarrow> Some (Id_string (c_string s)) | _ \<Rightarrow> None)"

text \<open>The members of an error response, as the code reads them.\<close>

definition failure_of :: "json \<Rightarrow> rpc_error + int \<times> string \<times> string option" where
  "failure_of d =
     sbind (the_member d ''error'') (\<lambda>e.
     sbind (sbind (the_member e ''id'') get_int) (\<lambda>code.
     sbind (sbind (the_member e ''message'') get_text) (\<lambda>msg.
       case member e ''data'' of
         None \<Rightarrow> Inr (code, msg, None)
       | Some _ \<Rightarrow> sbind (the_member d ''result'') (\<lambda>r. sbind (the_member r ''data'') (\<lambda>_. Inr (code, msg, Some []))))))"

definition handle_response :: "rapidjson \<Rightarrow> handlers \<Rightarrow> json \<Rightarrow> json \<Rightarrow> frontend \<Rightarrow> fe" where
  "handle_response j h d i f =
     (if id_of i = None \<and> i \<noteq> J_null then complain ''Jsonrpc message is a response with invalid id'' f
      else case member d ''result'' of
        Some v \<Rightarrow>
          sbind (if result_of j v = None then frontend_diagnose ''Jsonrpc message is a response with invalid result'' f
                 else Inr f) (\<lambda>f.
            handle_success j h (id_of i) (result_of j v) f)
      | None \<Rightarrow>
          if member d ''error'' = None then complain ''Couldnt tell if jsonrpc response is success or error'' f
          else sbind (failure_of d) (\<lambda>(code, msg, data). handle_failure j h (id_of i) code msg data f))"

definition handle_message :: "rapidjson \<Rightarrow> handlers \<Rightarrow> string \<Rightarrow> frontend \<Rightarrow> fe" where
  "handle_message j h text f =
     (case rj_parse j text of
        None \<Rightarrow> complain ''Jsonrpc message could not be parsed'' f
      | Some d \<Rightarrow>
          (case d of
             J_object _ \<Rightarrow>
               (case (member d ''id'', member d ''method'') of
                  (Some i, Some m) \<Rightarrow>
                    (case id_of i of
                       None \<Rightarrow> complain ''Jsonrpc message is a request with invalid id'' f
                     | Some i \<Rightarrow> sbind (get_text m) (\<lambda>m. handle_request j h i m (params_of j d) f))
                | (Some i, None) \<Rightarrow> handle_response j h d i f
                | (None, Some m) \<Rightarrow> sbind (get_text m) (\<lambda>m. handle_notification j h m (params_of j d) f)
                | (None, None) \<Rightarrow>
                    complain ''Jsonrpc message isn't a request, response nor notification'' f)
           | _ \<Rightarrow> complain ''Jsonrpc message is not an object'' f))"

section \<open>What every operation keeps\<close>

text \<open>
  All operations are made of the same few changes of the state. A relation that holds for each of
  them holds for the operations: the locale states it once.
\<close>

locale unchanged =
  fixes R :: "frontend \<Rightarrow> frontend \<Rightarrow> bool"
  assumes refl: "R f f"
    and trans: "R f g \<Longrightarrow> R g k \<Longrightarrow> R f k"
    and diagnosing: "R f (f\<lparr>diagnosed := ds\<rparr>)"
    and writing: "R f (write_text t f)"
    and asking: "R f (f\<lparr>out_flight := waiting\<rparr>)"
    and numbering: "R f (f\<lparr>next_outgoing := n\<rparr>)"
    and starting: "R f (f\<lparr>started := b\<rparr>)"
    and shutting: "R f (f\<lparr>shut_down := b\<rparr>)"
    and exiting: "R f (f\<lparr>running := b\<rparr>)"
    and cancelling: "R f (f\<lparr>states := st\<rparr>)"
    and answering: "p < length (objects f) \<Longrightarrow> \<not> rq_replied (objects f ! p) \<Longrightarrow> R f (mark_answered p f)"
    and receiving: "R f (snd (new_request i m ps f))"
begin

definition keeps :: "frontend \<Rightarrow> fe \<Rightarrow> bool" where
  "keeps f m \<longleftrightarrow> (\<forall>b g. m = Inr (b, g) \<longrightarrow> R f g)"

lemma keeps_Inl [simp, intro]: "keeps f (Inl e)"
  by (simp add: keeps_def)

lemma keeps_Inr [simp]: "keeps f (Inr (b, g)) \<longleftrightarrow> R f g"
  by (simp add: keeps_def)

lemma keeps_after: "R f g \<Longrightarrow> keeps g m \<Longrightarrow> keeps f m"
  by (auto simp: keeps_def intro: trans)

lemma keeps_bind:
  "keeps f m \<Longrightarrow> (\<And>b g. keeps g (k (b, g))) \<Longrightarrow> keeps f (sbind m k)"
  by (auto simp: sbind_def keeps_def split: sum.splits intro: trans)

lemma keeps_diagnosed:
  assumes "\<And>g. R f g \<Longrightarrow> keeps f (k g)"
  shows "keeps f (sbind (frontend_diagnose t f) k)"
  using assms by (auto simp: frontend_diagnose_def refl diagnosing)

lemma keeps_text: "(\<And>t. keeps f (k t)) \<Longrightarrow> keeps f (sbind (m :: rpc_error + 'a) k)"
  by (cases m) auto

lemma keeps_written: "R f g \<Longrightarrow> keeps f (sbind (m :: rpc_error + string) (\<lambda>t. Inr (True, write_text t g)))"
  by (rule keeps_text) (auto intro: trans writing)

lemma complain_keeps [intro]: "keeps f (complain t f)"
  unfolding complain_def by (rule keeps_diagnosed) simp

lemma keeps_bind_state:
  "\<forall>g. m = Inr g \<longrightarrow> R f g \<Longrightarrow> (\<And>g. R f g \<Longrightarrow> keeps f (k g)) \<Longrightarrow> keeps f (sbind m k)"
  by (cases m) auto

lemma send_response_keeps [intro]: "keeps f (send_response j i body request f)"
proof (cases request)
  case None
  then show ?thesis by (simp add: send_response_def keeps_text writing)
next
  case (Some p)
  show ?thesis
  proof (cases "p < length (objects f) \<and> \<not> rq_replied (objects f ! p)")
    case False
    then show ?thesis using Some by (auto simp: send_response_def)
  next
    case True
    then show ?thesis using Some by (simp add: send_response_def keeps_written answering)
  qed
qed

lemma send_notification_keeps [intro]: "keeps f (send_notification j m ps f)"
  unfolding send_notification_def by (rule keeps_text) (simp add: writing)

lemma send_request_keeps: "keeps f (send_request j r f)"
  unfolding send_request_def Let_def
  by (rule keeps_written [OF asking])

lemma client_request_keeps [intro]: "keeps f (client_request j m ps cb f)"
  unfolding client_request_def Let_def
  by (rule keeps_after [OF numbering send_request_keeps])

lemma run_command_keeps [intro]: "keeps f (run_command j c f)"
  by (cases c) (auto simp: reply_def reply_error_def)

lemma run_commands_keep: "run_commands j cs f = Inr g \<Longrightarrow> R f g"
proof (induction cs arbitrary: f)
  case Nil
  then show ?case by (simp add: refl)
next
  case (Cons c cs)
  then obtain b k where k: "run_command j c f = Inr (b, k)" "run_commands j cs k = Inr g"
    by (auto simp: sbind_Inr_iff)
  then have "R f k" using run_command_keeps [of f j c] by (auto simp: keeps_def)
  then show ?case using Cons.IH [OF k(2)] by (rule trans)
qed

lemma run_commands_keeps:
  "(\<And>g. R f g \<Longrightarrow> keeps f (k g)) \<Longrightarrow> keeps f (sbind (run_commands j cs f) k)"
  by (rule keeps_bind_state) (auto intro: run_commands_keep)

lemma unregistered_keeps: "keeps f (unregistered j i code m f)"
  unfolding unregistered_def by (rule keeps_bind) (auto simp: refl)

lemma serve_request_keeps: "keeps f (serve_request j h i m ps f)"
proof (cases "on_request h m")
  case None
  then show ?thesis
    by (auto simp: serve_request_def intro!: keeps_diagnosed intro: keeps_after unregistered_keeps)
next
  case (Some a)
  obtain p k where new: "new_request i m ps f = (p, k)" by fastforce
  then have "R f k" using receiving [of f i m ps] by simp
  then show ?thesis
    using new Some by (auto simp: serve_request_def intro!: keeps_after [of f k] run_commands_keeps)
qed

lemma handle_request_keeps [intro]: "keeps f (handle_request j h i m ps f)"
proof -
  have before: "keeps f (sbind (frontend_diagnose t f) (\<lambda>f. unregistered j i code msg f))" for t code msg
    by (auto intro!: keeps_diagnosed intro: keeps_after unregistered_keeps)
  have "keeps f (serve_request j h i m ps (f\<lparr>started := True, shut_down := True\<rparr>))" for m
    by (rule keeps_after [OF trans [OF starting shutting] serve_request_keeps])
  then show ?thesis
    by (simp add: handle_request_def before keeps_after [OF starting serve_request_keeps])
qed

lemma answer_with_keeps [intro]: "keeps f (answer_with j h i msg a b f)"
proof (cases "out_flight f i")
  case (Some r)
  have "keeps g (case og_handler r of
      None \<Rightarrow> sbind (frontend_diagnose b g) (\<lambda>f. Inr (True, f))
    | Some cb \<Rightarrow> sbind (run_commands j (on_response h cb (msg r)) g) (\<lambda>f. Inr (True, f)))" for g
    by (auto split: option.splits intro!: keeps_diagnosed run_commands_keeps)
  then show ?thesis using Some by (simp add: answer_with_def Let_def) (rule keeps_after [OF asking])
qed (auto simp: answer_with_def)

lemma handle_success_keeps [intro]: "keeps f (handle_success j h i r f)"
  by (auto simp: handle_success_def split: option.splits)

lemma handle_failure_keeps [intro]: "keeps f (handle_failure j h i code m d f)"
  by (auto simp: handle_failure_def split: option.splits rid.splits)

lemma handle_cancel_request_keeps [intro]: "keeps f (handle_cancel_request j ps f)"
  by (auto simp: handle_cancel_request_def Let_def refl request_cancellation_def cancelling
      split: option.splits json.splits)

lemma notify_server_keeps [intro]: "keeps f (notify_server j h m ps f)"
  by (auto simp: notify_server_def split: option.splits intro!: run_commands_keeps)

lemma handle_notification_keeps [intro]: "keeps f (handle_notification j h m ps f)"
  by (simp add: handle_notification_def complain_keeps notify_server_keeps
      keeps_after [OF exiting notify_server_keeps])

lemma handle_response_keeps: "keeps f (handle_response j h d i f)"
proof -
  have "keeps f (sbind (failure_of d) (\<lambda>(code, msg, data). handle_failure j h k code msg data f))" for k
    by (rule keeps_text) auto
  then show ?thesis
    by (auto simp: handle_response_def split: option.splits
        intro!: keeps_diagnosed intro: keeps_after)
qed

lemma handle_message_keeps: "keeps f (handle_message j h msg f)"
  by (auto simp: handle_message_def handle_response_keeps split: option.splits json.splits
      intro!: keeps_text)

end

section \<open>The loop of the server\<close>

lemma stdio_write_input [simp]: "input_left (stdio_write t s) = input_left s"
  by (simp add: stdio_write_def input_left_def)

lemma forget_request_conn [simp]: "conn (forget_request p f) = conn f"
  by (simp add: forget_request_def Let_def split: option.split)

lemma mark_answered_conn [simp]: "conn (mark_answered p f) = conn f"
  by (simp add: mark_answered_def)

text \<open>Handling a message reads nothing.\<close>

interpretation input: unchanged "\<lambda>f g. input_left (conn g) = input_left (conn f)"
  by unfold_locales (simp_all add: write_text_def new_request_def Let_def)

lemma handle_message_input:
  "handle_message j h t f = Inr (b, g) \<Longrightarrow> input_left (conn g) = input_left (conn f)"
  using input.handle_message_keeps [of f j h t] by (simp add: input.keeps_def)

function forever_loop :: "rapidjson \<Rightarrow> handlers \<Rightarrow> frontend \<Rightarrow> fe" where
  "forever_loop j h f =
     (if \<not> running f then Inr (True, f)
      else case stdio_read (conn f) of
        Inl e \<Rightarrow> Inl (Transport e)
      | Inr (m, s) \<Rightarrow>
          if \<not> is_good s then Inr (False, f\<lparr>conn := s\<rparr>)
          else (case m of
            None \<Rightarrow> forever_loop j h (f\<lparr>conn := s\<rparr>)
          | Some t \<Rightarrow>
              (case handle_message j h t (f\<lparr>conn := s\<rparr>) of
                 Inl e \<Rightarrow> Inl e
               | Inr (_, f) \<Rightarrow> forever_loop j h f)))"
  by pat_completeness auto

termination forever_loop
proof (relation "measure (\<lambda>(j, h, f). input_left (conn f))", goal_cases)
  case 1
  show ?case by simp
next
  case (2 j h f a m s)
  then show ?case using stdio_read_left [of "conn f" m s] by simp
next
  case (3 j h f a m s t b f' g)
  then have "input_left (conn g) = input_left s"
    using handle_message_input [of j h t "f\<lparr>conn := s\<rparr>" _ g] by (metis frontend.select_convs(1) frontend.surjective frontend.update_convs(1) prod.exhaust)
  then show ?case using 3 stdio_read_left [of "conn f" m s] by simp
qed

declare forever_loop.simps [simp del]

text \<open>\<open>run\<close>: whether the server was shut down and then told to exit.\<close>

definition server_run :: "rapidjson \<Rightarrow> handlers \<Rightarrow> frontend \<Rightarrow> fe" where
  "server_run j h f =
     sbind (forever_loop j h f) (\<lambda>(exited, f). Inr (exited \<and> shut_down f, f))"

section \<open>The requests of the client\<close>

text \<open>
  The requests in flight are unanswered, each under its own identifier; the internal numbers are those
  of the objects; an unanswered request is in flight, or a later one took its identifier.
\<close>

definition requests_ok :: "frontend \<Rightarrow> bool" where
  "requests_ok f \<longleftrightarrow>
     next_internal f = length (objects f)
     \<and> (\<forall>p < length (objects f). rq_internal (objects f ! p) = Suc p \<and> rq_token (objects f ! p) = None)
     \<and> (\<forall>i s p. in_flight f i = Some (s, p) \<longrightarrow>
          s = None \<and> p < length (objects f) \<and> rq_id (objects f ! p) = i \<and> \<not> rq_replied (objects f ! p))
     \<and> distinct (answered f) \<and> set (answered f) = {p. p < length (objects f) \<and> rq_replied (objects f ! p)}
     \<and> (\<forall>p < length (objects f). \<not> rq_replied (objects f ! p) \<longrightarrow>
          in_flight f (rq_id (objects f ! p)) = Some (None, p)
          \<or> (\<exists>q. p < q \<and> q < length (objects f) \<and> rq_id (objects f ! q) = rq_id (objects f ! p)))"

lemma requests_okD:
  assumes "requests_ok f"
  shows "next_internal f = length (objects f)"
    and "p < length (objects f) \<Longrightarrow> rq_internal (objects f ! p) = Suc p"
    and "p < length (objects f) \<Longrightarrow> rq_token (objects f ! p) = None"
    and "in_flight f i = Some (s, p) \<Longrightarrow> s = None \<and> p < length (objects f) \<and> rq_id (objects f ! p) = i
           \<and> \<not> rq_replied (objects f ! p)"
    and "distinct (answered f)"
    and "set (answered f) = {p. p < length (objects f) \<and> rq_replied (objects f ! p)}"
    and "p < length (objects f) \<Longrightarrow> \<not> rq_replied (objects f ! p) \<Longrightarrow>
           in_flight f (rq_id (objects f ! p)) = Some (None, p)
           \<or> (\<exists>q. p < q \<and> q < length (objects f) \<and> rq_id (objects f ! q) = rq_id (objects f ! p))"
  using assms unfolding requests_ok_def by blast+

lemma requests_okI:
  assumes "next_internal f = length (objects f)"
    and "\<And>p. p < length (objects f) \<Longrightarrow> rq_internal (objects f ! p) = Suc p \<and> rq_token (objects f ! p) = None"
    and "\<And>i s p. in_flight f i = Some (s, p) \<Longrightarrow> s = None \<and> p < length (objects f)
           \<and> rq_id (objects f ! p) = i \<and> \<not> rq_replied (objects f ! p)"
    and "distinct (answered f)"
    and "\<And>p. p \<in> set (answered f) \<longleftrightarrow> p < length (objects f) \<and> rq_replied (objects f ! p)"
    and "\<And>p. p < length (objects f) \<Longrightarrow> \<not> rq_replied (objects f ! p) \<Longrightarrow>
           in_flight f (rq_id (objects f ! p)) = Some (None, p)
           \<or> (\<exists>q. p < q \<and> q < length (objects f) \<and> rq_id (objects f ! q) = rq_id (objects f ! p))"
  shows "requests_ok f"
  unfolding requests_ok_def using assms by (intro conjI allI impI) blast+

text \<open>Answering erases the entry of the request if it still has one, and no other.\<close>

lemma mark_answered_parts:
  assumes "requests_ok f" and "p < length (objects f)"
  shows "objects (mark_answered p f) = (objects f)[p := (objects f ! p)\<lparr>rq_replied := True\<rparr>]"
    and "answered (mark_answered p f) = p # answered f"
    and "next_internal (mark_answered p f) = next_internal f"
    and "in_flight (mark_answered p f) i = (if in_flight f i = Some (None, p) then None else in_flight f i)"
proof -
  let ?i = "rq_id (objects f ! p)"
  show "objects (mark_answered p f) = (objects f)[p := (objects f ! p)\<lparr>rq_replied := True\<rparr>]"
    and "answered (mark_answered p f) = p # answered f"
    and "next_internal (mark_answered p f) = next_internal f"
    by (simp_all add: mark_answered_def forget_request_def Let_def split: option.split)
  have other: "in_flight f k = Some (None, p) \<Longrightarrow> k = ?i" for k
    using requests_okD(4) [OF assms(1)] by blast
  show "in_flight (mark_answered p f) i = (if in_flight f i = Some (None, p) then None else in_flight f i)"
  proof (cases "in_flight f ?i")
    case None
    then have "in_flight (mark_answered p f) i = in_flight f i"
      using assms(2) by (simp add: mark_answered_def forget_request_def)
    then show ?thesis using other [of i] None by auto
  next
    case (Some sq)
    then obtain q where q: "in_flight f ?i = Some (None, q)" "q < length (objects f)"
      using requests_okD(4) [OF assms(1)] by (metis surj_pair)
    have "rq_internal ((objects f)[p := (objects f ! p)\<lparr>rq_replied := True\<rparr>] ! q) = Suc q"
      using requests_okD(2) [OF assms(1) q(2)] by (cases "q = p") (simp_all add: assms(2))
    moreover have "rq_internal (objects f ! p) = Suc p" by (rule requests_okD(2) [OF assms])
    ultimately have fl: "in_flight (mark_answered p f) i
        = (if q = p then ((in_flight f)(?i := None)) i else in_flight f i)"
      using q assms(2) by (simp add: mark_answered_def forget_request_def Let_def)
    show ?thesis
    proof (cases "in_flight f i = Some (None, p)")
      case True
      then have "i = ?i" and "q = p" using other [of i] q(1) by simp_all
      then show ?thesis using fl True by simp
    next
      case False
      then have "q = p \<Longrightarrow> i \<noteq> ?i" using q(1) by auto
      then show ?thesis using fl False by simp
    qed
  qed
qed

lemma mark_answered_ok:
  assumes "requests_ok f" and p: "p < length (objects f)" and "\<not> rq_replied (objects f ! p)"
  shows "requests_ok (mark_answered p f)"
proof -
  note parts = mark_answered_parts [OF assms(1,2)] and ok = requests_okD [OF assms(1)]
  have nth: "objects (mark_answered p f) ! q
      = (if q = p then (objects f ! p)\<lparr>rq_replied := True\<rparr> else objects f ! q)" for q
    using p by (simp add: parts(1))
  have len: "length (objects (mark_answered p f)) = length (objects f)" by (simp add: parts(1))
  have id: "rq_id (objects (mark_answered p f) ! q) = rq_id (objects f ! q)" for q
    by (simp add: nth)
  show ?thesis
  proof (rule requests_okI, goal_cases)
    case 1 then show ?case using ok(1) by (simp add: parts)
  next
    case (2 q) then show ?case using ok(2,3) [of q] by (auto simp: len nth split: if_splits)
  next
    case (3 i s q)
    then have "in_flight f i = Some (s, q)" "q \<noteq> p"
      using ok(4) by (auto simp: parts(4) split: if_splits)
    then show ?case using ok(4) by (auto simp: len nth split: if_splits)
  next
    case 4 then show ?case using ok(5,6) assms(3) by (auto simp: parts(2))
  next
    case (5 q) then show ?case using ok(6) p by (auto simp: len parts(2) nth)
  next
    case (6 q)
    then have "q \<noteq> p" "q < length (objects f)" "\<not> rq_replied (objects f ! q)"
      by (auto simp: len nth split: if_splits)
    then show ?case using ok(7) [of q] by (auto simp: len parts(4) id)
  qed
qed

lemma new_request_ok:
  assumes "requests_ok f"
  shows "requests_ok (snd (new_request i m ps f))" (is "requests_ok ?g")
proof -
  note ok = requests_okD [OF assms]
  let ?n = "length (objects f)"
  have len: "length (objects ?g) = Suc ?n" and ans: "answered ?g = answered f"
    and fl: "in_flight ?g = (in_flight f)(i := Some (None, ?n))" and ni: "next_internal ?g = Suc (next_internal f)"
    by (simp_all add: new_request_def Let_def cancellation_source_def)
  have old: "q < ?n \<Longrightarrow> objects ?g ! q = objects f ! q" for q
    by (simp add: new_request_def Let_def nth_append)
  have new: "rq_id (objects ?g ! ?n) = i" "\<not> rq_replied (objects ?g ! ?n)"
      "rq_internal (objects ?g ! ?n) = Suc (next_internal f)" "rq_token (objects ?g ! ?n) = None"
    by (simp_all add: new_request_def Let_def token_of_def cancellation_source_def)
  show ?thesis
  proof (rule requests_okI, goal_cases)
    case 1 then show ?case using ok(1) by (simp add: ni len)
  next
    case (2 q) then show ?case using ok(1-3) old [of q] new by (cases "q = ?n") (auto simp: len)
  next
    case (3 k s q)
    then show ?case using ok(4) [of k s q] old [of q] new by (auto simp: fl len split: if_splits)
  next
    case 4 then show ?case using ok(5) by (simp add: ans)
  next
    case (5 q)
    consider "q = ?n" | "q < ?n" | "?n < q" by linarith
    then show ?case by cases (simp_all add: ans len ok(6) old new)
  next
    case (6 q)
    show ?case
    proof (cases "q = ?n")
      case True then show ?thesis by (simp add: fl new(1))
    next
      case False
      then have q: "q < ?n" using 6(1) by (simp add: len)
      consider "in_flight f (rq_id (objects f ! q)) = Some (None, q)"
        | r where "q < r" "r < ?n" "rq_id (objects f ! r) = rq_id (objects f ! q)"
        using ok(7) [OF q] 6(2) old [OF q] by auto
      then show ?thesis
      proof cases
        case 1
        then show ?thesis using q new(1) by (cases "rq_id (objects f ! q) = i") (auto simp: fl len old)
      next
        case 2
        then show ?thesis using q old by (auto simp: len intro!: exI [of _ r])
      qed
    qed
  qed
qed

lemma requests_ok_cong:
  "\<lbrakk>next_internal g = next_internal f; objects g = objects f; in_flight g = in_flight f; answered g = answered f\<rbrakk>
   \<Longrightarrow> requests_ok f \<longrightarrow> requests_ok g"
  by (simp add: requests_ok_def)

interpretation requests: unchanged "\<lambda>f g. requests_ok f \<longrightarrow> requests_ok g"
proof (unfold_locales, goal_cases)
  case (11 p f) then show ?case by (simp add: mark_answered_ok)
next
  case (12 f i m ps) then show ?case by (simp add: new_request_ok)
qed (simp, blast, (rule requests_ok_cong; simp add: write_text_def)+)

section \<open>The states a server can get into\<close>

text \<open>
  The steps: the main thread reads, or handles a message, whatever its text; another thread makes a
  call on any request it was given. Each is one step: the maps are guarded by mutexes.
\<close>

inductive reachable :: "rapidjson \<Rightarrow> handlers \<Rightarrow> frontend \<Rightarrow> bool" for j h where
  begins: "reachable j h (frontend_new s d)"
| reads_on: "reachable j h f \<Longrightarrow> reachable j h (f\<lparr>conn := s\<rparr>)"
| handles: "reachable j h f \<Longrightarrow> handle_message j h t f = Inr (b, g) \<Longrightarrow> reachable j h g"
| calls: "reachable j h f \<Longrightarrow> run_command j c f = Inr (b, g) \<Longrightarrow> reachable j h g"

lemma reachable_requests_ok: "reachable j h f \<Longrightarrow> requests_ok f"
proof (induction rule: reachable.induct)
  case (begins s d)
  then show ?case by (simp add: requests_ok_def frontend_new_def)
next
  case (reads_on f s)
  then show ?case by (simp add: requests_ok_def)
next
  case (handles f t b g)
  then show ?case using requests.handle_message_keeps [of f j h t] by (simp add: requests.keeps_def)
next
  case (calls f c b g)
  then show ?case using requests.run_command_keeps [of f j c] by (simp add: requests.keeps_def)
qed

text \<open>A small JSON library and a server, for the examples.\<close>

definition sample_json :: "(string \<times> json) list \<Rightarrow> rapidjson" where
  "sample_json known =
     \<lparr>rj_parse = map_of known, rj_print = (\<lambda>_. ''{}''), rj_quote = (\<lambda>s. s)\<rparr>"

definition sample_handlers :: handlers where
  "sample_handlers =
     \<lparr>on_notification = (\<lambda>_. None),
      on_request = (\<lambda>m. if m = ''initialize'' then Some (\<lambda>p _. [C_reply p (Some R_null)])
                       else if m = ''hover'' then Some (\<lambda>_ _. []) else None),
      on_response = (\<lambda>_ _. [])\<rparr>"

text \<open>A message that is the request \<open>m\<close>, for a library that reads any text as that request.\<close>

definition request_json :: "json \<Rightarrow> string \<Rightarrow> json" where
  "request_json i m = J_object [(''id'', i), (''method'', J_string m)]"

definition sample_rpc :: rapidjson where
  "sample_rpc = sample_json
     [(''i'', request_json (J_int 1) ''initialize''), (''h'', request_json (J_int 7) ''hover''),
      (''s'', request_json (J_string ''7'') ''hover''),
      (''e'', J_object [(''id'', J_int 1), (''error'', J_object [(''code'', J_int 3), (''message'', J_string ''x'')])]),
      (''n'', J_object [(''id'', J_int 7)]), (''t'', J_object [(''id'', J_string ''7'')])]"

primrec after_texts :: "string list \<Rightarrow> frontend \<Rightarrow> rpc_error + frontend" where
  "after_texts [] f = Inr f"
| "after_texts (t # ts) f =
     sbind (handle_message sample_rpc sample_handlers t f) (\<lambda>(_, f). after_texts ts f)"

lemma after_texts_reachable:
  "reachable sample_rpc sample_handlers f \<Longrightarrow> after_texts ts f = Inr g \<Longrightarrow>
   reachable sample_rpc sample_handlers g"
  by (induction ts arbitrary: f) (auto simp: sbind_Inr_iff intro: handles)

definition sample_frontend :: "string list \<Rightarrow> frontend" where
  "sample_frontend ts = projr (after_texts ts (frontend_new (sample_stdio []) True))"

lemma sample_reachable:
  "\<not> isl (after_texts ts (frontend_new (sample_stdio []) True)) \<Longrightarrow>
   reachable sample_rpc sample_handlers (sample_frontend ts)"
  by (rule after_texts_reachable [OF begins]) (simp add: sample_frontend_def)

lemma sample_with_hover: "reachable sample_rpc sample_handlers (sample_frontend [''i'', ''h'', ''s''])"
  by (rule sample_reachable) code_simp



text \<open>C27. Cancelling never cancels. The identifier in the notification is made a string, so a request
  with a number for an identifier is not found and nothing happens; a request in flight with that
  string for an identifier is found, and its cancellation source, which has no state, is a null
  pointer that is followed. No request is ever seen as cancelled.
\<close>

theorem cancel_never_cancels:
  assumes "reachable j h f" and "started f" and "rj_parse j ps = Some (J_object kvs)"
    and "map_of kvs ''id'' = Some v" and "v = J_int n \<and> s = int_text n \<or> v = J_string t \<and> s = c_string t"
  shows "handle_notification j h ''$/cancelRequest'' (Some ps) f =
      (if in_flight f (Id_string s) = None then Inr (True, f) else Inl Null_pointer)
    \<and> (\<forall>p < length (objects f). \<not> is_cancelled p f)"
proof -
  note ok = requests_okD [OF reachable_requests_ok [OF assms(1)]]
  have "handle_cancel_request j (Some ps) f =
      (if in_flight f (Id_string s) = None then Inr (True, f) else Inl Null_pointer)"
  proof (cases "in_flight f (Id_string s)")
    case None
    then show ?thesis using assms(3-5) by (auto simp: handle_cancel_request_def)
  next
    case (Some e)
    then obtain p where "e = (None, p)" using ok(4) by (metis surj_pair)
    then show ?thesis
      using Some assms(3-5) by (auto simp: handle_cancel_request_def request_cancellation_def)
  qed
  moreover have "\<forall>p < length (objects f). \<not> is_cancelled p f"
    using ok(3) by (simp add: is_cancelled_def token_is_cancelled_def)
  ultimately show ?thesis using assms(2) by (simp add: handle_notification_def notify_server_def)
qed

theorem cancel_never_cancels_witness:
  "handle_notification sample_rpc sample_handlers ''$/cancelRequest'' (Some ''n'') (sample_frontend [''i'', ''h'', ''s''])
     = Inl Null_pointer"
proof -
  let ?f = "sample_frontend [''i'', ''h'', ''s'']"
  have "started ?f" "rj_parse sample_rpc ''n'' = Some (J_object [(''id'', J_int 7)])" by code_simp+
  moreover have "int_text 7 = ''7''" "in_flight ?f (Id_string ''7'') \<noteq> None" by code_simp+
  ultimately show ?thesis
    using cancel_never_cancels [OF sample_with_hover, of "''n''" "[(''id'', J_int 7)]" "J_int 7" 7 "''7''"]
    by simp
qed

text \<open>An error response of the client is never handled: the code of the error is read from the member
  \<open>id\<close>, which an error object does not have, and the access asserts. So it is for every JSON-RPC error
  response (an identifier, no method, an error object with a code and no identifier).
\<close>

theorem error_response_asserts:
  assumes "rj_parse j t = Some d" and "d = J_object kvs" and "map_of kvs ''id'' = Some i"
    and "i = J_null \<or> id_of i \<noteq> None" and "map_of kvs ''method'' = None" and "map_of kvs ''result'' = None"
    and "map_of kvs ''error'' = Some (J_object e)" and "map_of e ''id'' = None"
  shows "handle_message j h t f = Inl (Json_assert ''id'')"
proof -
  have "failure_of d = Inl (Json_assert ''id'')"
    using assms(2,7,8) by (simp add: failure_of_def the_member_def member_def)
  moreover have "handle_message j h t f = handle_response j h d i f"
    using assms(1-3,5) by (simp add: handle_message_def member_def)
  moreover have "member d ''result'' = None" "member d ''error'' \<noteq> None" "\<not> (id_of i = None \<and> i \<noteq> J_null)"
    using assms(2,4,6,7) by (auto simp: member_def)
  ultimately show ?thesis by (simp add: handle_response_def)
qed

theorem error_response_asserts_witness:
  "handle_message sample_rpc sample_handlers ''e'' (frontend_new (sample_stdio []) True)
     = Inl (Json_assert ''id'')"
  by (rule error_response_asserts [where i = "J_int 1" and e = "[(''code'', J_int 3), (''message'', J_string ''x'')]"
        and d = "J_object [(''id'', J_int 1), (''error'', J_object [(''code'', J_int 3), (''message'', J_string ''x'')])]"
        and kvs = "[(''id'', J_int 1), (''error'', J_object [(''code'', J_int 3), (''message'', J_string ''x'')])]"])
    (simp_all add: sample_rpc_def sample_json_def id_of_def)

text \<open>A request for a method the server does not know is answered with the code of the protocol for
  it, and the server goes on; but when the name of the method has 226 bytes or more, the text of the
  diagnostic does not fit the buffer, and printing it again is undefined behaviour.
\<close>

theorem unknown_method:
  assumes "started f" and "diagnoses f" and "on_request h m = None" and "m \<noteq> ''shutdown''"
  shows "handle_request j h i m ps f =
    (if length (c_string m) < 226
     then Inr (False, write_text (projr (response_to_json j (Some i) (Err method_not_found ''method not found'' None)))
       (f\<lparr>diagnosed := diagnosed f @ [''Request handler not found for '' @ c_string m @ [CHR 0x00]]\<rparr>))
     else Inl (Undefined ''va_list''))"
proof -
  have same: "f\<lparr>started := True\<rparr> = f" using assms(1) by (cases f) simp
  have "handle_request j h i m ps f = serve_request j h i m ps f"
    using assms(1,4) unfolding handle_request_def same by simp
  moreover have "\<exists>t. response_to_json j (Some i) (Err method_not_found ''method not found'' None) = Inr t"
    by (simp add: response_to_json_def body_text_def)
  ultimately show ?thesis
    using assms
    by (auto simp: serve_request_def frontend_diagnose_def unregistered_def send_response_def)
qed

theorem unknown_method_witness:
  "handle_request sample_rpc sample_handlers (Id_int 2) (replicate 226 CHR ''m'') None
     (sample_frontend [''i'', ''h'', ''s'']) = Inl (Undefined ''va_list'')"
proof -
  let ?f = "sample_frontend [''i'', ''h'', ''s'']" and ?m = "replicate 226 CHR ''m''"
  have "started ?f" "diagnoses ?f" "on_request sample_handlers ?m = None" "?m \<noteq> ''shutdown''"
    "length (c_string ?m) = 226" by code_simp+
  then show ?thesis using unknown_method [of ?f sample_handlers ?m] by simp
qed

end
