(* ===== verification/Library.thy ===== *)
theory Library
  imports Fast_Parser Connection
begin

text \<open>
  The VHDL libraries, \<^verbatim>\<open>src/vhdl/library_manager.cpp\<close>: a library is a table of units in an SQLite
  database, and the manager maps names to libraries. SQLite is not modelled: a statement whose pieces
  hold no quote does what the language says of it, on the rows of the table, and what SQLite does with
  any other text is the function \<open>broken\<close> of the record \<open>sqlite\<close>. \<open>std::hash\<close> is an argument.
\<close>

section \<open>Rows\<close>

type_synonym u64 = "64 word"

text \<open>\<open>id\<close>, the primary key of a unit.\<close>

definition unit_id :: "(string \<Rightarrow> u64) \<Rightarrow> library_unit_kind \<Rightarrow> string \<Rightarrow> string option \<Rightarrow> u64" where
  "unit_id h k name secondary =
     (let mix = (\<lambda>h0. xor (h (case secondary of None \<Rightarrow> [] | Some s \<Rightarrow> s)) (push_bit 1 (xor h0 (push_bit 1 (h name)))))
      in case k of
           Entity \<Rightarrow> mix (h ''primary'') | Package \<Rightarrow> mix (h ''primary'') | Configuration \<Rightarrow> mix (h ''primary'')
         | Architecture \<Rightarrow> mix (h ''secondary'') | Package_body \<Rightarrow> mix (h ''secondary'')
         | Invalid_unit \<Rightarrow> 0)"

text \<open>A row; its column \<open>DESIGNUNIT\<close> is the number of the kind, \<open>IDENTIFIER2\<close> may be \<open>NULL\<close>.\<close>

record row =
  row_id :: u64
  row_line :: u32
  row_time :: nat
  row_file :: string
  row_kind :: nat
  row_name :: string
  row_second :: "string option"

fun kind_number :: "library_unit_kind \<Rightarrow> nat option" where
  "kind_number Entity = Some 1"
| "kind_number Architecture = Some 2"
| "kind_number Package = Some 3"
| "kind_number Package_body = Some 4"
| "kind_number Configuration = Some 5"
| "kind_number Invalid_unit = None"

definition kind_of_number :: "nat \<Rightarrow> library_unit_kind" where
  "kind_of_number n =
     (if n = 1 then Entity else if n = 2 then Architecture else if n = 3 then Package
      else if n = 4 then Package_body else if n = 5 then Configuration else Invalid_unit)"

definition has_second :: "library_unit_kind \<Rightarrow> bool" where
  "has_second k \<longleftrightarrow> k = Architecture \<or> k = Configuration"

section \<open>A library\<close>

record backend =
  be_location :: string
  be_name :: string
  be_known :: bool
  be_valid :: bool
  be_problem :: bool
  be_rows :: "row list"

record sqlite =
  opens :: "string \<Rightarrow> bool"  \<comment> \<open>whether the database can be opened and the table made\<close>
  same_id :: "u64 \<Rightarrow> u64 \<Rightarrow> bool"  \<comment> \<open>equality in the column \<open>ID\<close>: a number from \<open>2\<^sup>6\<^sup>3\<close> on is kept as a floating point number\<close>
  pick :: "row list \<Rightarrow> row"  \<comment> \<open>the row \<open>LIMIT 1\<close> leaves, of those that match\<close>
  broken :: "string \<Rightarrow> row list \<Rightarrow> bool \<times> row list"  \<comment> \<open>an insertion with a quote in one of its texts\<close>
  broken_rows :: "string \<Rightarrow> row list \<Rightarrow> row list"  \<comment> \<open>a selection with one\<close>

definition backend_new :: "string option \<Rightarrow> string \<Rightarrow> bool \<Rightarrow> backend" where
  "backend_new location name known =
     \<lparr>be_location = (case location of None \<Rightarrow> '':memory:'' | Some l \<Rightarrow> l @ ''/'' @ name @ ''.db''),
      be_name = name, be_known = known, be_valid = True, be_problem = False, be_rows = []\<rparr>"

text \<open>A database that cannot be opened leaves \<open>db_\<close> null or the creation of the table fails.\<close>

definition connected :: "sqlite \<Rightarrow> backend \<Rightarrow> bool" where
  "connected q b \<longleftrightarrow> \<not> be_problem b \<and> be_valid b \<and> opens q (be_location b)"

text \<open>Neither a quote nor a zero byte, which would end the statement.\<close>

definition quote_free :: "string \<Rightarrow> bool" where
  "quote_free s \<longleftrightarrow> CHR 0x27 \<notin> set s \<and> CHR 0x00 \<notin> set s"

definition quoted :: "string \<Rightarrow> string" where
  "quoted s = CHR 0x27 # s @ [CHR 0x27]"

definition put_sql :: "(string \<Rightarrow> u64) \<Rightarrow> library_unit \<Rightarrow> nat \<Rightarrow> string" where
  "put_sql h u n =
     ''INSERT OR REPLACE INTO LIBRARY_UNITS (ID,LINENUMBER,TIMESTAMP,FILENAME,DESIGNUNIT,IDENTIFIER,IDENTIFIER2) VALUES (''
     @ decimal (unat (unit_id h (unit_kind u) (unit_name u) (unit_of u))) @ '','' @ decimal (unat (unit_line u))
     @ '','' @ decimal (unit_time u) @ '','' @ quoted (unit_file u) @ '','' @ decimal n @ '','' @ quoted (unit_name u) @ '',''
     @ (if has_second (unit_kind u) then quoted (case unit_of u of None \<Rightarrow> [] | Some s \<Rightarrow> s) else ''NULL'') @ '');''"

definition row_of :: "(string \<Rightarrow> u64) \<Rightarrow> library_unit \<Rightarrow> nat \<Rightarrow> row" where
  "row_of h u n =
     \<lparr>row_id = unit_id h (unit_kind u) (unit_name u) (unit_of u), row_line = unit_line u, row_time = unit_time u,
      row_file = unit_file u, row_kind = n, row_name = unit_name u,
      row_second = (if has_second (unit_kind u) then Some (case unit_of u of None \<Rightarrow> [] | Some s \<Rightarrow> s) else None)\<rparr>"

definition insert_row :: "sqlite \<Rightarrow> row \<Rightarrow> row list \<Rightarrow> row list" where
  \<comment> \<open>\<open>INSERT OR REPLACE\<close>\<close>
  "insert_row q r rs = filter (\<lambda>x. \<not> same_id q (row_id x) (row_id r)) rs @ [r]"

definition put_texts_free :: "library_unit \<Rightarrow> bool" where
  "put_texts_free u \<longleftrightarrow> quote_free (unit_file u) \<and> quote_free (unit_name u)
     \<and> (has_second (unit_kind u) \<longrightarrow> quote_free (case unit_of u of None \<Rightarrow> [] | Some s \<Rightarrow> s))"

definition backend_put :: "sqlite \<Rightarrow> (string \<Rightarrow> u64) \<Rightarrow> library_unit \<Rightarrow> backend \<Rightarrow> bool \<times> backend" where
  "backend_put q h u b =
     (if \<not> connected q b then (False, b)
      else case kind_number (unit_kind u) of
        None \<Rightarrow> (False, b)
      | Some n \<Rightarrow>
          if put_texts_free u then (True, b\<lparr>be_rows := insert_row q (row_of h u n) (be_rows b)\<rparr>)
          else (case broken q (put_sql h u n) (be_rows b) of (ok, rs) \<Rightarrow> (ok, b\<lparr>be_rows := rs\<rparr>)))"

definition not_found :: "string \<Rightarrow> string option \<Rightarrow> library_unit" where
  "not_found name second =
     \<lparr>unit_kind = Invalid_unit, unit_line = 0, unit_column = 0, unit_name = name, unit_of = second,
      unit_file = [], unit_time = 0\<rparr>"

definition matching :: "string \<Rightarrow> string option \<Rightarrow> row list \<Rightarrow> row list" where
  "matching name second rs = filter (\<lambda>r. row_name r = name \<and> row_second r = second) rs"

definition get_sql :: "string \<Rightarrow> string option \<Rightarrow> string" where
  "get_sql name second =
     ''SELECT * from LIBRARY_UNITS where IDENTIFIER='' @ quoted name @ '' and IDENTIFIER2''
     @ (case second of Some s \<Rightarrow> ''='' @ quoted s | None \<Rightarrow> '' is NULL'') @ '' LIMIT 1;''"

text \<open>\<open>get\<close>; a row that was found is copied into the result, except for the column of the unit.\<close>

definition backend_get :: "sqlite \<Rightarrow> string \<Rightarrow> string option \<Rightarrow> backend \<Rightarrow> library_unit" where
  "backend_get q name second b =
     (if \<not> connected q b then not_found name second
      else case (if quote_free name \<and> (\<forall>s. second = Some s \<longrightarrow> quote_free s) then matching name second (be_rows b)
                 else broken_rows q (get_sql name second) (be_rows b)) of
        [] \<Rightarrow> not_found name second
      | r # rs \<Rightarrow>
          (let r = pick q (r # rs)
           in (not_found name second)\<lparr>unit_kind := kind_of_number (row_kind r), unit_line := row_line r,
                unit_file := row_file r, unit_time := row_time r\<rparr>))"

definition backend_clear :: "sqlite \<Rightarrow> backend \<Rightarrow> backend" where
  "backend_clear q b = (if connected q b then b\<lparr>be_rows := []\<rparr> else b)"

definition all_sql :: "nat \<Rightarrow> string option \<Rightarrow> string" where
  "all_sql limit filt =
     ''SELECT * from LIBRARY_UNITS''
     @ (case filt of None \<Rightarrow> [] | Some f \<Rightarrow> '' WHERE IDENTIFIER='' @ quoted f @ '' OR IDENTIFIER2='' @ quoted f)
     @ (if limit \<noteq> 0 then '' LIMIT '' @ decimal limit else []) @ '' ;''"

definition unit_of_row :: "row \<Rightarrow> library_unit" where
  "unit_of_row r =
     (let k = kind_of_number (row_kind r)
      in \<lparr>unit_kind = k, unit_line = row_line r, unit_column = 0, unit_name = row_name r,
          unit_of = (if has_second k then row_second r else None), unit_file = row_file r, unit_time = row_time r\<rparr>)"

definition backend_all :: "sqlite \<Rightarrow> nat \<Rightarrow> string option \<Rightarrow> backend \<Rightarrow> library_unit list" where
  "backend_all q limit filt b =
     (if \<not> connected q b then []
      else
        (let rs = (case filt of
                     None \<Rightarrow> be_rows b
                   | Some f \<Rightarrow>
                       if quote_free f then filter (\<lambda>r. row_name r = f \<or> row_second r = Some f) (be_rows b)
                       else broken_rows q (all_sql limit filt) (be_rows b))
         in map unit_of_row (if limit = 0 then rs else take limit rs)))"

section \<open>The manager\<close>

text \<open>
  A library is shared: \<open>heap\<close> holds all of them, a \<open>shared_ptr\<close> is an index into it, and one that the manager
  has let go of can still be in use. \<open>lbe\<close> is the map of the manager.
\<close>

record libraries =
  heap :: "backend list"
  lbe :: "(string \<times> nat) list"
  is_initialised :: bool
  lm_location :: "string option"
  fully_populated :: bool

definition library_manager_new :: "string option \<Rightarrow> bool \<Rightarrow> libraries" where
  "library_manager_new location populated =
     \<lparr>heap = [], lbe = [], is_initialised = False, lm_location = location, fully_populated = populated\<rparr>"

fun invalidate :: "string \<times> nat \<Rightarrow> backend list \<Rightarrow> backend list" where
  "invalidate (_, p) bs = bs[p := (bs ! p)\<lparr>be_valid := False\<rparr>]"

definition disown :: "libraries \<Rightarrow> libraries" where
  "disown m =
     m\<lparr>heap := fold invalidate (lbe m) (heap m), lbe := []\<rparr>"

definition add_library :: "string option \<Rightarrow> bool \<Rightarrow> string \<Rightarrow> libraries \<Rightarrow> nat \<times> libraries" where
  "add_library location known name m =
     (length (heap m),
      m\<lparr>heap := heap m @ [backend_new location name known], lbe := lbe m @ [(name, length (heap m))]\<rparr>)"

definition library_get :: "string \<Rightarrow> libraries \<Rightarrow> nat \<times> libraries" where
  "library_get name m =
     (case map_of (lbe m) name of
        Some p \<Rightarrow> (p, m)
      | None \<Rightarrow> add_library (lm_location m) (\<not> is_initialised m) name m)"

definition add_missing :: "string \<Rightarrow> libraries \<Rightarrow> libraries" where
  "add_missing name m = (if map_of (lbe m) name = None then snd (add_library None True name m) else m)"

definition library_initialise :: "string list \<Rightarrow> libraries \<Rightarrow> libraries" where
  "library_initialise names m =
     fold add_missing names ((disown m)\<lparr>lm_location := None, is_initialised := True\<rparr>)"

definition library_destroy :: "libraries \<Rightarrow> libraries" where
  "library_destroy m = disown m"

definition library_list :: "libraries \<Rightarrow> string list" where
  "library_list m =
     map be_name (filter (\<lambda>b. be_valid b \<and> be_known b) (map (\<lambda>(_, p). heap m ! p) (lbe m)))"

definition library_put ::
    "sqlite \<Rightarrow> (string \<Rightarrow> u64) \<Rightarrow> nat \<Rightarrow> library_unit \<Rightarrow> libraries \<Rightarrow> bool \<times> libraries" where
  "library_put q h p u m =
     (case backend_put q h u (heap m ! p) of (ok, b) \<Rightarrow> (ok, m\<lparr>heap := (heap m)[p := b]\<rparr>))"

section \<open>Finding what was put\<close>

text \<open>What SQLite promises of \<open>LIMIT 1\<close>: one of the rows.\<close>

definition picks :: "sqlite \<Rightarrow> bool" where
  "picks q \<longleftrightarrow> (\<forall>rs. rs \<noteq> [] \<longrightarrow> pick q rs \<in> set rs)"

lemma picksD: "picks q \<Longrightarrow> rs \<noteq> [] \<Longrightarrow> pick q rs \<in> set rs"
  by (simp add: picks_def)

lemma matching_insert:
  "matching name second (insert_row q r rs) =
     filter (\<lambda>x. \<not> same_id q (row_id x) (row_id r)) (matching name second rs)
     @ (if row_name r = name \<and> row_second r = second then [r] else [])"
  by (simp add: matching_def insert_row_def conj_commute)

lemma put_unit:
  assumes "connected q b" and "kind_number (unit_kind u) = Some n" and "put_texts_free u"
  shows "backend_put q h u b = (True, b\<lparr>be_rows := insert_row q (row_of h u n) (be_rows b)\<rparr>)"
  using assms by (simp add: backend_put_def)

lemma get_unit:
  assumes "connected q b" and "quote_free name" and "picks q" and "matching name None (be_rows b) \<noteq> []"
  obtains r where "r \<in> set (matching name None (be_rows b))"
    and "backend_get q name None b = (not_found name None)\<lparr>unit_kind := kind_of_number (row_kind r),
          unit_line := row_line r, unit_file := row_file r, unit_time := row_time r\<rparr>"
proof -
  obtain r rs where m: "matching name None (be_rows b) = r # rs" using assms(4) by (cases "matching name None (be_rows b)") auto
  show ?thesis
  proof (rule that [of "pick q (r # rs)"])
    show "pick q (r # rs) \<in> set (matching name None (be_rows b))" using picksD [OF assms(3), of "r # rs"] m by simp
    show "backend_get q name None b = (not_found name None)\<lparr>unit_kind := kind_of_number (row_kind (pick q (r # rs))),
        unit_line := row_line (pick q (r # rs)), unit_file := row_file (pick q (r # rs)),
        unit_time := row_time (pick q (r # rs))\<rparr>"
      using assms(1,2) m by (simp add: backend_get_def Let_def)
  qed
qed

lemma kind_number_inverse: "kind_number k = Some n \<Longrightarrow> kind_of_number n = k"
  by (cases k) (auto simp: kind_of_number_def)


definition sample_sqlite :: sqlite where
  "sample_sqlite = \<lparr>opens = (\<lambda>_. True), same_id = (=), pick = last, broken = (\<lambda>_ rs. (False, rs)), broken_rows = (\<lambda>_ _. [])\<rparr>"

definition sample_unit :: "library_unit_kind \<Rightarrow> string \<Rightarrow> library_unit" where
  "sample_unit k name =
     \<lparr>unit_kind = k, unit_line = 3, unit_column = 4, unit_name = name, unit_of = None, unit_file = ''f.vhd'', unit_time = 0\<rparr>"

definition sample_hash :: "string \<Rightarrow> u64" where
  "sample_hash s = of_nat (length s)"

lemma sample_picks: "picks sample_sqlite"
  by (simp add: picks_def sample_sqlite_def)

lemma sample_connected: "connected sample_sqlite (backend_new None ''work'' True)"
  by (simp add: connected_def backend_new_def sample_sqlite_def)


text \<open>A package body hides its package: the body is a row of the same name without a second
  identifier, so the row that \<open>LIMIT 1\<close> leaves of a search for the package may be the body's, and the
  package is then reported as a package body, which no caller takes for a package.
\<close>

theorem package_hidden_by_body:
  assumes "connected q b" and "put_texts_free u" and "unit_kind u = Package" and "body = u\<lparr>unit_kind := Package_body\<rparr>"
    and "\<not> same_id q (unit_id h Package (unit_name u) (unit_of u)) (unit_id h Package_body (unit_name u) (unit_of u))"
    and "b' = snd (backend_put q h body (snd (backend_put q h u b)))"
  shows "\<exists>limit1. picks (q\<lparr>pick := limit1\<rparr>)
    \<and> unit_kind (backend_get (q\<lparr>pick := limit1\<rparr>) (unit_name u) None b') = Package_body"
proof -
  let ?r = "row_of h u 3" and ?s = "row_of h body 4"
  have body: "put_texts_free body" "kind_number (unit_kind body) = Some 4" "unit_name body = unit_name u"
    using assms(2,4) by (simp_all add: put_texts_free_def has_second_def assms(3))
  have "snd (backend_put q h u b) = b\<lparr>be_rows := insert_row q ?r (be_rows b)\<rparr>" (is "_ = ?b1")
    by (subst put_unit [OF assms(1) _ assms(2)]) (simp_all add: assms(3))
  moreover have "connected q ?b1" using assms(1) by (simp add: connected_def)
  ultimately have b': "b' = b\<lparr>be_rows := insert_row q ?s (insert_row q ?r (be_rows b))\<rparr>"
    using put_unit [OF _ body(2,1)] assms(6) by simp
  have "matching (unit_name u) None (be_rows b') \<noteq> []" "last (matching (unit_name u) None (be_rows b')) = ?s"
    using body(3) assms(4) by (simp_all add: b' matching_insert row_of_def has_second_def)
  then obtain r rs where m: "matching (unit_name u) None (be_rows b') = r # rs" and s: "last (r # rs) = ?s"
    by (cases "matching (unit_name u) None (be_rows b')") auto
  have "row_kind ?s = 4" by (simp add: row_of_def)
  moreover have "picks (q\<lparr>pick := last\<rparr>)" by (simp add: picks_def)
  moreover have "connected (q\<lparr>pick := last\<rparr>) b'" using assms(1) by (simp add: connected_def b')
  moreover have "quote_free (unit_name u)" using assms(2) by (simp add: put_texts_free_def)
  ultimately have "unit_kind (backend_get (q\<lparr>pick := last\<rparr>) (unit_name u) None b') = Package_body"
    using m s by (simp add: backend_get_def kind_of_number_def Let_def del: last.simps)
  then show ?thesis using \<open>picks (q\<lparr>pick := last\<rparr>)\<close> by blast
qed

theorem package_hidden_by_body_witness:
  "\<exists>limit1. picks (sample_sqlite\<lparr>pick := limit1\<rparr>)
    \<and> unit_kind (backend_get (sample_sqlite\<lparr>pick := limit1\<rparr>) ''pkg'' None
        (snd (backend_put sample_sqlite sample_hash (sample_unit Package_body ''pkg'')
          (snd (backend_put sample_sqlite sample_hash (sample_unit Package ''pkg'') (backend_new None ''work'' True))))))
      = Package_body"
proof -
  have "\<not> same_id sample_sqlite (unit_id sample_hash Package ''pkg'' None) (unit_id sample_hash Package_body ''pkg'' None)"
    by code_simp
  then show ?thesis
    using package_hidden_by_body [OF sample_connected, of "sample_unit Package ''pkg''" "sample_unit Package_body ''pkg''" sample_hash]
    by (simp add: sample_unit_def put_texts_free_def quote_free_def has_second_def)
qed

section \<open>The libraries of a project\<close>

definition pointers_ok :: "libraries \<Rightarrow> bool" where
  "pointers_ok m \<longleftrightarrow> (\<forall>(name, p) \<in> set (lbe m). p < length (heap m))"

lemma invalidate_length [simp]: "length (fold invalidate ps bs) = length bs"
  by (induction ps arbitrary: bs) auto

lemma invalidate_all:
  "p < length bs \<Longrightarrow> (\<exists>name. (name, p) \<in> set ps) \<or> \<not> be_valid (bs ! p) \<Longrightarrow>
   \<not> be_valid (fold invalidate ps bs ! p)"
proof (induction ps arbitrary: bs)
  case (Cons e ps)
  obtain name q where e: "e = (name, q)" by fastforce
  have "p < length (invalidate e bs)" using Cons.prems(1) by (simp add: e)
  moreover have "(\<exists>name. (name, p) \<in> set ps) \<or> \<not> be_valid (invalidate e bs ! p)"
    using Cons.prems by (cases "p = q") (auto simp: e)
  ultimately have "\<not> be_valid (fold invalidate ps (invalidate e bs) ! p)" by (rule Cons.IH)
  then show ?case by simp
qed simp

text \<open>Making the libraries of a list adds new empty ones behind the old ones.\<close>

lemma initialise_loop:
  assumes "\<forall>(n, p) \<in> set (lbe m). length hs \<le> p \<and> p < length (heap m) \<and> heap m ! p = backend_new None n True"
    and "take (length hs) (heap m) = hs"
  shows "let g = fold add_missing names m
    in (\<forall>(n, p) \<in> set (lbe g). length hs \<le> p \<and> p < length (heap g) \<and> heap g ! p = backend_new None n True)
      \<and> take (length hs) (heap g) = hs \<and> set names \<subseteq> dom (map_of (lbe g))
      \<and> dom (map_of (lbe m)) \<subseteq> dom (map_of (lbe g))"
  using assms
proof (induction names arbitrary: m)
  case (Cons name names)
  let ?m = "add_missing name m"
  have hs: "length hs \<le> length (heap m)" using Cons.prems(2) by (metis length_take min.absorb_iff2 min.commute)
  have 1: "\<forall>(n, p) \<in> set (lbe ?m). length hs \<le> p \<and> p < length (heap ?m) \<and> heap ?m ! p = backend_new None n True"
    using Cons.prems(1) hs by (auto simp: add_missing_def add_library_def nth_append)
  have 2: "take (length hs) (heap ?m) = hs" using Cons.prems(2) hs by (simp add: add_missing_def add_library_def)
  have 3: "name \<in> dom (map_of (lbe ?m))" "dom (map_of (lbe m)) \<subseteq> dom (map_of (lbe ?m))"
    by (auto simp: add_missing_def add_library_def map_add_def dom_def split: option.split)
  note ih = Cons.IH [OF 1 2, unfolded Let_def]
  have "dom (map_of (lbe m)) \<subseteq> dom (map_of (lbe (fold add_missing names ?m)))"
    using 3(2) ih by (blast intro: subset_trans)
  moreover have "set (name # names) \<subseteq> dom (map_of (lbe (fold add_missing names ?m)))"
    using 3(1) ih by auto
  ultimately show ?case using ih unfolding Let_def fold.simps comp_apply by blast
qed simp

lemma library_initialise_fresh:
  assumes "pointers_ok m" and "name \<in> set names" and "m' = library_initialise names m"
  obtains p where "map_of (lbe m') name = Some p" and "length (heap m) \<le> p" and "heap m' ! p = backend_new None name True"
    and "\<And>q. q < length (heap m) \<Longrightarrow> (\<exists>n. (n, q) \<in> set (lbe m)) \<or> \<not> be_valid (heap m ! q) \<Longrightarrow> \<not> be_valid (heap m' ! q)"
proof -
  let ?d = "(disown m)\<lparr>lm_location := None, is_initialised := True\<rparr>"
  have len: "length (heap ?d) = length (heap m)" by (simp add: disown_def)
  have loop: "let g = m' in (\<forall>(n, p) \<in> set (lbe g). length (heap ?d) \<le> p \<and> p < length (heap g) \<and> heap g ! p = backend_new None n True)
      \<and> take (length (heap ?d)) (heap g) = heap ?d \<and> set names \<subseteq> dom (map_of (lbe g))
      \<and> dom (map_of (lbe ?d)) \<subseteq> dom (map_of (lbe g))"
    unfolding assms(3) library_initialise_def by (rule initialise_loop) (simp_all add: disown_def)
  then obtain p where p: "map_of (lbe m') name = Some p" using assms(2) by (auto simp: Let_def)
  then have "(name, p) \<in> set (lbe m')" by (rule map_of_SomeD)
  then have "length (heap m) \<le> p" "heap m' ! p = backend_new None name True"
    using loop len by (auto simp: Let_def)
  moreover have "\<not> be_valid (heap m' ! q)"
    if "q < length (heap m)" "(\<exists>n. (n, q) \<in> set (lbe m)) \<or> \<not> be_valid (heap m ! q)" for q
  proof -
    have "heap m' ! q = heap ?d ! q" using loop that(1) len by (metis (no_types, lifting) nth_take)
    then show ?thesis using invalidate_all [OF that] by (simp add: disown_def)
  qed
  ultimately show ?thesis using that p by blast
qed

text \<open>C28. The units that are found before the manager is initialised are lost. The project starts the
  background indexing first and initialises the new manager after it, so an indexer can ask the manager
  for a library in between: whatever it puts into what it gets, after the initialisation the library of
  that name is a new and empty one, and the one the indexer holds is not valid and takes no more units.
\<close>

theorem early_units_are_lost:
  assumes "pointers_ok m" and "name \<in> set names" and "(p, m1) = library_get name m"
    and "m2 = fold (\<lambda>u m. snd (library_put q h p u m)) us m1" and "m3 = library_initialise names m2"
  shows "\<exists>p'. library_get name m3 = (p', m3) \<and> heap m3 ! p' = backend_new None name True \<and> be_rows (heap m3 ! p') = []
    \<and> p' \<noteq> p \<and> \<not> be_valid (heap m3 ! p) \<and> library_put q h p u m3 = (False, m3)"
proof -
  have m1: "(name, p) \<in> set (lbe m1)" "pointers_ok m1"
    using assms(1,3)
    by (auto simp: library_get_def add_library_def pointers_ok_def dest: map_of_SomeD split: option.splits)
  have "length (heap (fold (\<lambda>u m. snd (library_put q h p u m)) us m)) = length (heap m)
      \<and> lbe (fold (\<lambda>u m. snd (library_put q h p u m)) us m) = lbe m" for m
    by (induction us arbitrary: m) (simp_all add: library_put_def split: prod.split)
  then have m2: "length (heap m2) = length (heap m1)" "lbe m2 = lbe m1" using assms(4) by simp_all
  then have "pointers_ok m2" using m1(2) by (simp add: pointers_ok_def)
  from library_initialise_fresh [OF this assms(2,5)] obtain p' where p':
      "map_of (lbe m3) name = Some p'" "length (heap m2) \<le> p'" "heap m3 ! p' = backend_new None name True"
    and old: "\<And>q. q < length (heap m2) \<Longrightarrow> (\<exists>n. (n, q) \<in> set (lbe m2)) \<or> \<not> be_valid (heap m2 ! q) \<Longrightarrow> \<not> be_valid (heap m3 ! q)"
    by blast
  have p: "p < length (heap m2)" using m1 m2(1) by (auto simp: pointers_ok_def)
  then have invalid: "\<not> be_valid (heap m3 ! p)" using old m1(1) m2(2) by auto
  moreover have "library_put q h p u m3 = (False, m3)"
    using invalid by (simp add: library_put_def backend_put_def connected_def)
  ultimately show ?thesis using p' p by (auto simp: library_get_def backend_new_def)
qed

definition sample_libraries :: libraries where
  "sample_libraries = snd (library_get ''work'' (library_manager_new None False))"

theorem early_units_are_lost_witness:
  "let m = library_initialise [''work''] (snd (library_put sample_sqlite sample_hash 0 (sample_unit Entity ''top'') sample_libraries))
   in \<exists>p'. library_get ''work'' m = (p', m) \<and> be_rows (heap m ! p') = [] \<and> p' \<noteq> 0"
proof -
  let ?m = "library_initialise [''work''] (snd (library_put sample_sqlite sample_hash 0 (sample_unit Entity ''top'') sample_libraries))"
  have ok: "pointers_ok (library_manager_new None False)" by (simp add: pointers_ok_def library_manager_new_def)
  have get: "(0, sample_libraries) = library_get ''work'' (library_manager_new None False)"
    by (simp add: sample_libraries_def library_get_def library_manager_new_def add_library_def)
  obtain p' where "library_get ''work'' ?m = (p', ?m)" "be_rows (heap ?m ! p') = []" "p' \<noteq> 0"
    using early_units_are_lost [OF ok _ get, of "[''work'']" _ sample_sqlite sample_hash "[sample_unit Entity ''top'']" ?m]
    by (simp del: One_nat_def) blast
  then show ?thesis by auto
qed

end
