(* ===== verification/Filelist.thy ===== *)
theory Filelist
  imports Prelude
begin

text \<open>
  The list of files of a project, the class \<open>filelist\<close> of \<^verbatim>\<open>src/things/project.cpp\<close>: a file the
  configuration names for several libraries has one entry for each, linked into a ring by their
  pointers \<open>next\<close>. A pointer is an index into \<open>entries\<close>. The specification of a file (type \<open>'s\<close>) is only
  stored. \<open>ring\<close> relates the heap of entries to lists.
\<close>

section \<open>The code\<close>

record 's entry =
  entry_spec :: 's
  entry_next :: nat

record 's filelist =
  entries :: "'s entry list"
  path_to_entries :: "string \<Rightarrow> nat option"
  total_number_of_files :: nat

definition filelist_new :: "'s filelist" where
  "filelist_new = \<lparr>entries = [], path_to_entries = (\<lambda>_. None), total_number_of_files = 0\<rparr>"

text \<open>The walk to the entry in front of \<open>head\<close>; on a list that is no ring it would not end.\<close>

partial_function (option) walk :: "'s entry list \<Rightarrow> nat \<Rightarrow> nat \<Rightarrow> nat option" where
  "walk es head e =
     (if entry_next (es ! e) \<noteq> head then walk es head (entry_next (es ! e)) else Some e)"

definition set_next :: "nat \<Rightarrow> 's entry list \<Rightarrow> nat \<Rightarrow> 's entry list" where
  "set_next e es n = es[e := (es ! e)\<lparr>entry_next := n\<rparr>]"

definition add_entry :: "string \<Rightarrow> 's \<Rightarrow> 's filelist \<Rightarrow> 's filelist option" where
  "add_entry name spec fl =
     (let new = length (entries fl)
      in case path_to_entries fl name of
           None \<Rightarrow>
             Some (fl\<lparr>entries := entries fl @ [\<lparr>entry_spec = spec, entry_next = new\<rparr>],
                     path_to_entries := (path_to_entries fl)(name := Some new),
                     total_number_of_files := Suc (total_number_of_files fl)\<rparr>)
         | Some e \<Rightarrow>
             (let es = entries fl @ [\<lparr>entry_spec = spec, entry_next = e\<rparr>]
              in Option.bind (walk es e e) (\<lambda>last. Some (fl\<lparr>entries := set_next last es new\<rparr>))))"

definition get_entry :: "string \<Rightarrow> 's filelist \<Rightarrow> nat option" where
  "get_entry name fl = path_to_entries fl name"

partial_function (option) collect :: "'s entry list \<Rightarrow> nat \<Rightarrow> 's list \<Rightarrow> nat \<Rightarrow> 's list option" where
  "collect es head specs e =
     (let specs = specs @ [entry_spec (es ! e)]
      in if entry_next (es ! e) = head then Some specs else collect es head specs (entry_next (es ! e)))"

text \<open>\<open>get_libraries_this_file_is_part_of\<close>, with the specifications for their libraries.\<close>

definition specs_of_file :: "string \<Rightarrow> 's filelist \<Rightarrow> 's list option" where
  "specs_of_file name fl =
     (case get_entry name fl of None \<Rightarrow> Some [] | Some e \<Rightarrow> collect (entries fl) e [] e)"

section \<open>Rings\<close>

text \<open>\<open>linked es xs h\<close>: each entry of \<open>xs\<close> points to the one behind it, and the last to \<open>h\<close>.\<close>

fun linked :: "'s entry list \<Rightarrow> nat list \<Rightarrow> nat \<Rightarrow> bool" where
  "linked es [] h \<longleftrightarrow> True"
| "linked es [x] h \<longleftrightarrow> x < length es \<and> entry_next (es ! x) = h"
| "linked es (x # y # xs) h \<longleftrightarrow> x < length es \<and> entry_next (es ! x) = y \<and> linked es (y # xs) h"

definition ring :: "'s entry list \<Rightarrow> nat list \<Rightarrow> bool" where
  "ring es xs \<longleftrightarrow> xs \<noteq> [] \<and> distinct xs \<and> linked es xs (hd xs)"

lemma linked_bound: "linked es xs h \<Longrightarrow> x \<in> set xs \<Longrightarrow> x < length es"
  by (induction es xs h rule: linked.induct) auto

lemma linked_cong:
  "\<lbrakk>length es \<le> length es'; \<And>x. x \<in> set xs \<Longrightarrow> entry_next (es' ! x) = entry_next (es ! x); linked es xs h\<rbrakk>
   \<Longrightarrow> linked es' xs h"
  by (induction es xs h rule: linked.induct) auto

lemma linked_append: "linked es xs h \<Longrightarrow> linked (es @ fs) xs h"
  by (rule linked_cong) (auto simp: nth_append dest: linked_bound)

text \<open>Walking a ring stops at its last entry.\<close>

lemma walk_linked:
  "xs \<noteq> [] \<Longrightarrow> linked es xs h \<Longrightarrow> h \<notin> set (tl xs) \<Longrightarrow> walk es h (hd xs) = Some (last xs)"
proof (induction es xs h rule: linked.induct)
  case (3 es x y xs h)
  then show ?case by (subst walk.simps) auto
qed (simp_all add: walk.simps)

lemma collect_linked:
  "xs \<noteq> [] \<Longrightarrow> linked es xs h \<Longrightarrow> h \<notin> set (tl xs) \<Longrightarrow>
   collect es h ss (hd xs) = Some (ss @ map (\<lambda>x. entry_spec (es ! x)) xs)"
proof (induction es xs h arbitrary: ss rule: linked.induct)
  case (3 es x y xs h)
  then show ?case by (subst collect.simps) (auto simp: Let_def)
qed (simp_all add: collect.simps)

lemma ring_tl: "ring es xs \<Longrightarrow> xs \<noteq> [] \<and> linked es xs (hd xs) \<and> hd xs \<notin> set (tl xs)"
  by (cases xs) (auto simp: ring_def)

lemma walk_ring: "ring es xs \<Longrightarrow> walk es (hd xs) (hd xs) = Some (last xs)"
  by (simp add: walk_linked ring_tl)

lemma collect_ring: "ring es xs \<Longrightarrow> collect es (hd xs) [] (hd xs) = Some (map (\<lambda>x. entry_spec (es ! x)) xs)"
  by (simp add: collect_linked ring_tl)

lemma linked_snoc:
  "xs \<noteq> [] \<Longrightarrow> linked es xs h \<Longrightarrow> distinct xs \<Longrightarrow> n < length es \<Longrightarrow> n \<notin> set xs \<Longrightarrow> entry_next (es ! n) = k \<Longrightarrow>
   linked (set_next (last xs) es n) (xs @ [n]) k"
proof (induction es xs h rule: linked.induct)
  case (2 es x h)
  then show ?case by (auto simp: set_next_def)
next
  case (3 es x y xs h)
  have "last (y # xs) \<noteq> x" using "3.prems"(3) last_in_set [of "y # xs"] by fastforce
  then have "entry_next (set_next (last (y # xs)) es n ! x) = entry_next (es ! x)" by (simp add: set_next_def)
  then show ?case using 3 by (simp add: set_next_def)
qed simp

lemma ring_snoc:
  assumes "ring es xs"
  shows "ring (set_next (last xs) (es @ [\<lparr>entry_spec = s, entry_next = hd xs\<rparr>]) (length es)) (xs @ [length es])"
proof -
  let ?es = "es @ [\<lparr>entry_spec = s, entry_next = hd xs\<rparr>]"
  have xs: "xs \<noteq> []" "distinct xs" "linked ?es xs (hd xs)" "length es \<notin> set xs"
    using assms linked_bound [of es xs "hd xs" "length es"] by (auto simp: ring_def intro: linked_append)
  then have "linked (set_next (last xs) ?es (length es)) (xs @ [length es]) (hd xs)"
    by (intro linked_snoc) auto
  then show ?thesis using xs by (simp add: ring_def)
qed

section \<open>The list a file stands for\<close>

text \<open>\<open>rings_are fl f\<close>: the entries of file \<open>name\<close> are the ring \<open>f name\<close>, and no entry is in two rings.\<close>

definition rings_are :: "'s filelist \<Rightarrow> (string \<Rightarrow> nat list) \<Rightarrow> bool" where
  "rings_are fl f \<longleftrightarrow>
     (\<forall>name. case path_to_entries fl name of None \<Rightarrow> f name = [] | Some e \<Rightarrow> ring (entries fl) (f name) \<and> hd (f name) = e)
     \<and> (\<forall>a b. a \<noteq> b \<longrightarrow> set (f a) \<inter> set (f b) = {})"

definition specs_in :: "'s filelist \<Rightarrow> nat list \<Rightarrow> 's list" where
  "specs_in fl xs = map (\<lambda>x. entry_spec (entries fl ! x)) xs"

lemma rings_bound: "rings_are fl f \<Longrightarrow> x \<in> set (f name) \<Longrightarrow> x < length (entries fl)"
  unfolding rings_are_def ring_def
  by (auto dest!: spec [of _ name] dest: linked_bound split: option.splits)

lemma rings_ring:
  "rings_are fl f \<Longrightarrow> path_to_entries fl name = Some e \<Longrightarrow> ring (entries fl) (f name) \<and> hd (f name) = e"
  unfolding rings_are_def by (auto dest!: spec [of _ name])

lemma ring_cong:
  "\<lbrakk>length es \<le> length es'; \<And>x. x \<in> set xs \<Longrightarrow> entry_next (es' ! x) = entry_next (es ! x); ring es xs\<rbrakk> \<Longrightarrow> ring es' xs"
  unfolding ring_def by (auto intro: linked_cong)

lemma add_entry_rings:
  assumes "rings_are fl f"
  obtains fl' where "add_entry name s fl = Some fl'"
    and "rings_are fl' (f(name := f name @ [length (entries fl)]))"
    and "\<And>x. x < length (entries fl) \<Longrightarrow> entry_spec (entries fl' ! x) = entry_spec (entries fl ! x)"
    and "entry_spec (entries fl' ! length (entries fl)) = s"
proof (cases "path_to_entries fl name")
  case None
  let ?n = "length (entries fl)" and ?f = "f(name := f name @ [length (entries fl)])"
  obtain fl' where add: "add_entry name s fl = Some fl'"
    and fl': "entries fl' = entries fl @ [\<lparr>entry_spec = s, entry_next = ?n\<rparr>]"
      "path_to_entries fl' = (path_to_entries fl)(name := Some ?n)"
    using None by (simp add: add_entry_def Let_def)
  have none: "f name = []" using assms None unfolding rings_are_def by (auto dest!: spec [of _ name])
  have "rings_are fl' ?f"
    unfolding rings_are_def
  proof (intro conjI allI impI)
    fix m
    show "case path_to_entries fl' m of None \<Rightarrow> ?f m = [] | Some e \<Rightarrow> ring (entries fl') (?f m) \<and> hd (?f m) = e"
    proof (cases "m = name")
      case True
      then show ?thesis using none by (simp add: fl' ring_def)
    next
      case False
      have "ring (entries fl) (f m) \<Longrightarrow> ring (entries fl') (f m)"
        by (rule ring_cong) (auto simp: fl' nth_append dest: rings_bound [OF assms])
      then show ?thesis using assms False unfolding rings_are_def
        by (auto simp: fl' dest!: spec [of _ m] split: option.splits)
    qed
  next
    fix a b :: string
    assume "a \<noteq> b"
    then show "set (?f a) \<inter> set (?f b) = {}"
      using assms rings_bound [OF assms] none unfolding rings_are_def by (auto; blast)
  qed
  then show ?thesis using that [OF add] by (simp add: fl' nth_append)
next
  case (Some e)
  let ?n = "length (entries fl)" and ?f = "f(name := f name @ [length (entries fl)])"
  let ?es = "entries fl @ [\<lparr>entry_spec = s, entry_next = e\<rparr>]"
  have r: "ring (entries fl) (f name)" "hd (f name) = e" using rings_ring [OF assms Some] by simp_all
  have "ring ?es (f name)" by (rule ring_cong [OF _ _ r(1)]) (auto simp: nth_append dest: rings_bound [OF assms])
  then have "walk ?es e e = Some (last (f name))" using walk_ring r(2) by metis
  then obtain fl' where add: "add_entry name s fl = Some fl'"
    and fl': "entries fl' = set_next (last (f name)) ?es ?n" "path_to_entries fl' = path_to_entries fl"
    using Some by (simp add: add_entry_def Let_def)
  have last: "last (f name) \<in> set (f name)" using r(1) by (auto simp: ring_def)
  have "rings_are fl' ?f"
    unfolding rings_are_def
  proof (intro conjI allI impI)
    fix m
    show "case path_to_entries fl' m of None \<Rightarrow> ?f m = [] | Some e \<Rightarrow> ring (entries fl') (?f m) \<and> hd (?f m) = e"
    proof (cases "m = name")
      case True
      then show ?thesis
        using Some r ring_snoc [OF r(1), of s] by (auto simp: fl' ring_def)
    next
      case False
      then have "x \<in> set (f m) \<Longrightarrow> x \<noteq> last (f name)" for x
        using assms last unfolding rings_are_def by blast
      then have "ring (entries fl) (f m) \<Longrightarrow> ring (entries fl') (f m)"
        by (rule_tac ring_cong)
          (simp_all add: fl' set_next_def, metis nth_append nth_list_update_neq rings_bound [OF assms])
      then show ?thesis using assms False unfolding rings_are_def
        by (auto simp: fl' dest!: spec [of _ m] split: option.splits)
    qed
  next
    fix a b :: string
    assume "a \<noteq> b"
    then have "set (f a) \<inter> set (f b) = {}" "?n \<notin> set (f a)" "?n \<notin> set (f b)"
      using assms rings_bound [OF assms] unfolding rings_are_def by blast+
    then show "set (?f a) \<inter> set (?f b) = {}" using \<open>a \<noteq> b\<close> by auto
  qed
  moreover have "last (f name) < ?n" using last rings_bound [OF assms] by simp
  ultimately show ?thesis
    using that [OF add] by (auto simp: fl' set_next_def nth_list_update nth_append)
qed

lemma add_entry_specs:
  assumes "rings_are fl f" and "add_entry name s fl = Some fl'"
    and "\<And>x. x < length (entries fl) \<Longrightarrow> entry_spec (entries fl' ! x) = entry_spec (entries fl ! x)"
    and "entry_spec (entries fl' ! length (entries fl)) = s"
  shows "specs_in fl' ((f(name := f name @ [length (entries fl)])) m)
       = specs_in fl (f m) @ (if m = name then [s] else [])"
  using assms(3,4) rings_bound [OF assms(1)] by (auto simp: specs_in_def)

primrec add_entries :: "(string \<times> 's) list \<Rightarrow> 's filelist \<Rightarrow> 's filelist option" where
  "add_entries [] fl = Some fl"
| "add_entries (e # es) fl = Option.bind (add_entry (fst e) (snd e) fl) (add_entries es)"

lemma add_entries_rings:
  "rings_are fl f \<Longrightarrow> \<exists>fl' g. add_entries es fl = Some fl' \<and> rings_are fl' g
     \<and> (\<forall>m. specs_in fl' (g m) = specs_in fl (f m) @ map snd (filter (\<lambda>e. fst e = m) es))"
proof (induction es arbitrary: fl f)
  case Nil
  then show ?case by auto
next
  case (Cons e es)
  obtain fl1 where add: "add_entry (fst e) (snd e) fl = Some fl1"
    and r: "rings_are fl1 (f(fst e := f (fst e) @ [length (entries fl)]))"
    and specs: "\<And>x. x < length (entries fl) \<Longrightarrow> entry_spec (entries fl1 ! x) = entry_spec (entries fl ! x)"
      "entry_spec (entries fl1 ! length (entries fl)) = snd e"
    using add_entry_rings [OF Cons.prems, of "fst e" "snd e"] by blast
  show ?case
    using Cons.IH [OF r] add add_entry_specs [OF Cons.prems add specs] by fastforce
qed

lemma rings_specs:
  assumes "rings_are fl g"
  shows "specs_of_file m fl = Some (specs_in fl (g m))"
proof (cases "path_to_entries fl m")
  case None
  then have "g m = []" using assms unfolding rings_are_def by (auto dest!: spec [of _ m])
  then show ?thesis using None by (simp add: specs_of_file_def get_entry_def specs_in_def)
next
  case (Some e)
  then show ?thesis
    using rings_ring [OF assms Some] collect_ring [of "entries fl" "g m"]
    by (auto simp: specs_of_file_def get_entry_def specs_in_def)
qed

lemma new_filelist_rings:
  obtains fl g where "add_entries es filelist_new = Some fl" and "rings_are fl g"
    and "\<And>m. specs_in fl (g m) = map snd (filter (\<lambda>e. fst e = m) es)"
proof -
  have "rings_are filelist_new (\<lambda>_. [])" by (simp add: rings_are_def filelist_new_def)
  from add_entries_rings [OF this, of es] show ?thesis using that by (auto simp: specs_in_def)
qed

text \<open>C10. The rings of the file list implement a list for each file: after any sequence of entries was
  added, in any order, every walk along a ring has ended, and the specifications found for a file are
  those that were added under its name, each once and in that order; none for any other name.
\<close>

theorem filelist_correct:
  "\<exists>fl. add_entries es filelist_new = Some fl
    \<and> (\<forall>name. specs_of_file name fl = Some (map snd (filter (\<lambda>e. fst e = name) es)))"
proof -
  obtain fl g where "add_entries es filelist_new = Some fl" "rings_are fl g"
      "\<And>m. specs_in fl (g m) = map snd (filter (\<lambda>e. fst e = m) es)"
    by (rule new_filelist_rings [of es]) auto
  then show ?thesis using rings_specs [of fl g] by simp
qed

lemma new_filelist_specs:
  assumes "add_entries es filelist_new = Some fl"
  shows "specs_of_file m fl = Some (map snd (filter (\<lambda>e. fst e = m) es))"
proof -
  obtain fl' g where "add_entries es filelist_new = Some fl'" "rings_are fl' g"
      "\<And>m. specs_in fl' (g m) = map snd (filter (\<lambda>e. fst e = m) es)"
    by (rule new_filelist_rings [of es]) auto
  then show ?thesis using assms rings_specs [of fl' g] by simp
qed

text \<open>One more entry can always be added.\<close>

lemma add_entries_snoc: "add_entries (es @ [e]) fl = Option.bind (add_entries es fl) (add_entry (fst e) (snd e))"
  by (induction es arbitrary: fl) (auto split: Option.bind_split)

lemma new_filelist_more:
  assumes "add_entries es filelist_new = Some fl"
  shows "\<exists>fl'. add_entry name s fl = Some fl' \<and> add_entries (es @ [(name, s)]) filelist_new = Some fl'"
proof -
  obtain fl2 g where "add_entries (es @ [(name, s)]) filelist_new = Some fl2" "rings_are fl2 g"
    by (rule new_filelist_rings [of "es @ [(name, s)]"]) auto
  then show ?thesis using assms by (simp add: add_entries_snoc)
qed

end
