(* ===== verification/Progress.thy ===== *)
theory Progress
  imports Prelude Position
begin

text \<open>
  Progress and diagnostics that are sent to the client: \<^verbatim>\<open>src/things/client.cpp\<close> (the class \<open>client\<close> and
  its \<open>workdone_progress_bar\<close>) and the \<open>compass\<close> of \<^verbatim>\<open>src/things/project.cpp\<close>, which counts the
  specifications the background indexer has gone through. What is sent is the list \<open>sent\<close>; the texts of
  the messages, which the formatting library makes, are left out of the progress notes.
\<close>

section \<open>The client\<close>

text \<open>A diagnostic of the protocol: a message and a range, which starts at line 0 and character 0.\<close>

record lsp_diagnostic =
  ld_message :: string
  ld_start :: "u32 \<times> u32"
  ld_end :: "u32 \<times> u32"

datatype client_note =
  Show_message string | Log_message string
| Publish string "lsp_diagnostic list"
| Create_progress string
| Progress_begin string int | Progress_report string int | Progress_end string

record client =
  sent :: "client_note list"
  visible :: bool  \<comment> \<open>\<open>workdone_progress_bar_visible\<close>\<close>
  persistent :: "string \<Rightarrow> lsp_diagnostic list"

definition client_new :: client where
  "client_new = \<lparr>sent = [], visible = False, persistent = (\<lambda>_. [])\<rparr>"

definition send_note :: "client_note \<Rightarrow> client \<Rightarrow> client" where
  "send_note n c = c\<lparr>sent := sent c @ [n]\<rparr>"

definition show_message :: "string \<Rightarrow> client \<Rightarrow> client" where
  "show_message m = send_note (Show_message m)"

definition log_message :: "string \<Rightarrow> client \<Rightarrow> client" where
  "log_message m = send_note (Log_message m)"

text \<open>\<open>format\<close> is the formatting library: the message of a diagnostic with its arguments.\<close>

definition to_lsp_diagnostic :: "(string \<Rightarrow> arg_t list \<Rightarrow> string) \<Rightarrow> diagnostic \<Rightarrow> lsp_diagnostic" where
  "to_lsp_diagnostic format d =
     (let place = (\<lambda>p. (line p - 1, column p - 1))
      in \<lparr>ld_message = format (diag_format d) (diag_args d),
          ld_start = place (begin_pos (diag_location d)), ld_end = place (end_pos (diag_location d))\<rparr>)"

definition send_diagnostics ::
    "(string \<Rightarrow> arg_t list \<Rightarrow> string) \<Rightarrow> string \<Rightarrow> diagnostic list \<Rightarrow> client \<Rightarrow> client" where
  "send_diagnostics format file ds = send_note (Publish file (map (to_lsp_diagnostic format) ds))"

definition send_persistent_diagnostic :: "string \<Rightarrow> lsp_diagnostic \<Rightarrow> client \<Rightarrow> client" where
  "send_persistent_diagnostic file d c =
     (let ds = persistent c file @ [d]
      in send_note (Publish file ds) (c\<lparr>persistent := (persistent c)(file := ds)\<rparr>))"

definition clear_persistent_diagnostic :: "string \<Rightarrow> client \<Rightarrow> client" where
  "clear_persistent_diagnostic file c =
     send_note (Publish file []) (c\<lparr>persistent := (persistent c)(file := [])\<rparr>)"

section \<open>The progress bar\<close>

record progress_bar =
  bar_token :: string
  in_progress :: bool

definition create_workdone_progress :: "string \<Rightarrow> client \<Rightarrow> progress_bar option \<times> client" where
  "create_workdone_progress t c =
     (if visible c then (None, c)
      else (Some \<lparr>bar_token = t, in_progress = False\<rparr>, send_note (Create_progress t) (c\<lparr>visible := True\<rparr>)))"

definition progress_bar_report :: "int \<Rightarrow> progress_bar \<Rightarrow> client \<Rightarrow> progress_bar \<times> client" where
  "progress_bar_report percentage b c =
     (if percentage \<ge> 100 \<and> in_progress b then (b\<lparr>in_progress := False\<rparr>, send_note (Progress_end (bar_token b)) c)
      else if percentage \<ge> 100 then (b, c)
      else if \<not> in_progress b then
        (b\<lparr>in_progress := True\<rparr>, send_note (Progress_begin (bar_token b) percentage) c)
      else (b, send_note (Progress_report (bar_token b) percentage) c))"

text \<open>The destructor of a bar that was not moved from.\<close>

definition progress_bar_destroy :: "progress_bar \<Rightarrow> client \<Rightarrow> client" where
  "progress_bar_destroy b c =
     (let c = c\<lparr>visible := False\<rparr>
      in if in_progress b then send_note (Progress_end (bar_token b)) c else c)"

section \<open>The compass\<close>

text \<open>\<open>calls\<close> counts the calls of \<open>on_all_requests_completed\<close>, which is set to null behind the first.\<close>

record compass =
  number_of_files_found :: u32
  number_of_requests_completed :: u32
  total_number_of_requests :: u32
  has_callback :: bool
  bar :: "progress_bar option"
  calls :: nat

definition compass_new :: "int \<Rightarrow> bool \<Rightarrow> progress_bar option \<Rightarrow> compass" where
  "compass_new n cb b =
     \<lparr>number_of_files_found = 0, number_of_requests_completed = 0, total_number_of_requests = word_of_int n,
      has_callback = cb, bar = b, calls = 0\<rparr>"

text \<open>The percentage is computed in \<open>unsigned\<close> and handed on as an \<open>int\<close>.\<close>

definition percentage :: "u32 \<Rightarrow> u32 \<Rightarrow> int" where
  "percentage completed n = sint (if n = 0 then 100 else completed * 100 div n)"

definition i_just_completed_a_request :: "int \<Rightarrow> compass \<times> client \<Rightarrow> compass \<times> client" where
  "i_just_completed_a_request found s =
     (case s of (k, c) \<Rightarrow>
       let completed = number_of_requests_completed k + 1;
           n = total_number_of_requests k;
           k = k\<lparr>number_of_files_found := number_of_files_found k + word_of_int found,
                number_of_requests_completed := completed\<rparr>;
           (b, c) = (case bar k of
                       None \<Rightarrow> (None, c)
                     | Some b \<Rightarrow> (case progress_bar_report (percentage completed n) b c of (b, c) \<Rightarrow> (Some b, c)));
           k = k\<lparr>bar := b\<rparr>
       in if completed = n \<and> has_callback k then
            (k\<lparr>calls := Suc (calls k), has_callback := False, bar := None\<rparr>,
             (case b of None \<Rightarrow> c | Some b \<Rightarrow> progress_bar_destroy b c))
          else (k, c))"

text \<open>What the client has got when \<open>i\<close> of \<open>n\<close> requests are done.\<close>

definition percent :: "nat \<Rightarrow> nat \<Rightarrow> int" where
  "percent i n = int (i * 100 div n)"

definition notes_of :: "string \<Rightarrow> nat \<Rightarrow> nat \<Rightarrow> client_note list" where
  "notes_of t n i =
     (if i = 0 then [] else Progress_begin t (percent 1 n) # map (\<lambda>k. Progress_report t (percent k n)) [2..<min (Suc i) n])
     @ (if i = n then [Progress_end t] else [])"

lemma percent_less: "i < n \<Longrightarrow> percent i n < 100"
  by (simp add: percent_def div_less_iff_less_mult)

lemma percent_mono: "i \<le> k \<Longrightarrow> percent i n \<le> percent k n"
  by (simp add: percent_def div_le_mono)

lemma unat_small: "k < 2 ^ 32 \<Longrightarrow> unat (of_nat k :: u32) = k"
  by (simp add: unsigned_of_nat take_bit_nat_eq_self)

lemma percentage_exact:
  assumes "0 < n" and "n \<le> 42949672" and "i \<le> n"
  shows "percentage (of_nat i) (of_nat n) = percent i n"
proof -
  have small: "i * 100 < 2 ^ 32" "n < 2 ^ 32" "i * 100 div n \<le> 100"
    using assms div_le_mono [of "i * 100" "n * 100" n] by simp_all
  have "(of_nat i * 100 :: u32) = of_nat (i * 100)" by simp
  then have "(of_nat i * 100 div of_nat n :: u32) = of_nat (i * 100 div n)"
    by (simp only: word_arith_nat_div unat_small [OF small(1)] unat_small [OF small(2)])
  moreover have "(of_nat n :: u32) \<noteq> 0"
    using assms(1) unat_small [OF small(2)] by (metis unat_0 less_irrefl)
  moreover have "sint (of_nat (i * 100 div n) :: u32) = int (i * 100 div n)"
    using small(3) sint_of_int_exact [of "int (i * 100 div n)"] by (simp del: of_nat_div)
  ultimately show ?thesis by (simp add: percentage_def percent_def)
qed

section \<open>The notes of one indexing\<close>

text \<open>What the compass and the client are after \<open>i\<close> of \<open>n\<close> requests.\<close>

definition compass_at :: "compass \<Rightarrow> client \<Rightarrow> string \<Rightarrow> nat \<Rightarrow> nat \<Rightarrow> compass \<times> client \<Rightarrow> bool" where
  "compass_at k0 c0 t n i s \<longleftrightarrow>
     number_of_requests_completed (fst s) = of_nat i \<and> total_number_of_requests (fst s) = of_nat n
     \<and> has_callback (fst s) = (i < n) \<and> calls (fst s) = (if i = n then 1 else 0)
     \<and> bar (fst s) = (if i < n then Some \<lparr>bar_token = t, in_progress = (0 < i)\<rparr> else None)
     \<and> sent (snd s) = sent c0 @ notes_of t n i \<and> visible (snd s) = (visible c0 \<and> i < n)"

lemma notes_of_step:
  assumes "Suc i < n"
  shows "notes_of t n (Suc i) = notes_of t n i
       @ [if i = 0 then Progress_begin t (percent 1 n) else Progress_report t (percent (Suc i) n)]"
proof (cases "i = 0")
  case False
  then have "[2..<Suc (Suc i)] = [2..<Suc i] @ [Suc i]" by simp
  then show ?thesis using assms False by (simp add: notes_of_def)
qed (use assms in \<open>simp add: notes_of_def\<close>)

lemma notes_of_end:
  assumes "1 < n"
  shows "notes_of t n n = notes_of t n (n - 1) @ [Progress_end t]"
  using assms by (auto simp: notes_of_def min_def)

lemma completes:
  assumes "number_of_requests_completed k + 1 = j" and "total_number_of_requests k = m" and "bar k = Some b"
    and "has_callback k"
  shows "i_just_completed_a_request found (k, c) =
    (case progress_bar_report (percentage j m) b c of (b, c) \<Rightarrow>
       let k = k\<lparr>number_of_files_found := number_of_files_found k + word_of_int found, number_of_requests_completed := j\<rparr>
       in if j = m then (k\<lparr>calls := Suc (calls k), has_callback := False, bar := None\<rparr>, progress_bar_destroy b c)
          else (k\<lparr>bar := Some b\<rparr>, c))"
  using assms by (auto simp: i_just_completed_a_request_def Let_def split: prod.split)

lemma compass_step:
  assumes "1 < n" and "n \<le> 42949672" and "i < n" and "compass_at k0 c0 t n i s"
  shows "compass_at k0 c0 t n (Suc i) (i_just_completed_a_request found s)"
proof -
  obtain k c where s: "s = (k, c)" by fastforce
  have eq: "(of_nat (Suc i) :: u32) = of_nat n \<longleftrightarrow> Suc i = n"
    using assms(2,3) by (simp add: word_of_nat_eq_iff take_bit_nat_eq_self del: of_nat_Suc)
  have pc: "percentage (of_nat (Suc i)) (of_nat n) = percent (Suc i) n"
    by (rule percentage_exact) (use assms in simp_all)
  have at: "number_of_requests_completed k + 1 = of_nat (Suc i)" "total_number_of_requests k = of_nat n"
      "bar k = Some \<lparr>bar_token = t, in_progress = (0 < i)\<rparr>" "has_callback k" "calls k = 0"
      "sent c = sent c0 @ notes_of t n i" "visible c = visible c0"
    using assms(3,4) by (simp_all add: compass_at_def s)
  note step = completes [OF at(1-4), of found c, unfolded pc eq]
  show ?thesis
  proof (cases "Suc i = n")
    case True
    then have "percent (Suc i) n = 100" using assms(1) by (simp add: percent_def)
    moreover have "i = n - 1" "0 < i" using True assms(1) by simp_all
    ultimately show ?thesis
      using notes_of_end [OF assms(1), of t] True at
      by (simp add: s step progress_bar_report_def progress_bar_destroy_def send_note_def compass_at_def
          del: of_nat_Suc)
  next
    case False
    then have less: "Suc i < n" using assms(3) by simp
    then show ?thesis
      using notes_of_step [OF less, of t] percent_less [OF less] False at
      by (cases "i = 0")
        (simp_all add: s step progress_bar_report_def send_note_def compass_at_def Let_def del: of_nat_Suc)
  qed
qed

text \<open>C20. What the client sees of an indexing of \<open>n\<close> specifications, after \<open>i\<close> of them are done, whatever
  was found: one begin, then reports whose percentages are below 100 and never go down, and an end with the
  last one, at which the callback is called, once. The percentage is computed modulo \<open>2\<^sup>3\<^sup>2\<close>; up to
  42949672 specifications it does not wrap. (With a single specification nothing is begun.)
\<close>

theorem compass_reports:
  assumes "1 < n" and "n \<le> 42949672" and "length founds \<le> n"
    and "s = fold i_just_completed_a_request founds
           (compass_new (int n) True (Some \<lparr>bar_token = t, in_progress = False\<rparr>), c0)"
  shows "sent (snd s) = sent c0 @ notes_of t n (length founds)
    \<and> calls (fst s) = (if length founds = n then 1 else 0)
    \<and> (\<forall>u m. Progress_begin u m \<in> set (notes_of t n (length founds)) \<or> Progress_report u m \<in> set (notes_of t n (length founds))
         \<longrightarrow> 0 \<le> m \<and> m < 100)
    \<and> (\<forall>i k. i \<le> k \<longrightarrow> percent i n \<le> percent k n)"
proof -
  let ?k = "compass_new (int n) True (Some \<lparr>bar_token = t, in_progress = False\<rparr>)"
  have "length founds \<le> n \<Longrightarrow>
      compass_at ?k c0 t n (length founds) (fold i_just_completed_a_request founds (?k, c0))"
  proof (induction founds rule: rev_induct)
    case Nil
    then show ?case using assms(1) by (simp add: compass_at_def compass_new_def notes_of_def)
  next
    case (snoc x xs)
    then show ?case using compass_step [OF assms(1,2)] by simp
  qed
  then have "compass_at ?k c0 t n (length founds) s" using assms(3,4) by simp
  moreover have "0 \<le> percent i n" for i by (simp add: percent_def)
  moreover have "i < n \<Longrightarrow> percent i n < 100" for i by (rule percent_less)
  ultimately show ?thesis
    using assms(1) percent_mono by (auto simp: compass_at_def notes_of_def)
qed

theorem compass_reports_witness:
  "sent (snd (fold i_just_completed_a_request [5, 0, 2]
      (compass_new 3 True (Some \<lparr>bar_token = ''background'', in_progress = False\<rparr>), client_new)))
   = [Progress_begin ''background'' 33, Progress_report ''background'' 66, Progress_end ''background'']"
  using compass_reports [of 3 "[5, 0, 2]" _ "''background''" client_new]
  by (simp add: client_new_def notes_of_def percent_def)

end
