(* ===== verification/Project.thy ===== *)
theory Project
  imports Filelist Library Progress
begin

text \<open>
  The project and its background indexer: the classes \<open>project\<close>, \<open>explorer\<close> and \<open>explorer::worker\<close> of
  \<^verbatim>\<open>src/things/project.h\<close> and \<^verbatim>\<open>project.cpp\<close>. The file system, the regular expressions and the YAML
  reader are the record \<open>disk\<close> and an argument; the SystemVerilog side is the list of the files it was
  handed. What another thread stores in the flag \<open>quit_\<close> shows in what its successive loads give: \<open>quit_at n\<close> is the
  answer to the \<open>n\<close>-th.
\<close>

section \<open>The configuration\<close>

record file_filter =
  directory :: string
  search :: string
  depth :: "int option"

datatype file_content = Path string | Query file_filter

record library_head =
  lib_name :: string
  lib_incdirs :: "string list"

record file_spec =
  spec_library :: library_head
  spec_content :: file_content
  spec_line :: int
  spec_column :: int

definition is_path :: "file_spec \<Rightarrow> bool" where
  "is_path s = (case spec_content s of Path _ \<Rightarrow> True | Query _ \<Rightarrow> False)"

definition is_file_query :: "file_spec \<Rightarrow> bool" where
  "is_file_query s = (case spec_content s of Path _ \<Rightarrow> False | Query _ \<Rightarrow> True)"

record config_root =
  vhdl_libraries :: "(library_head \<times> file_spec list) list"
  sv_library :: "library_head \<times> file_spec list"

text \<open>The pointers to the libraries are set when the specifications are collected.\<close>

definition specs_of_library :: "library_head \<times> file_spec list \<Rightarrow> file_spec list" where
  "specs_of_library l = map (\<lambda>s. s\<lparr>spec_library := fst l\<rparr>) (snd l)"

definition filelist_specifications :: "config_root \<Rightarrow> file_spec list" where
  "filelist_specifications c =
     concat (map specs_of_library (vhdl_libraries c)) @ specs_of_library (sv_library c)"

section \<open>The surroundings and the state of the indexer\<close>

record disk =
  exists_on :: "string \<Rightarrow> bool"
  is_directory :: "string \<Rightarrow> bool"
  is_regular_file :: "string \<Rightarrow> bool"
  entries_below :: "string \<Rightarrow> string list"  \<comment> \<open>\<open>recursive_directory_iterator\<close>\<close>
  regex :: "string \<Rightarrow> (string \<Rightarrow> bool) option"  \<comment> \<open>an invalid expression throws\<close>
  file_name :: "string \<Rightarrow> string"
  extension :: "string \<Rightarrow> string"
  is_relative :: "string \<Rightarrow> bool"
  absolute_path :: "string \<Rightarrow> string option"  \<comment> \<open>may throw\<close>
  content_of :: "string \<Rightarrow> string option"
  quit_at :: "nat \<Rightarrow> bool"
  database_of :: sqlite
  hash_of :: "string \<Rightarrow> u64"
  first_kind :: kind_t

record indexer =
  str :: stringtable
  manager :: libraries
  files :: "file_spec filelist"
  sv_files :: "(string \<times> string) list"
  reports :: client
  loads :: nat

datatype index_error = Thrown | Crashed lex_error

definition workspace_prefix :: string where
  "workspace_prefix = ''${workspaceFolder}''"

definition resolve_folder :: "string \<Rightarrow> string \<Rightarrow> string" where
  "resolve_folder ws p = (if take 18 p = workspace_prefix then ws @ drop 18 p else p)"

definition spec_problem :: "string \<Rightarrow> file_spec \<Rightarrow> string \<Rightarrow> indexer \<Rightarrow> indexer" where
  "spec_problem yaml s msg x =
     (let place = (word_of_int (spec_line s - 1), word_of_int (spec_column s - 1))
      in x\<lparr>reports := send_persistent_diagnostic yaml \<lparr>ld_message = msg, ld_start = place, ld_end = place\<rparr> (reports x)\<rparr>)"

definition absolute :: "disk \<Rightarrow> string \<Rightarrow> string option" where
  "absolute d p = (if is_relative d p then absolute_path d p else Some p)"

section \<open>A file\<close>

text \<open>The units of a file, and the string table behind it.\<close>

definition fast_units :: "kind_t \<Rightarrow> string \<Rightarrow> string \<Rightarrow> stringtable \<Rightarrow> (index_error, library_unit list \<times> stringtable) outcome" where
  "fast_units k src file st =
     (case obind (fast_parser_new src (CHR 0x00) st file k) (\<lambda>q. fast_parse file q) of
        None \<Rightarrow> None
      | Some (Inl e) \<Rightarrow> Some (Inl (Crashed e))
      | Some (Inr (us, q)) \<Rightarrow> Some (Inr (us, strings (scanner q))))"

definition put_all :: "disk \<Rightarrow> string \<Rightarrow> library_unit list \<Rightarrow> libraries \<Rightarrow> libraries" where
  "put_all d name us m =
     (case library_get name m of
        (p, m) \<Rightarrow> fold (\<lambda>u m. snd (library_put (database_of d) (hash_of d) p u m)) us m)"

definition list_file :: "string \<Rightarrow> file_spec \<Rightarrow> indexer \<Rightarrow> (index_error, indexer) outcome" where
  "list_file file s x =
     (case add_entry file s (files x) of None \<Rightarrow> None | Some fl \<Rightarrow> Some (Inr (x\<lparr>files := fl\<rparr>)))"

definition index_vhdl :: "disk \<Rightarrow> file_spec \<Rightarrow> string \<Rightarrow> string \<Rightarrow> indexer \<Rightarrow> (index_error, indexer) outcome" where
  "index_vhdl d s file src x =
     obind (fast_units (first_kind d) src file (str x)) (\<lambda>(us, st).
       list_file file s
         (x\<lparr>str := st, manager := put_all d (lib_name (spec_library s)) us (manager x)\<rparr>))"

definition index_sv :: "file_spec \<Rightarrow> string \<Rightarrow> indexer \<Rightarrow> (index_error, indexer) outcome" where
  "index_sv s file x =
     list_file file s (x\<lparr>sv_files := sv_files x @ [(lib_name (spec_library s), file)]\<rparr>)"

section \<open>A specification\<close>

definition query_vhdl :: "string \<Rightarrow> bool" where
  "query_vhdl ext \<longleftrightarrow> ext = ''.vhd'' \<or> ext = ''.vhdl''"

definition query_sv :: "string \<Rightarrow> bool" where
  "query_sv ext \<longleftrightarrow> ext = ''.sv'' \<or> ext = ''.svh''"

text \<open>One turn of the loop over the files below a folder, up to the \<open>continue\<close> (\<open>Skip\<close>) or to the end of the body.\<close>

datatype turn = Skip | Done bool indexer

definition query_turn :: "disk \<Rightarrow> file_spec \<Rightarrow> (string \<Rightarrow> bool) \<Rightarrow> string \<Rightarrow> indexer \<Rightarrow> (index_error, turn) outcome" where
  "query_turn d s match p x =
     (if is_directory d p then Some (Inr Skip)
      else if \<not> match (file_name d p) then Some (Inr Skip)
      else case absolute d p of
        None \<Rightarrow> Some (Inr Skip)
      | Some file \<Rightarrow>
          if query_vhdl (extension d file) then
            (case content_of d file of
               None \<Rightarrow> Some (Inr Skip)
             | Some src \<Rightarrow> obind (index_vhdl d s file src x) (\<lambda>x. Some (Inr (Done True x))))
          else if query_sv (extension d file) then
            obind (index_sv s file x) (\<lambda>x. Some (Inr (Done True x)))
          else Some (Inr (Done False x)))"

definition load_quit :: "disk \<Rightarrow> indexer \<Rightarrow> bool \<times> indexer" where
  "load_quit d x = (quit_at d (loads x), x\<lparr>loads := Suc (loads x)\<rparr>)"

primrec explore_files ::
    "disk \<Rightarrow> file_spec \<Rightarrow> (string \<Rightarrow> bool) \<Rightarrow> string list \<Rightarrow> int \<Rightarrow> indexer \<Rightarrow> (index_error, int \<times> indexer) outcome" where
  "explore_files d s match [] found x = Some (Inr (found, x))"
| "explore_files d s match (p # ps) found x =
     obind (query_turn d s match p x) (\<lambda>t.
       case t of
         Skip \<Rightarrow> explore_files d s match ps found x
       | Done counts x \<Rightarrow>
           (let found = (if counts then found + 1 else found);
                (stopped, x) = load_quit d x
            in if stopped then Some (Inr (found, x)) else explore_files d s match ps found x))"

definition explore_query ::
    "disk \<Rightarrow> string \<Rightarrow> string \<Rightarrow> file_spec \<Rightarrow> file_filter \<Rightarrow> indexer \<Rightarrow> (index_error, int \<times> indexer) outcome" where
  "explore_query d ws yaml s f x =
     (let folder = resolve_folder ws (directory f)
      in if \<not> exists_on d folder then Some (Inr (0, spec_problem yaml s (folder @ '' does not exist'') x))
         else if \<not> is_directory d folder then Some (Inr (0, spec_problem yaml s (folder @ '' is not a folder'') x))
         else case regex d (search f) of
           None \<Rightarrow> Some (Inl Thrown)
         | Some match \<Rightarrow> explore_files d s match (entries_below d folder) 0 x)"

text \<open>A path is taken for SystemVerilog by \<^verbatim>\<open>.sv\<close> alone, a file below a folder also by \<^verbatim>\<open>.svh\<close>.\<close>

definition explore_path :: "disk \<Rightarrow> string \<Rightarrow> string \<Rightarrow> file_spec \<Rightarrow> string \<Rightarrow> indexer \<Rightarrow> (index_error, int \<times> indexer) outcome" where
  "explore_path d ws yaml s p x =
     (let p = resolve_folder ws p
      in if \<not> exists_on d p then Some (Inr (0, spec_problem yaml s (p @ '' does not exist'') x))
         else if \<not> is_regular_file d p then Some (Inr (0, spec_problem yaml s (p @ '' is not a file'') x))
         else case absolute d p of
           None \<Rightarrow> Some (Inr (0, x))
         | Some file \<Rightarrow>
             if query_vhdl (extension d file) then
               (case content_of d file of
                  None \<Rightarrow> Some (Inr (0, x))
                | Some src \<Rightarrow> obind (index_vhdl d s file src x) (\<lambda>x. Some (Inr (1, x))))
             else if extension d file = ''.sv'' then obind (index_sv s file x) (\<lambda>x. Some (Inr (1, x)))
             else Some (Inr (0, x)))"

definition explore_spec :: "disk \<Rightarrow> string \<Rightarrow> string \<Rightarrow> file_spec \<Rightarrow> indexer \<Rightarrow> (index_error, int \<times> indexer) outcome" where
  "explore_spec d ws yaml s x =
     (case spec_content s of
        Query f \<Rightarrow> explore_query d ws yaml s f x
      | Path p \<Rightarrow> explore_path d ws yaml s p x)"

section \<open>A worker\<close>

text \<open>The flags of a worker and the functions other threads call on it.\<close>

record worker_flags =
  busy_flag :: bool
  quit_flag :: bool
  done_flag :: bool

definition worker_new :: worker_flags where
  "worker_new = \<lparr>busy_flag = False, quit_flag = False, done_flag = False\<rparr>"

definition worker_stop :: "worker_flags \<Rightarrow> worker_flags" where
  "worker_stop w = w\<lparr>quit_flag := True\<rparr>"

definition worker_busy :: "worker_flags \<Rightarrow> bool" where
  "worker_busy w = busy_flag w"

definition worker_completed :: "worker_flags \<Rightarrow> bool" where
  "worker_completed w \<longleftrightarrow> quit_flag w \<and> done_flag w"

definition count_request :: "int \<Rightarrow> compass \<times> indexer \<Rightarrow> compass \<times> indexer" where
  "count_request found s =
     (case s of (k, x) \<Rightarrow>
       (case i_just_completed_a_request found (k, reports x) of (k, c) \<Rightarrow> (k, x\<lparr>reports := c\<rparr>)))"

text \<open>An exception is counted as a specification with no files; an assertion ends the program.\<close>

primrec work ::
    "disk \<Rightarrow> string \<Rightarrow> string \<Rightarrow> file_spec list \<Rightarrow> compass \<times> indexer \<Rightarrow> (index_error, compass \<times> indexer) outcome" where
  "work d ws yaml [] s = Some (Inr s)"
| "work d ws yaml (spec # specs) s =
     (case s of (k, x) \<Rightarrow>
       (case load_quit d x of (stopped, x) \<Rightarrow>
          if stopped then Some (Inr (k, x))
          else case explore_spec d ws yaml spec x of
            None \<Rightarrow> None
          | Some (Inl (Crashed e)) \<Rightarrow> Some (Inl (Crashed e))
          | Some (Inl Thrown) \<Rightarrow> work d ws yaml specs (count_request 0 (k, x))
          | Some (Inr (found, x)) \<Rightarrow> work d ws yaml specs (count_request found (k, x))))"

section \<open>The explorer\<close>

text \<open>
  What the loop of \<open>start\<close> hands to its threads: \<open>begin\<close> is never moved, so each gets the requests from the
  first one on.
\<close>

primrec deal :: "nat \<Rightarrow> nat \<Rightarrow> nat \<Rightarrow> nat \<Rightarrow> 'a list \<Rightarrow> 'a list list" where
  "deal 0 len remainder until q = []"
| "deal (Suc n) len remainder until q =
     (let until = until + (if 0 < remainder then len + 1 else len)
      in take until q # deal n len (remainder - 1) until q)"

definition explorer_start :: "nat \<Rightarrow> 'a list \<Rightarrow> 'a list list" where
  "explorer_start number_of_threads q =
     deal number_of_threads (length q div number_of_threads) (length q mod number_of_threads) 0 q"

definition explorer_stop :: "worker_flags list \<Rightarrow> worker_flags list" where
  "explorer_stop = map worker_stop"

definition explorer_done :: "worker_flags list \<Rightarrow> bool" where
  "explorer_done = list_all (\<lambda>w. \<not> worker_busy w)"

section \<open>The project\<close>

datatype yaml_result = Yaml_error string int int | Other_error string | Loaded config_root

record project =
  path_to_loaded_yaml :: "string option"
  project_version :: int
  workers :: "worker_flags list"
  current_filelist :: "file_spec filelist"
  current_manager :: libraries
  retired_managers :: "libraries list"
  project_client :: client

definition project_new :: "client \<Rightarrow> project" where
  "project_new c =
     \<lparr>path_to_loaded_yaml = None, project_version = 0, workers = [], current_filelist = filelist_new,
      current_manager = library_manager_new None True, retired_managers = [], project_client = c\<rparr>"

definition is_loaded :: "project \<Rightarrow> bool" where
  "is_loaded p \<longleftrightarrow> path_to_loaded_yaml p \<noteq> None"

definition get_loaded_version :: "project \<Rightarrow> int" where
  "get_loaded_version p = (if is_loaded p then project_version p else -1)"

definition libraries_have_been_populated :: "project \<Rightarrow> bool" where
  "libraries_have_been_populated p \<longleftrightarrow> is_loaded p \<and> explorer_done (workers p)"

definition complain_about_yaml :: "string \<Rightarrow> string \<Rightarrow> u32 \<times> u32 \<Rightarrow> project \<Rightarrow> project" where
  "complain_about_yaml yaml msg place p =
     p\<lparr>project_client := send_persistent_diagnostic yaml \<lparr>ld_message = msg, ld_start = place, ld_end = place\<rparr> (project_client p)\<rparr>"

text \<open>
  \<open>reload_yaml_reset_project_kick_background_index_destroy_libraries\<close>, with the requests it hands to the
  threads. \<open>early\<close> is what the new worker does to the new manager before \<open>initialise\<close> is called.
\<close>

definition reload :: "string \<Rightarrow> yaml_result \<Rightarrow> (libraries \<Rightarrow> libraries) \<Rightarrow> project \<Rightarrow> bool \<times> file_spec list list \<times> project" where
  "reload yaml r early p =
     (let p = p\<lparr>path_to_loaded_yaml := Some yaml, project_version := project_version p + 1\<rparr>
      in case r of
           Yaml_error msg l c \<Rightarrow> (False, [], complain_about_yaml yaml msg (word_of_int (l - 1), word_of_int (c - 1)) p)
         | Other_error msg \<Rightarrow> (False, [], complain_about_yaml yaml msg (0, 0) p)
         | Loaded cfg \<Rightarrow>
             (let jobs = explorer_start 1 (filelist_specifications cfg)
              in (True, jobs,
                  p\<lparr>workers := map (\<lambda>_. worker_new) jobs, current_filelist := filelist_new,
                    retired_managers := retired_managers p @ [library_destroy (current_manager p)],
                    current_manager :=
                      library_initialise (map (\<lambda>l. lib_name (fst l)) (vhdl_libraries cfg)) (early (library_manager_new None False)),
                    project_client := clear_persistent_diagnostic yaml (project_client p)\<rparr>)))"

definition get_libraries_this_file_is_part_of :: "string \<Rightarrow> project \<Rightarrow> string list option" where
  "get_libraries_this_file_is_part_of name p =
     map_option (map (\<lambda>s. lib_name (spec_library s))) (specs_of_file name (current_filelist p))"

definition get_incdirs_this_file_needs :: "string \<Rightarrow> project \<Rightarrow> string list" where
  "get_incdirs_this_file_needs name p =
     (case get_entry name (current_filelist p) of
        None \<Rightarrow> []
      | Some e \<Rightarrow> lib_incdirs (spec_library (entry_spec (entries (current_filelist p) ! e))))"

section \<open>What is handed to the threads\<close>

text \<open>One thread, as the program has it, gets every request; with more, all but the last do again what
  others do.\<close>

lemma one_worker: "explorer_start 1 q = [q]"
  by (simp add: explorer_start_def)

lemma deal_prefixes:
  "xs \<in> set (deal n len remainder until q) \<Longrightarrow> 0 < len + remainder \<or> 0 < until \<Longrightarrow> \<exists>k > 0. xs = take k q"
proof (induction n arbitrary: remainder until)
  case (Suc n)
  let ?until = "until + (if 0 < remainder then len + 1 else len)"
  have "xs = take ?until q \<or> xs \<in> set (deal n len (remainder - 1) ?until q)"
    using Suc.prems(1) by (simp add: Let_def)
  moreover have "0 < ?until" using Suc.prems(2) by auto
  ultimately show ?case using Suc.IH [of "remainder - 1" ?until] by auto
qed simp

lemma workers_repeat:
  assumes "xs \<in> set (explorer_start n q)" and "q \<noteq> []"
  shows "xs \<noteq> [] \<and> hd xs = hd q"
proof -
  have "0 < length q div n + length q mod n" 
    using assms(2) div_mult_mod_eq [of "length q" n] by (metis add_is_0 length_0_conv mult_is_0 neq0_conv)
  then obtain k where "0 < k" "xs = take k q" using deal_prefixes assms(1) unfolding explorer_start_def by blast
  then show ?thesis using assms(2) by (cases q; cases k) auto
qed

section \<open>A computation that ends\<close>

text \<open>
  \<open>gives P T r\<close>: the computation returned; \<open>P\<close> holds of what it returned, and \<open>T\<close> if it threw an exception.
  A failed assertion is not looked at.
\<close>

definition gives :: "('a \<Rightarrow> bool) \<Rightarrow> bool \<Rightarrow> (index_error, 'a) outcome \<Rightarrow> bool" where
  "gives P T r \<longleftrightarrow> r \<noteq> None \<and> (\<forall>x. r = Some (Inr x) \<longrightarrow> P x) \<and> (r = Some (Inl Thrown) \<longrightarrow> T)"

lemma gives_simps [simp]:
  "gives P T (Some (Inr x)) = P x"
  "gives P T (Some (Inl Thrown)) = T"
  "gives P T (Some (Inl (Crashed e)))"
  by (simp_all add: gives_def)

lemma gives_obind: "gives Q T m \<Longrightarrow> (\<And>y. Q y \<Longrightarrow> gives P T (f y)) \<Longrightarrow> gives P T (obind m f)"
  by (auto simp: gives_def obind_def split: option.splits sum.splits)

text \<open>Which files a specification adds to the file list, as the file system stands.\<close>

definition indexed_path :: "disk \<Rightarrow> string \<Rightarrow> bool" where
  "indexed_path d file \<longleftrightarrow>
     (if query_vhdl (extension d file) then content_of d file \<noteq> None else extension d file = ''.sv'')"

definition indexed_found :: "disk \<Rightarrow> string \<Rightarrow> bool" where
  "indexed_found d file \<longleftrightarrow>
     (if query_vhdl (extension d file) then content_of d file \<noteq> None else query_sv (extension d file))"

definition listed_below :: "disk \<Rightarrow> (string \<Rightarrow> bool) \<Rightarrow> string list \<Rightarrow> string list" where
  "listed_below d match ps =
     filter (indexed_found d) (List.map_filter (absolute d) (filter (\<lambda>p. \<not> is_directory d p \<and> match (file_name d p)) ps))"

definition listed_by :: "disk \<Rightarrow> string \<Rightarrow> file_spec \<Rightarrow> string list" where
  "listed_by d ws s =
     (case spec_content s of
        Path p \<Rightarrow>
          (let p = resolve_folder ws p
           in if exists_on d p \<and> is_regular_file d p
              then filter (indexed_path d) (List.map_filter (absolute d) [p]) else [])
      | Query f \<Rightarrow>
          (let folder = resolve_folder ws (directory f)
           in if exists_on d folder \<and> is_directory d folder
              then (case regex d (search f) of None \<Rightarrow> [] | Some match \<Rightarrow> listed_below d match (entries_below d folder))
              else []))"

definition listed :: "(string \<times> file_spec) list \<Rightarrow> indexer \<Rightarrow> bool" where
  "listed es x \<longleftrightarrow> add_entries es filelist_new = Some (files x)"

lemma listed_frame [simp]:
  "listed es (x\<lparr>str := a\<rparr>) = listed es x" "listed es (x\<lparr>manager := b\<rparr>) = listed es x"
  "listed es (x\<lparr>sv_files := c\<rparr>) = listed es x" "listed es (x\<lparr>reports := c'\<rparr>) = listed es x"
  "listed es (x\<lparr>loads := n\<rparr>) = listed es x" "listed es (spec_problem yaml s msg x) = listed es x"
  by (simp_all add: listed_def spec_problem_def Let_def)

lemma list_file_gives: "listed es x \<Longrightarrow> gives (listed (es @ [(file, s)])) T (list_file file s x)"
  using new_filelist_more [of es "files x" "file" s] by (auto simp: listed_def list_file_def)

lemma fast_units_returns:
  assumes "no_stuck_text src"
  shows "gives (\<lambda>_. True) T (fast_units k src file st)"
proof -
  have "returns (obind (fast_parser_new src (CHR 0x00) st file k) (\<lambda>q. fast_parse file q))"
  proof (cases "lexer_new src (CHR 0x00) st None file vhdl93 k")
    case (Inr lx)
    then have "cs lx = stream_new src (CHR 0x00)" by (auto simp: lexer_new_def split: sum.splits)
    then have good: "good_queue (queue_new lx)"
      using assms by (simp add: good_queue_def good_text_def queue_ok_def queue_new_def MAX_LOOKBACK_def sample_simps)
    show ?thesis
      using scan_good [OF good] parse_loop_returns
      by (auto simp: fast_parser_new_def Inr fast_parse_def obind_Inr_iff intro!: returns_obind split: prod.splits)
  qed (simp add: fast_parser_new_def)
  then show ?thesis by (auto simp: fast_units_def returns_def gives_def split: sum.splits prod.splits)
qed

definition readable :: "disk \<Rightarrow> bool" where
  "readable d \<longleftrightarrow> (\<forall>file src. content_of d file = Some src \<longrightarrow> no_stuck_text src)"

lemma index_vhdl_gives:
  assumes "no_stuck_text src" and "listed es x"
  shows "gives (listed (es @ [(file, s)])) T (index_vhdl d s file src x)"
  unfolding index_vhdl_def
  by (rule gives_obind [OF fast_units_returns [OF assms(1)]]) (auto intro!: list_file_gives simp: assms(2))

lemma index_sv_gives: "listed es x \<Longrightarrow> gives (listed (es @ [(file, s)])) T (index_sv s file x)"
  unfolding index_sv_def by (rule list_file_gives) simp

section \<open>What the indexer lists\<close>

lemma listed_below_Cons: "listed_below d match (p # ps) = listed_below d match [p] @ listed_below d match ps"
  by (simp add: listed_below_def map_filter_def)

lemma listed_below_one: "listed_below d match [p] = [] \<or> (\<exists>f. listed_below d match [p] = [f])"
  by (simp add: listed_below_def map_filter_def split: option.split)

lemma query_turn_gives:
  assumes "readable d" and "listed es x"
  shows "gives (\<lambda>t. case t of
      Skip \<Rightarrow> listed_below d match [p] = []
    | Done counts y \<Rightarrow> listed (es @ map (\<lambda>f. (f, s)) (listed_below d match [p])) y
        \<and> counts = (listed_below d match [p] \<noteq> [])) T (query_turn d s match p x)"
proof (cases "is_directory d p \<or> \<not> match (file_name d p) \<or> absolute d p = None")
  case True
  then show ?thesis by (auto simp: query_turn_def listed_below_def map_filter_def split: option.split)
next
  case False
  then obtain f where f: "absolute d p = Some f" "\<not> is_directory d p" "match (file_name d p)" by auto
  then have below: "listed_below d match [p] = (if indexed_found d f then [f] else [])"
    by (simp add: listed_below_def map_filter_def)
  show ?thesis
  proof (cases "query_vhdl (extension d f) \<and> content_of d f \<noteq> None")
    case True
    then obtain src where src: "content_of d f = Some src" by blast
    then have "no_stuck_text src" using assms(1) by (auto simp: readable_def)
    from index_vhdl_gives [OF this assms(2), of f s T d] show ?thesis
      using True src f by (auto simp: query_turn_def below indexed_found_def intro!: gives_obind)
  next
    case False
    then show ?thesis
      using f assms(2) index_sv_gives [OF assms(2), of f s T]
      by (auto simp: query_turn_def below indexed_found_def intro!: gives_obind split: option.split)
  qed
qed

lemma explore_files_gives:
  assumes "readable d" and "\<And>n. \<not> quit_at d n" and "listed es x"
  shows "gives (\<lambda>(n, y). listed (es @ map (\<lambda>f. (f, s)) (listed_below d match ps)) y
      \<and> n = found + int (length (listed_below d match ps))) T (explore_files d s match ps found x)"
  using assms(3)
proof (induction ps arbitrary: es found x)
  case Nil
  then show ?case by (simp add: listed_below_def map_filter_def)
next
  case (Cons p ps)
  show ?case
    unfolding explore_files.simps
  proof (rule gives_obind [OF query_turn_gives [OF assms(1) Cons.prems]])
    fix t
    assume t: "case t of
      Skip \<Rightarrow> listed_below d match [p] = []
    | Done counts y \<Rightarrow> listed (es @ map (\<lambda>f. (f, s)) (listed_below d match [p])) y
        \<and> counts = (listed_below d match [p] \<noteq> [])"
    show "gives (\<lambda>(n, y). listed (es @ map (\<lambda>f. (f, s)) (listed_below d match (p # ps))) y
        \<and> n = found + int (length (listed_below d match (p # ps)))) T
      (case t of Skip \<Rightarrow> explore_files d s match ps found x
       | Done counts x \<Rightarrow>
           (let found = (if counts then found + 1 else found); (stopped, x) = load_quit d x
            in if stopped then Some (Inr (found, x)) else explore_files d s match ps found x))"
    proof (cases t)
      case Skip
      then show ?thesis using t Cons.IH [OF Cons.prems, of found] by (simp add: listed_below_Cons [of d match p ps])
    next
      case (Done counts y)
      let ?es = "es @ map (\<lambda>f. (f, s)) (listed_below d match [p])" and ?found = "if counts then found + 1 else found"
      have "listed ?es (y\<lparr>loads := Suc (loads y)\<rparr>)" using t Done by simp
      from Cons.IH [OF this, of ?found] show ?thesis
        using t Done assms(2) listed_below_one [of d match p]
        by (auto simp: listed_below_Cons [of d match p ps] load_quit_def Let_def add.assoc)
    qed
  qed
qed

lemma explore_spec_gives:
  assumes "readable d" and "\<And>n. \<not> quit_at d n" and "listed es x"
  shows "gives (\<lambda>(n, y). listed (es @ map (\<lambda>f. (f, s)) (listed_by d ws s)) y \<and> n = int (length (listed_by d ws s)))
    (listed_by d ws s = []) (explore_spec d ws yaml s x)"
proof (cases "spec_content s")
  case (Path p)
  let ?p = "resolve_folder ws p"
  show ?thesis
  proof (cases "\<exists>f src. exists_on d ?p \<and> is_regular_file d ?p \<and> absolute d ?p = Some f
      \<and> query_vhdl (extension d f) \<and> content_of d f = Some src")
    case True
    then obtain f src where f: "exists_on d ?p" "is_regular_file d ?p" "absolute d ?p = Some f"
        "query_vhdl (extension d f)" "content_of d f = Some src" by blast
    then have "no_stuck_text src" using assms(1) by (auto simp: readable_def)
    from index_vhdl_gives [OF this assms(3), of f s _ d] show ?thesis
      using f by (auto simp: explore_spec_def explore_path_def Path listed_by_def Let_def map_filter_def indexed_path_def
          intro!: gives_obind)
  next
    case False
    then show ?thesis
      using assms(3) index_sv_gives [OF assms(3), of _ s]
      by (auto simp: explore_spec_def explore_path_def Path listed_by_def Let_def map_filter_def indexed_path_def
          intro!: gives_obind split: option.split)
  qed
next
  case (Query f)
  then show ?thesis
    using assms(3) explore_files_gives [OF assms, of s _ "entries_below d (resolve_folder ws (directory f))" 0]
    by (auto simp: explore_spec_def explore_query_def listed_by_def Let_def split: option.split)
qed

definition requests_of :: "disk \<Rightarrow> string \<Rightarrow> file_spec list \<Rightarrow> (string \<times> file_spec) list" where
  "requests_of d ws ss = concat (map (\<lambda>s. map (\<lambda>f. (f, s)) (listed_by d ws s)) ss)"

lemma requests_of_simps [simp]:
  "requests_of d ws [] = []"
  "requests_of d ws (s # ss) = map (\<lambda>f. (f, s)) (listed_by d ws s) @ requests_of d ws ss"
  by (simp_all add: requests_of_def)

lemma count_request_gives:
  assumes "count_request found (k, x) = (k', x')"
  shows "number_of_requests_completed k' = number_of_requests_completed k + 1" and "listed es x' = listed es x"
  using assms
  by (auto simp: count_request_def i_just_completed_a_request_def Let_def split: prod.splits if_splits)

lemma work_gives:
  assumes "readable d" and "\<And>n. \<not> quit_at d n" and "listed es x"
  shows "gives (\<lambda>(k', y). listed (es @ requests_of d ws ss) y
      \<and> number_of_requests_completed k' = number_of_requests_completed k + of_nat (length ss)) False
    (work d ws yaml ss (k, x))"
  using assms(3)
proof (induction ss arbitrary: es k x)
  case (Cons s ss)
  let ?x = "x\<lparr>loads := Suc (loads x)\<rparr>"
  have "listed es ?x" using Cons.prems by simp
  note one = explore_spec_gives [OF assms(1,2) this, of s ws yaml]
  have next_ones: "gives (\<lambda>(k', y). listed (es @ requests_of d ws (s # ss)) y
        \<and> number_of_requests_completed k' = number_of_requests_completed k + of_nat (length (s # ss))) False
      (work d ws yaml ss (count_request found (k, y)))"
    if "listed (es @ map (\<lambda>f. (f, s)) (listed_by d ws s)) y" for found y
  proof -
    obtain k1 y1 where c: "count_request found (k, y) = (k1, y1)" by fastforce
    note counted = count_request_gives [OF c]
    from that have "listed (es @ map (\<lambda>f. (f, s)) (listed_by d ws s)) y1" by (simp add: counted(2))
    from Cons.IH [OF this, of k1] show ?thesis by (simp add: c counted(1) add.assoc)
  qed
  consider e where "explore_spec d ws yaml s ?x = Some (Inl (Crashed e))"
    | "explore_spec d ws yaml s ?x = Some (Inl Thrown)"
    | n y where "explore_spec d ws yaml s ?x = Some (Inr (n, y))"
  proof (cases "explore_spec d ws yaml s ?x")
    case None
    then show ?thesis using one by (simp add: gives_def)
  next
    case (Some a)
    then show ?thesis
      using that by (cases a) (metis index_error.exhaust, metis surj_pair)
  qed
  then show ?case
  proof cases
    case 1
    then show ?thesis using assms(2) by (simp add: load_quit_def)
  next
    case 2
    then have "listed_by d ws s = []" using one by simp
    then show ?thesis using next_ones [of ?x 0] 2 assms(2) Cons.prems by (simp add: load_quit_def)
  next
    case 3
    then show ?thesis using next_ones [of y n] one assms(2) by (simp add: load_quit_def)
  qed
qed simp


definition sample_disk :: disk where
  "sample_disk =
     \<lparr>exists_on = (\<lambda>p. p \<noteq> ''/ws/no.sv''), is_directory = (\<lambda>_. False), is_regular_file = (\<lambda>_. True), entries_below = (\<lambda>_. []),
      regex = (\<lambda>_. None), file_name = id, extension = (\<lambda>_. ''.sv''), is_relative = (\<lambda>_. False), absolute_path = Some,
      content_of = (\<lambda>_. None), quit_at = (\<lambda>_. False), database_of = sample_sqlite, hash_of = sample_hash, first_kind = tk_eof\<rparr>"

definition sample_spec :: "string \<Rightarrow> string \<Rightarrow> file_spec" where
  "sample_spec lib p =
     \<lparr>spec_library = \<lparr>lib_name = lib, lib_incdirs = []\<rparr>, spec_content = Path p, spec_line = 1, spec_column = 1\<rparr>"

definition sample_specs :: "file_spec list" where
  "sample_specs = [sample_spec ''a'' ''${workspaceFolder}/f.sv'', sample_spec ''b'' ''${workspaceFolder}/no.sv'',
     sample_spec ''b'' ''/ws/f.sv'']"

definition sample_indexer :: indexer where
  "sample_indexer = \<lparr>str = stringtable_new length, manager = library_manager_new None False, files = filelist_new,
     sv_files = [], reports = client_new, loads = 0\<rparr>"


text \<open>A configuration that cannot be read leaves a project that says it is loaded with a new version and
  with its libraries populated, though the files and the libraries are those it had, none at the beginning.
\<close>

theorem failed_reload:
  assumes "reload yaml r early p = (False, jobs, p')"
  shows "is_loaded p' \<and> get_loaded_version p' = project_version p + 1 \<and> jobs = []
    \<and> current_filelist p' = current_filelist p \<and> current_manager p' = current_manager p
    \<and> (explorer_done (workers p) \<longrightarrow> libraries_have_been_populated p')
    \<and> (\<exists>d. persistent (project_client p') yaml = persistent (project_client p) yaml @ [d])"
  using assms
  by (auto simp: reload_def complain_about_yaml_def is_loaded_def get_loaded_version_def libraries_have_been_populated_def
      send_persistent_diagnostic_def send_note_def Let_def split: yaml_result.splits)

theorem failed_reload_witness:
  "\<exists>p. reload ''y'' (Other_error ''bad file'') id (project_new client_new) = (False, [], p)
    \<and> libraries_have_been_populated p \<and> get_loaded_version p = 1 \<and> specs_of_file ''/ws/f.sv'' (current_filelist p) = Some []"
proof -
  obtain p where p: "reload ''y'' (Other_error ''bad file'') id (project_new client_new) = (False, [], p)"
    by (auto simp: reload_def Let_def)
  have "explorer_done (workers (project_new client_new))" "project_version (project_new client_new) = 0"
      "current_filelist (project_new client_new) = filelist_new"
    by (simp_all add: project_new_def explorer_done_def)
  with failed_reload [OF p] p show ?thesis
    by (intro exI [of _ p]) (simp add: specs_of_file_def get_entry_def filelist_new_def)
qed

end
