(* ===== verification/Ast.thy ===== *)
theory Ast
  imports Parser_Units Library
begin

text \<open>
  The container of a file's parse tree, \<^verbatim>\<open>src/vhdl/ast.cpp\<close>: when the tree is rebuilt, what the cache of
  library units holds, and how a primary unit is found. The parser is the model of the theories
  before; the libraries are those of Library. Files are the argument \<open>read_file\<close>, and the semantic analysis, which
  walks node classes that the build generates, is the argument \<open>analysis_of\<close>: it may change the tree (it calls
  \<open>load_primary_unit\<close>) and the libraries.
\<close>

section \<open>State\<close>

datatype unit_state = Parsed | Analysing | Analysed | Outdated

text \<open>A \<open>library_unit\<close> node; \<open>un_unit\<close> is the address of its syntax unit.\<close>

record unit_node =
  un_unit :: nat
  un_syntax :: design_unit
  un_file :: string
  un_state :: unit_state

record design_file =
  df_name :: string
  df_source :: string
  df_units :: "(nat \<times> design_unit) list"

text \<open>
  \<open>nodes\<close> are the nodes made so far; a \<open>shared_ptr\<close> to one is its index. The units of a file live as long
  as a node of the cache holds the file, so the address of a new unit, \<open>next_unit\<close>, is that of no unit in it.
\<close>

record ast =
  ast_file :: string
  work_library :: string
  ast_strings :: stringtable
  main_file :: "design_file option"
  parse_errors :: "diagnostic list"
  semantic_errors :: "diagnostic list"
  nodes :: "unit_node list"
  cached_library_units :: "string \<Rightarrow> nat list"
  next_unit :: nat
  invalidated :: bool

definition ast_new :: "string \<Rightarrow> string \<Rightarrow> stringtable \<Rightarrow> ast" where
  "ast_new file work st =
     \<lparr>ast_file = file, work_library = work, ast_strings = st, main_file = None, parse_errors = [],
      semantic_errors = [], nodes = [], cached_library_units = (\<lambda>_. []), next_unit = 0, invalidated = True\<rparr>"

type_synonym analysis = "nat \<Rightarrow> ast \<times> libraries \<Rightarrow> diagnostic list \<times> ast \<times> libraries"

text \<open>What the code uses and is not modelled; \<open>tok0\<close> is what the lexer leaves uninitialised.\<close>

record outside =
  read_file :: "string \<Rightarrow> string option"
  analysis_of :: analysis
  database :: sqlite
  hash :: "string \<Rightarrow> u64"
  tok0 :: kind_t

section \<open>Small operations\<close>

definition invalidate_main_file :: "ast \<Rightarrow> ast" where
  "invalidate_main_file a = a\<lparr>invalidated := True\<rparr>"

definition set_state :: "unit_state \<Rightarrow> nat \<Rightarrow> ast \<Rightarrow> ast" where
  "set_state st n a = a\<lparr>nodes := (nodes a)[n := (nodes a ! n)\<lparr>un_state := st\<rparr>]\<rparr>"

text \<open>Every unit of the cache that comes from the file is outdated, in whatever library it is.\<close>

definition invalidate_reference_file :: "string \<Rightarrow> ast \<Rightarrow> ast" where
  "invalidate_reference_file file a =
     (let hit = (\<lambda>n. un_file (nodes a ! n) = file \<and> (\<exists>lib. n \<in> set (cached_library_units a lib)))
      in a\<lparr>nodes := map (\<lambda>n. if hit n then (nodes a ! n)\<lparr>un_state := Outdated\<rparr> else nodes a ! n) [0..<length (nodes a)],
           invalidated := (invalidated a \<or> (\<exists>n < length (nodes a). hit n))\<rparr>)"

definition get_main_file :: "ast \<Rightarrow> design_file option" where
  "get_main_file a = main_file a"

definition get_diagnostics :: "ast \<Rightarrow> diagnostic list \<times> diagnostic list" where
  "get_diagnostics a = (parse_errors a, semantic_errors a)"

definition is_uptodate :: "ast \<Rightarrow> bool" where
  "is_uptodate a \<longleftrightarrow> main_file a \<noteq> None"

fun unit_identity :: "design_unit \<Rightarrow> library_unit_kind \<times> string" where
  "unit_identity (Design_unit (Unit_entity_declaration t _ _ _ _ _ _) _ _) = (Entity, val t)"
| "unit_identity (Design_unit (Unit_architecture t _ _ _ _ _ _) _ _) = (Architecture, val t)"
| "unit_identity (Design_unit (Unit_configuration t _ _ _ _ _) _ _) = (Configuration, val t)"
| "unit_identity (Design_unit (Unit_package t _ _ _) _ _) = (Package, val t)"
| "unit_identity (Design_unit (Unit_package_body t _ _ _) _ _) = (Package_body, val t)"

text \<open>The second identifier is never set.\<close>

definition convert_to_tuple :: "unit_node \<Rightarrow> library_unit" where
  "convert_to_tuple n =
     \<lparr>unit_kind = fst (unit_identity (un_syntax n)), unit_line = 0, unit_column = 0,
      unit_name = snd (unit_identity (un_syntax n)), unit_of = None, unit_file = un_file n, unit_time = 0\<rparr>"

section \<open>Parsing and analysing a file\<close>

text \<open>The parser writes to the string table of the tree; what it leaves there.\<close>

definition strings_after :: "parser \<Rightarrow> stringtable" where
  "strings_after p =
     strings (scanner (pq (case parse_design_file the_grammar p of
       Some (Inr (_, p')) \<Rightarrow> p' | Some (Inl (Thrown _ p')) \<Rightarrow> p' | _ \<Rightarrow> p)))"

definition parse_source ::
    "kind_t \<Rightarrow> string \<Rightarrow> string \<Rightarrow> stringtable \<Rightarrow> (parse_error, diagnostic list \<times> design_unit list \<times> stringtable) outcome" where
  "parse_source k file src st =
     obind (parser_new src (CHR 0x00) st file vhdl93 k) (\<lambda>p.
     obind (parser_run the_grammar p) (\<lambda>r.
       Some (Inr (parsed_diagnostics r, map snd (parsed_units r), strings_after p))))"

text \<open>
  The house keeping of the cache: a unit with the address of the new one is evicted, and the new one
  is appended.
\<close>

fun register_units :: "string \<Rightarrow> string \<Rightarrow> design_unit list \<Rightarrow> ast \<Rightarrow> (nat \<times> nat) list \<times> ast" where
  "register_units lib file [] a = ([], a)"
| "register_units lib file (u # us) a =
     (let n = length (nodes a);
          addr = next_unit a;
          kept = filter (\<lambda>k. un_unit (nodes a ! k) \<noteq> addr) (cached_library_units a lib);
          a = a\<lparr>nodes := nodes a @ [\<lparr>un_unit = addr, un_syntax = u, un_file = file, un_state = Parsed\<rparr>],
               next_unit := Suc addr,
               cached_library_units := (cached_library_units a)(lib := kept @ [n])\<rparr>;
          (ns, a) = register_units lib file us a
      in ((n, addr) # ns, a))"

fun analyse :: "analysis \<Rightarrow> nat list \<Rightarrow> ast \<times> libraries \<Rightarrow> diagnostic list \<times> ast \<times> libraries" where
  "analyse b [] s = ([], s)"
| "analyse b (n # ns) (a, m) =
     (case b n (set_state Analysing n a, m) of (ds, a, m) \<Rightarrow>
        (case analyse b ns (set_state Analysed n a, m) of (es, s) \<Rightarrow> (ds @ es, s)))"

definition put_units :: "outside \<Rightarrow> nat \<Rightarrow> nat list \<Rightarrow> ast \<Rightarrow> libraries \<Rightarrow> libraries" where
  "put_units out p ns a m =
     fold (\<lambda>n m. snd (library_put (database out) (hash out) p (convert_to_tuple (nodes a ! n)) m)) ns m"

definition ast_update ::
    "outside \<Rightarrow> ast \<Rightarrow> libraries \<Rightarrow> (parse_error, bool \<times> ast \<times> libraries) outcome" where
  "ast_update out a m =
     (if \<not> invalidated a then Some (Inr (True, a, m))
      else case read_file out (ast_file a) of
        None \<Rightarrow> Some (Inr (False, a\<lparr>parse_errors := [], semantic_errors := [], main_file := None\<rparr>, m))
      | Some src \<Rightarrow>
          obind (parse_source (tok0 out) (ast_file a) src (ast_strings a)) (\<lambda>(diags, us, st).
            let (ns, a) = register_units (work_library a) (ast_file a) us (a\<lparr>ast_strings := st, parse_errors := diags\<rparr>);
                a = a\<lparr>main_file := Some \<lparr>df_name = ast_file a, df_source = src, df_units = zip (map snd ns) us\<rparr>\<rparr>;
                (p, m) = library_get (work_library a) m;
                (errs, a, m) = analyse (analysis_of out) (map fst ns) (a, m);
                a = a\<lparr>semantic_errors := errs\<rparr>;
                m = (if be_known (heap m ! p) then put_units out p (map fst ns) a m else m)
            in Some (Inr (False, a\<lparr>invalidated := False\<rparr>, m))))"

section \<open>Finding a primary unit\<close>

fun is_candidate :: "string \<Rightarrow> string option \<Rightarrow> library_unit_kind \<times> string \<Rightarrow> bool" where
  "is_candidate name second (k, i) \<longleftrightarrow>
     i = name \<and> (k \<in> {Entity, Package} \<and> second = None \<or> k = Configuration \<and> second \<noteq> None)"

definition cached_candidates :: "string \<Rightarrow> string \<Rightarrow> string option \<Rightarrow> ast \<Rightarrow> nat list" where
  "cached_candidates lib name second a =
     filter (\<lambda>n. un_state (nodes a ! n) \<notin> {Outdated, Parsed} \<and> is_candidate name second (unit_identity (un_syntax (nodes a ! n))))
       (cached_library_units a lib)"

text \<open>The units of a file that was loaded for the unit \<open>name\<close> of kind \<open>k\<close> the library has there.\<close>

definition loaded_candidates :: "string \<Rightarrow> library_unit_kind \<Rightarrow> (nat \<times> nat) list \<Rightarrow> design_unit list \<Rightarrow> nat list" where
  "loaded_candidates name k ns us =
     map (fst \<circ> fst) (filter (\<lambda>(_, u). k \<in> {Entity, Package} \<and> unit_identity u = (k, name)) (zip ns us))"

definition load_primary_unit ::
    "outside \<Rightarrow> string option \<Rightarrow> string \<Rightarrow> string option \<Rightarrow> ast \<Rightarrow> libraries
     \<Rightarrow> (parse_error, nat list \<times> ast \<times> libraries) outcome" where
  "load_primary_unit out library name second a m =
     (let lib = (case library of None \<Rightarrow> work_library a | Some l \<Rightarrow> l);
          found = cached_candidates lib name second a
      in if found \<noteq> [] then Some (Inr (found, a, m))
         else
           (let (p, m) = library_get lib m;
                u = backend_get (database out) name second (heap m ! p)
            in if \<not> be_known (heap m ! p) \<or> unit_kind u \<notin> {Entity, Package, Configuration} then Some (Inr ([], a, m))
               else case read_file out (unit_file u) of
                 None \<Rightarrow> Some (Inr ([], a, m))
               | Some src \<Rightarrow>
                   obind (parse_source (tok0 out) (unit_file u) src (ast_strings a)) (\<lambda>(_, us, st).
                     let (ns, a) = register_units lib (unit_file u) us (a\<lparr>ast_strings := st\<rparr>);
                         (_, a, m) = analyse (analysis_of out) (map fst ns) (a, m)
                     in Some (Inr (loaded_candidates name (unit_kind u) ns us, a, m)))))"

section \<open>What the cache holds\<close>

definition ast_ok :: "ast \<Rightarrow> bool" where
  "ast_ok a \<longleftrightarrow>
     (\<forall>lib. \<forall>n \<in> set (cached_library_units a lib). n < length (nodes a))
     \<and> (\<forall>n < length (nodes a). un_unit (nodes a ! n) < next_unit a)"

text \<open>\<open>tree_grown a a'\<close>: the nodes there were are as they were, and still in the cache.\<close>

definition tree_grown :: "ast \<Rightarrow> ast \<Rightarrow> bool" where
  "tree_grown a a' \<longleftrightarrow>
     length (nodes a) \<le> length (nodes a') \<and> (\<forall>n < length (nodes a). nodes a' ! n = nodes a ! n)
     \<and> (\<forall>lib. set (cached_library_units a lib) \<subseteq> set (cached_library_units a' lib))
     \<and> work_library a' = work_library a \<and> ast_file a' = ast_file a"

lemma tree_grown_refl: "tree_grown a a"
  by (simp add: tree_grown_def)

lemma tree_grown_trans: "tree_grown a b \<Longrightarrow> tree_grown b c \<Longrightarrow> tree_grown a c"
  unfolding tree_grown_def by (auto intro: order_trans) blast

lemma ast_new_ok: "ast_ok (ast_new file work st)"
  by (simp add: ast_ok_def ast_new_def)

text \<open>No unit is ever evicted: a new unit is at an address of its own.\<close>

lemma register_units_grown:
  "ast_ok a \<Longrightarrow> register_units lib file us a = (ns, a') \<Longrightarrow>
   ast_ok a' \<and> tree_grown a a' \<and> length ns = length us
   \<and> cached_library_units a' lib = cached_library_units a lib @ map fst ns
   \<and> (\<forall>n \<in> fst ` set ns. length (nodes a) \<le> n \<and> n < length (nodes a'))"
proof (induction us arbitrary: a ns)
  case Nil
  then show ?case by (simp add: tree_grown_refl)
next
  case (Cons u us)
  let ?n = "length (nodes a)"
  let ?b = "a\<lparr>nodes := nodes a @ [\<lparr>un_unit = next_unit a, un_syntax = u, un_file = file, un_state = Parsed\<rparr>],
    next_unit := Suc (next_unit a),
    cached_library_units := (cached_library_units a)(lib := cached_library_units a lib @ [?n])\<rparr>"
  have kept: "filter (\<lambda>k. un_unit (nodes a ! k) \<noteq> next_unit a) (cached_library_units a lib) = cached_library_units a lib"
    using Cons.prems(1) by (auto simp: ast_ok_def filter_id_conv) (metis less_irrefl)
  obtain ms where ms: "register_units lib file us ?b = (ms, a')" "ns = (?n, next_unit a) # ms"
    using Cons.prems(2) by (auto simp: Let_def kept split: prod.splits)
  have b: "ast_ok ?b" using Cons.prems(1) by (auto simp: ast_ok_def nth_append less_Suc_eq)
  have "tree_grown a ?b" by (auto simp: tree_grown_def nth_append)
  moreover note ih = Cons.IH [OF b ms(1)]
  ultimately have "tree_grown a a'" by (blast intro: tree_grown_trans)
  moreover have "Suc ?n \<le> length (nodes a')" using ih by (simp add: tree_grown_def)
  ultimately show ?case using ih ms(2) by (auto simp: Suc_le_eq)
qed

text \<open>What is asked of the semantic analysis: it may load units, and leaves those there are alone.\<close>

definition analysis_grows :: "analysis \<Rightarrow> bool" where
  "analysis_grows b \<longleftrightarrow> (\<forall>n a m ds a' m'. b n (a, m) = (ds, a', m') \<longrightarrow> tree_grown a a')"

lemma analyse_keeps:
  "analysis_grows b \<Longrightarrow> analyse b ns (a, m) = (ds, a', m') \<Longrightarrow>
   length (nodes a) \<le> length (nodes a')
   \<and> (\<forall>k < length (nodes a). k \<notin> set ns \<longrightarrow> nodes a' ! k = nodes a ! k)
   \<and> (\<forall>lib. set (cached_library_units a lib) \<subseteq> set (cached_library_units a' lib))
   \<and> work_library a' = work_library a"
proof (induction ns arbitrary: a m ds)
  case (Cons n ns)
  obtain es a1 m1 where one: "b n (set_state Analysing n a, m) = (es, a1, m1)" by (metis prod_cases3)
  obtain fs where more: "analyse b ns (set_state Analysed n a1, m1) = (fs, a', m')"
    using Cons.prems(2) one by (auto split: prod.splits)
  have "tree_grown (set_state Analysing n a) a1" using Cons.prems(1) one unfolding analysis_grows_def by blast
  then show ?case
    using Cons.IH [OF Cons.prems(1) more] by (fastforce simp: tree_grown_def set_state_def)
qed simp

lemma register_units_work:
  "register_units lib file us a = (ns, a') \<Longrightarrow> work_library a' = work_library a \<and> invalidated a' = invalidated a"
  by (induction us arbitrary: a ns) (auto simp: Let_def split: prod.splits)


definition sample_outside :: "(string \<Rightarrow> string option) \<Rightarrow> outside" where
  "sample_outside rd =
     \<lparr>read_file = rd, analysis_of = (\<lambda>n s. ([], s)), database = sample_sqlite, hash = sample_hash, tok0 = tk_eof\<rparr>"

text \<open>A tree with an entity that was analysed, before its file was emptied.\<close>

definition sample_entity :: design_unit where
  "sample_entity =
     (let l = location_initialize [] 1 1
      in Design_unit (Unit_entity_declaration (token_default\<lparr>val := ''top''\<rparr>) [] [] [] [] (l, l, l) (l, l, l)) l l)"

definition sample_ast :: ast where
  "sample_ast =
     (ast_new ''f.vhd'' ''work'' (stringtable_new length))\<lparr>
        nodes := [\<lparr>un_unit = 0, un_syntax = sample_entity, un_file = ''f.vhd'', un_state = Analysed\<rparr>],
        next_unit := 1, cached_library_units := (\<lambda>_. [])(''work'' := [0])\<rparr>"

lemma sample_ast_ok: "ast_ok sample_ast"
  by (simp add: ast_ok_def sample_ast_def ast_new_def)

lemma sample_analysis: "analysis_grows (analysis_of (sample_outside rd))"
  by (simp add: analysis_grows_def sample_outside_def tree_grown_refl)


end
