(* ===== verification/Working_Files.thy ===== *)
theory Working_Files
  imports Ast Generate_Hang
begin

text \<open>
  Files that are open in the editor, \<^verbatim>\<open>src/things/working_files.cpp\<close>: each has a thread that works on a
  queue of tasks, to update the parse tree or to answer a question about it, and the main thread adds
  the tasks. \<open>core\<close> is what the tasks work on, \<open>file_state\<close> the queue and the two threads, \<open>file_step\<close>
  what they can do next. The answers to questions are made by the providers, an argument.
\<close>

section \<open>What a task works on\<close>

text \<open>The four requests of the protocol.\<close>

datatype question = Folding_ranges | Symbols | Hover position | Definition position

datatype answer = Json string | Null_value

text \<open>What the project reports: its version, whether its libraries are populated, and the libraries of the file.\<close>

record project_view =
  loaded_version :: int
  populated :: bool
  libraries_of_file :: "string list"

text \<open>\<open>published\<close> counts the diagnostics sent to the client, \<open>answers\<close> are the replies with their requests.\<close>

record core =
  file_name :: string
  tree :: "ast option"
  work_libraries :: "string list"
  current_project_version :: int
  library_fully_loaded :: bool
  stopped :: bool
  libraries_of :: libraries
  published :: "diagnostic list list"
  answers :: "(nat \<times> answer) list"

record surroundings =
  outer :: outside
  project :: project_view
  provider :: "question \<Rightarrow> design_file \<Rightarrow> string option"
  hasher_of_strings :: "string \<Rightarrow> nat"

definition core_new :: "string \<Rightarrow> libraries \<Rightarrow> core" where
  "core_new file m =
     \<lparr>file_name = file, tree = None, work_libraries = [], current_project_version = 0, library_fully_loaded = False,
      stopped = False, libraries_of = m, published = [], answers = []\<rparr>"

text \<open>A new project, or new libraries, and the tree is made anew.\<close>

definition make_sure_this_is_latest_project_version :: "surroundings \<Rightarrow> core \<Rightarrow> core" where
  "make_sure_this_is_latest_project_version s c =
     (let v = project s
      in if tree c = None \<or> current_project_version c \<noteq> loaded_version v \<or> library_fully_loaded c \<noteq> populated v
         then c\<lparr>current_project_version := loaded_version v, library_fully_loaded := populated v,
                work_libraries := libraries_of_file v,
                tree := Some (ast_new (file_name c)
                          (case libraries_of_file v of [] \<Rightarrow> ''work'' | l # _ \<Rightarrow> l)
                          (stringtable_new (hasher_of_strings s)))\<rparr>
         else c)"

text \<open>The diagnostics that go to the client: about the project, then those of the parser.\<close>

definition project_diagnostics :: "core \<Rightarrow> ast \<Rightarrow> diagnostic list" where
  "project_diagnostics c a =
     (let at = location_initialize (file_name c) 1 1;
          say = (\<lambda>t. new_diagnostic t at)
      in (if main_file a = None then [say ''{} not found.''] else [])
         @ (if current_project_version c = 0 then
              [say ''To enjoy full vhdl language services, make sure there is a valid vhdl_config.yaml configuration.'']
            else if \<not> library_fully_loaded c then
              [add_arg (Arg_int (int (length (semantic_errors a)))) (say ''Indexer is still running. Ignoring {} errors.'')]
            else if work_libraries c = [] then
              [say ''To enjoy full vhdl language services, please add this file to vhdl_config.yaml.'']
            else []))"

definition send_diagnostics_back :: "core \<Rightarrow> ast \<Rightarrow> core" where
  "send_diagnostics_back c a =
     (if stopped c then c else c\<lparr>published := published c @ [project_diagnostics c a @ parse_errors a]\<rparr>)"

text \<open>The callbacks: without a tree, or without a file in it, a question has an empty answer.\<close>

definition answer_from :: "surroundings \<Rightarrow> question \<Rightarrow> ast option \<Rightarrow> answer" where
  "answer_from s q a =
     (let empty = (if q = Folding_ranges \<or> q = Symbols then Json ''[]'' else Null_value)
      in case Option.bind a get_main_file of
           None \<Rightarrow> empty
         | Some f \<Rightarrow> (case provider s q f of Some t \<Rightarrow> Json t | None \<Rightarrow> empty))"

definition reply_to :: "nat \<Rightarrow> answer \<Rightarrow> core \<Rightarrow> core" where
  "reply_to r x c = c\<lparr>answers := answers c @ [(r, x)]\<rparr>"

section \<open>The tasks\<close>

record task =
  question_of :: "(nat \<times> question) option"  \<comment> \<open>\<open>None\<close> is the task that updates\<close>
  superseded :: bool

text \<open>\<open>invalid\<close> is the list \<open>list_of_potentially_referenced_files_now_invalid\<close>, which the task takes and clears.\<close>

definition update_action :: "surroundings \<Rightarrow> string list \<Rightarrow> bool \<Rightarrow> core \<Rightarrow> (parse_error, core) outcome" where
  "update_action s invalid is_superseded c =
     (if is_superseded then Some (Inr c)
      else
        (let c = make_sure_this_is_latest_project_version s c;
             a = invalidate_main_file (fold invalidate_reference_file invalid (the (tree c)))
         in obind (ast_update (outer s) a (libraries_of c)) (\<lambda>(_, a, m).
              Some (Inr (send_diagnostics_back (c\<lparr>tree := Some a, libraries_of := m\<rparr>) a)))))"

definition run_with_vhdl_ast ::
    "surroundings \<Rightarrow> nat \<Rightarrow> question \<Rightarrow> bool \<Rightarrow> core \<Rightarrow> (parse_error, core) outcome" where
  "run_with_vhdl_ast s r q is_superseded c =
     (if is_superseded then Some (Inr (reply_to r (answer_from s q None) c))
      else
        (let c = make_sure_this_is_latest_project_version s c
         in obind (ast_update (outer s) (the (tree c)) (libraries_of c)) (\<lambda>(was_uptodate, a, m).
              let c = c\<lparr>tree := Some a, libraries_of := m\<rparr>;
                  c = (if was_uptodate then c else send_diagnostics_back c a)
              in Some (Inr (reply_to r (answer_from s q (Some a)) c)))))"

definition run_task :: "surroundings \<Rightarrow> string list \<Rightarrow> task \<Rightarrow> core \<Rightarrow> (parse_error, core) outcome" where
  "run_task s invalid t c =
     (case question_of t of
        None \<Rightarrow> update_action s invalid (superseded t) c
      | Some (r, q) \<Rightarrow> run_with_vhdl_ast s r q (superseded t) c)"

definition still_invalid :: "task \<Rightarrow> string list \<Rightarrow> string list" where
  "still_invalid t invalid = (if question_of t = None \<and> \<not> superseded t then [] else invalid)"

section \<open>The queue\<close>

text \<open>
  \<open>add_task\<close> first marks every task of the queue, without the mutex, and then appends its own, with it.
  On the policy to run on the main thread the task is run at once and never superseded.
\<close>

definition mark_all :: "task list \<Rightarrow> task list" where
  "mark_all = map (\<lambda>t. t\<lparr>superseded := True\<rparr>)"

definition task_of :: "(nat \<times> question) option \<Rightarrow> task" where
  "task_of q = \<lparr>question_of = q, superseded = False\<rparr>"

definition add_task_on_main ::
    "surroundings \<Rightarrow> string list \<Rightarrow> (nat \<times> question) option \<Rightarrow> core \<Rightarrow> (parse_error, core) outcome" where
  "add_task_on_main s invalid q c = run_task s invalid (task_of q) c"

definition enqueue :: "(nat \<times> question) option \<Rightarrow> task list \<Rightarrow> task list" where
  "enqueue q ts = mark_all ts @ [task_of q]"

text \<open>What is left when the tasks of the queue were run, and no more came.\<close>

primrec drain :: "surroundings \<Rightarrow> task list \<Rightarrow> string list \<Rightarrow> core \<Rightarrow> (parse_error, core) outcome" where
  "drain s [] invalid c = Some (Inr c)"
| "drain s (t # ts) invalid c = obind (run_task s invalid t c) (drain s ts (still_invalid t invalid))"

section \<open>The two threads\<close>

text \<open>
  The thread of the file holds the mutex while it runs a task, whose outcome is fixed when it begins:
  nothing else writes what the task works on. The list of invalid files has a mutex of its own; a task
  takes what is in it, and what is added later stays. \<open>Working None\<close> is a task that runs for ever; one
  that fails an assertion ends the program and has no step.
\<close>

datatype thread = Waiting | Working "(parse_error, core) outcome" | Ended

text \<open>The main thread is in \<open>add_task\<close>, behind the marking and in front of the mutex, or in \<open>stop\<close>, or elsewhere.\<close>

datatype main_thread = Elsewhere | Pushing task | Stopping

record file_state =
  core_of :: core
  queue_of :: "task list"
  invalid_files :: "string list"
  thread :: thread
  main :: main_thread

definition mutex_free :: "file_state \<Rightarrow> bool" where
  "mutex_free f \<longleftrightarrow> (case thread f of Working _ \<Rightarrow> False | _ \<Rightarrow> True)"

inductive file_step :: "file_state \<Rightarrow> file_state \<Rightarrow> bool" where
  marks: "main f = Elsewhere \<Longrightarrow>
    file_step f (f\<lparr>queue_of := mark_all (queue_of f), main := Pushing (task_of q)\<rparr>)"
| pushes: "main f = Pushing t \<Longrightarrow> mutex_free f \<Longrightarrow>
    file_step f (f\<lparr>queue_of := queue_of f @ [t], main := Elsewhere\<rparr>)"
| wants_stop: "main f = Elsewhere \<Longrightarrow> file_step f (f\<lparr>main := Stopping\<rparr>)"
| stops: "main f = Stopping \<Longrightarrow> mutex_free f \<Longrightarrow>
    file_step f (f\<lparr>core_of := (core_of f)\<lparr>stopped := True\<rparr>, main := Elsewhere\<rparr>)"
| references: "main f = Elsewhere \<Longrightarrow>
    file_step f (f\<lparr>invalid_files := invalid_files f @ [file]\<rparr>)"
| begins: "thread f = Waiting \<Longrightarrow> \<not> stopped (core_of f) \<Longrightarrow> queue_of f = t # ts \<Longrightarrow>
    file_step f (f\<lparr>queue_of := ts, thread := Working (run_task s (invalid_files f) t (core_of f)),
                   invalid_files := still_invalid t (invalid_files f)\<rparr>)"
| finishes: "thread f = Working (Some (Inr c)) \<Longrightarrow>
    file_step f (f\<lparr>core_of := c, thread := Waiting\<rparr>)"
| leaves: "thread f = Waiting \<Longrightarrow> stopped (core_of f) \<Longrightarrow> file_step f (f\<lparr>thread := Ended\<rparr>)"

definition file_new :: "core \<Rightarrow> file_state" where
  "file_new c = \<lparr>core_of = c, queue_of = [], invalid_files = [], thread = Waiting, main = Elsewhere\<rparr>"

abbreviation file_steps :: "file_state \<Rightarrow> file_state \<Rightarrow> bool" where
  "file_steps \<equiv> file_step\<^sup>*\<^sup>*"

section \<open>The files that are open\<close>

text \<open>What \<open>working_files\<close> calls on the files; \<open>names\<close> are those of the map. \<open>ext\<close> is the extension of a path.\<close>

datatype call = Add_task "(nat \<times> question) option" | Invalidate_reference string | Stop

definition is_a_vhdl_file :: "string \<Rightarrow> bool" where
  "is_a_vhdl_file ext \<longleftrightarrow> ext = ''.vhd'' \<or> ext = ''.vhdl''"

definition is_a_sv_file :: "string \<Rightarrow> bool" where
  "is_a_sv_file ext \<longleftrightarrow> ext = ''.sv'' \<or> ext = ''.svh''"

text \<open>The result: whether the file is new, the names, and the calls; \<open>None\<close> is the failed assertion.\<close>

definition update_file ::
    "(string \<Rightarrow> string) \<Rightarrow> string \<Rightarrow> string list \<Rightarrow> (bool \<times> string list \<times> (string \<times> call) list) option" where
  "update_file ext file names =
     (let new = (file \<notin> set names);
          names = (if new then names @ [file] else names)
      in if new \<and> \<not> is_a_vhdl_file (ext file) \<and> \<not> is_a_sv_file (ext file) then None
         else Some (new, names, map (\<lambda>n. (n, if n = file then Add_task None else Invalidate_reference file)) names))"

definition remove_file :: "string \<Rightarrow> string list \<Rightarrow> string list \<times> (string \<times> call) list" where
  "remove_file file names =
     (if file \<in> set names then (removeAll file names, [(file, Stop)]) else (names, []))"

definition update_all_files :: "string list \<Rightarrow> (string \<times> call) list" where
  "update_all_files names = map (\<lambda>n. (n, Add_task None)) names"

text \<open>A question about a file that is not open is dropped, without a reply.\<close>

definition ask_file :: "string \<Rightarrow> nat \<Rightarrow> question \<Rightarrow> string list \<Rightarrow> (string \<times> call) list" where
  "ask_file file r q names = (if file \<in> set names then [(file, Add_task (Some (r, q)))] else [])"

section \<open>Which tasks count\<close>

text \<open>Only the newest task of the queue is not superseded, and none while a newer one is on its way.\<close>

definition newest_only :: "file_state \<Rightarrow> bool" where
  "newest_only f \<longleftrightarrow>
     (case main f of Pushing t \<Rightarrow> \<not> superseded t \<and> (\<forall>u \<in> set (queue_of f). superseded u)
      | _ \<Rightarrow> \<forall>u \<in> set (butlast (queue_of f)). superseded u)"

lemma file_step_newest_only: "file_step f g \<Longrightarrow> newest_only f \<Longrightarrow> newest_only g"
proof (induction rule: file_step.induct)
  case (begins f t ts s)
  then show ?case by (cases ts) (auto simp: newest_only_def split: main_thread.splits)
qed (auto simp: newest_only_def mark_all_def task_of_def dest: in_set_butlastD split: main_thread.splits)

text \<open>C21. At any moment, however the two threads take turns, every task in the queue but the newest is
  superseded, and while the main thread waits for the mutex with a new task all of them are.
\<close>

theorem older_tasks_superseded:
  assumes "file_steps (file_new c) f"
  shows "(\<forall>u \<in> set (butlast (queue_of f)). superseded u)
    \<and> (\<forall>t. main f = Pushing t \<longrightarrow> \<not> superseded t \<and> (\<forall>u \<in> set (queue_of f). superseded u))"
proof -
  from assms have "newest_only f"
  proof (induction rule: rtranclp_induct)
    case base
    then show ?case by (simp add: newest_only_def file_new_def)
  qed (rule file_step_newest_only)
  then show ?thesis by (auto simp: newest_only_def dest: in_set_butlastD split: main_thread.splits)
qed

lemma mark_all_superseded: "u \<in> set (mark_all ts) \<Longrightarrow> superseded u"
  by (auto simp: mark_all_def)

text \<open>A task that is added while the mutex is free is two steps; running all tasks of the queue is two each.\<close>

lemma enqueue_steps:
  assumes "main f = Elsewhere" and "mutex_free f"
  shows "file_steps f (f\<lparr>queue_of := enqueue q (queue_of f)\<rparr>)"
proof -
  let ?g = "f\<lparr>queue_of := mark_all (queue_of f), main := Pushing (task_of q)\<rparr>"
  have "file_step f ?g" by (rule marks [OF assms(1)])
  moreover have "file_step ?g (?g\<lparr>queue_of := queue_of ?g @ [task_of q], main := Elsewhere\<rparr>)"
    by (rule pushes) (use assms(2) in \<open>simp_all add: mutex_free_def\<close>)
  moreover have "?g\<lparr>queue_of := queue_of ?g @ [task_of q], main := Elsewhere\<rparr> = f\<lparr>queue_of := enqueue q (queue_of f)\<rparr>"
    using assms(1) by (cases f) (simp add: enqueue_def)
  ultimately show ?thesis by (metis converse_rtranclp_into_rtranclp r_into_rtranclp)
qed

lemma enqueues_steps:
  assumes "main f = Elsewhere" and "mutex_free f"
  shows "file_steps f (f\<lparr>queue_of := fold enqueue qs (queue_of f)\<rparr>)"
  using assms
proof (induction qs arbitrary: f)
  case Nil
  then show ?case by (cases f) simp
next
  case (Cons q qs)
  let ?g = "f\<lparr>queue_of := enqueue q (queue_of f)\<rparr>"
  have "file_steps ?g (?g\<lparr>queue_of := fold enqueue qs (queue_of ?g)\<rparr>)"
    by (rule Cons.IH) (use Cons.prems in \<open>simp_all add: mutex_free_def\<close>)
  then show ?case using enqueue_steps [OF Cons.prems, of q] by (simp add: rtranclp_trans)
qed

lemma stopped_kept [simp]:
  "stopped (make_sure_this_is_latest_project_version s c) = stopped c"
  "stopped (send_diagnostics_back c a) = stopped c"
  "stopped (reply_to r x c) = stopped c"
  by (simp_all add: make_sure_this_is_latest_project_version_def send_diagnostics_back_def reply_to_def Let_def)

lemma run_task_stopped: "run_task s invalid t c = Some (Inr c') \<Longrightarrow> stopped c' = stopped c"
  by (cases "question_of t"; cases "superseded t")
    (auto simp: run_task_def update_action_def run_with_vhdl_ast_def obind_Inr_iff Let_def split: if_splits)

lemma drain_steps:
  assumes "drain s (queue_of f) (invalid_files f) (core_of f) = Some (Inr c)" and "thread f = Waiting"
    and "\<not> stopped (core_of f)"
  shows "\<exists>invalid. file_steps f (f\<lparr>queue_of := [], core_of := c, invalid_files := invalid\<rparr>)"
  using assms
proof (induction "queue_of f" arbitrary: f)
  case Nil
  then have "f\<lparr>queue_of := [], core_of := c, invalid_files := invalid_files f\<rparr> = f" by (cases f) auto
  then show ?case by (metis rtranclp.rtrancl_refl)
next
  case (Cons t ts)
  obtain d where d: "run_task s (invalid_files f) t (core_of f) = Some (Inr d)"
      "drain s ts (still_invalid t (invalid_files f)) d = Some (Inr c)"
    using Cons.prems(1) unfolding Cons.hyps(2) [symmetric] drain.simps obind_Inr_iff by blast
  let ?g = "f\<lparr>queue_of := ts, thread := Working (Some (Inr d)), invalid_files := still_invalid t (invalid_files f)\<rparr>"
  let ?h = "?g\<lparr>core_of := d, thread := Waiting\<rparr>"
  have "file_step f ?g"
    using begins [OF Cons.prems(2,3) Cons.hyps(2) [symmetric], of s] d(1) by simp
  moreover have "file_step ?g ?h" by (rule finishes) simp
  moreover have "\<exists>invalid. file_steps ?h (?h\<lparr>queue_of := [], core_of := c, invalid_files := invalid\<rparr>)"
    by (rule Cons.hyps(1)) (use d run_task_stopped [OF d(1)] Cons.prems(3) in simp_all)
  moreover have "?h\<lparr>queue_of := [], core_of := c, invalid_files := i\<rparr> = f\<lparr>queue_of := [], core_of := c, invalid_files := i\<rparr>" for i
    using Cons.prems(2) by (cases f) simp
  ultimately show ?case by (metis converse_rtranclp_into_rtranclp)
qed

section \<open>An update that is lost\<close>

text \<open>The tree is there, not invalidated, and made for the project as it is.\<close>

definition settled :: "surroundings \<Rightarrow> ast \<Rightarrow> core \<Rightarrow> bool" where
  "settled s a c \<longleftrightarrow>
     tree c = Some a \<and> \<not> invalidated a \<and> current_project_version c = loaded_version (project s)
     \<and> library_fully_loaded c = populated (project s)"

definition quiet :: "task \<Rightarrow> bool" where
  "quiet t \<longleftrightarrow> superseded t \<or> question_of t \<noteq> None"

definition answers_of :: "surroundings \<Rightarrow> ast \<Rightarrow> task \<Rightarrow> (nat \<times> answer) list" where
  "answers_of s a t =
     (case question_of t of None \<Rightarrow> []
      | Some (r, q) \<Rightarrow> [(r, answer_from s q (if superseded t then None else Some a))])"

lemma run_quiet:
  assumes "settled s a c" and "quiet t"
  shows "run_task s invalid t c = Some (Inr (c\<lparr>answers := answers c @ answers_of s a t\<rparr>))"
proof -
  have "c\<lparr>tree := Some a, libraries_of := libraries_of c\<rparr> = c" "c\<lparr>answers := answers c\<rparr> = c"
    using assms(1) by (cases c; simp add: settled_def)+
  then show ?thesis
    using assms
    by (auto simp: settled_def quiet_def run_task_def update_action_def run_with_vhdl_ast_def answers_of_def
        make_sure_this_is_latest_project_version_def ast_update_def Let_def reply_to_def split: option.splits)
qed

lemma drain_quiet:
  "settled s a c \<Longrightarrow> list_all quiet ts \<Longrightarrow>
   drain s ts invalid c = Some (Inr (c\<lparr>answers := answers c @ concat (map (answers_of s a) ts)\<rparr>))"
proof (induction ts arbitrary: invalid c)
  case Nil
  then show ?case by (cases c) simp
next
  case (Cons t ts)
  have "settled s a (c\<lparr>answers := answers c @ answers_of s a t\<rparr>)" using Cons.prems(1) by (simp add: settled_def)
  then show ?case using Cons run_quiet [OF Cons.prems(1), of t invalid] by simp
qed

text \<open>A question behind the update, and the update is superseded with all that was in front of it.\<close>

lemma quiet_marked [simp]: "list_all quiet (mark_all ts)" "quiet (task_of (Some q))"
  by (auto simp: list_all_iff quiet_def task_of_def dest: mark_all_superseded)

lemma questions_quiet:
  assumes "qs \<noteq> []"
  shows "list_all quiet (fold enqueue (None # map Some qs) ts)
    \<and> fold enqueue (None # map Some qs) ts = butlast (fold enqueue (None # map Some qs) ts) @ [task_of (Some (last qs))]"
  using assms
proof (induction qs rule: rev_induct)
  case (snoc q qs)
  then show ?case by (simp add: enqueue_def)
qed simp

text \<open>C22. A change of the file can be lost. The tree is up to date, the file is saved, and before its thread
  takes the task that updates the tree a question arrives, or several: then the threads can go on so that
  all tasks are run and the tree is the old one, nothing is sent to the client, and the last question is
  answered from the old tree, whatever the file now holds; nothing is left in the queue that would
  update it. For the question supersedes the update, a superseded update does not invalidate
  the tree, and the question finds it up to date.
\<close>

theorem update_lost:
  assumes "settled s a (core_of f)" and "thread f = Waiting" and "main f = Elsewhere" and "\<not> stopped (core_of f)"
    and "qs \<noteq> []" and "last qs = (r, q)"
  shows "\<exists>f'. file_steps (f\<lparr>queue_of := fold enqueue (None # map Some qs) (queue_of f)\<rparr>) f'
    \<and> file_steps f (f\<lparr>queue_of := fold enqueue (None # map Some qs) (queue_of f)\<rparr>)
    \<and> queue_of f' = [] \<and> thread f' = Waiting \<and> settled s a (core_of f')
    \<and> published (core_of f') = published (core_of f)
    \<and> answers (core_of f') \<noteq> [] \<and> last (answers (core_of f')) = (r, answer_from s q (Some a))"
proof -
  let ?ts = "fold enqueue (None # map Some qs) (queue_of f)"
  let ?g = "f\<lparr>queue_of := ?ts\<rparr>" and ?c = "core_of f"
  note ts = questions_quiet [OF assms(5), of "queue_of f"]
  let ?as = "concat (map (answers_of s a) ?ts)"
  have as: "?as = concat (map (answers_of s a) (butlast ?ts)) @ [(r, answer_from s q (Some a))]"
    by (subst conjunct2 [OF ts]) (simp add: answers_of_def task_of_def assms(6) del: fold.simps)
  have "drain s (queue_of ?g) (invalid_files ?g) (core_of ?g) = Some (Inr (?c\<lparr>answers := answers ?c @ ?as\<rparr>))"
    using drain_quiet [OF assms(1) conjunct1 [OF ts]] by simp
  from drain_steps [OF this] obtain i
    where "file_steps ?g (?g\<lparr>queue_of := [], core_of := ?c\<lparr>answers := answers ?c @ ?as\<rparr>, invalid_files := i\<rparr>)"
    using assms(2,4) by auto
  moreover have "file_steps f ?g" by (rule enqueues_steps) (use assms(2,3) in \<open>simp_all add: mutex_free_def\<close>)
  ultimately show ?thesis
    using assms(1,2) as
    by (intro exI [of _ "?g\<lparr>queue_of := [], core_of := ?c\<lparr>answers := answers ?c @ ?as\<rparr>, invalid_files := i\<rparr>"])
      (simp add: settled_def del: fold.simps)
qed

definition sample_surroundings :: "(string \<Rightarrow> string option) \<Rightarrow> surroundings" where
  "sample_surroundings rd =
     \<lparr>outer = sample_outside rd, project = \<lparr>loaded_version = 1, populated = True, libraries_of_file = [''work'']\<rparr>,
      provider = (\<lambda>_ f. Some (df_source f)), hasher_of_strings = length\<rparr>"

definition sample_file :: "string \<Rightarrow> ast \<Rightarrow> file_state" where
  "sample_file file a =
     file_new ((core_new file sample_libraries)\<lparr>tree := Some a, current_project_version := 1, library_fully_loaded := True\<rparr>)"

definition sample_settled :: ast where
  "sample_settled = sample_ast\<lparr>main_file := Some \<lparr>df_name = ''f.vhd'', df_source = ''old'', df_units = []\<rparr>, invalidated := False\<rparr>"

theorem update_lost_witness:
  "\<exists>f'. file_steps ((sample_file ''f.vhd'' sample_settled)\<lparr>queue_of := enqueue (Some (7, Symbols)) (enqueue None [])\<rparr>) f'
    \<and> queue_of f' = [] \<and> last (answers (core_of f')) = (7, Json ''old'')"
proof -
  let ?s = "sample_surroundings (\<lambda>_. Some ''new'')" and ?f = "sample_file ''f.vhd'' sample_settled"
  have "settled ?s sample_settled (core_of ?f)" "thread ?f = Waiting" "main ?f = Elsewhere" "\<not> stopped (core_of ?f)"
    by (simp_all add: settled_def sample_file_def file_new_def core_new_def sample_surroundings_def sample_settled_def)
  moreover have "queue_of ?f = []" by (simp add: sample_file_def file_new_def)
  moreover have "answer_from ?s Symbols (Some sample_settled) = Json ''old''"
    by (simp add: answer_from_def get_main_file_def sample_settled_def sample_surroundings_def)
  ultimately show ?thesis
    using update_lost [of ?s sample_settled ?f "[(7, Symbols)]" 7 Symbols] by auto
qed

section \<open>A task that does not end\<close>

definition hung :: "file_state \<Rightarrow> file_state \<Rightarrow> bool" where
  "hung f g \<longleftrightarrow> thread g = Working None \<and> core_of g = core_of f \<and> length (queue_of g) = length (queue_of f)
     \<and> (\<forall>t. main f = Pushing t \<longrightarrow> main g = Pushing t)"

lemma hung_step:
  assumes "file_step g h" and "hung f g"
  shows "hung f h"
  using assms by (induction rule: file_step.induct) (auto simp: hung_def mutex_free_def mark_all_def)


lemma hanging_source: "parse_source tk_eof ''.vhd'' hanging_text (stringtable_new length) = None"
  using hanging_parser by (auto simp: parse_source_def)

theorem older_tasks_superseded_witness:
  "let f = (file_new (core_new ''f.vhd'' sample_libraries))\<lparr>queue_of := fold enqueue [None, None] []\<rparr>
   in length (queue_of f) = 2 \<and> (\<forall>u \<in> set (butlast (queue_of f)). superseded u)"
proof -
  let ?f = "file_new (core_new ''f.vhd'' sample_libraries)"
  have "file_steps ?f (?f\<lparr>queue_of := fold enqueue [None, None] (queue_of ?f)\<rparr>)"
    by (rule enqueues_steps) (simp_all add: file_new_def mutex_free_def)
  moreover have "queue_of ?f = []" by (simp add: file_new_def)
  ultimately have "file_steps ?f (?f\<lparr>queue_of := fold enqueue [None, None] []\<rparr>)" by metis
  note older = conjunct1 [OF older_tasks_superseded [OF this]]
  show ?thesis unfolding Let_def by (rule conjI [OF _ older]) (simp add: enqueue_def mark_all_def)
qed


end
