(* ===== verification/Typed_Tokens.thy ===== *)
theory Typed_Tokens
  imports Silent_Lexer
begin

text \<open>
  The types of the tokens of \<^verbatim>\<open>src/vhdl/lexer.cpp\<close>: the flags of a token say what its kind is, and its text
  is that of the kind. The parsers decide by the kind, the providers by the flags; this is why they agree.
\<close>

section \<open>The typing\<close>

definition flags :: "token \<Rightarrow> bool \<times> bool \<times> bool \<times> bool" where
  "flags t = (is_delimiter t, is_identifier t, is_literal t, is_keyword t)"

text \<open>An extended identifier is a literal for its flags, and \<open>^\<close> and \<open>~\<close> deliver keywords as delimiters.\<close>

definition flags_of_kind :: "bool \<Rightarrow> kind_t \<Rightarrow> bool \<times> bool \<times> bool \<times> bool" where
  "flags_of_kind operator k =
     (case k of
        Delim _ \<Rightarrow> (True, False, False, False)
      | tk_identifier \<Rightarrow> (False, True, False, False)
      | tk_invalid \<Rightarrow> (False, False, False, False)
      | tk_eof \<Rightarrow> (False, False, False, False)
      | tk_implicit \<Rightarrow> (False, False, False, False)
      | Kw_ad _ \<Rightarrow> (False, False, False, True)
      | Kw_el _ \<Rightarrow> (False, False, False, True)
      | Kw_mp _ \<Rightarrow> (operator, False, False, \<not> operator)
      | Kw_rx _ \<Rightarrow> (operator, False, False, \<not> operator)
      | _ \<Rightarrow> (False, False, True, False))"

definition well_typed :: "token \<Rightarrow> bool" where
  "well_typed t \<longleftrightarrow>
     kind t \<noteq> tk_implicit
     \<and> (\<exists>operator. (operator \<longrightarrow> kind t \<in> {kw_not, kw_xor}) \<and> flags t = flags_of_kind operator (kind t))
     \<and> (is_delimiter t \<or> is_keyword t \<longrightarrow> val t = get_token_string_view (kind t))
     \<and> (is_keyword t \<longrightarrow> (\<exists>s. find_keyword s = Some (kind t)))
     \<and> (is_identifier t \<longrightarrow> find_keyword (val t) = None)
     \<and> (kind t \<in> {tk_invalid, tk_eof} \<longrightarrow> val t = [])"

definition typed :: "'e + token \<times> 's \<Rightarrow> bool" where
  "typed r \<longleftrightarrow> (\<forall>t s. r = Inr (t, s) \<longrightarrow> well_typed t)"

lemma typed_simps [simp]: "typed (Inl e)" "typed (Inr (t, s)) = well_typed t"
  by (simp_all add: typed_def)

lemma typed_bind: "(\<And>x s. r = Inr (x, s) \<Longrightarrow> typed (f (x, s))) \<Longrightarrow> typed (sbind r f)"
  by (cases r) (auto simp: typed_def)

lemma typed_reject [simp]: "typed (reject msg lx)"
  by (simp add: reject_def Let_def plain_token_def well_typed_def flags_def flags_of_kind_def exI [of _ False])

lemma typed_delimiter [simp]:
  "well_typed (fst (current_token_is_delimiter (Delim d) lx))"
  "well_typed (fst (current_token_is_delimiter kw_xor lx))"
  "well_typed (fst (current_token_is_delimiter kw_not lx))"
  by (auto simp: current_token_is_delimiter_def well_typed_def flags_def flags_of_kind_def)

definition literal_kinds :: "kind_t set" where
  "literal_kinds = {tk_extended_identifier, tk_integer, tk_real, tk_character, tk_stringliteral, tk_bitstring}"

lemma typed_literal:
  "k \<in> literal_kinds \<Longrightarrow> typed (sbind r (\<lambda>(sv, lx). Inr (current_token_is_literal k sv lx)))"
  by (cases r)
    (auto simp: literal_kinds_def current_token_is_literal_def well_typed_def flags_def flags_of_kind_def exI [of _ False])

section \<open>The scanning functions\<close>

lemma typed_string: "typed (lex_string_again q s lx)"
proof (induction "left_of lx" arbitrary: s lx rule: less_induct)
  case less
  have ih: "typed (lex_string_again q s lx')"
    if "\<not> at_end (bump lx)" and "cs lx' \<in> {cs (bump lx), stream_next (cs (bump lx))}" for s lx'
    using less left_of_less [OF that] by simp
  show ?case
    by (subst lex_string_again.simps) (auto simp: Let_def ih typed_literal literal_kinds_def)
qed

lemma typed_extended: "typed (lex_extended_identifier_again s lx)"
proof (induction "left_of lx" arbitrary: s lx rule: less_induct)
  case less
  have ih: "typed (lex_extended_identifier_again s lx')"
    if "\<not> at_end (bump lx)" and "cs lx' \<in> {cs (bump lx), stream_next (cs (bump lx))}" for s lx'
    using less left_of_less [OF that] by simp
  show ?case
    by (subst lex_extended_identifier_again.simps) (auto simp: Let_def ih typed_literal literal_kinds_def)
qed

lemma typed_bitstring: "typed (lex_bitstring_again q s lx)"
proof (induction "left_of lx" arbitrary: s lx rule: less_induct)
  case less
  have ih: "typed (lex_bitstring_again q s lx')"
    if "\<not> at_end (bump lx)" and "cs lx' \<in> {cs (bump lx), stream_next (cs (bump lx))}" for s lx'
    using less left_of_less [OF that] by simp
  show ?case
    by (subst lex_bitstring_again.simps) (auto simp: Let_def ih typed_literal literal_kinds_def)
qed

lemma typed_keyword:
  assumes "find_keyword s = Some k"
  shows "well_typed (fst (current_token_is_keyword k lx))"
proof -
  have "k \<notin> range Delim \<and> k \<notin> literal_kinds \<and> k \<notin> {tk_identifier, tk_invalid, tk_eof, tk_implicit}"
  proof -
    have "list_all (\<lambda>(s, k). case k of Kw_ad _ \<Rightarrow> True | Kw_el _ \<Rightarrow> True | Kw_mp _ \<Rightarrow> True | Kw_rx _ \<Rightarrow> True | _ \<Rightarrow> False)
        identifier_to_keyword"
      by code_simp
    moreover have "(s, k) \<in> set identifier_to_keyword" using assms by (simp add: find_keyword_iff)
    ultimately show ?thesis by (auto simp: list_all_iff literal_kinds_def)
  qed
  then have "flags_of_kind False k = (False, False, False, True)"
    by (cases k) (auto simp: flags_of_kind_def literal_kinds_def)
  moreover have "k \<notin> {tk_invalid, tk_eof, tk_implicit}" using \<open>k \<notin> range Delim \<and> _\<close> by blast
  ultimately show ?thesis
    using assms by (auto simp: current_token_is_keyword_def well_typed_def flags_def intro!: exI [of _ False])
qed

lemma typed_finish_identifier: "typed (finish_identifier s lx)"
  unfolding finish_identifier_def
proof (rule typed_bind)
  fix sv lx'
  show "typed (case (sv, lx') of (sv, lx) \<Rightarrow> case find_keyword sv of
      None \<Rightarrow> Inr (current_token_is_identifier tk_identifier sv lx) | Some k \<Rightarrow> Inr (current_token_is_keyword k lx))"
  proof (cases "find_keyword sv")
    case None
    then show ?thesis
      by (auto simp: current_token_is_identifier_def well_typed_def flags_def flags_of_kind_def intro!: exI [of _ False])
  next
    case (Some k)
    obtain t s where t: "current_token_is_keyword k lx' = (t, s)" by fastforce
    then show ?thesis using typed_keyword [OF Some, of lx'] Some by simp
  qed
qed

lemma typed_identifier:
  assumes "lex_identifier_again start s lx = Some r"
  shows "typed r"
  using assms
proof (rule lex_identifier_again.raw_induct [rotated], goal_cases)
  case (1 lia start s lx r)
  then show ?case
    by (auto simp: Let_def end_of_identifier_def typed_finish_identifier lex_bitstring_def typed_bitstring
        split: if_splits option.splits)
qed

lemma typed_number: "typed (lex_number lx)"
proof -
  have finish: "typed (finish_number b r)" for b r
    unfolding finish_number_def Let_def by (rule typed_literal) (simp add: literal_kinds_def)
  then show ?thesis
    by (simp add: lex_number_def Let_def split: prod.split)
qed

lemma typed_character: "typed (lex_character lx)"
  by (simp add: lex_character_def Let_def typed_literal literal_kinds_def)

section \<open>The switch\<close>

definition typed_turn :: "turn \<Rightarrow> bool" where
  "typed_turn r \<longleftrightarrow> (\<forall>t. fst r = Some t \<longrightarrow> well_typed t)"

lemma typed_turn_pair [simp]: "typed_turn (Some t, lx) = well_typed t" "typed_turn (None, lx)"
  by (simp_all add: typed_turn_def)

lemma typed_turn_simps [simp]:
  "typed_turn (break_turn lx)" "typed_turn (return_delimiter (Delim d) lx)"
  "typed_turn (return_delimiter kw_xor lx)" "typed_turn (return_delimiter kw_not lx)"
  using typed_delimiter by (auto simp: typed_turn_def break_turn_def return_delimiter_def split: prod.split)

lemma typed_switch:
  "pred_option typed_turn (turn_special c lx)" "pred_option typed_turn (turn_relational c lx)"
  "pred_option typed_turn (turn_space c lx)" "typed_turn (turn_other c lx)"
  by (simp_all add: turn_special_def turn_relational_def turn_space_def turn_other_def Let_def
      if_distrib [of "pred_option typed_turn"] if_distrib [of typed_turn])

definition typed_step :: "(lex_error, turn) outcome \<Rightarrow> bool" where
  "typed_step r \<longleftrightarrow> (\<forall>s. r = Some (Inr s) \<longrightarrow> typed_turn s)"

lemma typed_step_turn [simp]: "typed_step (Some (Inr s)) = typed_turn s"
  by (simp add: typed_step_def)

lemma typed_return: "typed r \<Longrightarrow> typed_step (return_token r)"
  by (auto simp: return_token_def typed_step_def typed_turn_def sbind_def split: sum.splits)

lemma typed_after_identifier:
  "typed_step (obind (lex_identifier_or_keyword_or_bitstring lx) (\<lambda>(t, lx). Some (Inr (Some t, lx))))"
proof -
  have "well_typed t" if "lex_identifier_or_keyword_or_bitstring lx = Some (Inr (t, lx'))" for t lx'
    using typed_identifier [OF that [unfolded lex_identifier_or_keyword_or_bitstring_def]] by simp
  then show ?thesis by (auto simp: typed_step_def typed_turn_def obind_Inr_iff)
qed

lemma typed_scanners:
  "typed (lex_number lx)" "typed (lex_string lx)" "typed (lex_character lx)" "typed (lex_extended_identifier lx)"
  by (simp_all add: typed_number typed_string typed_character typed_extended lex_string_def lex_extended_identifier_def Let_def)

lemma typed_last_switch:
  "typed_step (case turn_special c lx of
      Some r \<Rightarrow> Some (Inr r)
    | None \<Rightarrow> (case turn_relational c lx of
        Some r \<Rightarrow> Some (Inr r)
      | None \<Rightarrow> (case turn_space c lx of
          Some r \<Rightarrow> Some (Inr r)
        | None \<Rightarrow> Some (Inr (turn_other c lx)))))"
  using typed_switch [of c lx]
  by (cases "turn_special c lx"; cases "turn_relational c lx"; cases "turn_space c lx") simp_all

lemma typed_step_if: "typed_step (if b then r else r') = (if b then typed_step r else typed_step r')"
  by simp

lemma typed_lex_turn: "typed_step (lex_turn lx)"
  unfolding lex_turn_def Let_def
  by (simp only: typed_step_if typed_last_switch typed_after_identifier typed_return typed_scanners typed_step_turn
      typed_turn_simps if_cancel)

lemma typed_lex:
  assumes "lex lx = Some r"
  shows "typed r"
  using assms
proof (rule lex.raw_induct [rotated], goal_cases)
  case (1 lex' lx r)
  show ?case
  proof (cases "at_end lx")
    case True
    then show ?thesis
      using 1(2) by (auto simp: Let_def plain_token_def well_typed_def flags_def flags_of_kind_def intro!: exI [of _ False])
  next
    case False
    then show ?thesis
      using 1 typed_lex_turn [of lx]
      by (auto simp: obind_def typed_turn_def typed_step_def split: sum.splits option.splits)
  qed
qed



end
