(* ===== verification/Spec2Isabelle.thy ===== *)
theory Spec2Isabelle
  imports Prelude Position Stringtable Token Char_Stream Lexer Lexer_Facts Scan_Text Token_Queue
    Fast_Parser Silent_Lexer Parser_Core Parser_Facts Parser_Steps Parser_Control Syntax Parser_Expressions
    Expression_Facts Parser_Statements Statement_Facts Parser_Types Parser_Declarations Declaration_Facts
    Parser_Concurrent Parser_Units Concurrent_Facts Unit_Facts Expression_Grammar
    Generate_Hang Connection Journal Frontend Library Filelist Progress Project Ast Working_Files
    Typed_Tokens
begin

text \<open>
  A verification library for \<^verbatim>\<open>vhdlstuff\<close>, a language server for VHDL. Paths are relative to the \<^verbatim>\<open>src\<close>
  directory of the repository.

  \<^bold>\<open>The program.\<close> The server reads JSON-RPC messages from a connection (\<^verbatim>\<open>lsp/connection.cpp\<close>), which can also be
  a recorded journal. The frontend (\<^verbatim>\<open>lsp/frontend.cpp\<close>) takes them apart, keeps the requests in flight and calls the
  handlers. The project (\<^verbatim>\<open>things/project.cpp\<close>) reads a configuration and starts a background indexer, which looks for
  the library units of all files with the fast parser (\<^verbatim>\<open>vhdl/fast_parser.cpp\<close>), puts them into the libraries
  (\<^verbatim>\<open>vhdl/library_manager.cpp\<close>, a front end to SQLite) and lists the files. Each open file has a working file
  (\<^verbatim>\<open>things/working_files.cpp\<close>) with a queue of tasks and a thread of its own; a task brings the tree of the file
  up to date (\<^verbatim>\<open>vhdl/ast.cpp\<close>) and answers a question from it. The tree is made by the parser (\<^verbatim>\<open>vhdl/parser.cpp\<close>) on
  the lexer (\<^verbatim>\<open>vhdl/lexer.cpp\<close>), which reads characters (\<^verbatim>\<open>vhdl/character_stream.cpp\<close>) and keeps the texts of
  tokens in a string table (\<^verbatim>\<open>common/stringtable.cpp\<close>).

  \<^bold>\<open>The theories.\<close> A C++ object is a record, its methods are functions that return the changed record.

  \<^item> \<open>Prelude\<close>: outcomes. A function that may run for ever returns an option, where \<open>None\<close> is that it does not return;
    a failed assertion, an exception or undefined behaviour is \<open>Inl\<close>. \<open>obind\<close> and \<open>sbind\<close> run one function behind another.
  \<^item> \<open>Position\<close> (\<^verbatim>\<open>common/position.cpp, location.cpp, diagnostic.cpp\<close>), \<open>Stringtable\<close>, \<open>Token\<close>, \<open>Char_Stream\<close>: the data.
    Lines and columns are 32 bit words; a page of the string table is a list of bytes, an address a page and an offset.
  \<^item> \<open>Lexer\<close>: the scanner \<open>_lex\<close>, a turn of its switch after the other. \<open>Lexer_Facts\<close> and \<open>Scan_Text\<close> show that it comes to an end,
    uses up text, which assertions fail, and that it is the inverse of a printer of tokens; \<open>Typed_Tokens\<close> that the flags
    and texts of tokens are those of their kinds; \<open>Silent_Lexer\<close> that diagnostics change nothing.
  \<^item> \<open>Token_Queue\<close>: \<open>scan\<close>, \<open>peek\<close>, \<open>look_for\<close> and checkpoints, against the list of the tokens ahead.
  \<^item> \<open>Fast_Parser\<close>: the indexer's parser, which implements \<open>units_of\<close>, a function on lists of tokens (\<open>stands_for\<close> relates a queue to one).
  \<^item> \<open>Parser_Core\<close>, \<open>Parser_Control\<close>, \<open>Syntax\<close>, \<open>Parser_Expressions\<close>, \<open>Parser_Statements\<close>, \<open>Parser_Types\<close>, \<open>Parser_Declarations\<close>,
    \<open>Parser_Concurrent\<close>, \<open>Parser_Units\<close>: the class \<open>parser\<close>, one definition for each function, over the syntax tree of
    \<^verbatim>\<open>vhdl/vhdl.syntax\<close>. \<open>Parser_Facts\<close>, \<open>Expression_Facts\<close>, \<open>Statement_Facts\<close>, \<open>Declaration_Facts\<close>, \<open>Concurrent_Facts\<close> and
    \<open>Unit_Facts\<close> are a calculus (\<open>runs\<close>) in which each function is shown to return and to keep the parser's invariant;
    \<open>Parser_Steps\<close> is one (\<open>acts\<close>) for what they do on given tokens, \<open>Expression_Grammar\<close> the grammar of expressions and
    \<open>Generate_Hang\<close> the statements on which the parser does not return.
  \<^item> \<open>Connection\<close>, \<open>Journal\<close>, \<open>Frontend\<close>: the transport, recording and replay, and JSON-RPC with its requests in flight.
  \<^item> \<open>Library\<close>, \<open>Filelist\<close>, \<open>Progress\<close>, \<open>Project\<close>: the libraries, the list of files as rings of pointers, progress reports, the indexer and the
    project. \<open>Filelist\<close> is refined from lists, and \<open>Project\<close> uses that and the termination of the fast parser.
  \<^item> \<open>Ast\<close>, \<open>Working_Files\<close>: the tree with its cache of library units, and the tasks of a file. The two threads that share a queue
    are the step relation \<open>file_step\<close>.

  \<^bold>\<open>Loops and bounds.\<close> Loops are recursive functions with a measure, or \<open>partial_function\<close>s where the code may not return; then
  returning is a theorem of its own. The parser's watchdog, which gives up after 100 steps without progress, is in
  the state; no other fuel is used. The lexer returns if the byte behind its text is harmless (\<open>end_ok\<close>; the NUL
  of a \<open>std::string\<close> is) and its tokens come to an end if no character literal is stuck (\<open>no_stuck_text\<close>). The parser
  returns unless it meets a generate statement without label (\<open>crossed\<close>). Percentages are computed modulo \<open>2\<^sup>3\<^sup>2\<close>,
  exact up to 42949672 requests.

  \<^bold>\<open>Parameters.\<close> \<open>std::hash\<close> (an argument of the string table and the libraries), RapidJSON (a record of its functions), SQLite (whether
  a database opens, which row of several is returned, what a broken statement does; that \<open>LIMIT 1\<close> returns a row of
  the matching ones is the hypothesis \<open>picks\<close>), the file system and regular expressions (\<open>disk\<close>, \<open>outside\<close>), the YAML reader,
  the texts of the formatting library, the handlers of the server, the semantic analysis and the providers. Memory that
  the code leaves uninitialised is an argument too.

  \<^bold>\<open>Not modelled.\<close> The semantic analysis (\<^verbatim>\<open>vhdl/binder.cpp\<close>), the providers (\<^verbatim>\<open>things/*_provider.cpp\<close>) and the passes over the tree
  work on classes that the build generates. \<^verbatim>\<open>common/json.h\<close>, \<^verbatim>\<open>common/serialize.cpp\<close> and the handlers of \<^verbatim>\<open>things/language.cpp\<close>
  turn JSON into parameters and back. SystemVerilog (\<^verbatim>\<open>sv\<close>, the second half of \<^verbatim>\<open>things/working_files.cpp\<close>) rests on slang. \<^verbatim>\<open>sqlite3\<close>, \<^verbatim>\<open>fmt\<close>,
  \<^verbatim>\<open>bigint\<close> and \<^verbatim>\<open>loguru\<close> are copies of other projects. Logging and destructors are left out, and threads except
  for those of a working file, the indexer's flag and the interleavings that \<open>Frontend\<close> counts.
\<close>

end
